(* ===== verification/L2_Prelude.thy ===== *)
theory L2_Prelude
  imports Main "HOL-Library.Word" "HOL-Library.Multiset"
begin

text \<open>
  Shared vocabulary of the development: the machine types of the C sources, the ways a C
  function can fail, the two C operators whose meaning differs from HOL's (truncating
  remainder, copying into a buffer), and the generic facts on lists the layer-2 components
  share.

  \<^item> A \<open>char *\<close> buffer and its size are one \<open>byte list\<close>; \<open>uint32_t\<close> and \<open>uint64_t\<close> are
    words, so their arithmetic wraps; a C \<open>int\<close> is an \<open>int\<close>, and where the code relies on a
    value staying inside the range of the C type the bound is stated as part of an invariant.
  \<^item> A function that can fail returns a \<open>result\<close>: the left side names what goes wrong
    (\<open>exit(1)\<close> or a failed assertion, a read through NULL, an access outside an object, an access
    to freed memory, a loop that never ends).
  \<^item> The locale \<open>ordered_insertion\<close> is the contract shared by the three routines of the sources
    that walk a linked list and insert a node in front of the first greater one.
\<close>

unbundle bit_operations_syntax

type_synonym byte = "8 word"
type_synonym u32 = "32 word"
type_synonym u64 = "64 word"

datatype c_error =
    Fatal_exit
  | Null_deref
  | Out_of_bounds
  | Use_after_free
  | Diverges

type_synonym 'a result = "c_error + 'a"

named_theorems result_simps \<open>facts that take a chain of fallible calls apart\<close>
named_theorems seg_simps \<open>sizes and sums over lists of PDUs and segments\<close>


subsection \<open>Fallible calls\<close>

fun bind_r :: "'a result \<Rightarrow> ('a \<Rightarrow> 'b result) \<Rightarrow> 'b result" where
  "bind_r (Inl e) f = Inl e"
| "bind_r (Inr x) f = f x"

lemma bind_r_eq_Inr [result_simps]:
  "bind_r m f = Inr y \<longleftrightarrow> (\<exists>x. m = Inr x \<and> f x = Inr y)"
  by (cases m) auto

lemma bind_r_eq_Inl [result_simps]:
  "bind_r m f = Inl e \<longleftrightarrow> m = Inl e \<or> (\<exists>x. m = Inr x \<and> f x = Inl e)"
  by (cases m) auto

lemma bind_r_Inr_right [simp]: "bind_r m Inr = m"
  by (cases m) auto

lemma bind_r_assoc: "bind_r (bind_r m f) g = bind_r m (\<lambda>x. bind_r (f x) g)"
  by (cases m) auto

lemma bind_r_cong [fundef_cong]:
  "m = m' \<Longrightarrow> (\<And>x. m' = Inr x \<Longrightarrow> f x = f' x) \<Longrightarrow> bind_r m f = bind_r m' f'"
  by (cases m') auto

lemma bind_r_mono_inv:
  assumes "bind_r m f = Inr y"
    and "\<And>x. m = Inr x \<Longrightarrow> P x"
    and "\<And>x. P x \<Longrightarrow> f x = Inr y \<Longrightarrow> Q y"
  shows "Q y"
  using assms by (auto simp: result_simps)


subsection \<open>C operators\<close>

text \<open>The remainder of C truncates towards zero, so it has the sign of the dividend.\<close>

definition c_rem :: "int \<Rightarrow> int \<Rightarrow> int" where
  "c_rem a b = sgn a * (\<bar>a\<bar> mod \<bar>b\<bar>)"

lemma c_rem_nonneg [simp]: "0 \<le> a \<Longrightarrow> 0 < b \<Longrightarrow> c_rem a b = a mod b"
  by (cases "a = 0") (simp_all add: c_rem_def)

text \<open>\<open>memcpy(dst + off, src, n)\<close> with \<open>n\<close> the length of \<open>src\<close>; it fails when the
  destination is too small.\<close>

definition memcpy_at :: "byte list \<Rightarrow> nat \<Rightarrow> byte list \<Rightarrow> byte list result" where
  "memcpy_at dst off src =
     (if off + length src \<le> length dst
      then Inr (take off dst @ src @ drop (off + length src) dst)
      else Inl Out_of_bounds)"

lemma memcpy_at_length: "memcpy_at dst off src = Inr dst' \<Longrightarrow> length dst' = length dst"
  by (auto simp: memcpy_at_def split: if_splits)

lemma memcpy_at_ok [simp]:
  "off + length src \<le> length dst \<Longrightarrow>
     memcpy_at dst off src = Inr (take off dst @ src @ drop (off + length src) dst)"
  by (simp add: memcpy_at_def)

text \<open>Reading \<open>n\<close> bytes at \<open>p + off\<close> from an object that holds \<open>src\<close>; a negative offset or
  a length past the end is outside the object.\<close>

definition read_at :: "byte list \<Rightarrow> int \<Rightarrow> int \<Rightarrow> byte list result" where
  "read_at src off n =
     (if 0 \<le> off \<and> 0 \<le> n \<and> off + n \<le> int (length src)
      then Inr (take (nat n) (drop (nat off) src))
      else Inl Out_of_bounds)"

lemma read_at_length: "read_at src off n = Inr bs \<Longrightarrow> int (length bs) = n"
  by (auto simp: read_at_def split: if_splits)

definition int_of_bool :: "bool \<Rightarrow> int" where
  "int_of_bool b = (if b then 1 else 0)"

lemma int_of_bool_simps [simp]: "int_of_bool True = 1" "int_of_bool False = 0"
  by (simp_all add: int_of_bool_def)


subsection \<open>Searching the sequence numbers\<close>

text \<open>
  \<open>while (P(sn)) sn = (sn + 1) % m;\<close> run for at most \<open>n\<close> rounds. With \<open>n\<close> larger than the
  modulus, \<open>None\<close> means that every sequence number satisfies \<open>P\<close>, in which case the C
  loop never ends.
\<close>

fun skip_while_sn :: "nat \<Rightarrow> (int \<Rightarrow> bool) \<Rightarrow> int \<Rightarrow> int \<Rightarrow> int option" where
  "skip_while_sn n P m sn =
     (if n = 0 then None
      else if P sn then skip_while_sn (n - 1) P m ((sn + 1) mod m)
      else Some sn)"

declare skip_while_sn.simps [simp del]

lemma skip_while_sn_stops: "skip_while_sn n P m sn = Some r \<Longrightarrow> \<not> P r"
proof (induction n P m sn rule: skip_while_sn.induct)
  case (1 n P m sn)
  then show ?case by (auto simp: skip_while_sn.simps [of n] split: if_splits)
qed

lemma skip_while_sn_range:
  "skip_while_sn n P m sn = Some r \<Longrightarrow> 0 \<le> sn \<Longrightarrow> sn < m \<Longrightarrow> 0 \<le> r \<and> r < m"
proof (induction n P m sn rule: skip_while_sn.induct)
  case (1 n P m sn)
  then show ?case
    by (auto simp: skip_while_sn.simps [of n] split: if_splits)
qed

lemma mod_succ_shift: "((sn + 1) mod m + int j) mod m = (sn + int (Suc j)) mod (m::int)"
  by (simp only: mod_add_left_eq) (simp add: algebra_simps)

text \<open>What the loop skips is a run of consecutive sequence numbers, all of which satisfy \<open>P\<close>.\<close>

lemma skip_while_sn_run:
  assumes "skip_while_sn n P m sn = Some r" and "0 \<le> sn" and "sn < m"
  shows "\<exists>k < n. r = (sn + int k) mod m \<and> (\<forall>j < k. P ((sn + int j) mod m))"
  using assms
proof (induction n P m sn rule: skip_while_sn.induct)
  case (1 n P m sn)
  show ?case
  proof (cases "P sn")
    case False
    with "1.prems" show ?thesis
      by (intro exI [of _ 0]) (auto simp: skip_while_sn.simps [of n] split: if_splits)
  next
    case True
    with "1.prems" have n: "n \<noteq> 0"
      and rec: "skip_while_sn (n - 1) P m ((sn + 1) mod m) = Some r"
      by (auto simp: skip_while_sn.simps [of n] split: if_splits)
    have "0 \<le> (sn + 1) mod m \<and> (sn + 1) mod m < m"
      using "1.prems" by simp
    with "1.IH" [OF n True rec] obtain k where k: "k < n - 1"
      and r: "r = ((sn + 1) mod m + int k) mod m"
      and all: "\<forall>j < k. P (((sn + 1) mod m + int j) mod m)"
      by auto
    note shift = mod_succ_shift [of sn m]
    have "P ((sn + int j) mod m)" if "j < Suc k" for j
    proof (cases j)
      case 0
      with True "1.prems" show ?thesis by simp
    next
      case (Suc i)
      with that all have "P (((sn + 1) mod m + int i) mod m)" by simp
      with shift Suc show ?thesis by simp
    qed
    with k r shift show ?thesis by (intro exI [of _ "Suc k"]) auto
  qed
qed

lemma skip_while_sn_None_run:
  "skip_while_sn n P m sn = None \<Longrightarrow> 0 \<le> sn \<Longrightarrow> sn < m \<Longrightarrow> j < n \<Longrightarrow> P ((sn + int j) mod m)"
proof (induction n P m sn arbitrary: j rule: skip_while_sn.induct)
  case (1 n P m sn)
  from "1.prems" have P: "P sn" and n: "n \<noteq> 0"
    and rec: "skip_while_sn (n - 1) P m ((sn + 1) mod m) = None"
    by (auto simp: skip_while_sn.simps [of n] split: if_splits)
  show ?case
  proof (cases j)
    case 0
    with P "1.prems" show ?thesis by simp
  next
    case (Suc i)
    with "1.IH" [OF n P rec, of i] "1.prems" have "P (((sn + 1) mod m + int i) mod m)"
      by simp
    then show ?thesis using Suc by (simp only: mod_succ_shift)
  qed
qed

text \<open>The loop ends as soon as the numbers it skips are fewer than the modulus.\<close>

lemma skip_while_sn_terminates:
  assumes "0 \<le> sn" and "sn < m" and "finite S" and "card S < nat m" and "nat m \<le> n"
    and S: "\<And>x. P x \<Longrightarrow> x \<in> S"
  shows "\<exists>r. skip_while_sn n P m sn = Some r"
proof (rule ccontr)
  assume "\<nexists>r. skip_while_sn n P m sn = Some r"
  then have none: "skip_while_sn n P m sn = None" by simp
  let ?f = "\<lambda>j::nat. (sn + int j) mod m"
  have "inj_on ?f {..<nat m}"
  proof (rule inj_onI)
    fix i j
    assume ij: "i \<in> {..<nat m}" "j \<in> {..<nat m}" and eq: "?f i = ?f j"
    then have "int i mod m = int j mod m"
      by (metis add_diff_cancel_left' mod_diff_left_eq)
    then show "i = j" using ij assms(1,2) by simp
  qed
  then have "card (?f ` {..<nat m}) = nat m" by (simp add: card_image)
  moreover have "?f ` {..<nat m} \<subseteq> S"
    using skip_while_sn_None_run [OF none assms(1,2)] assms(5) S by force
  ultimately show False using assms(3,4) by (metis card_mono not_le)
qed


subsection \<open>Ordered insertion\<close>

text \<open>
  \<open>nr_rlc_pdu_list_add\<close>, \<open>nr_rlc_tx_sdu_segment_list_add\<close> and \<open>nr_pdcp_sdu_list_add\<close> run the
  same loop over different nodes and orders. \<open>before x y\<close> is the test that makes the loop stop
  in front of \<open>y\<close> when it inserts \<open>x\<close>.
\<close>

locale ordered_insertion =
  fixes before :: "'a \<Rightarrow> 'a \<Rightarrow> bool"
    and ins :: "'a list \<Rightarrow> 'a \<Rightarrow> 'a list"
  assumes ins_Nil: "ins [] x = [x]"
    and ins_Cons: "ins (y # ys) x = (if before x y then x # y # ys else y # ins ys x)"
    and before_trans: "before x y \<Longrightarrow> before y z \<Longrightarrow> before x z"
    and before_asym: "before x y \<Longrightarrow> \<not> before y x"
begin

lemma mset_ins: "mset (ins xs x) = add_mset x (mset xs)"
  by (induction xs) (auto simp: ins_Nil ins_Cons)

lemma set_ins: "set (ins xs x) = insert x (set xs)"
  by (induction xs) (auto simp: ins_Nil ins_Cons)

lemma length_ins: "length (ins xs x) = Suc (length xs)"
  by (induction xs) (auto simp: ins_Nil ins_Cons)

lemma ins_not_Nil: "ins xs x \<noteq> []"
  using length_ins [of xs x] by auto

lemma sorted_ins:
  assumes "sorted_wrt (\<lambda>a b. \<not> before b a) xs"
  shows "sorted_wrt (\<lambda>a b. \<not> before b a) (ins xs x)"
  using assms
proof (induction xs)
  case Nil
  then show ?case by (simp add: ins_Nil)
next
  case (Cons y ys)
  show ?case
  proof (cases "before x y")
    case True
    then have "\<not> before y x" by (rule before_asym)
    moreover have "\<not> before z x" if "z \<in> set ys" for z
      using that Cons.prems True before_trans [of z x y] by auto
    ultimately show ?thesis using True Cons.prems by (simp add: ins_Cons)
  next
    case False
    with Cons show ?thesis by (auto simp: ins_Cons set_ins)
  qed
qed

lemma sum_ins: "(\<Sum>y\<leftarrow>ins xs x. f y) = f x + (\<Sum>y\<leftarrow>xs. f y :: int)"
  by (induction xs) (auto simp: ins_Nil ins_Cons)

end


subsection \<open>Sums and lists\<close>

lemma sum_list_map_partition:
  "(\<Sum>x\<leftarrow>xs. f x :: int) = (\<Sum>x\<leftarrow>takeWhile P xs. f x) + (\<Sum>x\<leftarrow>dropWhile P xs. f x)"
  by (induction xs) auto

lemma sum_list_map_nonneg: "(\<And>x. x \<in> set xs \<Longrightarrow> 0 \<le> f x) \<Longrightarrow> 0 \<le> (\<Sum>x\<leftarrow>xs. f x :: int)"
  by (induction xs) auto

lemma drop_take_append: "drop i xs = take n (drop i xs) @ drop (i + n) xs"
  by (metis append_take_drop_id drop_drop add.commute)


subsection \<open>Positions in a table of rows\<close>

lemma row_index:
  assumes "i < m" "j < (n :: nat)"
  shows "i * n + j < m * n"
proof -
  have "i * n + j < Suc i * n"
    using assms(2) by simp
  also have "\<dots> \<le> m * n"
    using assms(1) by (intro mult_le_mono1) simp
  finally show ?thesis .
qed

lemma row_index_eq: "j < n \<Longrightarrow> j' < (n :: nat) \<Longrightarrow> i * n + j = i' * n + j' \<Longrightarrow> i = i' \<and> j = j'"
proof -
  assume a: "j < n" "j' < n" "i * n + j = i' * n + j'"
  have "(i * n + j) mod n = j" "(i' * n + j') mod n = j'" "(i * n + j) div n = i" "(i' * n + j') div n = i'"
    using a(1,2) by simp_all
  then show "i = i' \<and> j = j'"
    using a(3) by metis
qed

end
