(* ===== verification/Time_Stat.thy ===== *)
theory Time_Stat
  imports L2_Prelude
begin

text \<open>
  \<open>common/utils/time_stat.c\<close>: the sliding-window average the RLC entities keep of the time an
  SDU waits before it is first sent. The samples are in a ring buffer that doubles when it is
  full. The abstract view is the list of samples from the oldest to the newest; the locale
  \<open>timed_queue\<close> states what a client may rely on and the interpretation \<open>ts\<close> discharges it
  for the ring buffer.

  The memory \<open>realloc\<close> appends is indeterminate in C; the model fills it with zeros, and
  \<open>entries_add\<close> shows that no operation depends on it. \<open>initial_size\<close> is positive (the
  callers pass 1024).
\<close>

record time_value_t =
  tv_time :: u64
  tv_value :: u64

record time_ring_t =
  ring_head :: nat
  ring_tail :: nat
  ring_buffer :: "time_value_t list"
  ring_maxsize :: nat
  ring_size :: nat

record time_average_t =
  ta_duration :: int
  ta_r :: time_ring_t
  ta_accumulated_value :: u64

definition time_value_zero :: time_value_t where
  "time_value_zero = \<lparr>tv_time = 0, tv_value = 0\<rparr>"

definition time_average_new :: "int \<Rightarrow> nat \<Rightarrow> time_average_t result" where
  "time_average_new duration initial_size =
     (if and (int initial_size) (int initial_size - 1) \<noteq> 0 then Inl Fatal_exit
      else Inr \<lparr>ta_duration = duration,
                ta_r = \<lparr>ring_head = initial_size - 1, ring_tail = 0,
                        ring_buffer = replicate initial_size time_value_zero,
                        ring_maxsize = initial_size, ring_size = 0\<rparr>,
                ta_accumulated_value = 0\<rparr>)"

definition time_average_reset :: "time_average_t \<Rightarrow> time_average_t" where
  "time_average_reset t =
     t\<lparr>ta_r := (ta_r t)\<lparr>ring_head := ring_maxsize (ta_r t) - 1, ring_tail := 0, ring_size := 0\<rparr>,
       ta_accumulated_value := 0\<rparr>"

definition time_ring_drop :: "time_ring_t \<Rightarrow> time_ring_t" where
  "time_ring_drop r =
     r\<lparr>ring_size := ring_size r - 1, ring_tail := (ring_tail r + 1) mod ring_maxsize r\<rparr>"

definition remove_old_step :: "time_average_t \<Rightarrow> time_average_t" where
  "remove_old_step t =
     t\<lparr>ta_accumulated_value := ta_accumulated_value t
                                 - tv_value (ring_buffer (ta_r t) ! ring_tail (ta_r t)),
       ta_r := time_ring_drop (ta_r t)\<rparr>"

function remove_old :: "time_average_t \<Rightarrow> u64 \<Rightarrow> time_average_t" where
  "remove_old t time =
     (if ring_size (ta_r t) \<noteq> 0 \<and>
         tv_time (ring_buffer (ta_r t) ! ring_tail (ta_r t)) < time - word_of_int (ta_duration t)
      then remove_old (remove_old_step t) time
      else t)"
  by pat_completeness auto
termination
  by (relation "measure (\<lambda>(t, time). ring_size (ta_r t))")
    (auto simp: remove_old_step_def time_ring_drop_def)

declare remove_old.simps [simp del]

definition time_ring_grow :: "time_ring_t \<Rightarrow> time_ring_t" where
  "time_ring_grow r =
     (if ring_size r = ring_maxsize r then
        (let buffer = ring_buffer r @ replicate (ring_maxsize r) time_value_zero;
             r' = r\<lparr>ring_maxsize := ring_maxsize r * 2, ring_buffer := buffer\<rparr> in
         if ring_head r < ring_tail r then
           r'\<lparr>ring_buffer := take (ring_size r) buffer @ take (ring_head r + 1) buffer
                              @ drop (ring_size r + (ring_head r + 1)) buffer,
              ring_head := ring_head r + ring_size r\<rparr>
         else r')
      else r)"

definition time_ring_push :: "time_ring_t \<Rightarrow> time_value_t \<Rightarrow> time_ring_t" where
  "time_ring_push r v =
     (let head = (ring_head r + 1) mod ring_maxsize r in
      r\<lparr>ring_head := head, ring_buffer := (ring_buffer r)[head := v], ring_size := ring_size r + 1\<rparr>)"

definition time_average_add :: "time_average_t \<Rightarrow> u64 \<Rightarrow> u64 \<Rightarrow> time_average_t" where
  "time_average_add t time value =
     (let t = remove_old t time in
      t\<lparr>ta_r := time_ring_push (time_ring_grow (ta_r t)) \<lparr>tv_time = time, tv_value = value\<rparr>,
        ta_accumulated_value := ta_accumulated_value t + value\<rparr>)"

text \<open>The average is returned as an exact fraction (numerator, denominator) instead of the
  \<open>double\<close> of the source.\<close>

definition time_average_get_average :: "time_average_t \<Rightarrow> u64 \<Rightarrow> time_average_t \<times> (u64 \<times> nat)" where
  "time_average_get_average t time =
     (let t = remove_old t time in
      (t, if ring_size (ta_r t) = 0 then (0, 1) else (ta_accumulated_value t, ring_size (ta_r t))))"


subsection \<open>The ring buffer as a queue\<close>

definition ring_entries :: "time_ring_t \<Rightarrow> time_value_t list" where
  "ring_entries r =
     map (\<lambda>i. ring_buffer r ! ((ring_tail r + i) mod ring_maxsize r)) [0..<ring_size r]"

definition ring_ok :: "time_ring_t \<Rightarrow> bool" where
  "ring_ok r \<longleftrightarrow> 0 < ring_maxsize r \<and> length (ring_buffer r) = ring_maxsize r \<and>
     ring_size r \<le> ring_maxsize r \<and> ring_tail r < ring_maxsize r \<and> ring_head r < ring_maxsize r \<and>
     (ring_head r + 1) mod ring_maxsize r = (ring_tail r + ring_size r) mod ring_maxsize r"

definition time_average_ok :: "time_average_t \<Rightarrow> bool" where
  "time_average_ok t \<longleftrightarrow> ring_ok (ta_r t) \<and>
     ta_accumulated_value t = (\<Sum>e\<leftarrow>ring_entries (ta_r t). tv_value e)"

lemma length_ring_entries [simp]: "length (ring_entries r) = ring_size r"
  by (simp add: ring_entries_def)

lemma ring_entries_Cons:
  assumes "ring_ok r" and "ring_size r \<noteq> 0"
  shows "ring_entries r = ring_buffer r ! ring_tail r # ring_entries (time_ring_drop r)"
proof -
  from assms(2) have "[0..<ring_size r] = 0 # map Suc [0..<ring_size r - 1]"
    by (simp add: map_Suc_upt upt_conv_Cons)
  with assms(1) show ?thesis
    by (simp add: ring_entries_def ring_ok_def time_ring_drop_def comp_def mod_add_left_eq)
qed

lemma ring_ok_drop:
  assumes "ring_ok r" and "ring_size r \<noteq> 0"
  shows "ring_ok (time_ring_drop r)"
proof -
  have "(Suc (ring_tail r) mod ring_maxsize r + (ring_size r - 1)) mod ring_maxsize r =
      (ring_tail r + ring_size r) mod ring_maxsize r"
    using assms(2) by (simp only: mod_add_left_eq) simp
  with assms show ?thesis by (auto simp: ring_ok_def time_ring_drop_def)
qed

lemma remove_old_step_ok:
  assumes "time_average_ok t" and "ring_size (ta_r t) \<noteq> 0"
  shows "time_average_ok (remove_old_step t)"
    and "ring_entries (ta_r (remove_old_step t)) = tl (ring_entries (ta_r t))"
    and "ta_duration (remove_old_step t) = ta_duration t"
  using assms
  by (simp_all add: time_average_ok_def remove_old_step_def ring_ok_drop ring_entries_Cons)

lemma remove_old_ok:
  assumes "time_average_ok t"
  shows "time_average_ok (remove_old t time) \<and>
    ta_duration (remove_old t time) = ta_duration t \<and>
    ring_entries (ta_r (remove_old t time)) =
      dropWhile (\<lambda>e. tv_time e < time - word_of_int (ta_duration t)) (ring_entries (ta_r t))"
  using assms
proof (induction t time rule: remove_old.induct)
  case (1 t time)
  let ?r = "ta_r t"
  show ?case
  proof (cases "ring_size ?r = 0")
    case True
    then have "ring_entries ?r = []" by (simp add: ring_entries_def)
    with True "1.prems" show ?thesis by (simp add: remove_old.simps [of t])
  next
    case False
    with "1.prems" have Cons: "ring_entries ?r = ring_buffer ?r ! ring_tail ?r # tl (ring_entries ?r)"
      using ring_entries_Cons [of ?r] by (metis list.sel(3) time_average_ok_def)
    note step = remove_old_step_ok [OF "1.prems" False]
    show ?thesis
    proof (cases "tv_time (ring_buffer ?r ! ring_tail ?r) < time - word_of_int (ta_duration t)")
      case old: True
      with False "1.IH" step have IH: "time_average_ok (remove_old (remove_old_step t) time) \<and>
        ta_duration (remove_old (remove_old_step t) time) = ta_duration t \<and>
        ring_entries (ta_r (remove_old (remove_old_step t) time)) =
          dropWhile (\<lambda>e. tv_time e < time - word_of_int (ta_duration t)) (tl (ring_entries ?r))"
        by simp
      from old False have "remove_old t time = remove_old (remove_old_step t) time"
        by (simp add: remove_old.simps [of t])
      with IH old Cons show ?thesis by (metis (mono_tags, lifting) dropWhile.simps(2))
    next
      case young: False
      then have "remove_old t time = t" by (simp add: remove_old.simps [of t])
      with young Cons "1.prems" show ?thesis by (metis (mono_tags, lifting) dropWhile.simps(2))
    qed
  qed
qed

lemma ring_grow_ok:
  assumes "ring_ok r"
  shows "ring_ok (time_ring_grow r)"
    and "ring_entries (time_ring_grow r) = ring_entries r"
    and "ring_size (time_ring_grow r) < ring_maxsize (time_ring_grow r)"
proof -
  let ?n = "ring_maxsize r" and ?h = "ring_head r" and ?t = "ring_tail r"
  have n: "0 < ?n" "length (ring_buffer r) = ?n" "?t < ?n" "?h < ?n"
    using assms by (auto simp: ring_ok_def)
  show "ring_size (time_ring_grow r) < ring_maxsize (time_ring_grow r)"
    using assms by (auto simp: time_ring_grow_def Let_def ring_ok_def)
  have "ring_ok (time_ring_grow r) \<and> ring_entries (time_ring_grow r) = ring_entries r"
  proof (cases "ring_size r = ?n")
    case False
    then show ?thesis using assms by (simp add: time_ring_grow_def)
  next
    case full: True
    with assms have ht: "(?h + 1) mod ?n = ?t" using n by (simp add: ring_ok_def)
    show ?thesis
    proof (cases "?h < ?t")
      case True
      with ht n have t: "?t = Suc ?h" by (metis Suc_eq_plus1 Suc_lessI mod_less mod_self not_less0)
      let ?g = "time_ring_grow r"
      have g: "ring_maxsize ?g = 2 * ?n" "ring_head ?g = ?h + ?n" "ring_tail ?g = ?t"
        "ring_size ?g = ?n" "length (ring_buffer ?g) = 2 * ?n"
        using full True n by (auto simp: time_ring_grow_def Let_def)
      have "ring_buffer ?g ! ((?t + i) mod (2 * ?n)) = ring_buffer r ! ((?t + i) mod ?n)"
        if i: "i < ?n" for i
      proof (cases "?t + i < ?n")
        case True
        with full \<open>?h < ?t\<close> n show ?thesis
          by (auto simp: time_ring_grow_def Let_def nth_append)
      next
        case False
        with i n have "(?t + i) mod (2 * ?n) = ?t + i" and m: "(?t + i) mod ?n = ?t + i - ?n"
          by (auto simp: mod_if)
        moreover from False i t n have "?t + i - ?n < ?h + 1" by linarith
        ultimately show ?thesis using full \<open>?h < ?t\<close> n False
          by (auto simp: time_ring_grow_def Let_def nth_append)
      qed
      with g full have "ring_entries ?g = ring_entries r" by (simp add: ring_entries_def)
      moreover have "ring_ok ?g" using g n t by (simp add: ring_ok_def)
      ultimately show ?thesis by blast
    next
      case False
      with ht n have h: "?h = ?n - 1" and t: "?t = 0"
        by (metis Suc_eq_plus1 Suc_lessI diff_Suc_1 lessI mod_less, metis Suc_eq_plus1 Suc_lessI lessI mod_less mod_self)
      with full n False show ?thesis
        by (auto simp: time_ring_grow_def Let_def ring_ok_def ring_entries_def nth_append)
    qed
  qed
  then show "ring_ok (time_ring_grow r)" "ring_entries (time_ring_grow r) = ring_entries r"
    by auto
qed

lemma ring_push_ok:
  assumes "ring_ok r" and "ring_size r < ring_maxsize r"
  shows "ring_ok (time_ring_push r v)"
    and "ring_entries (time_ring_push r v) = ring_entries r @ [v]"
proof -
  let ?n = "ring_maxsize r"
  have ok: "0 < ?n" "length (ring_buffer r) = ?n" "ring_tail r < ?n"
    and head: "(ring_head r + 1) mod ?n = (ring_tail r + ring_size r) mod ?n"
    using assms by (auto simp: ring_ok_def)
  show "ring_ok (time_ring_push r v)"
    using assms by (auto simp: ring_ok_def time_ring_push_def Let_def mod_Suc_eq)
  have "(ring_tail r + ring_size r) mod ?n \<noteq> (ring_tail r + i) mod ?n" if "i < ring_size r" for i
  proof
    assume "(ring_tail r + ring_size r) mod ?n = (ring_tail r + i) mod ?n"
    then have "?n dvd (ring_tail r + ring_size r) - (ring_tail r + i)"
      by (metis mod_eq_dvd_iff_nat le_add_diff_inverse less_imp_le nat_add_left_cancel_le that)
    with that assms(2) show False
      by (metis add_diff_cancel_left diff_is_0_eq dvd_imp_le less_imp_diff_less not_le zero_less_diff)
  qed
  then show "ring_entries (time_ring_push r v) = ring_entries r @ [v]"
    using ok head by (simp add: ring_entries_def time_ring_push_def Let_def)
qed


subsection \<open>The contract\<close>

locale timed_queue =
  fixes inv :: "'q \<Rightarrow> bool"
    and entries :: "'q \<Rightarrow> time_value_t list"
    and window :: "'q \<Rightarrow> u64"
    and total :: "'q \<Rightarrow> u64"
    and add :: "'q \<Rightarrow> u64 \<Rightarrow> u64 \<Rightarrow> 'q"
  assumes inv_add: "inv q \<Longrightarrow> inv (add q t v)"
    and window_add: "inv q \<Longrightarrow> window (add q t v) = window q"
    and entries_add: "inv q \<Longrightarrow> entries (add q t v) =
      dropWhile (\<lambda>e. tv_time e < t - window q) (entries q) @ [\<lparr>tv_time = t, tv_value = v\<rparr>]"
    and total_entries: "inv q \<Longrightarrow> total q = (\<Sum>e\<leftarrow>entries q. tv_value e)"
begin

definition add_all :: "'q \<Rightarrow> (u64 \<times> u64) list \<Rightarrow> 'q" where
  "add_all q evs = foldl (\<lambda>q (t, v). add q t v) q evs"

lemma add_all_inv: "inv q \<Longrightarrow> inv (add_all q evs) \<and> window (add_all q evs) = window q"
  by (induction evs arbitrary: q) (auto simp: add_all_def inv_add window_add)

text \<open>With samples added in the order of their times, exactly the samples inside the window of
  the latest one are left, oldest first.\<close>

lemma entries_in_window:
  assumes "inv q" and "sorted_wrt (\<lambda>a b. tv_time a \<le> tv_time b) (entries q)"
  shows "entries (add q t v) =
    filter (\<lambda>e. t - window q \<le> tv_time e) (entries q) @ [\<lparr>tv_time = t, tv_value = v\<rparr>]"
proof -
  have "dropWhile (\<lambda>e. tv_time e < c) xs = filter (\<lambda>e. c \<le> tv_time e) xs"
    if "sorted_wrt (\<lambda>a b. tv_time a \<le> tv_time b) xs" for c and xs :: "time_value_t list"
    using that
  proof (induction xs)
    case Nil
    then show ?case by simp
  next
    case (Cons x xs)
    then show ?case
      by (auto simp: not_less intro!: filter_id_conv [THEN iffD2, symmetric] intro: order_trans)
  qed
  with assms show ?thesis by (simp add: entries_add)
qed

end

lemma time_average_add_entries:
  assumes "time_average_ok t"
  shows "time_average_ok (time_average_add t time value)"
    and "ta_duration (time_average_add t time value) = ta_duration t"
    and "ring_entries (ta_r (time_average_add t time value)) =
      dropWhile (\<lambda>e. tv_time e < time - word_of_int (ta_duration t)) (ring_entries (ta_r t))
      @ [\<lparr>tv_time = time, tv_value = value\<rparr>]"
proof -
  let ?t = "remove_old t time"
  note old = remove_old_ok [OF assms, of time]
  then have ring: "ring_ok (ta_r ?t)" by (simp add: time_average_ok_def)
  note grow = ring_grow_ok [OF ring]
  note push = ring_push_ok [OF grow(1,3), of "\<lparr>tv_time = time, tv_value = value\<rparr>"]
  show "ta_duration (time_average_add t time value) = ta_duration t"
    using old by (simp add: time_average_add_def Let_def)
  show "ring_entries (ta_r (time_average_add t time value)) =
      dropWhile (\<lambda>e. tv_time e < time - word_of_int (ta_duration t)) (ring_entries (ta_r t))
      @ [\<lparr>tv_time = time, tv_value = value\<rparr>]"
    using old push grow by (simp add: time_average_add_def Let_def)
  show "time_average_ok (time_average_add t time value)"
    using old push grow by (simp add: time_average_add_def time_average_ok_def Let_def)
qed

interpretation ts: timed_queue time_average_ok "\<lambda>t. ring_entries (ta_r t)"
  "\<lambda>t. word_of_int (ta_duration t)" ta_accumulated_value time_average_add
  by unfold_locales
    (auto simp: time_average_add_entries, simp add: time_average_ok_def)

lemma time_average_new_ok:
  assumes "time_average_new duration n = Inr t" and "0 < n"
  shows "time_average_ok t" and "ring_entries (ta_r t) = []"
  using assms
  by (auto simp: time_average_new_def time_average_ok_def ring_ok_def ring_entries_def split: if_splits)

lemma time_average_reset_ok:
  "time_average_ok t \<Longrightarrow> time_average_ok (time_average_reset t) \<and>
     ring_entries (ta_r (time_average_reset t)) = []"
  by (auto simp: time_average_reset_def time_average_ok_def ring_ok_def ring_entries_def)



subsection \<open>Properties\<close>

text \<open>The ring buffer is a queue of the samples in the window. When the samples held are in the
  order of their times, adding one removes exactly the samples older than \<open>time - duration\<close> and
  appends the new one, whatever the position of head and tail and whether or not the buffer had to
  be doubled, and the accumulated value is the sum (modulo \<open>2^64\<close>) of the samples kept.\<close>

theorem time_average_add_window:
  assumes "time_average_ok t" and "sorted_wrt (\<lambda>a b. tv_time a \<le> tv_time b) (ring_entries (ta_r t))"
    and "t' = time_average_add t time value"
  shows "time_average_ok t' \<and> ring_entries (ta_r t') =
      filter (\<lambda>e. time - word_of_int (ta_duration t) \<le> tv_time e) (ring_entries (ta_r t))
      @ [\<lparr>tv_time = time, tv_value = value\<rparr>] \<and>
    ta_accumulated_value t' = (\<Sum>e\<leftarrow>ring_entries (ta_r t'). tv_value e)"
  using ts.inv_add [OF assms(1)] ts.entries_in_window [OF assms(1,2)] ts.total_entries assms(3)
  by auto

text \<open>A ring of two places that is full and wraps around.\<close>

definition time_average_example :: time_average_t where
  "time_average_example =
     \<lparr>ta_duration = 10, ta_r = \<lparr>ring_head = 0, ring_tail = 1,
        ring_buffer = [\<lparr>tv_time = 25, tv_value = 7\<rparr>, \<lparr>tv_time = 20, tv_value = 5\<rparr>],
        ring_maxsize = 2, ring_size = 2\<rparr>, ta_accumulated_value = 12\<rparr>"

theorem time_average_add_window_witness:
  "ring_entries (ta_r (time_average_add time_average_example 28 1)) =
     [\<lparr>tv_time = 20, tv_value = 5\<rparr>, \<lparr>tv_time = 25, tv_value = 7\<rparr>, \<lparr>tv_time = 28, tv_value = 1\<rparr>]"
proof -
  have entries: "ring_entries (ta_r time_average_example) =
      [\<lparr>tv_time = 20, tv_value = 5\<rparr>, \<lparr>tv_time = 25, tv_value = 7\<rparr>]"
    by (simp add: ring_entries_def time_average_example_def upt_rec)
  have ok: "time_average_ok time_average_example"
    by (simp add: time_average_ok_def entries) (simp add: time_average_example_def ring_ok_def)
  have "sorted_wrt (\<lambda>a b. tv_time a \<le> tv_time b) (ring_entries (ta_r time_average_example))"
    by (simp add: entries)
  from time_average_add_window [OF ok this refl, of 28 1, THEN conjunct2, THEN conjunct1] show ?thesis
    by (simp only: entries) (simp add: time_average_example_def)
qed

end
