(* ===== verification/Rlc_Pdu.thy ===== *)
theory Rlc_Pdu
  imports L2_Prelude
begin

text \<open>
  \<open>openair2/LAYER2/nr_rlc/nr_rlc_pdu.c\<close>: the PDUs kept by a receiving RLC entity, their
  ordered list, and the bit-level decoder and encoder of PDU headers.

  A received PDU whose SDU was delivered has its data freed, so \<open>pdu_data\<close> is \<open>None\<close> where the
  C pointer is NULL. Buffer and size are one byte list, so \<open>dec_size\<close> and \<open>enc_size\<close> are its
  length. The second half shows that decoder and encoder are the read and the write end of one
  bit stream (most significant bit first) and that what is written is what is read.
\<close>

record nr_rlc_pdu_t =
  pdu_sn :: int
  pdu_data :: "byte list option"
  pdu_size :: int
  pdu_so :: int
  pdu_is_first :: bool
  pdu_is_last :: bool

definition nr_rlc_new_pdu :: "int \<Rightarrow> int \<Rightarrow> bool \<Rightarrow> bool \<Rightarrow> byte list \<Rightarrow> nr_rlc_pdu_t" where
  "nr_rlc_new_pdu sn so is_first is_last data =
     \<lparr>pdu_sn = sn, pdu_data = Some data, pdu_size = int (length data), pdu_so = so,
      pdu_is_first = is_first, pdu_is_last = is_last\<rparr>"

fun nr_rlc_pdu_list_add ::
  "(int \<Rightarrow> int \<Rightarrow> int) \<Rightarrow> nr_rlc_pdu_t list \<Rightarrow> nr_rlc_pdu_t \<Rightarrow> nr_rlc_pdu_t list" where
  "nr_rlc_pdu_list_add sn_compare [] pdu = [pdu]"
| "nr_rlc_pdu_list_add sn_compare (cur # l) pdu =
     (if 0 < sn_compare (pdu_sn cur) (pdu_sn pdu) \<or>
         pdu_sn cur = pdu_sn pdu \<and> pdu_so pdu < pdu_so cur
      then pdu # cur # l
      else cur # nr_rlc_pdu_list_add sn_compare l pdu)"


subsection \<open>The decoder\<close>

record nr_rlc_pdu_decoder_t =
  dec_error :: bool
  dec_byte :: nat
  dec_bit :: nat
  dec_buffer :: "byte list"
  dec_size :: nat

definition nr_rlc_pdu_decoder_init :: "byte list \<Rightarrow> nr_rlc_pdu_decoder_t" where
  "nr_rlc_pdu_decoder_init buffer =
     \<lparr>dec_error = False, dec_byte = 0, dec_bit = 0, dec_buffer = buffer, dec_size = length buffer\<rparr>"

definition get_bit :: "nr_rlc_pdu_decoder_t \<Rightarrow> int \<times> nr_rlc_pdu_decoder_t" where
  "get_bit d =
     (if dec_size d \<le> dec_byte d then (0, d\<lparr>dec_error := True\<rparr>)
      else (int_of_bool (bit (dec_buffer d ! dec_byte d) (7 - dec_bit d)),
            if dec_bit d + 1 = 8 then d\<lparr>dec_bit := 0, dec_byte := dec_byte d + 1\<rparr>
            else d\<lparr>dec_bit := dec_bit d + 1\<rparr>))"

text \<open>\<open>ret <<= 1; ret |= get_bit(decoder)\<close> with at most 31 rounds, so nothing is shifted out.\<close>

fun get_bits_loop :: "nat \<Rightarrow> int \<Rightarrow> nr_rlc_pdu_decoder_t \<Rightarrow> int \<times> nr_rlc_pdu_decoder_t" where
  "get_bits_loop 0 ret d = (ret, d)"
| "get_bits_loop (Suc n) ret d =
     (let (b, d') = get_bit d in
      if dec_error d' then (-1, d') else get_bits_loop n (2 * ret + b) d')"

definition nr_rlc_pdu_decoder_get_bits ::
  "nr_rlc_pdu_decoder_t \<Rightarrow> nat \<Rightarrow> (int \<times> nr_rlc_pdu_decoder_t) result" where
  "nr_rlc_pdu_decoder_get_bits d cnt =
     (if 31 < cnt then Inl Fatal_exit else Inr (get_bits_loop cnt 0 d))"


text \<open>\<open>nr_rlc_pdu_decoder_get_bits\<close> followed by the macro \<open>R\<close>, which jumps to \<open>err\<close>.\<close>

definition with_bits ::
  "nr_rlc_pdu_decoder_t \<Rightarrow> nat \<Rightarrow> 'a result \<Rightarrow> (int \<Rightarrow> nr_rlc_pdu_decoder_t \<Rightarrow> 'a result) \<Rightarrow> 'a result" where
  "with_bits d cnt err k =
     bind_r (nr_rlc_pdu_decoder_get_bits d cnt) (\<lambda>(v, d'). if dec_error d' then err else k v d')"


subsection \<open>The encoder\<close>

record nr_rlc_pdu_encoder_t =
  enc_byte :: nat
  enc_bit :: nat
  enc_buffer :: "byte list"
  enc_size :: nat

definition nr_rlc_pdu_encoder_init :: "byte list \<Rightarrow> nr_rlc_pdu_encoder_t" where
  "nr_rlc_pdu_encoder_init buffer =
     \<lparr>enc_byte = 0, enc_bit = 0, enc_buffer = buffer, enc_size = length buffer\<rparr>"

definition shift_in :: "byte \<Rightarrow> bool \<Rightarrow> byte" where
  "shift_in old b = push_bit 1 old OR (if b then 1 else 0)"

definition put_bit :: "nr_rlc_pdu_encoder_t \<Rightarrow> bool \<Rightarrow> nr_rlc_pdu_encoder_t result" where
  "put_bit e b =
     (if enc_byte e = enc_size e then Inl Fatal_exit
      else
        (let new = shift_in (enc_buffer e ! enc_byte e) b;
             e' = e\<lparr>enc_buffer := (enc_buffer e)[enc_byte e := new]\<rparr> in
         Inr (if enc_bit e + 1 = 8 then e'\<lparr>enc_bit := 0, enc_byte := enc_byte e + 1\<rparr>
              else e'\<lparr>enc_bit := enc_bit e + 1\<rparr>)))"

text \<open>\<open>for (i = 0; i < count; i++, x >>= 1) put_bit(encoder, value & x)\<close> starting at
  \<open>x = 1 << (count - 1)\<close>: the bits of \<open>value\<close> from \<open>count - 1\<close> down to 0.\<close>

fun put_bits_loop :: "nat \<Rightarrow> int \<Rightarrow> nr_rlc_pdu_encoder_t \<Rightarrow> nr_rlc_pdu_encoder_t result" where
  "put_bits_loop 0 v e = Inr e"
| "put_bits_loop (Suc n) v e = bind_r (put_bit e (bit v n)) (put_bits_loop n v)"

definition nr_rlc_pdu_encoder_put_bits ::
  "nr_rlc_pdu_encoder_t \<Rightarrow> int \<Rightarrow> nat \<Rightarrow> nr_rlc_pdu_encoder_t result" where
  "nr_rlc_pdu_encoder_put_bits e value cnt =
     (if 31 < cnt then Inl Fatal_exit else put_bits_loop cnt value e)"

text \<open>A header is a sequence of such calls.\<close>

fun put_fields :: "(int \<times> nat) list \<Rightarrow> nr_rlc_pdu_encoder_t \<Rightarrow> nr_rlc_pdu_encoder_t result" where
  "put_fields [] e = Inr e"
| "put_fields ((v, c) # fs) e = bind_r (nr_rlc_pdu_encoder_put_bits e v c) (put_fields fs)"

fun get_fields :: "nat list \<Rightarrow> nr_rlc_pdu_decoder_t \<Rightarrow> (int list \<times> nr_rlc_pdu_decoder_t) result" where
  "get_fields [] d = Inr ([], d)"
| "get_fields (c # cs) d =
     bind_r (nr_rlc_pdu_decoder_get_bits d c) (\<lambda>(v, d').
     bind_r (get_fields cs d') (\<lambda>(vs, d''). Inr (v # vs, d'')))"


subsection \<open>Ordered list of PDUs\<close>

definition pdu_before :: "(int \<Rightarrow> int) \<Rightarrow> nr_rlc_pdu_t \<Rightarrow> nr_rlc_pdu_t \<Rightarrow> bool" where
  "pdu_before key p q \<longleftrightarrow>
     key (pdu_sn p) < key (pdu_sn q) \<or> pdu_sn q = pdu_sn p \<and> pdu_so p < pdu_so q"

text \<open>Every comparison the entities pass is the difference of two positions in a window.\<close>

lemma pdu_list_add_insertion:
  "ordered_insertion (pdu_before key) (nr_rlc_pdu_list_add (\<lambda>a b. key a - key b))"
  by unfold_locales (auto simp: pdu_before_def)

lemmas pdu_list_add_mset = ordered_insertion.mset_ins [OF pdu_list_add_insertion]
lemmas pdu_list_add_set = ordered_insertion.set_ins [OF pdu_list_add_insertion]
lemmas pdu_list_add_sorted = ordered_insertion.sorted_ins [OF pdu_list_add_insertion]
lemmas pdu_list_add_sum = ordered_insertion.sum_ins [OF pdu_list_add_insertion]
lemmas pdu_list_add_length = ordered_insertion.length_ins [OF pdu_list_add_insertion]


subsection \<open>Bit streams\<close>

definition bits_of :: "nat \<Rightarrow> 'a::semiring_bits \<Rightarrow> bool list" where
  "bits_of k v = map (bit v) (rev [0..<k])"

definition bytes_bits :: "byte list \<Rightarrow> bool list" where
  "bytes_bits bs = concat (map (bits_of 8) bs)"

definition bits_value :: "int \<Rightarrow> bool list \<Rightarrow> int" where
  "bits_value v bs = foldl (\<lambda>v b. 2 * v + int_of_bool b) v bs"

lemma length_bits_of [simp]: "length (bits_of k v) = k"
  by (simp add: bits_of_def)

lemma length_bytes_bits [simp]: "length (bytes_bits bs) = 8 * length bs"
  by (induction bs) (simp_all add: bytes_bits_def)

lemma bits_of_Suc: "bits_of (Suc k) v = bit v k # bits_of k v"
  by (simp add: bits_of_def)

lemma bits_value_Nil [simp]: "bits_value v [] = v"
  by (simp add: bits_value_def)

lemma bits_value_Cons [simp]: "bits_value v (b # bs) = bits_value (2 * v + int_of_bool b) bs"
  by (simp add: bits_value_def)

lemma bits_value_bits_of: "bits_value a (bits_of k v) = a * 2 ^ k + take_bit k v"
proof (induction k arbitrary: a)
  case 0
  then show ?case by (simp add: bits_of_def)
next
  case (Suc k)
  have "take_bit (Suc k) v = int_of_bool (bit v k) * 2 ^ k + take_bit k v"
    by (simp add: take_bit_Suc_from_most int_of_bool_def)
  with Suc show ?case by (simp add: bits_of_Suc algebra_simps)
qed

lemma bits_value_bound:
  "0 \<le> a \<Longrightarrow> 0 \<le> bits_value a bs \<and> bits_value a bs < (a + 1) * 2 ^ length bs"
proof (induction bs arbitrary: a)
  case (Cons b bs)
  from Cons.IH [of "2 * a + int_of_bool b"] Cons.prems
  have ih: "0 \<le> bits_value a (b # bs)" "bits_value a (b # bs) < (2 * a + int_of_bool b + 1) * 2 ^ length bs"
    by (cases b; simp)+
  have "(2 * a + int_of_bool b + 1) * 2 ^ length bs \<le> (2 * a + 2) * 2 ^ length bs"
    by (rule mult_right_mono) (cases b; simp)+
  with ih(2) have "bits_value a (b # bs) < (2 * a + 2) * 2 ^ length bs" by (rule less_le_trans)
  also have "(2 * a + 2) * 2 ^ length bs = (a + 1) * 2 ^ length (b # bs)" by (simp add: algebra_simps)
  finally show ?case using ih(1) by blast
qed simp

lemma bytes_bits_append: "bytes_bits (xs @ ys) = bytes_bits xs @ bytes_bits ys"
  by (simp add: bytes_bits_def)

lemma nth_bits_of: "i < k \<Longrightarrow> bits_of k v ! i = bit v (k - 1 - i)"
  by (simp add: bits_of_def rev_nth)

lemma bytes_bits_drop:
  assumes "n < length bs" and "k < 8"
  shows "drop (8 * n + k) (bytes_bits bs) =
    bit (bs ! n) (7 - k) # drop (8 * n + Suc k) (bytes_bits bs)"
proof -
  have split: "bytes_bits bs = bytes_bits (take n bs) @ bits_of 8 (bs ! n) @ bytes_bits (drop (Suc n) bs)"
    using id_take_nth_drop [OF assms(1)] by (metis bytes_bits_append bytes_bits_def append_Cons
        append_Nil concat.simps(2) list.simps(9))
  have "drop k (bits_of 8 (bs ! n)) = bit (bs ! n) (7 - k) # drop (Suc k) (bits_of 8 (bs ! n))"
    using assms(2) by (simp add: Cons_nth_drop_Suc [symmetric] nth_bits_of)
  with assms show ?thesis by (simp add: split)
qed


subsection \<open>What the decoder reads\<close>

definition dec_rest :: "nr_rlc_pdu_decoder_t \<Rightarrow> bool list" where
  "dec_rest d = drop (8 * dec_byte d + dec_bit d) (bytes_bits (dec_buffer d))"

definition dec_ok :: "nr_rlc_pdu_decoder_t \<Rightarrow> bool" where
  "dec_ok d \<longleftrightarrow> \<not> dec_error d \<and> dec_bit d < 8 \<and> dec_size d = length (dec_buffer d)
     \<and> 8 * dec_byte d + dec_bit d \<le> 8 * dec_size d"

definition dec_pos :: "nr_rlc_pdu_decoder_t \<Rightarrow> nat" where
  "dec_pos d = 8 * dec_byte d + dec_bit d"

lemma dec_rest_length: "dec_ok d \<Longrightarrow> length (dec_rest d) = 8 * dec_size d - dec_pos d"
  by (simp add: dec_rest_def dec_ok_def dec_pos_def)

lemma get_bit_ok:
  assumes "dec_ok d" and "dec_rest d = b # bs"
  shows "\<exists>d'. get_bit d = (int_of_bool b, d') \<and> dec_ok d' \<and> dec_rest d' = bs
    \<and> dec_pos d' = Suc (dec_pos d) \<and> dec_buffer d' = dec_buffer d"
proof -
  have "8 * dec_byte d + dec_bit d < 8 * dec_size d"
    using assms dec_rest_length [of d] by (auto simp: dec_ok_def dec_pos_def)
  with assms(1) have lt: "dec_byte d < length (dec_buffer d)" "dec_bit d < 8"
    by (auto simp: dec_ok_def)
  from bytes_bits_drop [OF lt] assms(2)
  have hd: "bit (dec_buffer d ! dec_byte d) (7 - dec_bit d) = b"
    and tl: "drop (8 * dec_byte d + Suc (dec_bit d)) (bytes_bits (dec_buffer d)) = bs"
    by (simp_all add: dec_rest_def)
  from assms(1) lt hd tl show ?thesis
    by (cases "dec_bit d = 7"; auto simp: get_bit_def dec_rest_def dec_ok_def dec_pos_def add.commute; arith)
qed

lemma get_bits_loop_ok:
  assumes "dec_ok d" and "n \<le> length (dec_rest d)"
  shows "\<exists>d'. get_bits_loop n v d = (bits_value v (take n (dec_rest d)), d') \<and> dec_ok d'
    \<and> dec_rest d' = drop n (dec_rest d) \<and> dec_pos d' = dec_pos d + n \<and> dec_buffer d' = dec_buffer d"
  using assms
proof (induction n arbitrary: v d)
  case 0
  then show ?case by simp
next
  case (Suc n)
  then obtain b bs where rest: "dec_rest d = b # bs" by (cases "dec_rest d") auto
  from get_bit_ok [OF Suc.prems(1) rest] obtain d1 where
    d1: "get_bit d = (int_of_bool b, d1)" "dec_ok d1" "dec_rest d1 = bs"
      "dec_pos d1 = Suc (dec_pos d)" "dec_buffer d1 = dec_buffer d" by blast
  from Suc.IH [OF d1(2), of "2 * v + int_of_bool b"] Suc.prems(2) rest d1 show ?case
    by (auto simp: dec_ok_def)
qed

lemma get_bit_at_end:
  "dec_ok d \<Longrightarrow> dec_rest d = [] \<Longrightarrow> dec_error (snd (get_bit d))"
  by (auto simp: get_bit_def dec_rest_def dec_ok_def)

lemma get_bits_loop_short:
  assumes "dec_ok d" and "length (dec_rest d) < n"
  shows "fst (get_bits_loop n v d) = -1 \<and> dec_error (snd (get_bits_loop n v d))"
  using assms
proof (induction n arbitrary: v d)
  case 0
  then show ?case by simp
next
  case (Suc n)
  show ?case
  proof (cases "dec_rest d")
    case Nil
    have "dec_error (snd (get_bit d))" by (rule get_bit_at_end [OF Suc.prems(1) Nil])
    moreover have "fst (get_bit d) = 0"
      using Nil Suc.prems(1) by (auto simp: get_bit_def dec_rest_def dec_ok_def)
    ultimately show ?thesis by (auto simp: Let_def split: prod.splits)
  next
    case (Cons b bs)
    from get_bit_ok [OF Suc.prems(1) Cons] obtain d1 where
      "get_bit d = (int_of_bool b, d1)" "dec_ok d1" "dec_rest d1 = bs" by blast
    with Suc Cons show ?thesis by (auto simp: dec_ok_def)
  qed
qed

lemma decoder_init_ok [simp]:
  "dec_ok (nr_rlc_pdu_decoder_init bs)"
  "dec_rest (nr_rlc_pdu_decoder_init bs) = bytes_bits bs"
  "dec_pos (nr_rlc_pdu_decoder_init bs) = 0"
  "dec_buffer (nr_rlc_pdu_decoder_init bs) = bs"
  by (auto simp: nr_rlc_pdu_decoder_init_def dec_ok_def dec_rest_def dec_pos_def)


subsection \<open>What the encoder writes\<close>

definition enc_ok :: "nr_rlc_pdu_encoder_t \<Rightarrow> bool" where
  "enc_ok e \<longleftrightarrow> enc_bit e < 8 \<and> enc_size e = length (enc_buffer e)
     \<and> 8 * enc_byte e + enc_bit e \<le> 8 * enc_size e"

definition enc_pos :: "nr_rlc_pdu_encoder_t \<Rightarrow> nat" where
  "enc_pos e = 8 * enc_byte e + enc_bit e"

text \<open>The bits written so far: the full bytes, then the low bits of the byte being filled.\<close>

definition enc_done :: "nr_rlc_pdu_encoder_t \<Rightarrow> bool list" where
  "enc_done e = bytes_bits (take (enc_byte e) (enc_buffer e))
     @ bits_of (enc_bit e) (enc_buffer e ! enc_byte e)"

lemma bit_shift_in:
  assumes "i < 8"
  shows "bit (shift_in old b) i = (if i = 0 then b else bit old (i - 1))"
proof -
  have "bit (push_bit 1 old) i \<longleftrightarrow> 1 \<le> i \<and> bit old (i - 1)"
    using assms by (simp only: bit_push_bit_iff) simp
  with assms show ?thesis
    by (auto simp only: shift_in_def bit_or_iff bit_1_iff bit_0_eq bot_apply bot_bool_def split: if_splits)
qed

lemma bits_of_shift_in:
  assumes "k < 8"
  shows "bits_of (Suc k) (shift_in old b) = bits_of k old @ [b]"
proof (rule nth_equalityI)
  fix i
  assume "i < length (bits_of (Suc k) (shift_in old b))"
  then have i: "i < Suc k" by simp
  then show "bits_of (Suc k) (shift_in old b) ! i = (bits_of k old @ [b]) ! i"
    using assms by (auto simp: nth_bits_of nth_append bit_shift_in)
qed simp

lemma put_bit_ok:
  assumes "enc_ok e" and "put_bit e b = Inr e'"
  shows "enc_ok e' \<and> enc_done e' = enc_done e @ [b] \<and> enc_pos e' = Suc (enc_pos e)
    \<and> enc_size e' = enc_size e"
proof -
  have lt: "enc_byte e < length (enc_buffer e)" "enc_bit e < 8"
    using assms by (auto simp: put_bit_def enc_ok_def split: if_splits)
  let ?new = "shift_in (enc_buffer e ! enc_byte e) b"
  note bits = bits_of_shift_in [OF lt(2), of "enc_buffer e ! enc_byte e" b]
  have "take (Suc (enc_byte e)) ((enc_buffer e)[enc_byte e := ?new]) =
      take (enc_byte e) (enc_buffer e) @ [?new]"
    using lt(1) by (simp add: take_Suc_conv_app_nth)
  then have full: "enc_bit e + 1 = 8 \<Longrightarrow>
      bytes_bits (take (Suc (enc_byte e)) ((enc_buffer e)[enc_byte e := ?new])) =
        bytes_bits (take (enc_byte e) (enc_buffer e)) @ bits_of (enc_bit e) (enc_buffer e ! enc_byte e) @ [b]"
    using bits by (simp add: bytes_bits_append) (simp add: bytes_bits_def)
  show ?thesis
  proof (cases "enc_bit e + 1 = 8")
    case True
    with assms lt full show ?thesis
      by (auto simp: put_bit_def enc_ok_def enc_done_def enc_pos_def Let_def bits_of_def [of 0]
          split: if_splits; arith)
  next
    case False
    with assms lt bits show ?thesis
      by (auto simp: put_bit_def enc_ok_def enc_done_def enc_pos_def Let_def split: if_splits)
  qed
qed

lemma put_bit_room:
  "enc_ok e \<Longrightarrow> enc_pos e < 8 * enc_size e \<Longrightarrow> \<exists>e'. put_bit e b = Inr e'"
  by (auto simp: put_bit_def enc_ok_def enc_pos_def Let_def)

lemma put_bits_loop_ok:
  assumes "enc_ok e" and "put_bits_loop n v e = Inr e'"
  shows "enc_ok e' \<and> enc_done e' = enc_done e @ bits_of n v \<and> enc_pos e' = enc_pos e + n
    \<and> enc_size e' = enc_size e"
  using assms
proof (induction n arbitrary: e)
  case 0
  then show ?case by (simp add: bits_of_def)
next
  case (Suc n)
  then obtain e1 where e1: "put_bit e (bit v n) = Inr e1" "put_bits_loop n v e1 = Inr e'"
    by (auto simp: result_simps)
  from put_bit_ok [OF Suc.prems(1) e1(1)] Suc.IH [OF _ e1(2)] show ?case
    by (simp add: bits_of_Suc)
qed

lemma put_bits_loop_room:
  "enc_ok e \<Longrightarrow> enc_pos e + n \<le> 8 * enc_size e \<Longrightarrow> \<exists>e'. put_bits_loop n v e = Inr e'"
proof (induction n arbitrary: e)
  case 0
  then show ?case by simp
next
  case (Suc n)
  then obtain e1 where e1: "put_bit e (bit v n) = Inr e1"
    using put_bit_room [of e "bit v n"] by auto
  from put_bit_ok [OF Suc.prems(1) e1] Suc.prems(2) Suc.IH [of e1] e1 show ?case by auto
qed

lemma encoder_init_ok [simp]:
  "enc_ok (nr_rlc_pdu_encoder_init bs)"
  "enc_done (nr_rlc_pdu_encoder_init bs) = []"
  "enc_pos (nr_rlc_pdu_encoder_init bs) = 0"
  "enc_size (nr_rlc_pdu_encoder_init bs) = length bs"
  by (auto simp: nr_rlc_pdu_encoder_init_def enc_ok_def enc_done_def enc_pos_def bytes_bits_def bits_of_def)

lemma put_fields_ok:
  assumes "enc_ok e" and "put_fields fs e = Inr e'"
  shows "enc_ok e' \<and> enc_done e' = enc_done e @ concat (map (\<lambda>(v, c). bits_of c v) fs)
    \<and> enc_pos e' = enc_pos e + (\<Sum>(v, c)\<leftarrow>fs. c) \<and> (\<forall>(v, c) \<in> set fs. c \<le> 31)
    \<and> enc_size e' = enc_size e"
  using assms
proof (induction fs arbitrary: e)
  case Nil
  then show ?case by simp
next
  case (Cons f fs)
  obtain v c where f: "f = (v, c)" by (cases f)
  with Cons.prems obtain e1 where c: "c \<le> 31" and e1: "put_bits_loop c v e = Inr e1"
    and rest: "put_fields fs e1 = Inr e'"
    by (auto simp: result_simps nr_rlc_pdu_encoder_put_bits_def split: if_splits)
  from put_bits_loop_ok [OF Cons.prems(1) e1] Cons.IH [OF _ rest] c f show ?case by simp
qed

lemma put_fields_room:
  assumes "enc_ok e" and "\<forall>(v, c) \<in> set fs. c \<le> 31"
    and "enc_pos e + (\<Sum>(v, c)\<leftarrow>fs. c) \<le> 8 * enc_size e"
  shows "\<exists>e'. put_fields fs e = Inr e'"
  using assms
proof (induction fs arbitrary: e)
  case Nil
  then show ?case by simp
next
  case (Cons f fs)
  obtain v c where f: "f = (v, c)" by (cases f)
  with Cons.prems put_bits_loop_room [of e c v] obtain e1 where
    e1: "put_bits_loop c v e = Inr e1" by auto
  from put_bits_loop_ok [OF Cons.prems(1) e1] Cons.IH [of e1] Cons.prems e1 f show ?case
    by (auto simp: nr_rlc_pdu_encoder_put_bits_def)
qed

lemma get_fields_bits:
  assumes "dec_ok d" and "dec_rest d = concat (map (\<lambda>(v, c). bits_of c v) fs) @ rest"
    and "\<forall>(v, c) \<in> set fs. c \<le> 31"
  shows "\<exists>d'. get_fields (map snd fs) d = Inr (map (\<lambda>(v, c). take_bit c v) fs, d')
    \<and> dec_ok d' \<and> dec_rest d' = rest \<and> dec_pos d' = dec_pos d + (\<Sum>(v, c)\<leftarrow>fs. c)"
  using assms
proof (induction fs arbitrary: d)
  case Nil
  then show ?case by simp
next
  case (Cons f fs)
  obtain v c where f: "f = (v, c)" by (cases f)
  with Cons.prems have "c \<le> length (dec_rest d)" by simp
  from get_bits_loop_ok [OF Cons.prems(1) this, of 0] obtain d1 where
    d1: "get_bits_loop c 0 d = (bits_value 0 (take c (dec_rest d)), d1)" "dec_ok d1"
      "dec_rest d1 = drop c (dec_rest d)" "dec_pos d1 = dec_pos d + c" by blast
  have val: "bits_value 0 (take c (dec_rest d)) = take_bit c v"
    using Cons.prems(2) f by (simp add: bits_value_bits_of)
  have "dec_rest d1 = concat (map (\<lambda>(v, c). bits_of c v) fs) @ rest"
    using d1(3) Cons.prems(2) f by simp
  from Cons.IH [OF d1(2) this] Cons.prems(3) obtain d2 where
    "get_fields (map snd fs) d1 = Inr (map (\<lambda>(v, c). take_bit c v) fs, d2)"
    "dec_ok d2" "dec_rest d2 = rest" "dec_pos d2 = dec_pos d1 + (\<Sum>(v, c)\<leftarrow>fs. c)"
    by auto
  with d1 val f Cons.prems(3) show ?case
    by (simp add: nr_rlc_pdu_decoder_get_bits_def)
qed

lemma enc_done_bytes:
  "enc_bit e = 0 \<Longrightarrow> enc_done e = bytes_bits (take (enc_byte e) (enc_buffer e))"
  by (simp add: enc_done_def bits_of_def)

lemma put_header:
  assumes "\<forall>(v, c) \<in> set fs. c \<le> 31" and "(\<Sum>(v, c)\<leftarrow>fs. c) = 8 * k" and "k \<le> length buffer"
  shows "\<exists>enc. put_fields fs (nr_rlc_pdu_encoder_init buffer) = Inr enc \<and> enc_byte enc = k \<and>
    length (enc_buffer enc) = length buffer \<and>
    bytes_bits (take k (enc_buffer enc)) = concat (map (\<lambda>(v, c). bits_of c v) fs)"
proof -
  have ok: "enc_ok (nr_rlc_pdu_encoder_init buffer)" by simp
  from put_fields_room [OF ok assms(1)] assms(2,3) obtain enc where
    enc: "put_fields fs (nr_rlc_pdu_encoder_init buffer) = Inr enc" by auto
  from put_fields_ok [OF ok enc] assms(2) have
    fin: "enc_ok enc" "enc_done enc = concat (map (\<lambda>(v, c). bits_of c v) fs)"
      "enc_pos enc = 8 * k" "enc_size enc = length buffer" by auto
  from fin(1,3) have "enc_bit enc = 0" "enc_byte enc = k"
    by (auto simp: enc_ok_def enc_pos_def) presburger+
  with fin enc enc_done_bytes [of enc] show ?thesis by (auto simp: enc_ok_def)
qed

lemma with_bits_field:
  assumes "dec_ok d" and "dec_rest d = bits_of c v @ rest" and "c \<le> 31"
  shows "\<exists>d'. with_bits d c err k = k (take_bit c v) d' \<and> dec_ok d' \<and> dec_rest d' = rest \<and>
    dec_pos d' = dec_pos d + c"
proof -
  have "c \<le> length (dec_rest d)" using assms(2) by simp
  from get_bits_loop_ok [OF assms(1) this, of 0] assms(2,3) show ?thesis
    by (auto simp: with_bits_def nr_rlc_pdu_decoder_get_bits_def bits_value_bits_of dec_ok_def)
qed

text \<open>Whatever the input, a read either yields a value that fits the field or takes the error
  branch; the decoder never runs past its buffer.\<close>

lemma with_bits_cases:
  assumes "dec_ok d" and "c \<le> 31"
  shows "with_bits d c err k = err \<or>
    (\<exists>v d'. with_bits d c err k = k v d' \<and> dec_ok d' \<and> dec_pos d' = dec_pos d + c \<and>
       dec_buffer d' = dec_buffer d \<and> 0 \<le> v \<and> v < 2 ^ c)"
proof (cases "length (dec_rest d) < c")
  case True
  with get_bits_loop_short [OF assms(1) True, of 0] assms(2) show ?thesis
    by (auto simp: with_bits_def nr_rlc_pdu_decoder_get_bits_def split: prod.splits)
next
  case False
  then have "c \<le> length (dec_rest d)" by simp
  from get_bits_loop_ok [OF assms(1) this, of 0] obtain d' where
    d': "get_bits_loop c 0 d = (bits_value 0 (take c (dec_rest d)), d')" "dec_ok d'"
      "dec_pos d' = dec_pos d + c" "dec_buffer d' = dec_buffer d" by blast
  moreover have "0 \<le> bits_value 0 (take c (dec_rest d))" "bits_value 0 (take c (dec_rest d)) < 2 ^ c"
    using bits_value_bound [of 0 "take c (dec_rest d)"] False by simp_all
  moreover have "with_bits d c err k = k (bits_value 0 (take c (dec_rest d))) d'"
    using d' assms(2) by (simp add: with_bits_def nr_rlc_pdu_decoder_get_bits_def dec_ok_def)
  ultimately show ?thesis by blast
qed


subsection \<open>Properties\<close>

text \<open>C13. Header round trip. Any sequence of fields of at most 31 bits that fills whole bytes is
  written by the encoder without overrunning a buffer that has room for those bytes, and the
  decoder, run over the bytes written followed by any payload, returns each field reduced to its
  width and stops at the first payload byte.\<close>

theorem header_round_trip:
  assumes "\<forall>(v, c) \<in> set fs. c \<le> 31" and "(\<Sum>(v, c)\<leftarrow>fs. c) = 8 * k" and "k \<le> length buffer"
  shows "\<exists>enc dec. put_fields fs (nr_rlc_pdu_encoder_init buffer) = Inr enc \<and> enc_byte enc = k \<and>
    length (enc_buffer enc) = length buffer \<and>
    get_fields (map snd fs) (nr_rlc_pdu_decoder_init (take k (enc_buffer enc) @ payload)) =
      Inr (map (\<lambda>(v, c). take_bit c v) fs, dec) \<and>
    dec_byte dec = k \<and> dec_bit dec = 0 \<and> \<not> dec_error dec"
proof -
  from put_header [OF assms] obtain enc where
    enc: "put_fields fs (nr_rlc_pdu_encoder_init buffer) = Inr enc" "enc_byte enc = k"
      "length (enc_buffer enc) = length buffer"
      "bytes_bits (take k (enc_buffer enc)) = concat (map (\<lambda>(v, c). bits_of c v) fs)" by blast
  let ?d = "nr_rlc_pdu_decoder_init (take k (enc_buffer enc) @ payload)"
  have "dec_rest ?d = concat (map (\<lambda>(v, c). bits_of c v) fs) @ bytes_bits payload"
    using enc(4) by (simp add: bytes_bits_append)
  from get_fields_bits [OF _ this assms(1)] obtain dec where
    dec: "get_fields (map snd fs) ?d = Inr (map (\<lambda>(v, c). take_bit c v) fs, dec)" "dec_ok dec"
      "dec_pos dec = 8 * k"
    using assms(2) by auto
  from dec(2,3) have "dec_byte dec = k" "dec_bit dec = 0" "\<not> dec_error dec"
    by (auto simp: dec_ok_def dec_pos_def) presburger+
  with enc dec show ?thesis by blast
qed

theorem header_round_trip_witness:
  "\<exists>enc dec. put_fields [(1, 1), (0, 1), (0, 2), (2748, 12), (70000, 16)] (nr_rlc_pdu_encoder_init [0, 0, 0, 0, 9]) = Inr enc \<and>
     get_fields [1, 1, 2, 12, 16] (nr_rlc_pdu_decoder_init (take 4 (enc_buffer enc) @ [7])) = Inr ([1, 0, 0, 2748, 4464], dec) \<and>
     dec_byte dec = 4"
proof -
  let ?fs = "[(1, 1), (0, 1), (0, 2), (2748, 12), (70000, 16)] :: (int \<times> nat) list"
  have "\<forall>(v, c) \<in> set ?fs. c \<le> 31" "(\<Sum>(v, c)\<leftarrow>?fs. c) = 8 * 4" "4 \<le> length ([0, 0, 0, 0, 9] :: byte list)"
    by simp_all
  from header_round_trip [OF this, of "[7]"] show ?thesis by (auto simp: take_bit_eq_mod)
qed

end
