(* ===== verification/Rlc_Sdu.thy ===== *)
theory Rlc_Sdu
  imports L2_Prelude
begin

text \<open>
  \<open>openair2/LAYER2/nr_rlc/nr_rlc_sdu.c\<close>: SDUs waiting for transmission and the segments that
  share them. Segments of one SDU point to the same \<open>nr_rlc_sdu_t\<close>, whose sequence number,
  retransmission count and reference counts change through any of them, so the SDUs live in an
  explicit memory (\<open>sdu_mem_t\<close>) and a segment holds an address. Reading a freed SDU is the error
  \<open>Use_after_free\<close>.

  A segment list is a HOL list. The C code also keeps a pointer to its last node, which
  \<open>nr_rlc_sdu_segment_list_append\<close> uses to append; where the code reads that node, the model
  reads the last element.

  The invariant \<open>mem_inv m segs\<close> says that the memory holds exactly the SDUs that the segments
  \<open>segs\<close> of an entity refer to, with the right counts. The locale \<open>sdu_pool\<close> is what the entities
  rely on; \<open>pool\<close> interprets it on the memory model.
\<close>

record nr_rlc_sdu_t =
  sdu_sn :: int
  sdu_upper_layer_id :: int
  sdu_data :: "byte list"
  sdu_size :: int
  sdu_retx_count :: int
  sdu_ref_count :: int
  sdu_free_count :: int
  sdu_time_of_arrival :: u64

record nr_rlc_sdu_segment_t =
  seg_sdu :: nat
  seg_size :: int
  seg_so :: int
  seg_is_first :: bool
  seg_is_last :: bool

record sdu_mem_t =
  mem_sdu :: "nat \<Rightarrow> nr_rlc_sdu_t option"
  mem_next :: nat

definition mem_empty :: sdu_mem_t where
  "mem_empty = \<lparr>mem_sdu = (\<lambda>_. None), mem_next = 0\<rparr>"

definition sdu_at :: "sdu_mem_t \<Rightarrow> nat \<Rightarrow> nr_rlc_sdu_t result" where
  "sdu_at m a = (case mem_sdu m a of None \<Rightarrow> Inl Use_after_free | Some u \<Rightarrow> Inr u)"

definition sdu_put :: "sdu_mem_t \<Rightarrow> nat \<Rightarrow> nr_rlc_sdu_t \<Rightarrow> sdu_mem_t" where
  "sdu_put m a u = m\<lparr>mem_sdu := (mem_sdu m)(a := Some u)\<rparr>"

definition nr_rlc_new_sdu :: "sdu_mem_t \<Rightarrow> byte list \<Rightarrow> int \<Rightarrow> nr_rlc_sdu_segment_t \<times> sdu_mem_t" where
  "nr_rlc_new_sdu m buffer upper_layer_id =
     (\<lparr>seg_sdu = mem_next m, seg_size = int (length buffer), seg_so = 0,
       seg_is_first = True, seg_is_last = True\<rparr>,
      m\<lparr>mem_sdu := (mem_sdu m)(mem_next m \<mapsto>
          \<lparr>sdu_sn = -1, sdu_upper_layer_id = upper_layer_id, sdu_data = buffer,
           sdu_size = int (length buffer), sdu_retx_count = -1, sdu_ref_count = 1,
           sdu_free_count = 0, sdu_time_of_arrival = 0\<rparr>),
        mem_next := mem_next m + 1\<rparr>)"

definition nr_rlc_free_sdu_segment ::
  "sdu_mem_t \<Rightarrow> nr_rlc_sdu_segment_t \<Rightarrow> (bool \<times> sdu_mem_t) result" where
  "nr_rlc_free_sdu_segment m seg =
     bind_r (sdu_at m (seg_sdu seg)) (\<lambda>u.
       let u' = u\<lparr>sdu_free_count := sdu_free_count u + 1\<rparr> in
       if sdu_free_count u' = sdu_ref_count u'
       then Inr (True, m\<lparr>mem_sdu := (mem_sdu m)(seg_sdu seg := None)\<rparr>)
       else Inr (False, sdu_put m (seg_sdu seg) u'))"

definition nr_rlc_sdu_segment_list_append ::
  "nr_rlc_sdu_segment_t list \<Rightarrow> nr_rlc_sdu_segment_t \<Rightarrow> nr_rlc_sdu_segment_t list" where
  "nr_rlc_sdu_segment_list_append l sdu = (if l = [] then [sdu] else l @ [sdu])"

fun nr_rlc_free_sdu_segment_list ::
  "nr_rlc_sdu_segment_t list \<Rightarrow> sdu_mem_t \<Rightarrow> sdu_mem_t result" where
  "nr_rlc_free_sdu_segment_list [] m = Inr m"
| "nr_rlc_free_sdu_segment_list (cur # l) m =
     bind_r (nr_rlc_free_sdu_segment m cur) (\<lambda>(_, m'). nr_rlc_free_sdu_segment_list l m')"

lemma segment_list_append [simp]: "nr_rlc_sdu_segment_list_append l s = l @ [s]"
  by (simp add: nr_rlc_sdu_segment_list_append_def)

lemma sdu_at_eq_Inr [simp]: "sdu_at m a = Inr u \<longleftrightarrow> mem_sdu m a = Some u"
  by (auto simp: sdu_at_def split: option.splits)

lemma sdu_at_eq_Inl: "sdu_at m a = Inl err \<longleftrightarrow> mem_sdu m a = None \<and> err = Use_after_free"
  by (auto simp: sdu_at_def split: option.splits)

lemma sdu_at_put [simp]: "mem_sdu (sdu_put m a u) b = (if b = a then Some u else mem_sdu m b)"
  by (simp add: sdu_put_def)

lemma mem_next_put [simp]: "mem_next (sdu_put m a u) = mem_next m"
  by (simp add: sdu_put_def)


subsection \<open>Reference counting\<close>

definition live_refs :: "nr_rlc_sdu_segment_t list \<Rightarrow> nat \<Rightarrow> nat" where
  "live_refs segs a = length (filter (\<lambda>s. seg_sdu s = a) segs)"

definition sdu_counted :: "nr_rlc_sdu_segment_t list \<Rightarrow> nat \<Rightarrow> nr_rlc_sdu_t \<Rightarrow> bool" where
  "sdu_counted segs a u \<longleftrightarrow> sdu_ref_count u = sdu_free_count u + int (live_refs segs a) \<and>
     0 < live_refs segs a \<and> sdu_size u = int (length (sdu_data u))"

definition mem_inv :: "sdu_mem_t \<Rightarrow> nr_rlc_sdu_segment_t list \<Rightarrow> bool" where
  "mem_inv m segs \<longleftrightarrow> (\<forall>a \<ge> mem_next m. mem_sdu m a = None) \<and>
     (\<forall>a. mem_sdu m a = None \<longrightarrow> live_refs segs a = 0) \<and>
     (\<forall>a u. mem_sdu m a = Some u \<longrightarrow> sdu_counted segs a u)"

text \<open>The bytes of all the SDUs in memory.\<close>

definition mem_bytes :: "sdu_mem_t \<Rightarrow> int" where
  "mem_bytes m = (\<Sum>a<mem_next m. case mem_sdu m a of None \<Rightarrow> 0 | Some u \<Rightarrow> sdu_size u)"

lemma live_refs_simps [simp]:
  "live_refs [] a = 0"
  "live_refs (s # xs) a = (if seg_sdu s = a then Suc (live_refs xs a) else live_refs xs a)"
  "live_refs (xs @ ys) a = live_refs xs a + live_refs ys a"
  by (simp_all add: live_refs_def)

lemma live_refs_mset: "mset xs = mset ys \<Longrightarrow> live_refs xs a = live_refs ys a"
  by (metis live_refs_def mset_filter size_mset)

lemma live_refs_zero: "live_refs xs a = 0 \<longleftrightarrow> a \<notin> seg_sdu ` set xs"
  by (induction xs) auto

lemma mem_inv_perm: "mem_inv m xs \<Longrightarrow> mset xs = mset ys \<Longrightarrow> mem_inv m ys"
  using live_refs_mset [of xs ys] by (simp add: mem_inv_def sdu_counted_def)

text \<open>Writing one cell keeps the invariant when only that cell's references change.\<close>

lemma mem_inv_upd:
  assumes "mem_inv m xs" and "a < mem_next m"
    and "\<And>b. b \<noteq> a \<Longrightarrow> live_refs ys b = live_refs xs b"
    and "case v of None \<Rightarrow> live_refs ys a = 0 | Some u \<Rightarrow> sdu_counted ys a u"
  shows "mem_inv (m\<lparr>mem_sdu := (mem_sdu m)(a := v)\<rparr>) ys"
  using assms by (auto simp: mem_inv_def sdu_counted_def split: option.splits)

lemma mem_inv_live: "mem_inv m xs \<Longrightarrow> s \<in> set xs \<Longrightarrow> \<exists>u. mem_sdu m (seg_sdu s) = Some u"
  by (auto simp: mem_inv_def live_refs_zero)

lemma mem_inv_size:
  "mem_inv m xs \<Longrightarrow> mem_sdu m a = Some u \<Longrightarrow> sdu_size u = int (length (sdu_data u))"
  by (auto simp: mem_inv_def sdu_counted_def)

lemma mem_inv_below_next: "mem_inv m xs \<Longrightarrow> mem_sdu m a = Some u \<Longrightarrow> a < mem_next m"
  by (auto simp: mem_inv_def not_le [symmetric])

lemma mem_inv_empty [simp]: "mem_inv mem_empty []" "mem_bytes mem_empty = 0"
  by (simp_all add: mem_inv_def mem_empty_def mem_bytes_def)

lemma mem_bytes_update:
  assumes "a < mem_next m" and "mem_sdu m a = Some u"
  shows "mem_bytes (m\<lparr>mem_sdu := (mem_sdu m)(a := v)\<rparr>) =
    mem_bytes m - sdu_size u + (case v of None \<Rightarrow> 0 | Some w \<Rightarrow> sdu_size w)"
proof -
  have "a \<in> {..<mem_next m}" using assms(1) by simp
  then show ?thesis
    using assms(2) by (simp add: mem_bytes_def sum.remove [of _ a])
qed

text \<open>What a segment may point at: a live SDU, and a non-empty range of its bytes whose flags
  say whether it touches either end.\<close>

definition seg_within :: "nr_rlc_sdu_t \<Rightarrow> nr_rlc_sdu_segment_t \<Rightarrow> bool" where
  "seg_within u s \<longleftrightarrow> 0 \<le> seg_so s \<and> 0 < seg_size s \<and> seg_so s + seg_size s \<le> sdu_size u \<and>
     (seg_is_first s \<longleftrightarrow> seg_so s = 0) \<and> (seg_is_last s \<longleftrightarrow> seg_so s + seg_size s = sdu_size u)"

definition segs_ok :: "sdu_mem_t \<Rightarrow> nr_rlc_sdu_segment_t list \<Rightarrow> bool" where
  "segs_ok m segs \<longleftrightarrow> (\<forall>s \<in> set segs. \<exists>u. mem_sdu m (seg_sdu s) = Some u \<and> seg_within u s)"

lemma segs_ok_simps [simp]:
  "segs_ok m []"
  "segs_ok m (s # xs) \<longleftrightarrow> (\<exists>u. mem_sdu m (seg_sdu s) = Some u \<and> seg_within u s) \<and> segs_ok m xs"
  "segs_ok m (xs @ ys) \<longleftrightarrow> segs_ok m xs \<and> segs_ok m ys"
  by (auto simp: segs_ok_def)

lemma segs_ok_mono:
  "segs_ok m xs \<Longrightarrow> set ys \<subseteq> set xs \<Longrightarrow> segs_ok m ys"
  by (auto simp: segs_ok_def)

lemma segs_ok_same_size:
  assumes "segs_ok m xs"
    and "\<And>s u. s \<in> set xs \<Longrightarrow> mem_sdu m (seg_sdu s) = Some u \<Longrightarrow>
      \<exists>u'. mem_sdu m' (seg_sdu s) = Some u' \<and> sdu_size u' = sdu_size u"
  shows "segs_ok m' xs"
  unfolding segs_ok_def
proof
  fix s
  assume s: "s \<in> set xs"
  with assms(1) obtain u where "mem_sdu m (seg_sdu s) = Some u" "seg_within u s"
    by (auto simp: segs_ok_def)
  with assms(2) [OF s] show "\<exists>u. mem_sdu m' (seg_sdu s) = Some u \<and> seg_within u s"
    by (auto simp: seg_within_def)
qed


subsection \<open>The contract of the SDU memory\<close>

locale sdu_pool =
  fixes inv :: "'m \<Rightarrow> 's list \<Rightarrow> bool"
    and bytes :: "'m \<Rightarrow> int"
    and owner_size :: "'m \<Rightarrow> 's \<Rightarrow> int"
    and alloc :: "'m \<Rightarrow> byte list \<Rightarrow> int \<Rightarrow> 's \<times> 'm"
    and release :: "'m \<Rightarrow> 's \<Rightarrow> (bool \<times> 'm) result"
  assumes inv_perm: "inv m xs \<Longrightarrow> mset xs = mset ys \<Longrightarrow> inv m ys"
    and alloc_inv: "inv m xs \<Longrightarrow> alloc m data uid = (s, m') \<Longrightarrow> inv m' (s # xs)"
    and alloc_bytes: "inv m xs \<Longrightarrow> alloc m data uid = (s, m') \<Longrightarrow>
      bytes m' = bytes m + int (length data)"
    and release_inv: "inv m (s # xs) \<Longrightarrow> \<exists>freed m'. release m s = Inr (freed, m') \<and> inv m' xs \<and>
      bytes m' = bytes m - (if freed then owner_size m s else 0)"
    and bytes_nonneg: "inv m xs \<Longrightarrow> 0 \<le> bytes m"
    and bytes_none: "inv m [] \<Longrightarrow> bytes m = 0"
begin

fun release_all :: "'s list \<Rightarrow> 'm \<Rightarrow> 'm result" where
  "release_all [] m = Inr m"
| "release_all (s # xs) m = bind_r (release m s) (\<lambda>(_, m'). release_all xs m')"

text \<open>Releasing segments never touches freed memory and leaves the rest accounted for.\<close>

lemma release_all_inv:
  "inv m (xs @ ys) \<Longrightarrow> \<exists>m'. release_all xs m = Inr m' \<and> inv m' ys"
proof (induction xs arbitrary: m)
  case Nil
  then show ?case by simp
next
  case (Cons s xs)
  then have "inv m (s # (xs @ ys))" by simp
  from release_inv [OF this] obtain freed m1 where
    m1: "release m s = Inr (freed, m1)" "inv m1 (xs @ ys)" by blast
  from Cons.IH [OF m1(2)] m1(1) show ?case by simp
qed

lemma release_everything:
  assumes "inv m xs"
  shows "\<exists>m'. release_all xs m = Inr m' \<and> inv m' [] \<and> bytes m' = 0"
proof -
  from assms have "inv m (xs @ [])" by simp
  from release_all_inv [OF this] show ?thesis using bytes_none by blast
qed

end

lemma new_sdu_inv:
  assumes "mem_inv m xs" and "nr_rlc_new_sdu m data uid = (s, m')"
  shows "mem_inv m' (s # xs)"
proof -
  have "mem_sdu m (mem_next m) = None" using assms(1) by (simp add: mem_inv_def)
  with assms(1) have "live_refs xs (mem_next m) = 0" by (simp add: mem_inv_def)
  with assms show ?thesis
    by (auto simp: nr_rlc_new_sdu_def mem_inv_def sdu_counted_def)
qed

lemma new_sdu_bytes:
  assumes "mem_inv m xs" and "nr_rlc_new_sdu m data uid = (s, m')"
  shows "mem_bytes m' = mem_bytes m + int (length data)"
  using assms(2) by (auto simp: nr_rlc_new_sdu_def mem_bytes_def)

definition owner_size :: "sdu_mem_t \<Rightarrow> nr_rlc_sdu_segment_t \<Rightarrow> int" where
  "owner_size m s = (case mem_sdu m (seg_sdu s) of None \<Rightarrow> 0 | Some u \<Rightarrow> sdu_size u)"

lemma free_segment_inv:
  assumes "mem_inv m (s # xs)"
  shows "\<exists>freed m'. nr_rlc_free_sdu_segment m s = Inr (freed, m') \<and> mem_inv m' xs \<and>
    mem_bytes m' = mem_bytes m - (if freed then owner_size m s else 0) \<and>
    (freed \<longleftrightarrow> seg_sdu s \<notin> seg_sdu ` set xs) \<and> mem_next m' = mem_next m \<and>
    (\<forall>a. a \<noteq> seg_sdu s \<longrightarrow> mem_sdu m' a = mem_sdu m a) \<and>
    (\<not> freed \<longrightarrow> (\<exists>u. mem_sdu m (seg_sdu s) = Some u \<and>
       mem_sdu m' (seg_sdu s) = Some (u\<lparr>sdu_free_count := sdu_free_count u + 1\<rparr>)))"
proof -
  obtain u where u: "mem_sdu m (seg_sdu s) = Some u"
    using mem_inv_live [OF assms, of s] by auto
  with assms have cnt: "sdu_ref_count u = sdu_free_count u + int (live_refs (s # xs) (seg_sdu s))"
    and size: "sdu_size u = int (length (sdu_data u))"
    by (auto simp: mem_inv_def sdu_counted_def)
  have below: "seg_sdu s < mem_next m" using mem_inv_below_next [OF assms u] .
  show ?thesis
  proof (cases "live_refs xs (seg_sdu s) = 0")
    case True
    let ?m = "m\<lparr>mem_sdu := (mem_sdu m)(seg_sdu s := None)\<rparr>"
    have "mem_inv ?m xs"
      by (rule mem_inv_upd [OF assms below]) (simp_all add: True)
    moreover have "mem_bytes ?m = mem_bytes m - sdu_size u"
      using mem_bytes_update [OF below u, of None] by simp
    ultimately show ?thesis
      using u cnt True
      by (auto simp: nr_rlc_free_sdu_segment_def sdu_at_def Let_def owner_size_def live_refs_zero)
  next
    case False
    let ?m = "sdu_put m (seg_sdu s) (u\<lparr>sdu_free_count := sdu_free_count u + 1\<rparr>)"
    have "mem_inv ?m xs"
      unfolding sdu_put_def
      by (rule mem_inv_upd [OF assms below]) (use False cnt size in \<open>simp_all add: sdu_counted_def\<close>)
    moreover have "mem_bytes ?m = mem_bytes m"
      using mem_bytes_update [OF below u, of "Some (u\<lparr>sdu_free_count := sdu_free_count u + 1\<rparr>)"]
      by (simp add: sdu_put_def)
    ultimately show ?thesis
      using u cnt False
      by (auto simp: nr_rlc_free_sdu_segment_def sdu_at_def Let_def live_refs_zero)
  qed
qed

lemma mem_bytes_nonneg: "mem_inv m xs \<Longrightarrow> 0 \<le> mem_bytes m"
  unfolding mem_bytes_def
  by (intro sum_nonneg) (auto split: option.splits dest: mem_inv_size)

lemma mem_inv_none: "mem_inv m [] \<Longrightarrow> mem_sdu m a = None"
  by (cases "mem_sdu m a") (auto simp: mem_inv_def sdu_counted_def)

lemma mem_bytes_none: "mem_inv m [] \<Longrightarrow> mem_bytes m = 0"
  using mem_inv_none [of m] by (simp add: mem_bytes_def)

interpretation pool: sdu_pool mem_inv mem_bytes owner_size nr_rlc_new_sdu nr_rlc_free_sdu_segment
proof unfold_locales
  fix m s xs
  assume "mem_inv m (s # xs)"
  then show "\<exists>freed m'. nr_rlc_free_sdu_segment m s = Inr (freed, m') \<and> mem_inv m' xs \<and>
      mem_bytes m' = mem_bytes m - (if freed then owner_size m s else 0)"
    using free_segment_inv by blast
qed (auto intro: mem_inv_perm new_sdu_inv new_sdu_bytes mem_bytes_nonneg mem_bytes_none)

lemma free_list_release_all: "nr_rlc_free_sdu_segment_list xs m = pool.release_all xs m"
  by (induction xs arbitrary: m) (simp_all add: split_def)

lemma free_list_inv:
  "mem_inv m (xs @ ys) \<Longrightarrow> \<exists>m'. nr_rlc_free_sdu_segment_list xs m = Inr m' \<and> mem_inv m' ys"
  by (simp only: free_list_release_all) (rule pool.release_all_inv)

lemma free_segment_sizes:
  assumes "nr_rlc_free_sdu_segment m s = Inr (freed, m')" and "mem_sdu m' a = Some u'"
  shows "\<exists>u. mem_sdu m a = Some u \<and> sdu_size u = sdu_size u' \<and> sdu_sn u = sdu_sn u' \<and>
    sdu_data u = sdu_data u' \<and> sdu_upper_layer_id u = sdu_upper_layer_id u'"
  using assms
  by (auto simp: nr_rlc_free_sdu_segment_def result_simps Let_def sdu_put_def split: if_splits)

lemma free_segment_segs_ok:
  assumes "mem_inv m (s # xs)" and "segs_ok m xs"
    and "nr_rlc_free_sdu_segment m s = Inr (freed, m')"
  shows "segs_ok m' xs"
proof (rule segs_ok_same_size [OF assms(2)])
  fix t u
  assume t: "t \<in> set xs" "mem_sdu m (seg_sdu t) = Some u"
  from free_segment_inv [OF assms(1)] assms(3) have inv: "mem_inv m' xs" by auto
  from mem_inv_live [OF inv t(1)] obtain u' where "mem_sdu m' (seg_sdu t) = Some u'" by blast
  with free_segment_sizes [OF assms(3) this] t(2)
  show "\<exists>u'. mem_sdu m' (seg_sdu t) = Some u' \<and> sdu_size u' = sdu_size u" by auto
qed

text \<open>Splitting a segment adds one reference to its SDU.\<close>

lemma split_segment_inv:
  assumes "mem_inv m (s # xs)" and "mem_sdu m (seg_sdu s) = Some u"
    and "seg_sdu s1 = seg_sdu s" and "seg_sdu s2 = seg_sdu s"
    and "sdu_size u' = sdu_size u" and "sdu_data u' = sdu_data u"
    and "sdu_ref_count u' = sdu_ref_count u + 1" and "sdu_free_count u' = sdu_free_count u"
  shows "mem_inv (sdu_put m (seg_sdu s) u') (s1 # s2 # xs)"
    and "mem_bytes (sdu_put m (seg_sdu s) u') = mem_bytes m"
proof -
  have below: "seg_sdu s < mem_next m" using mem_inv_below_next [OF assms(1,2)] .
  show "mem_inv (sdu_put m (seg_sdu s) u') (s1 # s2 # xs)"
    unfolding sdu_put_def
  proof (rule mem_inv_upd [OF assms(1) below])
    show "case Some u' of None \<Rightarrow> live_refs (s1 # s2 # xs) (seg_sdu s) = 0
      | Some w \<Rightarrow> sdu_counted (s1 # s2 # xs) (seg_sdu s) w"
      using assms by (auto simp: mem_inv_def sdu_counted_def)
  qed (use assms(3,4) in simp)
  show "mem_bytes (sdu_put m (seg_sdu s) u') = mem_bytes m"
    using mem_bytes_update [OF below assms(2), of "Some u'"] assms(5) by (simp add: sdu_put_def)
qed

text \<open>Writing fields that do not take part in the accounting.\<close>

lemma put_sdu_inv:
  assumes "mem_inv m xs" and "mem_sdu m a = Some u"
    and "sdu_size u' = sdu_size u" and "sdu_data u' = sdu_data u"
    and "sdu_ref_count u' = sdu_ref_count u" and "sdu_free_count u' = sdu_free_count u"
  shows "mem_inv (sdu_put m a u') xs" and "mem_bytes (sdu_put m a u') = mem_bytes m"
proof -
  have below: "a < mem_next m" using mem_inv_below_next [OF assms(1,2)] .
  show "mem_inv (sdu_put m a u') xs"
    using assms below by (auto simp: mem_inv_def sdu_counted_def)
  show "mem_bytes (sdu_put m a u') = mem_bytes m"
    using mem_bytes_update [OF below assms(2), of "Some u'"] assms(3) by (simp add: sdu_put_def)
qed

lemma put_sdu_segs_ok:
  "segs_ok m xs \<Longrightarrow> mem_sdu m a = Some u \<Longrightarrow> sdu_size u' = sdu_size u \<Longrightarrow> segs_ok (sdu_put m a u') xs"
  by (rule segs_ok_same_size [of m]) auto

lemma new_sdu_seg:
  assumes "nr_rlc_new_sdu m data uid = (s, m')"
  shows "seg_size s = int (length data)" and "seg_is_first s" and "seg_is_last s" and "seg_so s = 0"
    and "seg_sdu s = mem_next m"
  using assms by (auto simp: nr_rlc_new_sdu_def)

lemma new_sdu_segs_ok:
  assumes "nr_rlc_new_sdu m data uid = (s, m')" and "mem_inv m xs" and "segs_ok m xs"
    and "data \<noteq> []"
  shows "segs_ok m' (s # xs)"
proof -
  have "segs_ok m' xs"
    by (rule segs_ok_same_size [OF assms(3)])
      (use assms(1) mem_inv_below_next [OF assms(2)] in \<open>fastforce simp: nr_rlc_new_sdu_def\<close>)
  with assms(1,4) show ?thesis by (auto simp: nr_rlc_new_sdu_def seg_within_def)
qed



subsection \<open>The bytes a segment stands for\<close>

definition seg_bytes :: "sdu_mem_t \<Rightarrow> nr_rlc_sdu_segment_t \<Rightarrow> byte list" where
  "seg_bytes m s = (case mem_sdu m (seg_sdu s) of None \<Rightarrow> []
     | Some u \<Rightarrow> take (nat (seg_size s)) (drop (nat (seg_so s)) (sdu_data u)))"

lemma length_seg_bytes:
  assumes "mem_inv m xs" and "mem_sdu m (seg_sdu s) = Some u" and "seg_within u s"
  shows "int (length (seg_bytes m s)) = seg_size s"
proof -
  from assms(3) mem_inv_size [OF assms(1,2)]
  have "0 \<le> seg_so s" "0 < seg_size s" "seg_so s + seg_size s \<le> int (length (sdu_data u))"
    by (simp_all add: seg_within_def)
  then have "nat (seg_size s) \<le> length (sdu_data u) - nat (seg_so s)" by linarith
  with \<open>0 < seg_size s\<close> assms(2) show ?thesis by (simp add: seg_bytes_def)
qed

lemma free_segment_bytes:
  assumes "mem_inv m (s # xs)" and "nr_rlc_free_sdu_segment m s = Inr (freed, m')"
    and "t \<in> set xs"
  shows "seg_bytes m' t = seg_bytes m t"
proof -
  from free_segment_inv [OF assms(1)] assms(2) have "mem_inv m' xs" by auto
  from mem_inv_live [OF this assms(3)] obtain u' where u': "mem_sdu m' (seg_sdu t) = Some u'"
    by blast
  from free_segment_sizes [OF assms(2) u'] obtain u where
    "mem_sdu m (seg_sdu t) = Some u" "sdu_data u = sdu_data u'" by blast
  with u' show ?thesis by (simp add: seg_bytes_def)
qed

lemma new_sdu_bytes_same:
  assumes "mem_inv m xs" and "nr_rlc_new_sdu m data uid = (s, m')"
  shows "seg_bytes m' s = data" and "t \<in> set xs \<Longrightarrow> seg_bytes m' t = seg_bytes m t"
proof -
  show "seg_bytes m' s = data"
    using assms(2) by (auto simp: nr_rlc_new_sdu_def seg_bytes_def)
  assume t: "t \<in> set xs"
  from mem_inv_live [OF assms(1) t] obtain u where u: "mem_sdu m (seg_sdu t) = Some u" by blast
  with mem_inv_below_next [OF assms(1) u] assms(2)
  have "mem_sdu m' (seg_sdu t) = Some u" by (auto simp: nr_rlc_new_sdu_def)
  with u show "seg_bytes m' t = seg_bytes m t" by (simp add: seg_bytes_def)
qed

lemma put_sdu_bytes:
  "mem_sdu m a = Some u \<Longrightarrow> sdu_data u' = sdu_data u \<Longrightarrow> seg_bytes (sdu_put m a u') t = seg_bytes m t"
  by (auto simp: seg_bytes_def split: option.splits)

lemma map_seg_bytes_same:
  "(\<And>t. t \<in> set xs \<Longrightarrow> seg_bytes m' t = seg_bytes m t) \<Longrightarrow> map (seg_bytes m') xs = map (seg_bytes m) xs"
  by simp

text \<open>Cutting a segment after \<open>k\<close> bytes.\<close>

lemma seg_split:
  assumes "seg_within u s" and "0 < k" and "k < seg_size s"
    and "s1 = s\<lparr>seg_size := k, seg_is_last := False\<rparr>"
    and "s2 = s\<lparr>seg_size := seg_size s - k, seg_so := seg_so s + k, seg_is_first := False\<rparr>"
  shows "seg_within u s1" and "seg_within u s2" and "seg_bytes m s = seg_bytes m s1 @ seg_bytes m s2"
proof -
  show "seg_within u s1" "seg_within u s2" using assms by (auto simp: seg_within_def)
  have "nat (seg_size s) = nat k + nat (seg_size s - k)" "nat (seg_so s + k) = nat (seg_so s) + nat k"
    using assms(1-3) by (auto simp: seg_within_def nat_add_distrib)
  then show "seg_bytes m s = seg_bytes m s1 @ seg_bytes m s2"
    using assms(4,5)
    by (auto simp: seg_bytes_def take_add add.commute split: option.splits)
qed

end
