(* ===== verification/Rlc_Entity.thy ===== *)
theory Rlc_Entity
  imports Time_Stat Rlc_Pdu Rlc_Sdu
begin

text \<open>
  \<open>openair2/LAYER2/nr_rlc/nr_rlc_entity.h\<close> and the parts of \<open>nr_rlc_entity.c\<close> common to the three
  RLC modes: statistics, buffer status, the state every entity starts with, and the calls an
  entity makes to its user.

  The C structure begins with a table of function pointers set at creation. In the model the
  operations of a mode are definitions of its theory; the locale \<open>rlc_tx_entity\<close> states what the
  transmit side of that table promises, and each mode interprets it. A callback
  (\<open>deliver_sdu\<close>, \<open>sdu_successful_delivery\<close>, \<open>max_retx_reached\<close>) is an \<open>rlc_event\<close> in the list an
  operation returns. \<open>now\<close> is the value the system clock returns in \<open>time_average_now\<close>.
\<close>

datatype nr_rlc_mode_t = NR_RLC_AM | NR_RLC_UM | NR_RLC_TM

record nr_rlc_statistics_t =
  mode :: nr_rlc_mode_t
  txpdu_pkts :: u32
  txpdu_bytes :: u32
  txpdu_wt_ms :: u32
  txpdu_dd_pkts :: u32
  txpdu_dd_bytes :: u32
  txpdu_retx_pkts :: u32
  txpdu_retx_bytes :: u32
  txpdu_segmented :: u32
  txpdu_status_pkts :: u32
  txpdu_status_bytes :: u32
  txbuf_occ_bytes :: u32
  txbuf_occ_pkts :: u32
  rxpdu_pkts :: u32
  rxpdu_bytes :: u32
  rxpdu_dup_pkts :: u32
  rxpdu_dup_bytes :: u32
  rxpdu_dd_pkts :: u32
  rxpdu_dd_bytes :: u32
  rxpdu_ow_pkts :: u32
  rxpdu_ow_bytes :: u32
  rxpdu_status_pkts :: u32
  rxpdu_status_bytes :: u32
  rxbuf_occ_bytes :: u32
  rxbuf_occ_pkts :: u32
  txsdu_pkts :: u32
  txsdu_bytes :: u64
  txsdu_avg_time :: "u64 \<times> nat"
  txsdu_wt_us :: u32
  rxsdu_pkts :: u32
  rxsdu_bytes :: u64
  rxsdu_dd_pkts :: u32
  rxsdu_dd_bytes :: u32

definition nr_rlc_statistics_zero :: "nr_rlc_mode_t \<Rightarrow> nr_rlc_statistics_t" where
  "nr_rlc_statistics_zero m =
     \<lparr>mode = m, txpdu_pkts = 0, txpdu_bytes = 0, txpdu_wt_ms = 0, txpdu_dd_pkts = 0,
      txpdu_dd_bytes = 0, txpdu_retx_pkts = 0, txpdu_retx_bytes = 0, txpdu_segmented = 0,
      txpdu_status_pkts = 0, txpdu_status_bytes = 0, txbuf_occ_bytes = 0, txbuf_occ_pkts = 0,
      rxpdu_pkts = 0, rxpdu_bytes = 0, rxpdu_dup_pkts = 0, rxpdu_dup_bytes = 0, rxpdu_dd_pkts = 0,
      rxpdu_dd_bytes = 0, rxpdu_ow_pkts = 0, rxpdu_ow_bytes = 0, rxpdu_status_pkts = 0,
      rxpdu_status_bytes = 0, rxbuf_occ_bytes = 0, rxbuf_occ_pkts = 0, txsdu_pkts = 0,
      txsdu_bytes = 0, txsdu_avg_time = (0, 1), txsdu_wt_us = 0, rxsdu_pkts = 0, rxsdu_bytes = 0,
      rxsdu_dd_pkts = 0, rxsdu_dd_bytes = 0\<rparr>"

record nr_rlc_entity_buffer_status_t =
  bs_status_size :: int
  bs_tx_size :: int
  bs_retx_size :: int

text \<open>\<open>sdu_mem\<close> is the part of the heap that holds the SDUs of the entity.\<close>

record nr_rlc_entity_t =
  bstatus :: nr_rlc_entity_buffer_status_t
  stats :: nr_rlc_statistics_t
  txsdu_avg_time_to_tx :: time_average_t
  avg_time_is_on :: bool
  sdu_mem :: sdu_mem_t

datatype rlc_event =
    Deliver_sdu "byte list"
  | Sdu_successful_delivery int
  | Max_retx_reached

definition NR_SDU_MAX :: int where
  "NR_SDU_MAX = 16000"

definition bstatus_zero :: nr_rlc_entity_buffer_status_t where
  "bstatus_zero = \<lparr>bs_status_size = 0, bs_tx_size = 0, bs_retx_size = 0\<rparr>"

text \<open>The waiting time of a transmitted SDU goes into the average when the average is on.\<close>

definition record_waited_time :: "u64 \<Rightarrow> nr_rlc_sdu_t \<Rightarrow> 'a nr_rlc_entity_t_scheme \<Rightarrow> 'a nr_rlc_entity_t_scheme" where
  "record_waited_time now u e =
     (if avg_time_is_on e
      then e\<lparr>txsdu_avg_time_to_tx :=
               time_average_add (txsdu_avg_time_to_tx e) now (now - sdu_time_of_arrival u)\<rparr>
      else e)"

text \<open>Statistics reported to the user. \<open>hol\<close> is the list whose head is the next SDU to transmit:
  the AM entity gives its retransmission list when that is not empty, and every entity its
  transmit list otherwise.\<close>

definition nr_rlc_entity_get_stats ::
  "u64 \<Rightarrow> nr_rlc_sdu_segment_t list \<Rightarrow> 'a nr_rlc_entity_t_scheme \<Rightarrow>
   (nr_rlc_statistics_t \<times> 'a nr_rlc_entity_t_scheme) result" where
  "nr_rlc_entity_get_stats now hol e =
     bind_r (case hol of [] \<Rightarrow> Inr 0
             | sdu # _ \<Rightarrow> bind_r (sdu_at (sdu_mem e) (seg_sdu sdu)) (\<lambda>u.
                 Inr (ucast (now - sdu_time_of_arrival u)))) (\<lambda>wt.
     let out = (stats e)\<lparr>txsdu_wt_us := wt\<rparr> in
     if avg_time_is_on e
     then (let (t, avg) = time_average_get_average (txsdu_avg_time_to_tx e) now in
           Inr (out\<lparr>txsdu_avg_time := avg\<rparr>, e\<lparr>txsdu_avg_time_to_tx := t\<rparr>))
     else Inr (out\<lparr>txsdu_avg_time := (0, 1)\<rparr>, e))"

text \<open>A small average for concrete entities.\<close>

definition idle_average :: time_average_t where
  "idle_average =
     \<lparr>ta_duration = 0, ta_r = \<lparr>ring_head = 0, ring_tail = 0, ring_buffer = [time_value_zero],
        ring_maxsize = 1, ring_size = 0\<rparr>, ta_accumulated_value = 0\<rparr>"

lemma record_waited_time_simps [simp]:
  "bstatus (record_waited_time now u e) = bstatus e"
  "stats (record_waited_time now u e) = stats e"
  "avg_time_is_on (record_waited_time now u e) = avg_time_is_on e"
  "sdu_mem (record_waited_time now u e) = sdu_mem e"
  "nr_rlc_entity_t.more (record_waited_time now u e) = nr_rlc_entity_t.more e"
  by (simp_all add: record_waited_time_def)


subsection \<open>The transmit side of an RLC entity\<close>

datatype tx_op =
    Op_recv_sdu u64 "byte list" int
  | Op_generate_pdu u64 "byte list"
  | Op_reestablishment

definition sdu_size_ok :: "byte list \<Rightarrow> bool" where
  "sdu_size_ok buffer \<longleftrightarrow> buffer \<noteq> [] \<and> int (length buffer) \<le> NR_SDU_MAX"

text \<open>What the users of an entity rely on, whatever its mode: an SDU of legal size can always be
  submitted, a grant of the MAC is never overrun, and neither call can fail or leave the entity in
  a bad state. \<open>grant_ok\<close> is the set of grants for which a mode promises this.\<close>

locale rlc_tx_entity =
  fixes inv :: "'e \<Rightarrow> bool"
    and grant_ok :: "nat \<Rightarrow> bool"
    and recv_sdu :: "u64 \<Rightarrow> byte list \<Rightarrow> int \<Rightarrow> 'e \<Rightarrow> 'e result"
    and generate_pdu :: "u64 \<Rightarrow> byte list \<Rightarrow> 'e \<Rightarrow> (int \<times> byte list \<times> 'e) result"
    and reestablishment :: "'e \<Rightarrow> 'e result"
    and available_tx_space :: "'e \<Rightarrow> int"
  assumes recv_sdu_inv: "inv e \<Longrightarrow> sdu_size_ok buffer \<Longrightarrow>
      \<exists>e'. recv_sdu now buffer sdu_id e = Inr e' \<and> inv e'"
    and generate_pdu_inv: "inv e \<Longrightarrow> grant_ok (length buffer) \<Longrightarrow>
      \<exists>ret buffer' e'. generate_pdu now buffer e = Inr (ret, buffer', e') \<and> inv e' \<and>
        0 \<le> ret \<and> ret \<le> int (length buffer) \<and> length buffer' = length buffer"
    and reestablishment_inv: "inv e \<Longrightarrow> \<exists>e'. reestablishment e = Inr e' \<and> inv e'"
    and space_nonneg: "inv e \<Longrightarrow> 0 \<le> available_tx_space e"
begin

fun run_op :: "tx_op \<Rightarrow> 'e \<Rightarrow> 'e result" where
  "run_op (Op_recv_sdu now buffer sdu_id) e = recv_sdu now buffer sdu_id e"
| "run_op (Op_generate_pdu now buffer) e = bind_r (generate_pdu now buffer e) (\<lambda>(_, _, e'). Inr e')"
| "run_op Op_reestablishment e = reestablishment e"

fun op_ok :: "tx_op \<Rightarrow> bool" where
  "op_ok (Op_recv_sdu now buffer sdu_id) \<longleftrightarrow> sdu_size_ok buffer"
| "op_ok (Op_generate_pdu now buffer) \<longleftrightarrow> grant_ok (length buffer)"
| "op_ok Op_reestablishment \<longleftrightarrow> True"

fun run_ops :: "tx_op list \<Rightarrow> 'e \<Rightarrow> 'e result" where
  "run_ops [] e = Inr e"
| "run_ops (x # xs) e = bind_r (run_op x e) (run_ops xs)"

lemma run_op_inv: "inv e \<Longrightarrow> op_ok x \<Longrightarrow> \<exists>e'. run_op x e = Inr e' \<and> inv e'"
proof (cases x)
  case (Op_recv_sdu now buffer sdu_id)
  assume "inv e" "op_ok x"
  with recv_sdu_inv [of e buffer now sdu_id] Op_recv_sdu show ?thesis by simp
next
  case (Op_generate_pdu now buffer)
  assume "inv e" "op_ok x"
  with generate_pdu_inv [of e buffer now] Op_generate_pdu show ?thesis by auto
next
  case Op_reestablishment
  assume "inv e" "op_ok x"
  with reestablishment_inv [of e] Op_reestablishment show ?thesis by simp
qed

text \<open>Any interleaving of calls succeeds, and the space left is never negative.\<close>

lemma run_ops_inv:
  "inv e \<Longrightarrow> list_all op_ok xs \<Longrightarrow> \<exists>e'. run_ops xs e = Inr e' \<and> inv e' \<and> 0 \<le> available_tx_space e'"
proof (induction xs arbitrary: e)
  case Nil
  then show ?case using space_nonneg [of e] by simp
next
  case (Cons x xs)
  then obtain e1 where "run_op x e = Inr e1" "inv e1" using run_op_inv [of e x] by auto
  with Cons.IH [of e1] Cons.prems show ?case by simp
qed

end

end
