(* ===== verification/Rlc_Reasm.thy ===== *)
theory Rlc_Reasm
  imports Rlc_Entity
begin

text \<open>
  The reception list of the UM and AM entities and the reassembly of SDUs from it. The functions
  \<open>sdu_full\<close>, \<open>sdu_delivered\<close> and \<open>sdu_has_missing_bytes\<close> have the same text in \<open>nr_rlc_entity_um.c\<close> and
  \<open>nr_rlc_entity_am.c\<close>; they are modelled once, on the list. The reassembly is that of the UM entity, which
  sets the size of a delivered PDU to zero.

  The segments of an SDU are \<open>consistent\<close> with it when each carries the bytes at its offset and its
  flags tell the truth; they may overlap and repeat. The main facts are that \<open>sdu_full\<close> then
  decides whether every byte has arrived and that reassembly yields the SDU. The locale
  \<open>sn_window\<close> collects what the entities need of the position of a sequence number in a window.
\<close>

definition first_of :: "int \<Rightarrow> nr_rlc_pdu_t list \<Rightarrow> nr_rlc_pdu_t list" where
  "first_of sn l = dropWhile (\<lambda>p. pdu_sn p \<noteq> sn) l"

fun sdu_full_loop :: "int \<Rightarrow> int \<Rightarrow> nr_rlc_pdu_t list \<Rightarrow> bool" where
  "sdu_full_loop sn last_byte [] = False"
| "sdu_full_loop sn last_byte (p # l) =
     (if pdu_sn p \<noteq> sn then False
      else if pdu_so p > last_byte + 1 then False
      else if pdu_is_last p then True
      else let new_last_byte = pdu_so p + pdu_size p - 1 in
           sdu_full_loop sn (if new_last_byte > last_byte then new_last_byte else last_byte) l)"

definition sdu_full :: "nr_rlc_pdu_t list \<Rightarrow> int \<Rightarrow> bool" where
  "sdu_full rx_list sn =
     (let l = first_of sn rx_list in
      if l \<noteq> [] \<and> pdu_data (hd l) = None then False else sdu_full_loop sn (-1) l)"

definition sdu_delivered :: "nr_rlc_pdu_t list \<Rightarrow> int \<Rightarrow> bool" where
  "sdu_delivered rx_list sn =
     (let l = first_of sn rx_list in l \<noteq> [] \<and> pdu_data (hd l) = None)"

fun missing_bytes_loop :: "int \<Rightarrow> int \<Rightarrow> nr_rlc_pdu_t list \<Rightarrow> bool" where
  "missing_bytes_loop sn last_byte [] = False"
| "missing_bytes_loop sn last_byte (p # l) =
     (if pdu_sn p \<noteq> sn then False
      else if pdu_so p > last_byte + 1 then True
      else let new_last_byte = pdu_so p + pdu_size p - 1 in
           missing_bytes_loop sn (if new_last_byte > last_byte then new_last_byte else last_byte) l)"

definition sdu_has_missing_bytes :: "nr_rlc_pdu_t list \<Rightarrow> int \<Rightarrow> bool" where
  "sdu_has_missing_bytes rx_list sn =
     (let l = first_of sn rx_list in
      if l \<noteq> [] \<and> pdu_data (hd l) = None then False else missing_bytes_loop sn (-1) l)"

text \<open>The loop of \<open>reassemble_and_deliver\<close>. \<open>sdu\<close> holds the bytes written so far, so the C variable
  \<open>so\<close> is its length. The result has the list with the data of the SDU freed, the bytes, whether the
  SDU is too big, and the bytes taken off \<open>rx_size\<close>.\<close>

definition copy_segment :: "byte list \<Rightarrow> nr_rlc_pdu_t \<Rightarrow> bool \<Rightarrow> (byte list \<times> bool) result" where
  "copy_segment sdu p bad_sdu =
     (let so = int (length sdu);
          len = pdu_size p - (so - pdu_so p);
          bad_sdu = (bad_sdu \<or> so + len > NR_SDU_MAX) in
      if \<not> bad_sdu \<and> len > 0
      then (case pdu_data p of
              None \<Rightarrow> Inl Null_deref
            | Some data \<Rightarrow> bind_r (read_at data (so - pdu_so p) len) (\<lambda>bs. Inr (sdu @ bs, bad_sdu)))
      else Inr (sdu, bad_sdu))"

fun reassemble_loop ::
  "int \<Rightarrow> nr_rlc_pdu_t list \<Rightarrow> byte list \<Rightarrow> bool \<Rightarrow> (nr_rlc_pdu_t list \<times> byte list \<times> bool \<times> int) result" where
  "reassemble_loop sn [] sdu bad_sdu = Inr ([], sdu, bad_sdu, 0)"
| "reassemble_loop sn (p # l) sdu bad_sdu =
     (if pdu_sn p \<noteq> sn then Inr (p # l, sdu, bad_sdu, 0)
      else
        bind_r (copy_segment sdu p bad_sdu) (\<lambda>(sdu', bad').
        bind_r (reassemble_loop sn l sdu' bad') (\<lambda>(l', sdu'', bad'', freed).
          Inr (p\<lparr>pdu_data := None, pdu_size := 0\<rparr> # l', sdu'', bad'', freed + pdu_size p))))"

text \<open>\<open>Some sdu\<close> is an SDU to deliver, \<open>None\<close> one that is too big.\<close>

definition reassemble ::
  "nr_rlc_pdu_t list \<Rightarrow> int \<Rightarrow> (nr_rlc_pdu_t list \<times> int \<times> byte list option) result" where
  "reassemble rx_list sn =
     (let front = takeWhile (\<lambda>p. pdu_sn p \<noteq> sn) rx_list; l = first_of sn rx_list in
      if l = [] then Inl Null_deref
      else bind_r (reassemble_loop sn l [] False) (\<lambda>(l', sdu, bad_sdu, freed).
             Inr (front @ l', freed, if bad_sdu then None else Some sdu)))"


subsection \<open>Consistent segments\<close>

definition seg_of :: "byte list \<Rightarrow> nr_rlc_pdu_t \<Rightarrow> bool" where
  "seg_of d p \<longleftrightarrow> (case pdu_data p of None \<Rightarrow> False | Some b \<Rightarrow>
     0 \<le> pdu_so p \<and> 0 < pdu_size p \<and> pdu_size p = int (length b) \<and>
     pdu_so p + pdu_size p \<le> int (length d) \<and> b = take (length b) (drop (nat (pdu_so p)) d) \<and>
     (pdu_is_last p \<longleftrightarrow> pdu_so p + pdu_size p = int (length d)))"

definition covers :: "nr_rlc_pdu_t \<Rightarrow> int \<Rightarrow> bool" where
  "covers p i \<longleftrightarrow> pdu_so p \<le> i \<and> i < pdu_so p + pdu_size p"

definition freed_pdu :: "nr_rlc_pdu_t \<Rightarrow> nr_rlc_pdu_t" where
  "freed_pdu p = p\<lparr>pdu_data := None, pdu_size := 0\<rparr>"

definition block_of :: "int \<Rightarrow> nr_rlc_pdu_t list \<Rightarrow> nr_rlc_pdu_t list \<Rightarrow> bool" where
  "block_of sn segs rest \<longleftrightarrow> (\<forall>p \<in> set segs. pdu_sn p = sn) \<and> (rest = [] \<or> pdu_sn (hd rest) \<noteq> sn)"

lemma block_of_Cons: "block_of sn (p # segs) rest \<longleftrightarrow> pdu_sn p = sn \<and> block_of sn segs rest"
  by (auto simp: block_of_def)

lemma sdu_full_loop_stop: "block_of sn [] rest \<Longrightarrow> \<not> sdu_full_loop sn k rest"
  by (cases rest) (auto simp: block_of_def)

lemma reassemble_loop_stop:
  "block_of sn [] rest \<Longrightarrow> reassemble_loop sn rest sdu bad = Inr (rest, sdu, bad, 0)"
  by (cases rest) (auto simp: block_of_def)

lemma copy_segment_old:
  assumes "seg_of d p" and "n \<le> length d" and "pdu_so p + pdu_size p \<le> int n"
    and "int (length d) \<le> NR_SDU_MAX"
  shows "copy_segment (take n d) p False = Inr (take n d, False)"
  using assms by (auto simp: copy_segment_def Let_def seg_of_def split: option.splits)

lemma copy_segment_new:
  assumes seg: "seg_of d p" and "n \<le> length d" and "pdu_so p \<le> int n"
    and "int n < pdu_so p + pdu_size p" and "int (length d) \<le> NR_SDU_MAX"
  shows "copy_segment (take n d) p False = Inr (take (nat (pdu_so p + pdu_size p)) d, False)"
proof -
  obtain b where b: "pdu_data p = Some b" "0 \<le> pdu_so p" "pdu_size p = int (length b)"
    "pdu_so p + pdu_size p \<le> int (length d)" "b = take (length b) (drop (nat (pdu_so p)) d)"
    using seg by (auto simp: seg_of_def split: option.splits)
  define s where "s = nat (pdu_so p)"
  have s: "pdu_so p = int s" "s \<le> n" "n < s + length b" "s + length b \<le> length d"
    using b(2-4) assms(3,4) by (auto simp: s_def)
  have "take (s + length b - n) (drop (n - s) b) = take (s + length b - n) (drop n d)"
  proof -
    have "drop (n - s) b = take (length b - (n - s)) (drop n d)"
      by (subst b(5)) (use s in \<open>simp add: drop_take s_def [symmetric]\<close>)
    then show ?thesis using s by (simp add: min_def)
  qed
  moreover have "take n d @ take (s + length b - n) (drop n d) = take (s + length b) d"
    using s take_add [of n "s + length b - n" d] by simp
  moreover have "nat (int n - int s) = n - s" "nat (int (length b) - (int n - int s)) = s + length b - n"
    using s by auto
  ultimately show ?thesis
    using b s assms(2,5) by (simp add: copy_segment_def Let_def read_at_def nat_add_distrib)
qed

text \<open>One round of either loop on a consistent segment extends the known prefix of the SDU.\<close>

lemma copy_segment_step:
  assumes "seg_of d p" and "n \<le> length d" and "pdu_so p \<le> int n" and "int (length d) \<le> NR_SDU_MAX"
  shows "copy_segment (take n d) p False = Inr (take (max n (nat (pdu_so p + pdu_size p))) d, False)"
    and "max n (nat (pdu_so p + pdu_size p)) \<le> length d"
proof -
  have pos: "0 \<le> pdu_so p + pdu_size p" "pdu_so p + pdu_size p \<le> int (length d)"
    using assms(1) by (auto simp: seg_of_def split: option.splits)
  then show "max n (nat (pdu_so p + pdu_size p)) \<le> length d" using assms(2) by simp
  show "copy_segment (take n d) p False = Inr (take (max n (nat (pdu_so p + pdu_size p))) d, False)"
  proof (cases "int n < pdu_so p + pdu_size p")
    case True
    then have "max n (nat (pdu_so p + pdu_size p)) = nat (pdu_so p + pdu_size p)" by simp
    with copy_segment_new [OF assms(1-3) True assms(4)] show ?thesis by simp
  next
    case False
    then have "max n (nat (pdu_so p + pdu_size p)) = n" using pos by simp
    with copy_segment_old [OF assms(1,2) _ assms(4)] False show ?thesis by simp
  qed
qed

lemma reassemble_loop_rest:
  assumes "block_of sn segs rest" and "\<forall>p \<in> set segs. seg_of d p" and "int (length d) \<le> NR_SDU_MAX"
  shows "reassemble_loop sn (segs @ rest) d False =
    Inr (map freed_pdu segs @ rest, d, False, \<Sum>p\<leftarrow>segs. pdu_size p)"
  using assms
proof (induction segs)
  case Nil
  then show ?case by (simp add: reassemble_loop_stop)
next
  case (Cons p segs)
  then have seg: "seg_of d p" and "pdu_so p + pdu_size p \<le> int (length d)"
    by (auto simp: seg_of_def split: option.splits)
  with copy_segment_old [OF seg, of "length d"] Cons.prems(3)
  have "copy_segment d p False = Inr (d, False)" by simp
  with Cons show ?case by (simp add: block_of_Cons freed_pdu_def)
qed

lemma reassemble_loop_full:
  assumes "block_of sn segs rest" and "\<forall>p \<in> set segs. seg_of d p" and "int (length d) \<le> NR_SDU_MAX"
    and "n \<le> length d" and "sdu_full_loop sn (int n - 1) (segs @ rest)"
  shows "reassemble_loop sn (segs @ rest) (take n d) False =
    Inr (map freed_pdu segs @ rest, d, False, \<Sum>p\<leftarrow>segs. pdu_size p)"
  using assms
proof (induction segs arbitrary: n)
  case Nil
  then show ?case using sdu_full_loop_stop by simp
next
  case (Cons p segs)
  let ?n = "max n (nat (pdu_so p + pdu_size p))"
  have sn: "pdu_sn p = sn" and rest: "block_of sn segs rest" and seg: "seg_of d p"
    using Cons.prems by (auto simp: block_of_Cons)
  have so: "pdu_so p \<le> int n" using Cons.prems(5) sn by (auto split: if_splits)
  have pos: "0 \<le> pdu_so p + pdu_size p" using seg by (auto simp: seg_of_def split: option.splits)
  note step = copy_segment_step [OF seg Cons.prems(4) so Cons.prems(3)]
  have "reassemble_loop sn (segs @ rest) (take ?n d) False =
    Inr (map freed_pdu segs @ rest, d, False, \<Sum>p\<leftarrow>segs. pdu_size p)"
  proof (cases "pdu_is_last p")
    case True
    then have "?n = length d"
      using seg Cons.prems(4) by (auto simp: seg_of_def split: option.splits)
    with reassemble_loop_rest [OF rest _ Cons.prems(3)] Cons.prems(2) show ?thesis by simp
  next
    case False
    have "(if pdu_so p + pdu_size p - 1 > int n - 1 then pdu_so p + pdu_size p - 1 else int n - 1) = int ?n - 1"
      using pos by auto
    with Cons.prems(5) sn so False have "sdu_full_loop sn (int ?n - 1) (segs @ rest)"
      by (simp add: Let_def split: if_splits)
    with Cons.IH [OF rest _ Cons.prems(3) step(2)] Cons.prems(2) show ?thesis by simp
  qed
  with step(1) sn show ?case by (simp add: freed_pdu_def)
qed

text \<open>\<open>sdu_full\<close> decides whether every byte from \<open>n\<close> on has arrived.\<close>

lemma sdu_full_loop_covers:
  assumes "block_of sn segs rest" and "\<forall>p \<in> set segs. seg_of d p"
    and "sdu_full_loop sn (int n - 1) (segs @ rest)" and "int n \<le> i" and "i < int (length d)"
  shows "\<exists>p \<in> set segs. covers p i"
  using assms
proof (induction segs arbitrary: n)
  case Nil
  then show ?case using sdu_full_loop_stop by simp
next
  case (Cons p segs)
  have sn: "pdu_sn p = sn" and rest: "block_of sn segs rest" and seg: "seg_of d p"
    using Cons.prems by (auto simp: block_of_Cons)
  have so: "pdu_so p \<le> int n" using Cons.prems(3) sn by (auto split: if_splits)
  show ?case
  proof (cases "i < pdu_so p + pdu_size p")
    case True
    with so Cons.prems(4) show ?thesis by (auto simp: covers_def)
  next
    case False
    then have not_last: "\<not> pdu_is_last p"
      using seg Cons.prems(5) by (auto simp: seg_of_def split: option.splits)
    let ?n = "max n (nat (pdu_so p + pdu_size p))"
    have "(if pdu_so p + pdu_size p - 1 > int n - 1 then pdu_so p + pdu_size p - 1 else int n - 1) = int ?n - 1"
      using seg by (auto simp: seg_of_def split: option.splits)
    with Cons.prems(3) sn so not_last have "sdu_full_loop sn (int ?n - 1) (segs @ rest)"
      by (simp add: Let_def split: if_splits)
    with Cons.IH [OF rest _ this _ Cons.prems(5)] Cons.prems(2,4) False show ?thesis by auto
  qed
qed

lemma covers_sdu_full_loop:
  assumes "block_of sn segs rest" and "\<forall>p \<in> set segs. seg_of d p"
    and "sorted_wrt (\<lambda>p q. pdu_so p \<le> pdu_so q) segs" and "n < length d"
    and "\<And>i. int n \<le> i \<Longrightarrow> i < int (length d) \<Longrightarrow> \<exists>p \<in> set segs. covers p i"
  shows "sdu_full_loop sn (int n - 1) (segs @ rest)"
  using assms
proof (induction segs arbitrary: n)
  case Nil
  from Nil.prems(5) [of "int n"] Nil.prems(4) show ?case by simp
next
  case (Cons p segs)
  have sn: "pdu_sn p = sn" and rest: "block_of sn segs rest" and seg: "seg_of d p"
    using Cons.prems by (auto simp: block_of_Cons)
  from Cons.prems(5) [of "int n"] Cons.prems(3,4) have so: "pdu_so p \<le> int n"
    by (auto simp: covers_def)
  show ?case
  proof (cases "pdu_is_last p")
    case True
    with sn so show ?thesis by simp
  next
    case False
    let ?n = "max n (nat (pdu_so p + pdu_size p))"
    have n: "?n < length d" "(if pdu_so p + pdu_size p - 1 > int n - 1 then pdu_so p + pdu_size p - 1 else int n - 1) = int ?n - 1"
      using seg False Cons.prems(4) by (auto simp: seg_of_def split: option.splits)
    have "sdu_full_loop sn (int ?n - 1) (segs @ rest)"
    proof (rule Cons.IH [OF rest _ _ n(1)])
      fix i
      assume i: "int ?n \<le> i" "i < int (length d)"
      then have "\<not> covers p i" by (auto simp: covers_def)
      with Cons.prems(5) [of i] i show "\<exists>p \<in> set segs. covers p i" by auto
    qed (use Cons.prems(2,3) in auto)
    with n(2) sn so False show ?thesis by (simp add: Let_def split: if_splits)
  qed
qed



subsection \<open>The reception list\<close>

definition rx_sorted :: "(int \<Rightarrow> int) \<Rightarrow> nr_rlc_pdu_t list \<Rightarrow> bool" where
  "rx_sorted key l \<longleftrightarrow> sorted_wrt (\<lambda>p q. \<not> pdu_before key q p) l"

abbreviation of_sn :: "int \<Rightarrow> nr_rlc_pdu_t list \<Rightarrow> nr_rlc_pdu_t list" where
  "of_sn sn l \<equiv> filter (\<lambda>p. pdu_sn p = sn) l"

lemma rx_sorted_simps [simp]:
  "rx_sorted key []"
  "rx_sorted key (p # l) \<longleftrightarrow> (\<forall>q \<in> set l. \<not> pdu_before key q p) \<and> rx_sorted key l"
  by (simp_all add: rx_sorted_def)

lemma rx_sorted_append:
  "rx_sorted key (xs @ ys) \<longleftrightarrow> rx_sorted key xs \<and> rx_sorted key ys \<and>
     (\<forall>p \<in> set xs. \<forall>q \<in> set ys. \<not> pdu_before key q p)"
  by (simp add: rx_sorted_def sorted_wrt_append)

lemma rx_sorted_add: "rx_sorted key l \<Longrightarrow> rx_sorted key (nr_rlc_pdu_list_add (\<lambda>a b. key a - key b) l p)"
  unfolding rx_sorted_def by (rule pdu_list_add_sorted)

lemma rx_sorted_split:
  assumes "rx_sorted key l" and "inj_on key (insert sn (pdu_sn ` set l))"
    and "\<forall>p \<in> set l. key sn \<le> key (pdu_sn p)"
  shows "l = of_sn sn l @ dropWhile (\<lambda>p. pdu_sn p = sn) l"
  using assms
proof (induction l)
  case Nil
  then show ?case by simp
next
  case (Cons p l)
  show ?case
  proof (cases "pdu_sn p = sn")
    case True
    have "inj_on key (insert sn (pdu_sn ` set l))"
      by (rule inj_on_subset [OF Cons.prems(2)]) auto
    with Cons True show ?thesis by simp
  next
    case False
    then have "key sn < key (pdu_sn p)"
      using Cons.prems(2,3) by (force simp: inj_on_def)
    moreover have "key (pdu_sn p) \<le> key (pdu_sn q)" if "q \<in> set l" for q
      using Cons.prems(1) that by (auto simp: pdu_before_def not_less)
    ultimately have "pdu_sn q \<noteq> sn" if "q \<in> set l" for q using that by force
    with False show ?thesis by (simp add: filter_empty_conv)
  qed
qed

lemma first_of_block:
  assumes "rx_sorted key l" and "inj_on key (insert sn (pdu_sn ` set l))"
  shows "\<exists>rest. first_of sn l = of_sn sn l @ rest \<and> block_of sn (of_sn sn l) rest"
  using assms
proof (induction l)
  case Nil
  then show ?case by (simp add: first_of_def block_of_def)
next
  case (Cons p l)
  have inj: "inj_on key (insert sn (pdu_sn ` set l))"
    by (rule inj_on_subset [OF Cons.prems(2)]) auto
  show ?case
  proof (cases "pdu_sn p = sn")
    case True
    let ?rest = "dropWhile (\<lambda>p. pdu_sn p = sn) l"
    have "l = of_sn sn l @ ?rest"
      by (rule rx_sorted_split [OF _ inj])
        (use Cons.prems(1) True in \<open>auto simp: pdu_before_def not_less\<close>)
    moreover have "?rest = [] \<or> pdu_sn (hd ?rest) \<noteq> sn"
      using hd_dropWhile by blast
    ultimately show ?thesis
      using True by (intro exI [of _ ?rest]) (auto simp: first_of_def block_of_def)
  next
    case False
    with Cons.IH [OF _ inj] Cons.prems(1) show ?thesis by (simp add: first_of_def)
  qed
qed

lemma of_sn_sorted:
  "rx_sorted key l \<Longrightarrow> sorted_wrt (\<lambda>p q. pdu_so p \<le> pdu_so q) (of_sn sn l)"
  by (induction l) (auto simp: pdu_before_def not_less)

text \<open>The two contracts of reassembly, on the list as the entities keep it.\<close>

lemma sdu_full_iff_covered:
  assumes "rx_sorted key l" and "inj_on key (insert sn (pdu_sn ` set l))"
    and "\<forall>p \<in> set (of_sn sn l). seg_of d p" and "d \<noteq> []"
  shows "sdu_full l sn \<longleftrightarrow> (\<forall>i. 0 \<le> i \<and> i < int (length d) \<longrightarrow> (\<exists>p \<in> set (of_sn sn l). covers p i))"
proof -
  from first_of_block [OF assms(1,2)] obtain rest where
    rest: "first_of sn l = of_sn sn l @ rest" "block_of sn (of_sn sn l) rest" by blast
  have "sdu_full l sn \<longleftrightarrow> sdu_full_loop sn (int 0 - 1) (of_sn sn l @ rest)"
  proof (cases "of_sn sn l = []")
    case True
    with rest show ?thesis using sdu_full_loop_stop [of sn rest] by (auto simp: sdu_full_def)
  next
    case False
    then have "pdu_data (hd (of_sn sn l)) \<noteq> None"
      using assms(3) hd_in_set [OF False] by (auto simp: seg_of_def split: option.splits)
    with False rest show ?thesis by (auto simp: sdu_full_def)
  qed
  also have "\<dots> \<longleftrightarrow> (\<forall>i. 0 \<le> i \<and> i < int (length d) \<longrightarrow> (\<exists>p \<in> set (of_sn sn l). covers p i))"
  proof
    assume "sdu_full_loop sn (int 0 - 1) (of_sn sn l @ rest)"
    with sdu_full_loop_covers [OF rest(2) assms(3) this]
    show "\<forall>i. 0 \<le> i \<and> i < int (length d) \<longrightarrow> (\<exists>p \<in> set (of_sn sn l). covers p i)" by simp
  next
    assume "\<forall>i. 0 \<le> i \<and> i < int (length d) \<longrightarrow> (\<exists>p \<in> set (of_sn sn l). covers p i)"
    with covers_sdu_full_loop [OF rest(2) assms(3) of_sn_sorted [OF assms(1)], of 0] assms(4)
    show "sdu_full_loop sn (int 0 - 1) (of_sn sn l @ rest)" by simp
  qed
  finally show ?thesis .
qed

definition free_sn :: "int \<Rightarrow> nr_rlc_pdu_t list \<Rightarrow> nr_rlc_pdu_t list" where
  "free_sn sn l = map (\<lambda>p. if pdu_sn p = sn then freed_pdu p else p) l"

lemma rx_list_split:
  assumes "rx_sorted key l" and "inj_on key (insert sn (pdu_sn ` set l))"
  shows "\<exists>rest. first_of sn l = of_sn sn l @ rest \<and> block_of sn (of_sn sn l) rest \<and>
    free_sn sn l = takeWhile (\<lambda>p. pdu_sn p \<noteq> sn) l @ map freed_pdu (of_sn sn l) @ rest"
proof -
  from first_of_block [OF assms] obtain rest where
    rest: "first_of sn l = of_sn sn l @ rest" "block_of sn (of_sn sn l) rest" by blast
  have split: "l = takeWhile (\<lambda>p. pdu_sn p \<noteq> sn) l @ of_sn sn l @ rest"
    using rest(1) takeWhile_dropWhile_id [of "\<lambda>p. pdu_sn p \<noteq> sn" l] by (simp add: first_of_def)
  have tw: "of_sn sn (takeWhile (\<lambda>p. pdu_sn p \<noteq> sn) l) = []"
    by (auto simp: filter_empty_conv dest: set_takeWhileD)
  from arg_cong [OF split, of "of_sn sn"] tw have "of_sn sn rest = []" by simp
  then have "free_sn sn l = takeWhile (\<lambda>p. pdu_sn p \<noteq> sn) l @ map freed_pdu (of_sn sn l) @ rest"
    by (subst split) (auto simp: free_sn_def filter_empty_conv intro!: map_idI dest: set_takeWhileD)
  with rest show ?thesis by blast
qed

lemma reassemble_full:
  assumes "rx_sorted key l" and "inj_on key (insert sn (pdu_sn ` set l))"
    and "\<forall>p \<in> set (of_sn sn l). seg_of d p" and "int (length d) \<le> NR_SDU_MAX" and "sdu_full l sn"
  shows "reassemble l sn = Inr (free_sn sn l, \<Sum>p\<leftarrow>of_sn sn l. pdu_size p, Some d)"
proof -
  from rx_list_split [OF assms(1,2)] obtain rest where
    rest: "first_of sn l = of_sn sn l @ rest" "block_of sn (of_sn sn l) rest"
      "free_sn sn l = takeWhile (\<lambda>p. pdu_sn p \<noteq> sn) l @ map freed_pdu (of_sn sn l) @ rest" by blast
  have loop: "sdu_full_loop sn (int 0 - 1) (of_sn sn l @ rest)"
    using assms(5) rest by (simp add: sdu_full_def Let_def split: if_splits)
  then have ne: "first_of sn l \<noteq> []"
    using rest sdu_full_loop.simps(1) by auto
  have "reassemble_loop sn (of_sn sn l @ rest) [] False =
      Inr (map freed_pdu (of_sn sn l) @ rest, d, False, \<Sum>p\<leftarrow>of_sn sn l. pdu_size p)"
    using reassemble_loop_full [OF rest(2) assms(3,4) _ loop] by simp
  then show ?thesis using ne rest by (simp add: reassemble_def)
qed

text \<open>Whatever the segments contain, reassembly that returns has freed exactly those of the SDU.\<close>

lemma reassemble_loop_frees:
  assumes "block_of sn segs rest"
    and "reassemble_loop sn (segs @ rest) sdu bad = Inr (l', sdu', bad', freed)"
  shows "l' = map freed_pdu segs @ rest \<and> freed = (\<Sum>p\<leftarrow>segs. pdu_size p)"
  using assms
proof (induction segs arbitrary: sdu bad l' sdu' bad' freed)
  case Nil
  then show ?case by (simp add: reassemble_loop_stop)
next
  case (Cons p segs)
  from Cons.prems obtain sdu1 bad1 l1 freed1 where
    step: "reassemble_loop sn (segs @ rest) sdu1 bad1 = Inr (l1, sdu', bad', freed1)"
      "l' = freed_pdu p # l1" "freed = freed1 + pdu_size p"
    by (auto simp: block_of_Cons result_simps freed_pdu_def)
  from Cons.IH [OF _ step(1)] Cons.prems(1) step(2,3) show ?case by (simp add: block_of_Cons)
qed

lemma reassemble_frees:
  assumes "rx_sorted key l" and "inj_on key (insert sn (pdu_sn ` set l))"
    and "reassemble l sn = Inr (l', freed, out)"
  shows "l' = free_sn sn l \<and> freed = (\<Sum>p\<leftarrow>of_sn sn l. pdu_size p)"
proof -
  from rx_list_split [OF assms(1,2)] obtain rest where
    rest: "first_of sn l = of_sn sn l @ rest" "block_of sn (of_sn sn l) rest"
      "free_sn sn l = takeWhile (\<lambda>p. pdu_sn p \<noteq> sn) l @ map freed_pdu (of_sn sn l) @ rest" by blast
  with assms(3) reassemble_loop_frees [OF rest(2)] show ?thesis
    by (auto simp: reassemble_def result_simps Let_def split: if_splits)
qed

lemma freed_pdu_simps [simp]:
  "pdu_sn (freed_pdu p) = pdu_sn p" "pdu_so (freed_pdu p) = pdu_so p"
  "pdu_size (freed_pdu p) = 0" "pdu_data (freed_pdu p) = None"
  by (simp_all add: freed_pdu_def)

lemma pdu_sn_free_sn: "map pdu_sn (free_sn sn l) = map pdu_sn l"
  by (simp add: free_sn_def)

lemma free_sn_sorted: "rx_sorted key (free_sn sn l) \<longleftrightarrow> rx_sorted key l"
proof -
  have "pdu_before key (if pdu_sn q = sn then freed_pdu q else q) (if pdu_sn p = sn then freed_pdu p else p) =
      pdu_before key q p" for p q
    by (simp add: pdu_before_def)
  then show ?thesis by (simp add: rx_sorted_def free_sn_def sorted_wrt_map)
qed

lemma rx_sorted_shift:
  "rx_sorted key l \<Longrightarrow> (\<And>p. p \<in> set l \<Longrightarrow> key' (pdu_sn p) = key (pdu_sn p) - (s :: int)) \<Longrightarrow> rx_sorted key' l"
  by (induction l) (auto simp: pdu_before_def)

lemma rx_sorted_subseq: "rx_sorted key (xs @ ys) \<Longrightarrow> rx_sorted key ys"
  by (simp add: rx_sorted_append)

lemma rx_sorted_dropWhile: "rx_sorted key l \<Longrightarrow> rx_sorted key (dropWhile P l)"
  by (metis rx_sorted_subseq takeWhile_dropWhile_id)

lemma rx_sorted_keys:
  "rx_sorted key l \<Longrightarrow> p \<in> set (dropWhile (\<lambda>p. key (pdu_sn p) < s) l) \<Longrightarrow> s \<le> key (pdu_sn p)"
  by (induction l) (force simp: pdu_before_def not_less split: if_splits)+

lemma free_sn_size:
  "(\<Sum>p\<leftarrow>free_sn sn l. pdu_size p) = (\<Sum>p\<leftarrow>l. pdu_size p) - (\<Sum>p\<leftarrow>of_sn sn l. pdu_size p)"
  by (induction l) (auto simp: free_sn_def)

lemma set_free_sn:
  "p \<in> set (free_sn sn l) \<Longrightarrow> \<exists>q \<in> set l. p = q \<and> pdu_sn q \<noteq> sn \<or> p = freed_pdu q \<and> pdu_sn q = sn"
  by (auto simp: free_sn_def split: if_splits)

lemma sdu_delivered_sn: "sdu_delivered l sn \<Longrightarrow> sn \<in> pdu_sn ` set l"
proof -
  assume "sdu_delivered l sn"
  then have ne: "dropWhile (\<lambda>p. pdu_sn p \<noteq> sn) l \<noteq> []" by (auto simp: sdu_delivered_def first_of_def Let_def)
  from hd_dropWhile [OF this] have "pdu_sn (hd (dropWhile (\<lambda>p. pdu_sn p \<noteq> sn) l)) = sn" by simp
  moreover have "hd (dropWhile (\<lambda>p. pdu_sn p \<noteq> sn) l) \<in> set l"
    using hd_in_set [OF ne] by (rule set_dropWhileD)
  ultimately show ?thesis by force
qed



subsection \<open>Sequence numbers in a window\<close>

text \<open>Sequence numbers are compared by their position from a moving base, modulo the number of
  sequence numbers: \<open>modulus_rx\<close> of UM and AM and \<open>modulus_tx\<close> of AM.\<close>

lemma window_position:
  "0 < m \<Longrightarrow> - m \<le> r \<Longrightarrow> c_rem (if r < 0 then r + m else r) m = r mod m"
  by (cases "r < 0") simp_all

locale sn_window =
  fixes ok :: "'e \<Rightarrow> bool"
    and position :: "'e \<Rightarrow> int \<Rightarrow> int"
    and base :: "'e \<Rightarrow> int"
    and modulus :: "'e \<Rightarrow> int"
  assumes modulus_pos: "ok e \<Longrightarrow> 0 < modulus e"
    and position_eq: "ok e \<Longrightarrow> 0 \<le> a \<Longrightarrow> a < modulus e \<Longrightarrow> position e a = (a - base e) mod modulus e"
begin

lemma position_range:
  assumes "ok e" and "0 \<le> a" and "a < modulus e"
  shows "0 \<le> position e a" and "position e a < modulus e"
  using assms modulus_pos [OF assms(1)] by (simp_all add: position_eq)

lemma position_inj:
  assumes "ok e"
  shows "inj_on (position e) {0..<modulus e}"
proof (rule inj_onI)
  fix a b
  assume ab: "a \<in> {0..<modulus e}" "b \<in> {0..<modulus e}" and "position e a = position e b"
  then have "(a - base e) mod modulus e = (b - base e) mod modulus e"
    using assms by (simp add: position_eq)
  then have "a mod modulus e = b mod modulus e"
    by (metis diff_add_cancel mod_add_left_eq)
  then show "a = b" using ab by simp
qed

lemma position_inj_subset:
  "ok e \<Longrightarrow> S \<subseteq> {0..<modulus e} \<Longrightarrow> inj_on (position e) S"
  by (rule inj_on_subset [OF position_inj])

lemma position_rebase:
  assumes "ok e" and "ok e'" and "modulus e' = modulus e" and "0 \<le> a" and "a < modulus e"
  shows "position e' a = (position e a - (base e' - base e)) mod modulus e"
  using assms by (simp add: position_eq mod_diff_left_eq)

lemma position_succ:
  assumes "ok e" and "0 \<le> a" and "a < modulus e"
  shows "position e ((a + 1) mod modulus e) = (position e a + 1) mod modulus e"
proof -
  have "position e ((a + 1) mod modulus e) = ((a + 1) mod modulus e - base e) mod modulus e"
    using assms modulus_pos [OF assms(1)] by (intro position_eq) simp_all
  also have "\<dots> = (a - base e + 1) mod modulus e"
    by (simp add: mod_diff_left_eq algebra_simps)
  also have "\<dots> = (position e a + 1) mod modulus e"
    using assms by (simp add: position_eq mod_add_left_eq)
  finally show ?thesis .
qed

text \<open>A skipping loop that starts in a window stops inside it or right behind it.\<close>

lemma skip_position:
  assumes "ok e" and "0 \<le> sn" and "sn < modulus e" and "w < modulus e" and "position e sn \<le> w"
    and P: "\<And>x. P x \<Longrightarrow> position e x < w"
    and skip: "skip_while_sn n P (modulus e) sn = Some r"
  shows "position e sn \<le> position e r \<and> position e r \<le> w"
proof -
  from skip_while_sn_run [OF skip assms(2,3)] obtain k where
    k: "r = (sn + int k) mod modulus e" "\<forall>j < k. P ((sn + int j) mod modulus e)" by blast
  have pos: "j \<le> k \<Longrightarrow> position e ((sn + int j) mod modulus e) = position e sn + int j" for j
  proof (induction j)
    case 0
    then show ?case using assms(2,3) by simp
  next
    case (Suc j)
    let ?a = "(sn + int j) mod modulus e"
    have a: "0 \<le> ?a" "?a < modulus e" using modulus_pos [OF assms(1)] by simp_all
    have step: "(sn + int (Suc j)) mod modulus e = (?a + 1) mod modulus e"
      by (simp only: mod_add_left_eq) (simp add: algebra_simps)
    from Suc.prems k(2) P [of ?a] have "position e ?a < w" by simp
    with Suc assms(4) position_range(1) [OF assms(1-3)]
    have "0 \<le> position e ?a + 1" "position e ?a + 1 < modulus e" by auto
    with step position_succ [OF assms(1) a] Suc show ?case by simp
  qed
  show ?thesis
  proof (cases k)
    case 0
    with pos [of 0] k(1) assms(5) show ?thesis by simp
  next
    case (Suc j)
    with k(2) P [of "(sn + int j) mod modulus e"] pos [of j] have "position e sn + int j < w" by simp
    with pos [of k] k(1) Suc show ?thesis by simp
  qed
qed

lemma card_window:
  assumes "ok e" and "S \<subseteq> {0..<modulus e}" and "\<forall>x \<in> S. position e x < w"
  shows "finite S" and "card S \<le> nat w"
proof -
  show "finite S" using assms(2) by (rule finite_subset) simp
  have "card S = card (position e ` S)"
    using position_inj_subset [OF assms(1,2)] by (simp add: card_image)
  also have "\<dots> \<le> card {0..<w}"
    using assms position_range [OF assms(1)] by (intro card_mono) fastforce+
  finally show "card S \<le> nat w" by simp
qed

text \<open>A loop that skips sequence numbers of a window smaller than the modulus ends.\<close>

lemma skip_ends:
  assumes "ok e" and "0 \<le> sn" and "sn < modulus e" and "w < modulus e"
    and P: "\<And>x. P x \<Longrightarrow> 0 \<le> x \<and> x < modulus e \<and> position e x < w"
  shows "\<exists>r. skip_while_sn (nat (modulus e)) P (modulus e) sn = Some r"
proof (rule skip_while_sn_terminates [OF assms(2,3)])
  let ?S = "{x. P x}"
  have S: "?S \<subseteq> {0..<modulus e}" using P by auto
  show "finite ?S" using card_window(1) [OF assms(1) S, of w] P by blast
  have "card ?S \<le> nat w" using card_window(2) [OF assms(1) S, of w] P by blast
  then show "card ?S < nat (modulus e)"
    using assms(4) modulus_pos [OF assms(1)] by linarith
qed auto

end

end
