(* ===== verification/Rlc_Tm.thy ===== *)
theory Rlc_Tm
  imports Rlc_Entity
begin

text \<open>
  \<open>openair2/LAYER2/nr_rlc/nr_rlc_entity_tm.c\<close>: the transparent mode entity, which passes SDUs
  through unchanged. The abstract specification is a bounded queue of SDUs (\<open>fifo_push\<close>,
  \<open>fifo_pop\<close>); \<open>tm_queue\<close> maps an entity to its queue.
\<close>

record nr_rlc_entity_tm_t = nr_rlc_entity_t +
  tm_t_current :: u64
  tm_t_log_buffer_full :: u64
  tm_sdu_rejected :: int
  tm_tx_list :: "nr_rlc_sdu_segment_t list"
  tm_tx_size :: int
  tm_tx_maxsize :: int

definition new_nr_rlc_entity_tm :: "int \<Rightarrow> nr_rlc_entity_tm_t result" where
  "new_nr_rlc_entity_tm tx_maxsize =
     bind_r (time_average_new (100 * 1000) 1024) (\<lambda>avg.
       Inr \<lparr>bstatus = bstatus_zero, stats = nr_rlc_statistics_zero NR_RLC_TM,
            txsdu_avg_time_to_tx = avg, avg_time_is_on = False, sdu_mem = mem_empty,
            tm_t_current = 0, tm_t_log_buffer_full = 0, tm_sdu_rejected = 0, tm_tx_list = [],
            tm_tx_size = 0, tm_tx_maxsize = tx_maxsize\<rparr>)"

definition nr_rlc_entity_tm_recv_pdu ::
  "nr_rlc_entity_tm_t \<Rightarrow> byte list \<Rightarrow> nr_rlc_entity_tm_t \<times> rlc_event list" where
  "nr_rlc_entity_tm_recv_pdu e buffer =
     (let size = int (length buffer) in
      (e\<lparr>stats := (stats e)\<lparr>rxpdu_pkts := rxpdu_pkts (stats e) + 1,
                           rxpdu_bytes := rxpdu_bytes (stats e) + of_int size,
                           txsdu_pkts := txsdu_pkts (stats e) + 1,
                           txsdu_bytes := txsdu_bytes (stats e) + of_int size\<rparr>\<rparr>,
       [Deliver_sdu buffer]))"

definition tm_generate_tx_pdu ::
  "u64 \<Rightarrow> byte list \<Rightarrow> nr_rlc_entity_tm_t \<Rightarrow> (int \<times> byte list \<times> nr_rlc_entity_tm_t) result" where
  "tm_generate_tx_pdu now buffer e =
     (case tm_tx_list e of
        [] \<Rightarrow> Inr (0, buffer, e)
      | sdu # rest \<Rightarrow>
          if seg_size sdu > int (length buffer) then Inr (0, buffer, e)
          else
            bind_r (sdu_at (sdu_mem e) (seg_sdu sdu)) (\<lambda>u.
            bind_r (read_at (sdu_data u) 0 (seg_size sdu)) (\<lambda>data.
            bind_r (memcpy_at buffer 0 data) (\<lambda>buffer'.
            let e1 = e\<lparr>tm_tx_list := rest,
                       tm_tx_size := tm_tx_size e - seg_size sdu,
                       stats := (stats e)\<lparr>txpdu_pkts := txpdu_pkts (stats e) + 1,
                                          txpdu_bytes := txpdu_bytes (stats e) + of_nat (length buffer)\<rparr>\<rparr>;
                e2 = record_waited_time now u e1;
                e3 = e2\<lparr>bstatus := (bstatus e2)\<lparr>bs_tx_size := bs_tx_size (bstatus e2) - seg_size sdu\<rparr>\<rparr> in
            bind_r (nr_rlc_free_sdu_segment (sdu_mem e3) sdu) (\<lambda>(_, m).
            Inr (seg_size sdu, buffer', e3\<lparr>sdu_mem := m\<rparr>))))))"

definition nr_rlc_entity_tm_buffer_status ::
  "nr_rlc_entity_tm_t \<Rightarrow> int \<Rightarrow> nr_rlc_entity_buffer_status_t" where
  "nr_rlc_entity_tm_buffer_status e maxsize =
     \<lparr>bs_status_size = 0, bs_tx_size = bs_tx_size (bstatus e), bs_retx_size = 0\<rparr>"

definition nr_rlc_entity_tm_generate_pdu ::
  "u64 \<Rightarrow> byte list \<Rightarrow> nr_rlc_entity_tm_t \<Rightarrow> (int \<times> byte list \<times> nr_rlc_entity_tm_t) result" where
  "nr_rlc_entity_tm_generate_pdu now buffer e = tm_generate_tx_pdu now buffer e"

definition nr_rlc_entity_tm_recv_sdu ::
  "u64 \<Rightarrow> byte list \<Rightarrow> int \<Rightarrow> nr_rlc_entity_tm_t \<Rightarrow> nr_rlc_entity_tm_t result" where
  "nr_rlc_entity_tm_recv_sdu now buffer sdu_id e =
     (let size = int (length buffer);
          e = e\<lparr>stats := (stats e)\<lparr>rxsdu_pkts := rxsdu_pkts (stats e) + 1,
                                  rxsdu_bytes := rxsdu_bytes (stats e) + of_int size\<rparr>\<rparr> in
      if size > NR_SDU_MAX then Inl Fatal_exit
      else
        let e = (if tm_sdu_rejected e \<noteq> 0 \<and> tm_t_current e > tm_t_log_buffer_full e + 1000
                 then e\<lparr>tm_sdu_rejected := 0, tm_t_log_buffer_full := tm_t_current e\<rparr> else e) in
        if tm_tx_size e + size > tm_tx_maxsize e
        then Inr (e\<lparr>tm_sdu_rejected := tm_sdu_rejected e + 1,
                    stats := (stats e)\<lparr>rxsdu_dd_pkts := rxsdu_dd_pkts (stats e) + 1,
                                       rxsdu_dd_bytes := rxsdu_dd_bytes (stats e) + of_int size\<rparr>\<rparr>)
        else
          let (sdu, m) = nr_rlc_new_sdu (sdu_mem e) buffer sdu_id;
              e = e\<lparr>tm_tx_size := tm_tx_size e + size, sdu_mem := m,
                    tm_tx_list := nr_rlc_sdu_segment_list_append (tm_tx_list e) sdu,
                    bstatus := (bstatus e)\<lparr>bs_tx_size := bs_tx_size (bstatus e) + seg_size sdu\<rparr>\<rparr> in
          if avg_time_is_on e
          then bind_r (sdu_at (sdu_mem e) (seg_sdu sdu)) (\<lambda>u.
               Inr (e\<lparr>sdu_mem := sdu_put (sdu_mem e) (seg_sdu sdu) (u\<lparr>sdu_time_of_arrival := now\<rparr>)\<rparr>))
          else Inr e)"

definition nr_rlc_entity_tm_set_time :: "nr_rlc_entity_tm_t \<Rightarrow> u64 \<Rightarrow> nr_rlc_entity_tm_t" where
  "nr_rlc_entity_tm_set_time e now = e\<lparr>tm_t_current := now\<rparr>"

definition nr_rlc_entity_tm_discard_sdu :: "nr_rlc_entity_tm_t \<Rightarrow> int \<Rightarrow> nr_rlc_entity_tm_t" where
  "nr_rlc_entity_tm_discard_sdu e sdu_id = e"

definition tm_clear_entity :: "nr_rlc_entity_tm_t \<Rightarrow> nr_rlc_entity_tm_t result" where
  "tm_clear_entity e =
     bind_r (nr_rlc_free_sdu_segment_list (tm_tx_list e) (sdu_mem e)) (\<lambda>m.
       Inr (e\<lparr>tm_t_current := 0, tm_t_log_buffer_full := 0, tm_sdu_rejected := 0, sdu_mem := m,
              tm_tx_list := [], tm_tx_size := 0,
              bstatus := (bstatus e)\<lparr>bs_tx_size := 0\<rparr>\<rparr>))"

definition nr_rlc_entity_tm_reestablishment :: "nr_rlc_entity_tm_t \<Rightarrow> nr_rlc_entity_tm_t result" where
  "nr_rlc_entity_tm_reestablishment e = tm_clear_entity e"

text \<open>Deletion frees the entity itself; what is left is the SDU memory.\<close>

definition nr_rlc_entity_tm_delete :: "nr_rlc_entity_tm_t \<Rightarrow> sdu_mem_t result" where
  "nr_rlc_entity_tm_delete e = bind_r (tm_clear_entity e) (\<lambda>e'. Inr (sdu_mem e'))"

definition nr_rlc_entity_tm_available_tx_space :: "nr_rlc_entity_tm_t \<Rightarrow> int" where
  "nr_rlc_entity_tm_available_tx_space e = tm_tx_maxsize e - tm_tx_size e"

definition nr_rlc_entity_tm_get_stats ::
  "u64 \<Rightarrow> nr_rlc_entity_tm_t \<Rightarrow> (nr_rlc_statistics_t \<times> nr_rlc_entity_tm_t) result" where
  "nr_rlc_entity_tm_get_stats now e = nr_rlc_entity_get_stats now (tm_tx_list e) e"


subsection \<open>Invariant\<close>

text \<open>Every queued segment is a whole SDU; both size counters are the bytes queued, within the
  configured maximum.\<close>

definition seg_whole :: "sdu_mem_t \<Rightarrow> nr_rlc_sdu_segment_t \<Rightarrow> bool" where
  "seg_whole m s \<longleftrightarrow> (case mem_sdu m (seg_sdu s) of None \<Rightarrow> False
     | Some u \<Rightarrow> seg_so s = 0 \<and> seg_size s = sdu_size u)"

definition tm_ok :: "nr_rlc_entity_tm_t \<Rightarrow> bool" where
  "tm_ok e \<longleftrightarrow> mem_inv (sdu_mem e) (tm_tx_list e) \<and>
     (\<forall>s \<in> set (tm_tx_list e). seg_whole (sdu_mem e) s) \<and>
     tm_tx_size e = (\<Sum>s\<leftarrow>tm_tx_list e. seg_size s) \<and> bs_tx_size (bstatus e) = tm_tx_size e \<and>
     tm_tx_size e \<le> tm_tx_maxsize e"

definition tm_queue :: "nr_rlc_entity_tm_t \<Rightarrow> byte list list" where
  "tm_queue e = map (seg_bytes (sdu_mem e)) (tm_tx_list e)"

definition fifo_push :: "int \<Rightarrow> byte list list \<Rightarrow> byte list \<Rightarrow> byte list list" where
  "fifo_push cap q b = (if (\<Sum>x\<leftarrow>q. int (length x)) + int (length b) > cap then q else q @ [b])"

fun fifo_pop :: "byte list list \<Rightarrow> nat \<Rightarrow> byte list option \<times> byte list list" where
  "fifo_pop [] n = (None, [])"
| "fifo_pop (b # q) n = (if length b \<le> n then (Some b, q) else (None, b # q))"

lemma seg_whole_bytes:
  assumes "mem_inv m xs" and "seg_whole m s"
  shows "\<exists>u. mem_sdu m (seg_sdu s) = Some u \<and> seg_bytes m s = sdu_data u \<and>
    seg_size s = int (length (sdu_data u))"
  using assms mem_inv_size [OF assms(1)]
  by (auto simp: seg_whole_def seg_bytes_def split: option.splits)

lemma seg_whole_length:
  "mem_inv m xs \<Longrightarrow> seg_whole m s \<Longrightarrow> seg_size s = int (length (seg_bytes m s))"
  using seg_whole_bytes by fastforce

lemma seg_whole_same_size:
  "seg_whole m s \<Longrightarrow>
   (\<And>u. mem_sdu m (seg_sdu s) = Some u \<Longrightarrow>
      \<exists>u'. mem_sdu m' (seg_sdu s) = Some u' \<and> sdu_size u' = sdu_size u) \<Longrightarrow> seg_whole m' s"
  by (fastforce simp: seg_whole_def split: option.splits)

lemma free_segment_whole:
  assumes "mem_inv m (s # xs)" and "nr_rlc_free_sdu_segment m s = Inr (freed, m')"
    and "t \<in> set xs" and "seg_whole m t"
  shows "seg_whole m' t"
proof (rule seg_whole_same_size [OF assms(4)])
  fix u
  assume u: "mem_sdu m (seg_sdu t) = Some u"
  from free_segment_inv [OF assms(1)] assms(2) have "mem_inv m' xs" by auto
  from mem_inv_live [OF this assms(3)] obtain u' where u': "mem_sdu m' (seg_sdu t) = Some u'" by blast
  with free_segment_sizes [OF assms(2) u'] u
  show "\<exists>u'. mem_sdu m' (seg_sdu t) = Some u' \<and> sdu_size u' = sdu_size u" by auto
qed

lemma tm_queue_size:
  assumes "tm_ok e"
  shows "tm_tx_size e = (\<Sum>x\<leftarrow>tm_queue e. int (length x))"
proof -
  have "map seg_size (tm_tx_list e) = map (\<lambda>s. int (length (seg_bytes (sdu_mem e) s))) (tm_tx_list e)"
    using assms by (auto simp: tm_ok_def intro: seg_whole_length)
  then have "(\<Sum>s\<leftarrow>tm_tx_list e. seg_size s) =
      (\<Sum>s\<leftarrow>tm_tx_list e. int (length (seg_bytes (sdu_mem e) s)))"
    by (rule arg_cong)
  then show ?thesis using assms by (simp add: tm_ok_def tm_queue_def comp_def)
qed

lemma put_arrival_whole:
  "mem_sdu m a = Some u \<Longrightarrow> seg_whole m s \<Longrightarrow> seg_whole (sdu_put m a (u\<lparr>sdu_time_of_arrival := t\<rparr>)) s"
  by (auto simp: seg_whole_def split: option.splits)

lemma new_sdu_whole:
  assumes "mem_inv m xs" and "nr_rlc_new_sdu m data uid = (s, m')"
  shows "seg_whole m' s" and "t \<in> set xs \<Longrightarrow> seg_whole m t \<Longrightarrow> seg_whole m' t"
proof -
  show "seg_whole m' s" using assms(2) by (auto simp: nr_rlc_new_sdu_def seg_whole_def)
  assume t: "t \<in> set xs" "seg_whole m t"
  from mem_inv_live [OF assms(1) t(1)] obtain u where u: "mem_sdu m (seg_sdu t) = Some u" by blast
  with mem_inv_below_next [OF assms(1) u] assms(2) t(2)
  show "seg_whole m' t" by (auto simp: nr_rlc_new_sdu_def seg_whole_def)
qed

text \<open>Accepting an SDU: the part of \<open>nr_rlc_entity_tm_recv_sdu\<close> after the checks.\<close>

lemma tm_accept_ok:
  assumes "tm_ok e" and new: "nr_rlc_new_sdu (sdu_mem e) buffer sdu_id = (sdu, m)"
    and "tm_tx_size e + int (length buffer) \<le> tm_tx_maxsize e"
    and e': "e' = e\<lparr>tm_tx_size := tm_tx_size e + int (length buffer), sdu_mem := m,
        tm_tx_list := tm_tx_list e @ [sdu],
        bstatus := (bstatus e)\<lparr>bs_tx_size := bs_tx_size (bstatus e) + seg_size sdu\<rparr>\<rparr>"
  shows "tm_ok e'" and "tm_queue e' = tm_queue e @ [buffer]"
proof -
  from assms(1) have inv: "mem_inv (sdu_mem e) (tm_tx_list e)" by (simp add: tm_ok_def)
  have "mem_inv m (tm_tx_list e @ [sdu])"
    by (rule mem_inv_perm [OF new_sdu_inv [OF inv new]]) simp
  then show "tm_ok e'"
    using assms(1,3) new_sdu_whole [OF inv new] new_sdu_seg(1) [OF new]
    by (auto simp: tm_ok_def e')
  show "tm_queue e' = tm_queue e @ [buffer]"
    using new_sdu_bytes_same [OF inv new] by (simp add: tm_queue_def e')
qed

lemma tm_stamp_ok:
  assumes "tm_ok e" and "mem_sdu (sdu_mem e) a = Some u"
    and e': "e' = e\<lparr>sdu_mem := sdu_put (sdu_mem e) a (u\<lparr>sdu_time_of_arrival := now\<rparr>)\<rparr>"
  shows "tm_ok e'" and "tm_queue e' = tm_queue e"
proof -
  have "mem_inv (sdu_mem e') (tm_tx_list e')"
    unfolding e' using assms(1,2) by (auto simp: tm_ok_def intro!: put_sdu_inv)
  then show "tm_ok e'" using assms(1,2) by (auto simp: tm_ok_def e' put_arrival_whole)
  show "tm_queue e' = tm_queue e" using put_sdu_bytes [OF assms(2)] by (simp add: tm_queue_def e')
qed

lemma tm_recv_sdu_queue:
  assumes "tm_ok e" and "int (length buffer) \<le> NR_SDU_MAX"
  shows "\<exists>e'. nr_rlc_entity_tm_recv_sdu now buffer sdu_id e = Inr e' \<and> tm_ok e' \<and>
    tm_queue e' = fifo_push (tm_tx_maxsize e) (tm_queue e) buffer \<and> tm_tx_maxsize e' = tm_tx_maxsize e"
proof -
  let ?e0 = "e\<lparr>stats := (stats e)\<lparr>rxsdu_pkts := rxsdu_pkts (stats e) + 1,
                                 rxsdu_bytes := rxsdu_bytes (stats e) + of_int (int (length buffer))\<rparr>\<rparr>"
  define e1 where "e1 = (if tm_sdu_rejected ?e0 \<noteq> 0 \<and> tm_t_current ?e0 > tm_t_log_buffer_full ?e0 + 1000
    then ?e0\<lparr>tm_sdu_rejected := 0, tm_t_log_buffer_full := tm_t_current ?e0\<rparr> else ?e0)"
  have e1: "tm_ok e1" "tm_queue e1 = tm_queue e" "tm_tx_maxsize e1 = tm_tx_maxsize e"
    using assms(1) by (auto simp: e1_def tm_ok_def tm_queue_def)
  have size: "tm_tx_size e1 = (\<Sum>x\<leftarrow>tm_queue e. int (length x))"
    using tm_queue_size [OF e1(1)] e1(2) by simp
  obtain sdu m where new: "nr_rlc_new_sdu (sdu_mem e1) buffer sdu_id = (sdu, m)" by fastforce
  obtain u where u: "mem_sdu m (seg_sdu sdu) = Some u"
    using new by (auto simp: nr_rlc_new_sdu_def)
  show ?thesis
  proof (cases "tm_tx_size e1 + int (length buffer) > tm_tx_maxsize e1")
    case True
    with assms(2) e1 size show ?thesis
      unfolding nr_rlc_entity_tm_recv_sdu_def Let_def e1_def [unfolded Let_def, symmetric]
      by (auto simp: fifo_push_def tm_ok_def tm_queue_def)
  next
    case False
    let ?e2 = "e1\<lparr>tm_tx_size := tm_tx_size e1 + int (length buffer), sdu_mem := m,
        tm_tx_list := tm_tx_list e1 @ [sdu],
        bstatus := (bstatus e1)\<lparr>bs_tx_size := bs_tx_size (bstatus e1) + seg_size sdu\<rparr>\<rparr>"
    have e2: "tm_ok ?e2" "tm_queue ?e2 = tm_queue e @ [buffer]"
      using tm_accept_ok [OF e1(1) new, of ?e2] False e1(2) by auto
    let ?e3 = "?e2\<lparr>sdu_mem := sdu_put m (seg_sdu sdu) (u\<lparr>sdu_time_of_arrival := now\<rparr>)\<rparr>"
    have e3: "tm_ok ?e3" "tm_queue ?e3 = tm_queue e @ [buffer]"
      using tm_stamp_ok [OF e2(1), of "seg_sdu sdu" u ?e3 now] e2(2) u by auto
    have "nr_rlc_entity_tm_recv_sdu now buffer sdu_id e = Inr (if avg_time_is_on e1 then ?e3 else ?e2)"
      using False assms(2) new u
      unfolding nr_rlc_entity_tm_recv_sdu_def Let_def e1_def [unfolded Let_def, symmetric]
      by (simp add: sdu_at_def)
    with e2 e3 False size e1(3) show ?thesis by (simp add: fifo_push_def)
  qed
qed

lemma tm_generate_queue:
  assumes "tm_ok e"
  shows "\<exists>ret buffer' e'. nr_rlc_entity_tm_generate_pdu now buffer e = Inr (ret, buffer', e') \<and> tm_ok e' \<and>
    tm_tx_maxsize e' = tm_tx_maxsize e \<and> length buffer' = length buffer \<and>
    (case fifo_pop (tm_queue e) (length buffer) of
       (None, q) \<Rightarrow> ret = 0 \<and> buffer' = buffer \<and> tm_queue e' = q
     | (Some b, q) \<Rightarrow> ret = int (length b) \<and> buffer' = b @ drop (length b) buffer \<and> tm_queue e' = q)"
proof (cases "tm_tx_list e")
  case Nil
  with assms show ?thesis
    by (simp add: nr_rlc_entity_tm_generate_pdu_def tm_generate_tx_pdu_def tm_queue_def)
next
  case (Cons sdu rest)
  from assms Cons have inv: "mem_inv (sdu_mem e) (sdu # rest)" and w: "seg_whole (sdu_mem e) sdu"
    by (auto simp: tm_ok_def)
  from seg_whole_bytes [OF inv w] obtain u where u: "mem_sdu (sdu_mem e) (seg_sdu sdu) = Some u"
    "seg_bytes (sdu_mem e) sdu = sdu_data u" "seg_size sdu = int (length (sdu_data u))" by blast
  have q: "tm_queue e = sdu_data u # map (seg_bytes (sdu_mem e)) rest"
    using Cons u by (simp add: tm_queue_def)
  show ?thesis
  proof (cases "seg_size sdu > int (length buffer)")
    case True
    with assms Cons u q show ?thesis
      by (simp add: nr_rlc_entity_tm_generate_pdu_def tm_generate_tx_pdu_def)
  next
    case False
    from free_segment_inv [OF inv] obtain freed m where
      m: "nr_rlc_free_sdu_segment (sdu_mem e) sdu = Inr (freed, m)" "mem_inv m rest" by blast
    define e2 where "e2 = record_waited_time now u (e\<lparr>tm_tx_list := rest,
                       tm_tx_size := tm_tx_size e - seg_size sdu,
                       stats := (stats e)\<lparr>txpdu_pkts := txpdu_pkts (stats e) + 1,
                                          txpdu_bytes := txpdu_bytes (stats e) + of_nat (length buffer)\<rparr>\<rparr>)"
    let ?e4 = "e2\<lparr>bstatus := (bstatus e2)\<lparr>bs_tx_size := bs_tx_size (bstatus e2) - seg_size sdu\<rparr>, sdu_mem := m\<rparr>"
    have e2: "tm_tx_list e2 = rest" "tm_tx_size e2 = tm_tx_size e - seg_size sdu" "bstatus e2 = bstatus e"
      "tm_tx_maxsize e2 = tm_tx_maxsize e" "sdu_mem e2 = sdu_mem e"
      by (simp_all add: e2_def record_waited_time_def)
    have gen: "nr_rlc_entity_tm_generate_pdu now buffer e =
        Inr (seg_size sdu, sdu_data u @ drop (length (sdu_data u)) buffer, ?e4)"
      using Cons u False m
      by (simp add: nr_rlc_entity_tm_generate_pdu_def tm_generate_tx_pdu_def sdu_at_def read_at_def
          Let_def e2_def)
    have ok: "tm_ok ?e4"
      using assms Cons m e2 free_segment_whole [OF inv m(1)] u by (auto simp: tm_ok_def)
    have "tm_queue ?e4 = map (seg_bytes (sdu_mem e)) rest"
      using e2 free_segment_bytes [OF inv m(1)] by (simp add: tm_queue_def)
    with gen ok q False u e2 show ?thesis by auto
  qed
qed

lemma tm_reestablishment_empty:
  assumes "tm_ok e" and "0 \<le> tm_tx_maxsize e"
  shows "\<exists>e'. nr_rlc_entity_tm_reestablishment e = Inr e' \<and> tm_ok e' \<and> tm_queue e' = [] \<and>
    mem_bytes (sdu_mem e') = 0 \<and> tm_tx_maxsize e' = tm_tx_maxsize e"
proof -
  from assms(1) have "mem_inv (sdu_mem e) (tm_tx_list e)" by (simp add: tm_ok_def)
  from pool.release_everything [OF this] obtain m where
    m: "nr_rlc_free_sdu_segment_list (tm_tx_list e) (sdu_mem e) = Inr m" "mem_inv m []" "mem_bytes m = 0"
    by (auto simp: free_list_release_all)
  with assms show ?thesis
    by (simp add: nr_rlc_entity_tm_reestablishment_def tm_clear_entity_def tm_ok_def tm_queue_def)
qed

lemma tm_new_ok:
  "0 \<le> maxsize \<Longrightarrow> \<exists>e. new_nr_rlc_entity_tm maxsize = Inr e \<and> tm_ok e \<and> tm_queue e = [] \<and> tm_tx_maxsize e = maxsize"
  by (simp add: new_nr_rlc_entity_tm_def time_average_new_def tm_ok_def tm_queue_def bstatus_zero_def)

definition tm_inv :: "nr_rlc_entity_tm_t \<Rightarrow> bool" where
  "tm_inv e \<longleftrightarrow> tm_ok e \<and> 0 \<le> tm_tx_maxsize e"

lemma fifo_pop_length: "fifo_pop q n = (Some b, q') \<Longrightarrow> length b \<le> n"
  by (cases q) (auto split: if_splits)

interpretation tm: rlc_tx_entity tm_inv "\<lambda>_. True" nr_rlc_entity_tm_recv_sdu
  nr_rlc_entity_tm_generate_pdu nr_rlc_entity_tm_reestablishment nr_rlc_entity_tm_available_tx_space
proof unfold_locales
  fix e buffer now sdu_id
  assume "tm_inv e" "sdu_size_ok buffer"
  then show "\<exists>e'. nr_rlc_entity_tm_recv_sdu now buffer sdu_id e = Inr e' \<and> tm_inv e'"
    using tm_recv_sdu_queue [of e buffer now sdu_id] by (auto simp: tm_inv_def sdu_size_ok_def)
next
  fix e buffer now
  assume "tm_inv e"
  then have "tm_ok e" by (simp add: tm_inv_def)
  from tm_generate_queue [OF this, of now buffer] \<open>tm_inv e\<close>
  show "\<exists>ret buffer' e'. nr_rlc_entity_tm_generate_pdu now buffer e = Inr (ret, buffer', e') \<and> tm_inv e' \<and>
      0 \<le> ret \<and> ret \<le> int (length buffer) \<and> length buffer' = length buffer"
    by (fastforce simp: tm_inv_def split: prod.splits option.splits dest: fifo_pop_length)
next
  fix e
  assume "tm_inv e"
  then show "\<exists>e'. nr_rlc_entity_tm_reestablishment e = Inr e' \<and> tm_inv e'"
    using tm_reestablishment_empty [of e] by (auto simp: tm_inv_def)
next
  fix e
  assume "tm_inv e"
  then show "0 \<le> nr_rlc_entity_tm_available_tx_space e"
    by (simp add: tm_inv_def tm_ok_def nr_rlc_entity_tm_available_tx_space_def)
qed


subsection \<open>Simulation\<close>

text \<open>The PDUs an entity hands to the MAC along a sequence of calls, and those the bounded queue
  gives for the same calls.\<close>

fun tm_run :: "tx_op list \<Rightarrow> nr_rlc_entity_tm_t \<Rightarrow> (byte list list \<times> nr_rlc_entity_tm_t) result" where
  "tm_run [] e = Inr ([], e)"
| "tm_run (Op_recv_sdu now buffer sdu_id # xs) e =
     bind_r (nr_rlc_entity_tm_recv_sdu now buffer sdu_id e) (tm_run xs)"
| "tm_run (Op_generate_pdu now buffer # xs) e =
     bind_r (nr_rlc_entity_tm_generate_pdu now buffer e) (\<lambda>(ret, buffer', e').
     bind_r (tm_run xs e') (\<lambda>(pdus, e''). Inr (take (nat ret) buffer' # pdus, e'')))"
| "tm_run (Op_reestablishment # xs) e = bind_r (nr_rlc_entity_tm_reestablishment e) (tm_run xs)"

fun fifo_run :: "int \<Rightarrow> tx_op list \<Rightarrow> byte list list \<Rightarrow> byte list list \<times> byte list list" where
  "fifo_run cap [] q = ([], q)"
| "fifo_run cap (Op_recv_sdu now buffer sdu_id # xs) q = fifo_run cap xs (fifo_push cap q buffer)"
| "fifo_run cap (Op_generate_pdu now buffer # xs) q =
     (let (out, q') = fifo_pop q (length buffer); (pdus, q'') = fifo_run cap xs q' in
      ((case out of None \<Rightarrow> [] | Some b \<Rightarrow> b) # pdus, q''))"
| "fifo_run cap (Op_reestablishment # xs) q = fifo_run cap xs []"

fun tm_op_ok :: "tx_op \<Rightarrow> bool" where
  "tm_op_ok (Op_recv_sdu now buffer sdu_id) \<longleftrightarrow> int (length buffer) \<le> NR_SDU_MAX"
| "tm_op_ok _ \<longleftrightarrow> True"

lemma tm_run_fifo:
  assumes "tm_inv e" and "list_all tm_op_ok xs"
  shows "\<exists>e'. tm_run xs e = Inr (fst (fifo_run (tm_tx_maxsize e) xs (tm_queue e)), e') \<and> tm_inv e' \<and>
    tm_queue e' = snd (fifo_run (tm_tx_maxsize e) xs (tm_queue e))"
  using assms
proof (induction xs arbitrary: e)
  case Nil
  then show ?case by simp
next
  case (Cons x xs)
  have "list_all tm_op_ok xs" using Cons.prems(2) by simp
  note IH = Cons.IH [OF _ this]
  have ok: "tm_ok e" "0 \<le> tm_tx_maxsize e" using Cons.prems(1) by (auto simp: tm_inv_def)
  show ?case
  proof (cases x)
    case (Op_recv_sdu now buffer sdu_id)
    with Cons.prems(2) have "int (length buffer) \<le> NR_SDU_MAX" by simp
    from tm_recv_sdu_queue [OF ok(1) this, of now sdu_id] obtain e1 where
      "nr_rlc_entity_tm_recv_sdu now buffer sdu_id e = Inr e1" "tm_inv e1"
      "tm_queue e1 = fifo_push (tm_tx_maxsize e) (tm_queue e) buffer" "tm_tx_maxsize e1 = tm_tx_maxsize e"
      using ok by (auto simp: tm_inv_def)
    with IH [of e1] Op_recv_sdu show ?thesis by simp
  next
    case (Op_generate_pdu now buffer)
    obtain out q where pop: "fifo_pop (tm_queue e) (length buffer) = (out, q)" by fastforce
    from tm_generate_queue [OF ok(1), of now buffer] pop obtain ret buffer' e1 where
      e1: "nr_rlc_entity_tm_generate_pdu now buffer e = Inr (ret, buffer', e1)" "tm_inv e1"
      "tm_queue e1 = q" "tm_tx_maxsize e1 = tm_tx_maxsize e"
      "take (nat ret) buffer' = (case out of None \<Rightarrow> [] | Some b \<Rightarrow> b)"
      using ok by (cases out) (auto simp: tm_inv_def)
    with IH [of e1] Op_generate_pdu pop show ?thesis by (auto simp: split_def Let_def)
  next
    case Op_reestablishment
    from tm_reestablishment_empty [OF ok] obtain e1 where
      "nr_rlc_entity_tm_reestablishment e = Inr e1" "tm_inv e1" "tm_queue e1 = []"
      "tm_tx_maxsize e1 = tm_tx_maxsize e"
      using ok by (auto simp: tm_inv_def)
    with IH [of e1] Op_reestablishment show ?thesis by simp
  qed
qed

text \<open>C12. The transparent mode entity is a bounded queue of SDUs. Along any sequence of SDU
  submissions, MAC grants and re-establishments, starting in any good state, no call fails and the
  PDUs handed to the MAC are exactly those of the abstract queue: an SDU is accepted when it fits
  in \<open>tx_maxsize\<close>, the oldest SDU is sent whole and unchanged when it fits in the grant, and
  otherwise nothing is sent.\<close>

theorem tm_refines_fifo:
  assumes "tm_inv e" and "list_all tm_op_ok ops"
  shows "\<exists>e'. tm_run ops e = Inr (fst (fifo_run (tm_tx_maxsize e) ops (tm_queue e)), e') \<and> tm_inv e' \<and>
    tm_queue e' = snd (fifo_run (tm_tx_maxsize e) ops (tm_queue e))"
  using assms by (rule tm_run_fifo)

definition tm_example :: nr_rlc_entity_tm_t where
  "tm_example =
     \<lparr>bstatus = bstatus_zero, stats = nr_rlc_statistics_zero NR_RLC_TM,
      txsdu_avg_time_to_tx = idle_average,
      avg_time_is_on = False, sdu_mem = mem_empty, tm_t_current = 0, tm_t_log_buffer_full = 0,
      tm_sdu_rejected = 0, tm_tx_list = [], tm_tx_size = 0, tm_tx_maxsize = 5\<rparr>"

theorem tm_refines_fifo_witness:
  "tm_inv tm_example \<and>
   (\<exists>e'. tm_run [Op_recv_sdu 0 [1, 2, 3] 7, Op_recv_sdu 0 [4, 5] 8, Op_recv_sdu 0 [6] 9,
           Op_generate_pdu 0 [0, 0], Op_generate_pdu 0 [0, 0, 0, 0], Op_generate_pdu 0 [0, 0]]
      tm_example = Inr ([[], [1, 2, 3], [4, 5]], e') \<and> tm_queue e' = [])"
proof -
  have inv: "tm_inv tm_example"
    by (simp add: tm_inv_def tm_ok_def tm_example_def bstatus_zero_def)
  have q: "tm_queue tm_example = []" "tm_tx_maxsize tm_example = 5"
    by (simp_all add: tm_queue_def tm_example_def)
  let ?ops = "[Op_recv_sdu 0 [1, 2, 3] 7, Op_recv_sdu 0 [4, 5] 8, Op_recv_sdu 0 [6] 9,
           Op_generate_pdu 0 [0, 0], Op_generate_pdu 0 [0, 0, 0, 0], Op_generate_pdu 0 [0, 0]]"
  have "fifo_run 5 ?ops [] = ([[], [1, 2, 3], [4, 5]], [])"
    by (simp add: fifo_push_def)
  moreover have "list_all tm_op_ok ?ops" by (simp add: NR_SDU_MAX_def)
  ultimately show ?thesis
    using tm_refines_fifo [OF inv, of ?ops] inv by (auto simp only: q fst_conv snd_conv)
qed

end
