(* ===== verification/Rlc_Um.thy ===== *)
theory Rlc_Um
  imports Rlc_Reasm Rlc_Tm
begin

text \<open>
  \<open>openair2/LAYER2/nr_rlc/nr_rlc_entity_um.c\<close>: the unacknowledged mode entity. It cuts SDUs into
  segments that fit the grants of the MAC and reassembles them on the other side, giving up on an
  SDU when the reassembly timer expires.

  The definitions follow the file in order: header size, reception, transmission, timers,
  re-establishment. \<open>UM reception\<close> and \<open>UM transmission\<close> are verified in \<open>Rlc_Um_Rx\<close> and
  \<open>Rlc_Um_Tx\<close>.
\<close>

record nr_rlc_entity_um_t = nr_rlc_entity_t +
  um_t_reassembly :: int
  um_sn_field_length :: int
  um_sn_modulus :: int
  um_window_size :: int
  um_rx_next_highest :: int
  um_rx_next_reassembly :: int
  um_rx_timer_trigger :: int
  um_tx_next :: int
  um_t_current :: u64
  um_t_log_buffer_full :: u64
  um_sdu_rejected :: int
  um_t_reassembly_start :: u64
  um_rx_list :: "nr_rlc_pdu_t list"
  um_rx_size :: int
  um_rx_maxsize :: int
  um_tx_list :: "nr_rlc_sdu_segment_t list"
  um_tx_size :: int
  um_tx_maxsize :: int

definition new_nr_rlc_entity_um :: "int \<Rightarrow> int \<Rightarrow> int \<Rightarrow> int \<Rightarrow> nr_rlc_entity_um_t result" where
  "new_nr_rlc_entity_um rx_maxsize tx_maxsize t_reassembly sn_field_length =
     (if sn_field_length \<noteq> 6 \<and> sn_field_length \<noteq> 12 then Inl Fatal_exit
      else
        let sn_modulus = 2 ^ nat sn_field_length in
        bind_r (time_average_new (100 * 1000) 1024) (\<lambda>avg.
        Inr \<lparr>bstatus = bstatus_zero, stats = nr_rlc_statistics_zero NR_RLC_UM,
             txsdu_avg_time_to_tx = avg, avg_time_is_on = False, sdu_mem = mem_empty,
             um_t_reassembly = t_reassembly, um_sn_field_length = sn_field_length,
             um_sn_modulus = sn_modulus, um_window_size = sn_modulus div 2,
             um_rx_next_highest = 0, um_rx_next_reassembly = 0, um_rx_timer_trigger = 0,
             um_tx_next = 0, um_t_current = 0, um_t_log_buffer_full = 0, um_sdu_rejected = 0,
             um_t_reassembly_start = 0, um_rx_list = [], um_rx_size = 0,
             um_rx_maxsize = rx_maxsize, um_tx_list = [], um_tx_size = 0,
             um_tx_maxsize = tx_maxsize\<rparr>))"

definition nr_rlc_entity_um_reconfigure ::
  "nr_rlc_entity_um_t \<Rightarrow> int \<Rightarrow> int option \<Rightarrow> nr_rlc_entity_um_t" where
  "nr_rlc_entity_um_reconfigure e t_reassembly sn_field_length =
     (let e = e\<lparr>um_t_reassembly := t_reassembly\<rparr> in
      case sn_field_length of None \<Rightarrow> e | Some l \<Rightarrow> e\<lparr>um_sn_field_length := l\<rparr>)"

definition um_compute_pdu_header_size :: "nr_rlc_entity_um_t \<Rightarrow> nr_rlc_sdu_segment_t \<Rightarrow> int" where
  "um_compute_pdu_header_size e sdu =
     1 + (if \<not> (seg_is_first sdu \<and> seg_is_last sdu) \<and> um_sn_field_length e = 12 then 1 else 0)
       + (if \<not> seg_is_first sdu then 2 else 0)"


subsection \<open>Reception\<close>

definition um_modulus_rx :: "nr_rlc_entity_um_t \<Rightarrow> int \<Rightarrow> int" where
  "um_modulus_rx e a =
     (let r = a - (um_rx_next_highest e - um_window_size e);
          r = (if r < 0 then r + um_sn_modulus e else r) in
      c_rem r (um_sn_modulus e))"

definition um_sn_compare_rx :: "nr_rlc_entity_um_t \<Rightarrow> int \<Rightarrow> int \<Rightarrow> int" where
  "um_sn_compare_rx e a b = um_modulus_rx e a - um_modulus_rx e b"

text \<open>\<open>while (sdu_delivered(entity, sn)) sn = (sn + 1) % sn_modulus\<close>\<close>

definition um_skip_delivered :: "nr_rlc_entity_um_t \<Rightarrow> int \<Rightarrow> int result" where
  "um_skip_delivered e sn =
     (case skip_while_sn (nat (um_sn_modulus e)) (sdu_delivered (um_rx_list e)) (um_sn_modulus e) sn of
        None \<Rightarrow> Inl Diverges | Some r \<Rightarrow> Inr r)"

definition um_reassemble_and_deliver ::
  "nr_rlc_entity_um_t \<Rightarrow> int \<Rightarrow> (nr_rlc_entity_um_t \<times> rlc_event list) result" where
  "um_reassemble_and_deliver e sn =
     bind_r (reassemble (um_rx_list e) sn) (\<lambda>(l, freed, out).
       let e1 = e\<lparr>um_rx_list := l, um_rx_size := um_rx_size e - freed\<rparr> in
       case out of
         None \<Rightarrow> Inr (e1, [])
       | Some sdu \<Rightarrow>
           Inr (e1\<lparr>stats := (stats e1)\<lparr>txsdu_pkts := txsdu_pkts (stats e1) + 1,
                                       txsdu_bytes := txsdu_bytes (stats e1) + of_nat (length sdu)\<rparr>\<rparr>,
                [Deliver_sdu sdu]))"

fun um_discard_outside :: "nr_rlc_entity_um_t \<Rightarrow> nr_rlc_pdu_t list \<Rightarrow> nr_rlc_entity_um_t" where
  "um_discard_outside e [] = e\<lparr>um_rx_list := []\<rparr>"
| "um_discard_outside e (p # l) =
     (if 0 \<le> um_sn_compare_rx e (pdu_sn p) (um_rx_next_highest e)
      then um_discard_outside
             (e\<lparr>um_rx_size := um_rx_size e - pdu_size p,
                stats := (stats e)\<lparr>rxpdu_dd_pkts := rxpdu_dd_pkts (stats e) + 1,
                                   rxpdu_dd_bytes := rxpdu_dd_bytes (stats e) + of_int (pdu_size p),
                                   rxpdu_ow_pkts := rxpdu_ow_pkts (stats e) + 1,
                                   rxpdu_ow_bytes := rxpdu_ow_bytes (stats e) + of_int (pdu_size p)\<rparr>\<rparr>) l
      else e\<lparr>um_rx_list := p # l\<rparr>)"

definition um_advance_window :: "nr_rlc_entity_um_t \<Rightarrow> int \<Rightarrow> nr_rlc_entity_um_t result" where
  "um_advance_window e x =
     (let e1 = e\<lparr>um_rx_next_highest := (x + 1) mod um_sn_modulus e\<rparr>;
          e2 = um_discard_outside e1 (um_rx_list e1) in
      if 0 \<le> um_sn_compare_rx e2 (um_rx_next_reassembly e2) (um_rx_next_highest e2)
      then bind_r (um_skip_delivered e2
                     ((um_rx_next_highest e2 - um_window_size e2 + um_sn_modulus e2) mod um_sn_modulus e2))
             (\<lambda>r. Inr (e2\<lparr>um_rx_next_reassembly := r\<rparr>))
      else Inr e2)"

definition um_stop_timer :: "nr_rlc_entity_um_t \<Rightarrow> nr_rlc_entity_um_t" where
  "um_stop_timer e =
     (if um_t_reassembly_start e \<noteq> 0 \<and>
         (um_sn_compare_rx e (um_rx_timer_trigger e) (um_rx_next_reassembly e) \<le> 0 \<or>
          um_sn_compare_rx e (um_rx_timer_trigger e) (um_rx_next_highest e) > 0 \<or>
          um_rx_next_highest e = (um_rx_next_reassembly e + 1) mod um_sn_modulus e \<and>
          \<not> sdu_has_missing_bytes (um_rx_list e) (um_rx_next_reassembly e))
      then e\<lparr>um_t_reassembly_start := 0\<rparr> else e)"

definition um_start_timer :: "nr_rlc_entity_um_t \<Rightarrow> nr_rlc_entity_um_t" where
  "um_start_timer e =
     (if um_t_reassembly_start e = 0 \<and>
         (um_sn_compare_rx e (um_rx_next_highest e) ((um_rx_next_reassembly e + 1) mod um_sn_modulus e) > 0 \<or>
          um_rx_next_highest e = (um_rx_next_reassembly e + 1) mod um_sn_modulus e \<and>
          sdu_has_missing_bytes (um_rx_list e) (um_rx_next_reassembly e))
      then e\<lparr>um_t_reassembly_start := um_t_current e, um_rx_timer_trigger := um_rx_next_highest e\<rparr>
      else e)"

definition um_reception_actions ::
  "nr_rlc_entity_um_t \<Rightarrow> nr_rlc_pdu_t \<Rightarrow> (nr_rlc_entity_um_t \<times> rlc_event list) result" where
  "um_reception_actions e pdu =
     (let x = pdu_sn pdu in
      bind_r
        (if sdu_full (um_rx_list e) x
         then bind_r (um_reassemble_and_deliver e x) (\<lambda>(e1, ev).
                if x = um_rx_next_reassembly e1
                then bind_r (um_skip_delivered e1 (um_rx_next_reassembly e1)) (\<lambda>r.
                       Inr (e1\<lparr>um_rx_next_reassembly := r\<rparr>, ev))
                else Inr (e1, ev))
         else if 0 \<le> um_sn_compare_rx e x (um_rx_next_highest e)
         then bind_r (um_advance_window e x) (\<lambda>e1. Inr (e1, []))
         else Inr (e, []))
        (\<lambda>(e1, ev). Inr (um_start_timer (um_stop_timer e1), ev)))"

definition um_discard_pdu :: "nr_rlc_entity_um_t \<Rightarrow> int \<Rightarrow> (nr_rlc_entity_um_t \<times> rlc_event list) result" where
  "um_discard_pdu e pdu_len =
     Inr (e\<lparr>stats := (stats e)\<lparr>rxpdu_dd_pkts := rxpdu_dd_pkts (stats e) + 1,
                               rxpdu_dd_bytes := rxpdu_dd_bytes (stats e) + of_int pdu_len\<rparr>\<rparr>, [])"

definition um_recv_segment ::
  "nr_rlc_entity_um_t \<Rightarrow> byte list \<Rightarrow> int \<Rightarrow> int \<Rightarrow> bool \<Rightarrow> bool \<Rightarrow> nr_rlc_pdu_decoder_t \<Rightarrow>
   (nr_rlc_entity_um_t \<times> rlc_event list) result" where
  "um_recv_segment e buffer sn so is_first is_last d =
     (let size = int (length buffer); data_size = size - int (dec_byte d) in
      if data_size \<le> 0 then um_discard_pdu e size
      else if um_rx_size e + data_size > um_rx_maxsize e then um_discard_pdu e size
      else if um_sn_compare_rx e sn (um_rx_next_reassembly e) < 0 then um_discard_pdu e size
      else
        let pdu = nr_rlc_new_pdu sn so is_first is_last (drop (nat (size - data_size)) buffer);
            e1 = e\<lparr>um_rx_size := um_rx_size e + data_size,
                   um_rx_list := nr_rlc_pdu_list_add (um_sn_compare_rx e) (um_rx_list e) pdu\<rparr> in
        um_reception_actions e1 pdu)"

text \<open>The header from the sequence number on.\<close>

definition um_recv_sn ::
  "nr_rlc_entity_um_t \<Rightarrow> byte list \<Rightarrow> (nr_rlc_entity_um_t \<times> rlc_event list) result \<Rightarrow> bool \<Rightarrow> bool \<Rightarrow>
   nr_rlc_pdu_decoder_t \<Rightarrow> (nr_rlc_entity_um_t \<times> rlc_event list) result" where
  "um_recv_sn e buffer err is_first is_last d =
     with_bits d (nat (um_sn_field_length e)) err (\<lambda>sn d.
       if \<not> is_first
       then with_bits d 16 err (\<lambda>so d.
              if so = 0 then err else um_recv_segment e buffer sn so is_first is_last d)
       else um_recv_segment e buffer sn 0 is_first is_last d)"

definition um_recv_si ::
  "nr_rlc_entity_um_t \<Rightarrow> byte list \<Rightarrow> (nr_rlc_entity_um_t \<times> rlc_event list) result \<Rightarrow> int \<Rightarrow>
   nr_rlc_pdu_decoder_t \<Rightarrow> (nr_rlc_entity_um_t \<times> rlc_event list) result" where
  "um_recv_si e buffer err si d =
     (let size = int (length buffer); is_first = \<not> bit si 1; is_last = \<not> bit si 0 in
      if is_first \<and> is_last
      then if size < 2 then err
           else Inr (e\<lparr>stats := (stats e)\<lparr>txsdu_pkts := txsdu_pkts (stats e) + 1,
                                          txsdu_bytes := txsdu_bytes (stats e) + of_int (size - 1)\<rparr>\<rparr>,
                     [Deliver_sdu (drop 1 buffer)])
      else if um_sn_field_length e = 12
           then with_bits d 2 err (\<lambda>_ d. um_recv_sn e buffer err is_first is_last d)
           else um_recv_sn e buffer err is_first is_last d)"

definition nr_rlc_entity_um_recv_pdu ::
  "nr_rlc_entity_um_t \<Rightarrow> byte list \<Rightarrow> (nr_rlc_entity_um_t \<times> rlc_event list) result" where
  "nr_rlc_entity_um_recv_pdu e buffer =
     (let size = int (length buffer);
          e = e\<lparr>stats := (stats e)\<lparr>rxpdu_pkts := rxpdu_pkts (stats e) + 1,
                                  rxpdu_bytes := rxpdu_bytes (stats e) + of_int size\<rparr>\<rparr>;
          err = um_discard_pdu e size in
      with_bits (nr_rlc_pdu_decoder_init buffer) 2 err (um_recv_si e buffer err))"


subsection \<open>Transmission\<close>

definition um_header_fields :: "nr_rlc_entity_um_t \<Rightarrow> nr_rlc_sdu_segment_t \<Rightarrow> int \<Rightarrow> (int \<times> nat) list" where
  "um_header_fields e sdu sn =
     [(1 - int_of_bool (seg_is_first sdu), 1), (1 - int_of_bool (seg_is_last sdu), 1)] @
     (if seg_is_first sdu \<and> seg_is_last sdu then [(0, 6)]
      else (if um_sn_field_length e = 12 then [(0, 2)] else []) @ [(sn, nat (um_sn_field_length e))]) @
     (if \<not> seg_is_first sdu then [(seg_so sdu, 16)] else [])"

definition um_serialize_sdu ::
  "nr_rlc_entity_um_t \<Rightarrow> nr_rlc_sdu_segment_t \<Rightarrow> byte list \<Rightarrow> (int \<times> byte list) result" where
  "um_serialize_sdu e sdu buffer =
     bind_r (sdu_at (sdu_mem e) (seg_sdu sdu)) (\<lambda>u.
     bind_r (put_fields (um_header_fields e sdu (sdu_sn u)) (nr_rlc_pdu_encoder_init buffer)) (\<lambda>enc.
     bind_r (read_at (sdu_data u) (seg_so sdu) (seg_size sdu)) (\<lambda>data.
     bind_r (memcpy_at (enc_buffer enc) (enc_byte enc) data) (\<lambda>buffer'.
       Inr (int (enc_byte enc) + seg_size sdu, buffer')))))"

text \<open>The result is the segment that fits and the one with the remaining bytes; \<open>None\<close> is NULL.\<close>

definition um_resegment ::
  "nr_rlc_entity_um_t \<Rightarrow> nr_rlc_sdu_segment_t \<Rightarrow> int \<Rightarrow>
   (nr_rlc_entity_um_t \<times> (nr_rlc_sdu_segment_t \<times> nr_rlc_sdu_segment_t) option) result" where
  "um_resegment e sdu max_size =
     bind_r (sdu_at (sdu_mem e) (seg_sdu sdu)) (\<lambda>u.
       let e = e\<lparr>sdu_mem := sdu_put (sdu_mem e) (seg_sdu sdu) (u\<lparr>sdu_ref_count := sdu_ref_count u + 1\<rparr>)\<rparr>;
           pdu_header_size = um_compute_pdu_header_size e (sdu\<lparr>seg_is_last := False\<rparr>) in
       if pdu_header_size + 1 > max_size then Inr (e, None)
       else
         let over_size = pdu_header_size + seg_size sdu - max_size;
             sdu' = sdu\<lparr>seg_size := seg_size sdu - over_size, seg_is_last := False\<rparr>;
             next = sdu\<lparr>seg_size := over_size, seg_so := seg_so sdu' + seg_size sdu', seg_is_first := False\<rparr> in
         Inr (e\<lparr>stats := (stats e)\<lparr>txpdu_segmented := txpdu_segmented (stats e) + 1\<rparr>\<rparr>, Some (sdu', next)))"

definition um_send_segment ::
  "u64 \<Rightarrow> byte list \<Rightarrow> nr_rlc_sdu_segment_t \<Rightarrow> nr_rlc_entity_um_t \<Rightarrow>
   (int \<times> byte list \<times> nr_rlc_entity_um_t) result" where
  "um_send_segment now buffer sdu e =
     (let e1 = (if \<not> seg_is_first sdu \<and> seg_is_last sdu
                then e\<lparr>um_tx_next := (um_tx_next e + 1) mod um_sn_modulus e\<rparr> else e) in
      bind_r (um_serialize_sdu e1 sdu buffer) (\<lambda>(ret, buffer').
      let e2 = e1\<lparr>um_tx_size := um_tx_size e1 - seg_size sdu,
                  stats := (stats e1)\<lparr>txpdu_pkts := txpdu_pkts (stats e1) + 1,
                                      txpdu_bytes := txpdu_bytes (stats e1) + of_nat (length buffer)\<rparr>\<rparr> in
      bind_r (sdu_at (sdu_mem e2) (seg_sdu sdu)) (\<lambda>u.
      let e3 = record_waited_time now u e2 in
      bind_r (nr_rlc_free_sdu_segment (sdu_mem e3) sdu) (\<lambda>(_, m).
        Inr (ret, buffer', e3\<lparr>sdu_mem := m\<rparr>)))))"

definition um_generate_tx_pdu ::
  "u64 \<Rightarrow> byte list \<Rightarrow> nr_rlc_entity_um_t \<Rightarrow> (int \<times> byte list \<times> nr_rlc_entity_um_t) result" where
  "um_generate_tx_pdu now buffer e =
     (case um_tx_list e of
        [] \<Rightarrow> Inr (0, buffer, e)
      | sdu # rest \<Rightarrow>
          let size = int (length buffer); pdu_header_size = um_compute_pdu_header_size e sdu in
          if pdu_header_size + 1 > size then Inr (0, buffer, e)
          else
            bind_r (sdu_at (sdu_mem e) (seg_sdu sdu)) (\<lambda>u.
            let pdu_size = pdu_header_size + seg_size sdu;
                e1 = e\<lparr>um_tx_list := rest,
                       sdu_mem := sdu_put (sdu_mem e) (seg_sdu sdu) (u\<lparr>sdu_sn := um_tx_next e\<rparr>),
                       bstatus := (bstatus e)\<lparr>bs_tx_size := bs_tx_size (bstatus e) - pdu_size\<rparr>\<rparr> in
            if pdu_size > size
            then
              bind_r (um_resegment e1 sdu size) (\<lambda>(e2, split).
              case split of
                None \<Rightarrow> Inr (0, buffer, e2)
              | Some (sdu', next_sdu) \<Rightarrow>
                  let e3 = e2\<lparr>um_tx_list := next_sdu # um_tx_list e2,
                              stats := (stats e2)\<lparr>txpdu_segmented := txpdu_segmented (stats e2) + 1\<rparr>,
                              bstatus := (bstatus e2)\<lparr>bs_tx_size := bs_tx_size (bstatus e2)
                                + (um_compute_pdu_header_size e2 next_sdu + seg_size next_sdu)\<rparr>\<rparr> in
                  um_send_segment now buffer sdu' e3)
            else um_send_segment now buffer sdu e1))"

definition nr_rlc_entity_um_buffer_status ::
  "nr_rlc_entity_um_t \<Rightarrow> int \<Rightarrow> nr_rlc_entity_buffer_status_t" where
  "nr_rlc_entity_um_buffer_status e maxsize =
     \<lparr>bs_status_size = 0, bs_tx_size = bs_tx_size (bstatus e), bs_retx_size = 0\<rparr>"

definition nr_rlc_entity_um_generate_pdu ::
  "u64 \<Rightarrow> byte list \<Rightarrow> nr_rlc_entity_um_t \<Rightarrow> (int \<times> byte list \<times> nr_rlc_entity_um_t) result" where
  "nr_rlc_entity_um_generate_pdu now buffer e = um_generate_tx_pdu now buffer e"

definition nr_rlc_entity_um_recv_sdu ::
  "u64 \<Rightarrow> byte list \<Rightarrow> int \<Rightarrow> nr_rlc_entity_um_t \<Rightarrow> nr_rlc_entity_um_t result" where
  "nr_rlc_entity_um_recv_sdu now buffer sdu_id e =
     (let size = int (length buffer);
          e = e\<lparr>stats := (stats e)\<lparr>rxsdu_pkts := rxsdu_pkts (stats e) + 1,
                                  rxsdu_bytes := rxsdu_bytes (stats e) + of_int size\<rparr>\<rparr> in
      if size > NR_SDU_MAX then Inl Fatal_exit
      else
        let e = (if um_sdu_rejected e \<noteq> 0 \<and> um_t_current e > um_t_log_buffer_full e + 1000
                 then e\<lparr>um_sdu_rejected := 0, um_t_log_buffer_full := um_t_current e\<rparr> else e) in
        if um_tx_size e + size > um_tx_maxsize e
        then Inr (e\<lparr>um_sdu_rejected := um_sdu_rejected e + 1,
                    stats := (stats e)\<lparr>rxsdu_dd_pkts := rxsdu_dd_pkts (stats e) + 1,
                                       rxsdu_dd_bytes := rxsdu_dd_bytes (stats e) + of_int size\<rparr>\<rparr>)
        else
          let (sdu, m) = nr_rlc_new_sdu (sdu_mem e) buffer sdu_id;
              e = e\<lparr>um_tx_size := um_tx_size e + size, sdu_mem := m,
                    um_tx_list := nr_rlc_sdu_segment_list_append (um_tx_list e) sdu,
                    bstatus := (bstatus e)\<lparr>bs_tx_size := bs_tx_size (bstatus e)
                      + (um_compute_pdu_header_size e sdu + seg_size sdu)\<rparr>\<rparr> in
          if avg_time_is_on e
          then bind_r (sdu_at (sdu_mem e) (seg_sdu sdu)) (\<lambda>u.
               Inr (e\<lparr>sdu_mem := sdu_put (sdu_mem e) (seg_sdu sdu) (u\<lparr>sdu_time_of_arrival := now\<rparr>)\<rparr>))
          else Inr e)"


subsection \<open>Timers, discard, re-establishment\<close>

fun um_discard_before :: "nr_rlc_entity_um_t \<Rightarrow> nr_rlc_pdu_t list \<Rightarrow> nr_rlc_entity_um_t" where
  "um_discard_before e [] = e\<lparr>um_rx_list := []\<rparr>"
| "um_discard_before e (p # l) =
     (if um_sn_compare_rx e (pdu_sn p) (um_rx_next_reassembly e) < 0
      then um_discard_before
             (e\<lparr>stats := (stats e)\<lparr>rxpdu_dd_pkts := rxpdu_dd_pkts (stats e) + 1,
                                  rxpdu_dd_bytes := rxpdu_dd_bytes (stats e) + of_int (pdu_size p)\<rparr>\<rparr>) l
      else e\<lparr>um_rx_list := p # l\<rparr>)"

definition um_check_t_reassembly :: "nr_rlc_entity_um_t \<Rightarrow> nr_rlc_entity_um_t result" where
  "um_check_t_reassembly e =
     (if um_t_reassembly_start e = 0 \<or>
         um_t_current e \<le> um_t_reassembly_start e + of_int (um_t_reassembly e)
      then Inr e
      else
        bind_r (um_skip_delivered e (um_rx_timer_trigger e)) (\<lambda>r.
        let e1 = e\<lparr>um_t_reassembly_start := 0, um_rx_next_reassembly := r\<rparr>;
            e2 = um_discard_before e1 (um_rx_list e1) in
        if um_sn_compare_rx e2 (um_rx_next_highest e2)
             ((um_rx_next_reassembly e2 + 1) mod um_sn_modulus e2) > 0 \<or>
           um_rx_next_highest e2 = um_rx_next_reassembly e2 + 1 \<and>
           sdu_has_missing_bytes (um_rx_list e2) (um_rx_next_reassembly e2)
        then Inr (e2\<lparr>um_t_reassembly_start := um_t_current e2,
                     um_rx_timer_trigger := um_rx_next_highest e2\<rparr>)
        else Inr e2))"

definition nr_rlc_entity_um_set_time :: "nr_rlc_entity_um_t \<Rightarrow> u64 \<Rightarrow> nr_rlc_entity_um_t result" where
  "nr_rlc_entity_um_set_time e now = um_check_t_reassembly (e\<lparr>um_t_current := now\<rparr>)"

text \<open>The search of \<open>discard_sdu\<close>: the nodes passed over, and the rest starting at the SDU.\<close>

fun find_sdu ::
  "sdu_mem_t \<Rightarrow> int \<Rightarrow> nr_rlc_sdu_segment_t list \<Rightarrow>
   (nr_rlc_sdu_segment_t list \<times> nr_rlc_sdu_segment_t list) result" where
  "find_sdu m sdu_id [] = Inr ([], [])"
| "find_sdu m sdu_id (cur # l) =
     bind_r (sdu_at m (seg_sdu cur)) (\<lambda>u.
       if sdu_upper_layer_id u \<noteq> sdu_id
       then bind_r (find_sdu m sdu_id l) (\<lambda>(front, rest). Inr (cur # front, rest))
       else Inr ([], cur # l))"

definition nr_rlc_entity_um_discard_sdu :: "nr_rlc_entity_um_t \<Rightarrow> int \<Rightarrow> nr_rlc_entity_um_t result" where
  "nr_rlc_entity_um_discard_sdu e sdu_id =
     bind_r (find_sdu (sdu_mem e) sdu_id (um_tx_list e)) (\<lambda>(front, rest).
       case rest of
         [] \<Rightarrow> Inr e
       | cur # l \<Rightarrow>
           if \<not> seg_is_first cur \<or> \<not> seg_is_last cur then Inr e
           else
             let e1 = e\<lparr>um_tx_list := front @ l,
                        bstatus := (bstatus e)\<lparr>bs_tx_size := bs_tx_size (bstatus e)
                          - (um_compute_pdu_header_size e cur + seg_size cur)\<rparr>\<rparr> in
             bind_r (nr_rlc_free_sdu_segment (sdu_mem e1) cur) (\<lambda>(_, m). Inr (e1\<lparr>sdu_mem := m\<rparr>)))"

definition um_clear_entity :: "nr_rlc_entity_um_t \<Rightarrow> nr_rlc_entity_um_t result" where
  "um_clear_entity e =
     bind_r (nr_rlc_free_sdu_segment_list (um_tx_list e) (sdu_mem e)) (\<lambda>m.
       Inr (e\<lparr>um_rx_next_highest := 0, um_rx_next_reassembly := 0, um_rx_timer_trigger := 0,
              um_tx_next := 0, um_t_current := 0, um_t_log_buffer_full := 0, um_sdu_rejected := 0,
              um_t_reassembly_start := 0, um_rx_list := [], um_rx_size := 0, sdu_mem := m,
              um_tx_list := [], um_tx_size := 0, bstatus := (bstatus e)\<lparr>bs_tx_size := 0\<rparr>\<rparr>))"

definition nr_rlc_entity_um_reestablishment :: "nr_rlc_entity_um_t \<Rightarrow> nr_rlc_entity_um_t result" where
  "nr_rlc_entity_um_reestablishment e = um_clear_entity e"

definition nr_rlc_entity_um_delete :: "nr_rlc_entity_um_t \<Rightarrow> sdu_mem_t result" where
  "nr_rlc_entity_um_delete e = bind_r (um_clear_entity e) (\<lambda>e'. Inr (sdu_mem e'))"

definition nr_rlc_entity_um_available_tx_space :: "nr_rlc_entity_um_t \<Rightarrow> int" where
  "nr_rlc_entity_um_available_tx_space e = um_tx_maxsize e - um_tx_size e"

definition nr_rlc_entity_um_get_stats ::
  "u64 \<Rightarrow> nr_rlc_entity_um_t \<Rightarrow> (nr_rlc_statistics_t \<times> nr_rlc_entity_um_t) result" where
  "nr_rlc_entity_um_get_stats now e = nr_rlc_entity_get_stats now (um_tx_list e) e"

end
