(* ===== verification/Rlc_Um_Tx.thy ===== *)
theory Rlc_Um_Tx
  imports Rlc_Um
begin

text \<open>
  Transmission in unacknowledged mode. \<open>um_tx_ok\<close> is the invariant of the transmit side: the SDU
  memory accounts for the segments of \<open>tx_list\<close>, only the head of the list may be a part of an SDU,
  and the buffer status is the size of the PDUs to come. The abstraction \<open>um_pending\<close> is the stream
  of bytes accepted and not sent yet, from which every PDU takes a non-empty prefix.
\<close>

definition um_cfg_ok :: "nr_rlc_entity_um_t \<Rightarrow> bool" where
  "um_cfg_ok e \<longleftrightarrow> (um_sn_field_length e = 6 \<or> um_sn_field_length e = 12) \<and>
     um_sn_modulus e = 2 ^ nat (um_sn_field_length e) \<and> um_window_size e = um_sn_modulus e div 2"

definition sdus_small :: "sdu_mem_t \<Rightarrow> bool" where
  "sdus_small m \<longleftrightarrow> (\<forall>a u. mem_sdu m a = Some u \<longrightarrow> sdu_size u \<le> NR_SDU_MAX)"

definition seg_full :: "nr_rlc_sdu_segment_t \<Rightarrow> bool" where
  "seg_full s \<longleftrightarrow> seg_is_first s \<and> seg_is_last s"

fun um_shape :: "nr_rlc_sdu_segment_t list \<Rightarrow> bool" where
  "um_shape [] \<longleftrightarrow> True"
| "um_shape (s # l) \<longleftrightarrow> seg_is_last s \<and> list_all seg_full l"

definition um_cost :: "nr_rlc_entity_um_t \<Rightarrow> nr_rlc_sdu_segment_t \<Rightarrow> int" where
  "um_cost e s = um_compute_pdu_header_size e s + seg_size s"

definition um_tx_core :: "nr_rlc_entity_um_t \<Rightarrow> nr_rlc_sdu_segment_t list \<Rightarrow> bool" where
  "um_tx_core e segs \<longleftrightarrow> um_cfg_ok e \<and> 0 \<le> um_tx_next e \<and> um_tx_next e < um_sn_modulus e \<and>
     mem_inv (sdu_mem e) segs \<and> segs_ok (sdu_mem e) segs \<and> sdus_small (sdu_mem e)"

definition um_tx_ok :: "nr_rlc_entity_um_t \<Rightarrow> bool" where
  "um_tx_ok e \<longleftrightarrow> um_tx_core e (um_tx_list e) \<and> um_shape (um_tx_list e) \<and>
     bs_tx_size (bstatus e) = (\<Sum>s\<leftarrow>um_tx_list e. um_cost e s) \<and>
     (\<Sum>s\<leftarrow>um_tx_list e. seg_size s) \<le> um_tx_size e \<and> um_tx_size e \<le> um_tx_maxsize e"

definition um_pending :: "nr_rlc_entity_um_t \<Rightarrow> byte list" where
  "um_pending e = concat (map (seg_bytes (sdu_mem e)) (um_tx_list e))"

lemma um_header_size_bounds:
  "1 \<le> um_compute_pdu_header_size e s" "um_compute_pdu_header_size e s \<le> 4"
  by (auto simp: um_compute_pdu_header_size_def)

lemma um_header_fields_bits:
  assumes "um_cfg_ok e"
  shows "(\<Sum>(v, c)\<leftarrow>um_header_fields e s sn. c) = 8 * nat (um_compute_pdu_header_size e s)"
    and "\<forall>(v, c) \<in> set (um_header_fields e s sn). c \<le> 31"
  using assms by (auto simp: um_cfg_ok_def um_header_fields_def um_compute_pdu_header_size_def)

lemma um_serialize_ok:
  assumes "um_cfg_ok e" and "mem_inv (sdu_mem e) xs" and u: "mem_sdu (sdu_mem e) (seg_sdu s) = Some u"
    and "seg_within u s" and "um_cost e s \<le> int (length buffer)"
  shows "\<exists>h buffer'. um_serialize_sdu e s buffer = Inr (um_cost e s, buffer') \<and>
    length buffer' = length buffer \<and>
    take (nat (um_cost e s)) buffer' = h @ seg_bytes (sdu_mem e) s \<and>
    int (length h) = um_compute_pdu_header_size e s \<and>
    bytes_bits h = concat (map (\<lambda>(v, c). bits_of c v) (um_header_fields e s (sdu_sn u)))"
proof -
  let ?k = "nat (um_compute_pdu_header_size e s)"
  note hs = um_header_size_bounds [of e s]
  have size: "0 < seg_size s" "0 \<le> seg_so s" "seg_so s + seg_size s \<le> int (length (sdu_data u))"
    using assms(4) mem_inv_size [OF assms(2) u] by (auto simp: seg_within_def)
  have room: "?k + nat (seg_size s) \<le> length buffer" using assms(5) hs size by (simp add: um_cost_def)
  from put_header [OF um_header_fields_bits(2,1) [OF assms(1), of s "sdu_sn u"], of buffer] room
  obtain enc where enc: "put_fields (um_header_fields e s (sdu_sn u)) (nr_rlc_pdu_encoder_init buffer) = Inr enc"
    "enc_byte enc = ?k" "length (enc_buffer enc) = length buffer"
    "bytes_bits (take ?k (enc_buffer enc)) =
       concat (map (\<lambda>(v, c). bits_of c v) (um_header_fields e s (sdu_sn u)))" by auto
  let ?d = "seg_bytes (sdu_mem e) s"
  have d: "read_at (sdu_data u) (seg_so s) (seg_size s) = Inr ?d" "length ?d = nat (seg_size s)"
    using size u length_seg_bytes [OF assms(2) u assms(4)] by (auto simp: read_at_def seg_bytes_def)
  let ?b = "take ?k (enc_buffer enc) @ ?d @ drop (?k + length ?d) (enc_buffer enc)"
  have b: "memcpy_at (enc_buffer enc) ?k ?d = Inr ?b"
    using room enc(3) d(2) by (simp add: memcpy_at_def)
  have "um_serialize_sdu e s buffer = Inr (um_cost e s, ?b)"
    using u enc d(1) b hs by (simp add: um_serialize_sdu_def sdu_at_def um_cost_def)
  moreover have "nat (um_cost e s) = ?k + nat (seg_size s)"
    using hs size by (simp add: um_cost_def nat_add_distrib)
  ultimately show ?thesis
    using enc(3,4) d(2) room hs
    by (intro exI [of _ "take ?k (enc_buffer enc)"] exI [of _ ?b]) simp
qed

lemma sdus_small_put:
  "sdus_small m \<Longrightarrow> mem_sdu m a = Some u \<Longrightarrow> sdu_size u' = sdu_size u \<Longrightarrow> sdus_small (sdu_put m a u')"
  by (auto simp: sdus_small_def)

lemma sdus_small_free:
  "sdus_small m \<Longrightarrow> nr_rlc_free_sdu_segment m s = Inr (freed, m') \<Longrightarrow> sdus_small m'"
  by (metis free_segment_sizes sdus_small_def)

lemma um_cost_cong: "um_sn_field_length e' = um_sn_field_length e \<Longrightarrow> um_cost e' = um_cost e"
  by (simp add: um_cost_def um_compute_pdu_header_size_def fun_eq_iff)

lemma um_header_size_upd [simp]:
  "um_compute_pdu_header_size (e\<lparr>sdu_mem := m\<rparr>) s = um_compute_pdu_header_size e s"
  "um_compute_pdu_header_size (e\<lparr>stats := st\<rparr>) s = um_compute_pdu_header_size e s"
  "um_compute_pdu_header_size (e\<lparr>bstatus := b\<rparr>) s = um_compute_pdu_header_size e s"
  "um_compute_pdu_header_size (e\<lparr>um_tx_list := l\<rparr>) s = um_compute_pdu_header_size e s"
  "um_compute_pdu_header_size (e\<lparr>um_tx_size := n\<rparr>) s = um_compute_pdu_header_size e s"
  by (simp_all add: um_compute_pdu_header_size_def)

lemma um_header_size_seg_upd [simp]:
  "um_compute_pdu_header_size e (s\<lparr>seg_size := k\<rparr>) = um_compute_pdu_header_size e s"
  by (simp add: um_compute_pdu_header_size_def)

lemma um_header_size_segment:
  "um_compute_pdu_header_size e s \<le> um_compute_pdu_header_size e (s\<lparr>seg_is_last := False\<rparr>)"
  "um_compute_pdu_header_size e s + 1 \<le> n \<Longrightarrow> n \<noteq> 2 \<Longrightarrow>
   um_compute_pdu_header_size e (s\<lparr>seg_is_last := False\<rparr>) + 1 \<le> n"
  by (auto simp: um_compute_pdu_header_size_def split: if_splits)

text \<open>The fields that sending a segment leaves alone.\<close>

definition um_same_tx :: "nr_rlc_entity_um_t \<Rightarrow> nr_rlc_entity_um_t \<Rightarrow> bool" where
  "um_same_tx e e' \<longleftrightarrow> um_sn_field_length e' = um_sn_field_length e \<and> um_sn_modulus e' = um_sn_modulus e \<and>
     um_window_size e' = um_window_size e \<and> um_tx_maxsize e' = um_tx_maxsize e \<and>
     um_rx_list e' = um_rx_list e \<and> um_rx_size e' = um_rx_size e \<and>
     um_rx_next_highest e' = um_rx_next_highest e \<and> um_rx_next_reassembly e' = um_rx_next_reassembly e"

lemma um_send_segment_ok:
  assumes core: "um_tx_core e (s # um_tx_list e)" and "um_cost e s \<le> int (length buffer)"
  shows "\<exists>h buffer' e' u. um_send_segment now buffer s e = Inr (um_cost e s, buffer', e') \<and>
    length buffer' = length buffer \<and>
    take (nat (um_cost e s)) buffer' = h @ seg_bytes (sdu_mem e) s \<and>
    int (length h) = um_compute_pdu_header_size e s \<and>
    mem_sdu (sdu_mem e) (seg_sdu s) = Some u \<and>
    bytes_bits h = concat (map (\<lambda>(v, c). bits_of c v) (um_header_fields e s (sdu_sn u))) \<and>
    um_tx_core e' (um_tx_list e) \<and> um_tx_list e' = um_tx_list e \<and> um_same_tx e e' \<and>
    bstatus e' = bstatus e \<and> um_tx_size e' = um_tx_size e - seg_size s \<and>
    map (seg_bytes (sdu_mem e')) (um_tx_list e) = map (seg_bytes (sdu_mem e)) (um_tx_list e)"
proof -
  define e1 where "e1 = (if \<not> seg_is_first s \<and> seg_is_last s
                then e\<lparr>um_tx_next := (um_tx_next e + 1) mod um_sn_modulus e\<rparr> else e)"
  have e1: "sdu_mem e1 = sdu_mem e" "um_cost e1 = um_cost e" "um_cfg_ok e1" "um_tx_list e1 = um_tx_list e"
    "um_compute_pdu_header_size e1 s = um_compute_pdu_header_size e s" "um_same_tx e e1" "bstatus e1 = bstatus e"
    "um_header_fields e1 = um_header_fields e" "um_tx_size e1 = um_tx_size e"
    "0 \<le> um_tx_next e1" "um_tx_next e1 < um_sn_modulus e1"
    using core
    by (auto simp: e1_def um_same_tx_def um_tx_core_def um_cfg_ok_def um_header_fields_def fun_eq_iff
        um_cost_def um_compute_pdu_header_size_def)
  from core obtain u where u: "mem_sdu (sdu_mem e) (seg_sdu s) = Some u" "seg_within u s"
    and inv: "mem_inv (sdu_mem e) (s # um_tx_list e)" and small: "sdus_small (sdu_mem e)"
    and segs: "segs_ok (sdu_mem e) (um_tx_list e)"
    by (auto simp: um_tx_core_def)
  from um_serialize_ok [of e1 "s # um_tx_list e" s u buffer] inv u e1 assms(2) obtain h buffer' where
    ser: "um_serialize_sdu e1 s buffer = Inr (um_cost e s, buffer')" "length buffer' = length buffer"
      "take (nat (um_cost e s)) buffer' = h @ seg_bytes (sdu_mem e) s"
      "int (length h) = um_compute_pdu_header_size e s"
      "bytes_bits h = concat (map (\<lambda>(v, c). bits_of c v) (um_header_fields e s (sdu_sn u)))"
    by auto
  from free_segment_inv [OF inv] obtain freed m where
    m: "nr_rlc_free_sdu_segment (sdu_mem e) s = Inr (freed, m)" "mem_inv m (um_tx_list e)" by blast
  define e3 where "e3 = record_waited_time now u (e1\<lparr>um_tx_size := um_tx_size e1 - seg_size s,
                  stats := (stats e1)\<lparr>txpdu_pkts := txpdu_pkts (stats e1) + 1,
                                      txpdu_bytes := txpdu_bytes (stats e1) + of_nat (length buffer)\<rparr>\<rparr>)"
  have e3: "um_tx_list e3 = um_tx_list e" "um_same_tx e (e3\<lparr>sdu_mem := m\<rparr>)" "bstatus e3 = bstatus e"
    "um_tx_size e3 = um_tx_size e - seg_size s" "um_tx_next e3 = um_tx_next e1" "sdu_mem e3 = sdu_mem e"
    using e1 by (auto simp: e3_def um_same_tx_def record_waited_time_def)
  have "um_send_segment now buffer s e = Inr (um_cost e s, buffer', e3\<lparr>sdu_mem := m\<rparr>)"
    using ser(1) u(1) m(1) e1(1)
    by (simp add: um_send_segment_def Let_def e1_def [symmetric] sdu_at_def e3_def)
  moreover have "um_tx_core (e3\<lparr>sdu_mem := m\<rparr>) (um_tx_list e)"
    using core e1 e3 m(2) free_segment_segs_ok [OF inv segs m(1)] sdus_small_free [OF small m(1)]
    by (auto simp: um_tx_core_def um_same_tx_def um_cfg_ok_def)
  moreover have "map (seg_bytes m) (um_tx_list e) = map (seg_bytes (sdu_mem e)) (um_tx_list e)"
    by (rule map_seg_bytes_same) (rule free_segment_bytes [OF inv m(1)])
  ultimately show ?thesis
    using ser u(1) e3
    by (intro exI [of _ h] exI [of _ buffer'] exI [of _ "e3\<lparr>sdu_mem := m\<rparr>"] exI [of _ u]) simp
qed

text \<open>Taking the head of \<open>tx_list\<close> and giving it a sequence number.\<close>

lemma um_take_head_ok:
  assumes "um_tx_ok e" and "um_tx_list e = sdu # rest"
    and "mem_sdu (sdu_mem e) (seg_sdu sdu) = Some u"
    and e1: "e1 = e\<lparr>um_tx_list := rest,
        sdu_mem := sdu_put (sdu_mem e) (seg_sdu sdu) (u\<lparr>sdu_sn := um_tx_next e\<rparr>),
        bstatus := (bstatus e)\<lparr>bs_tx_size := bs_tx_size (bstatus e) - k\<rparr>\<rparr>"
  shows "um_tx_core e1 (sdu # rest)" and "seg_bytes (sdu_mem e1) = seg_bytes (sdu_mem e)"
    and "um_cost e1 = um_cost e"
proof -
  let ?u = "u\<lparr>sdu_sn := um_tx_next e\<rparr>"
  from assms(1,2) have inv: "mem_inv (sdu_mem e) (sdu # rest)" and segs: "segs_ok (sdu_mem e) (sdu # rest)"
    and small: "sdus_small (sdu_mem e)"
    by (auto simp: um_tx_ok_def um_tx_core_def)
  have "mem_inv (sdu_put (sdu_mem e) (seg_sdu sdu) ?u) (sdu # rest)"
    by (rule put_sdu_inv [OF inv assms(3)]) simp_all
  moreover have "segs_ok (sdu_put (sdu_mem e) (seg_sdu sdu) ?u) (sdu # rest)"
    by (rule put_sdu_segs_ok [OF segs assms(3)]) simp
  moreover have "sdus_small (sdu_put (sdu_mem e) (seg_sdu sdu) ?u)"
    by (rule sdus_small_put [OF small assms(3)]) simp
  ultimately show "um_tx_core e1 (sdu # rest)"
    using assms(1) unfolding e1 by (simp add: um_tx_ok_def um_tx_core_def um_cfg_ok_def)
  show "seg_bytes (sdu_mem e1) = seg_bytes (sdu_mem e)"
    using put_sdu_bytes [OF assms(3), of ?u] by (simp add: e1 fun_eq_iff)
  show "um_cost e1 = um_cost e" by (rule um_cost_cong) (simp add: e1)
qed

lemma um_resegment_ok:
  assumes core: "um_tx_core e (sdu # rest)" and u: "mem_sdu (sdu_mem e) (seg_sdu sdu) = Some u"
    and "um_compute_pdu_header_size e sdu + 1 \<le> n" and "n < um_cost e sdu" and "n \<noteq> 2"
  shows "\<exists>e' s1 s2. um_resegment e sdu n = Inr (e', Some (s1, s2)) \<and> um_tx_core e' (s1 # s2 # rest) \<and>
    um_cost e s1 = n \<and> seg_bytes (sdu_mem e) sdu = seg_bytes (sdu_mem e) s1 @ seg_bytes (sdu_mem e) s2 \<and>
    seg_bytes (sdu_mem e') = seg_bytes (sdu_mem e) \<and>
    mem_sdu (sdu_mem e') (seg_sdu sdu) = Some (u\<lparr>sdu_ref_count := sdu_ref_count u + 1\<rparr>) \<and>
    e' = e\<lparr>sdu_mem := sdu_mem e', stats := stats e'\<rparr> \<and> seg_size s1 + seg_size s2 = seg_size sdu \<and>
    seg_sdu s1 = seg_sdu sdu \<and> seg_so s1 = seg_so sdu \<and> seg_is_first s1 = seg_is_first sdu \<and>
    \<not> seg_is_last s1 \<and> seg_is_last s2 = seg_is_last sdu \<and> 0 < seg_size s1 \<and> 0 < seg_size s2 \<and>
    seg_so s2 = seg_so s1 + seg_size s1 \<and> \<not> seg_is_first s2"
proof -
  let ?u = "u\<lparr>sdu_ref_count := sdu_ref_count u + 1\<rparr>"
  let ?hs = "um_compute_pdu_header_size e (sdu\<lparr>seg_is_last := False\<rparr>)"
  let ?k = "n - ?hs"
  let ?s1 = "sdu\<lparr>seg_size := ?k, seg_is_last := False\<rparr>"
  let ?s2 = "sdu\<lparr>seg_size := seg_size sdu - ?k, seg_so := seg_so sdu + ?k, seg_is_first := False\<rparr>"
  have k: "0 < ?k" "?k < seg_size sdu"
    using assms(3-5) um_header_size_segment(1) [of e sdu] um_header_size_segment(2) [of e sdu n]
    by (auto simp: um_cost_def)
  from core have inv: "mem_inv (sdu_mem e) (sdu # rest)" and segs: "segs_ok (sdu_mem e) (sdu # rest)"
    and small: "sdus_small (sdu_mem e)" and w: "seg_within u sdu"
    using u by (auto simp: um_tx_core_def)
  note split = seg_split [OF w k refl refl]
  have inv': "mem_inv (sdu_put (sdu_mem e) (seg_sdu sdu) ?u) (?s1 # ?s2 # rest)"
    by (rule split_segment_inv [OF inv u]) simp_all
  have "segs_ok (sdu_put (sdu_mem e) (seg_sdu sdu) ?u) rest"
    by (rule put_sdu_segs_ok [OF _ u]) (use segs in simp_all)
  with split have segs': "segs_ok (sdu_put (sdu_mem e) (seg_sdu sdu) ?u) (?s1 # ?s2 # rest)"
    by (auto simp: seg_within_def)
  define e' where "e' = e\<lparr>sdu_mem := sdu_put (sdu_mem e) (seg_sdu sdu) ?u,
      stats := (stats e)\<lparr>txpdu_segmented := txpdu_segmented (stats e) + 1\<rparr>\<rparr>"
  have "um_resegment e sdu n = Inr (e', Some (?s1, ?s2))"
    using u k by (simp add: um_resegment_def sdu_at_def Let_def e'_def)
  moreover have "um_tx_core e' (?s1 # ?s2 # rest)"
    using core inv' segs' sdus_small_put [OF small u, of ?u]
    by (simp add: e'_def um_tx_core_def um_cfg_ok_def)
  moreover have "um_cost e ?s1 = n" by (simp add: um_cost_def um_compute_pdu_header_size_def)
  moreover have "seg_bytes (sdu_mem e') = seg_bytes (sdu_mem e)"
    using put_sdu_bytes [OF u, of ?u] by (simp add: e'_def fun_eq_iff)
  ultimately show ?thesis
    using split(3) k by (intro exI [of _ e'] exI [of _ ?s1] exI [of _ ?s2]) (simp add: e'_def)
qed

lemma um_shape_full: "list_all seg_full l \<Longrightarrow> um_shape l"
  by (cases l) (auto simp: seg_full_def)

text \<open>The transmit list after the segment \<open>s\<close> of its head was sent: the rest of the SDU, if any, stays in front.\<close>

definition um_left :: "nr_rlc_entity_um_t \<Rightarrow> nr_rlc_sdu_segment_t \<Rightarrow> nr_rlc_sdu_segment_t list \<Rightarrow> bool" where
  "um_left e s l \<longleftrightarrow>
     (if seg_is_last s then seg_size s = seg_size (hd (um_tx_list e)) \<and> l = tl (um_tx_list e)
      else l \<noteq> [] \<and> tl l = tl (um_tx_list e) \<and> seg_so (hd l) = seg_so s + seg_size s \<and> \<not> seg_is_first (hd l) \<and>
           seg_size s + seg_size (hd l) = seg_size (hd (um_tx_list e)))"

text \<open>\<open>um_sent e n e' ret pdu s\<close>: out of state \<open>e\<close> a grant of \<open>n\<close> bytes was used for a PDU of \<open>ret\<close> bytes
  that carries the segment \<open>s\<close>, leaving \<open>e'\<close>.\<close>

definition um_sent ::
  "nr_rlc_entity_um_t \<Rightarrow> int \<Rightarrow> nr_rlc_entity_um_t \<Rightarrow> int \<Rightarrow> byte list \<Rightarrow> nr_rlc_sdu_segment_t \<Rightarrow> bool" where
  "um_sent e n e' ret pdu s \<longleftrightarrow> (\<exists>h p.
     pdu = h @ p \<and> ret = int (length pdu) \<and> ret \<le> n \<and> p \<noteq> [] \<and> um_pending e = p @ um_pending e' \<and>
     int (length h) = um_compute_pdu_header_size e s \<and> seg_size s = int (length p) \<and>
     bytes_bits h = concat (map (\<lambda>(v, c). bits_of c v) (um_header_fields e s (um_tx_next e))) \<and>
     seg_so s = seg_so (hd (um_tx_list e)) \<and> seg_is_first s = seg_is_first (hd (um_tx_list e)) \<and>
     seg_is_last s = (um_cost e (hd (um_tx_list e)) \<le> n) \<and> (\<not> seg_is_last s \<longrightarrow> ret = n)) \<and> um_left e s (um_tx_list e')"

text \<open>What is left when the head of \<open>tx_list\<close> has been taken, cut if needed, and the rest put back.\<close>

lemma um_send_finish:
  assumes ok: "um_tx_ok e" and same: "um_same_tx e e3" and core: "um_tx_core e3 (s # um_tx_list e3)"
    and shape: "um_shape (um_tx_list e3)"
    and bs: "bs_tx_size (bstatus e3) = (\<Sum>s\<leftarrow>um_tx_list e3. um_cost e s)"
    and size: "um_tx_size e3 = um_tx_size e"
      "seg_size s + (\<Sum>s\<leftarrow>um_tx_list e3. seg_size s) \<le> um_tx_size e"
    and pend: "um_pending e = seg_bytes (sdu_mem e3) s @ concat (map (seg_bytes (sdu_mem e3)) (um_tx_list e3))"
    and u: "mem_sdu (sdu_mem e3) (seg_sdu s) = Some u" "sdu_sn u = um_tx_next e"
    and fits: "um_cost e s \<le> int (length buffer)"
    and seg: "seg_so s = seg_so (hd (um_tx_list e))" "seg_is_first s = seg_is_first (hd (um_tx_list e))"
      "seg_is_last s = (um_cost e (hd (um_tx_list e)) \<le> int (length buffer))"
      "\<not> seg_is_last s \<longrightarrow> um_cost e s = int (length buffer)" "um_left e s (um_tx_list e3)"
  shows "\<exists>ret buffer' e'. um_send_segment now buffer s e3 = Inr (ret, buffer', e') \<and> um_tx_ok e' \<and>
    um_same_tx e e' \<and> length buffer' = length buffer \<and>
    um_sent e (int (length buffer)) e' ret (take (nat ret) buffer') s"
proof -
  have sn: "um_sn_field_length e3 = um_sn_field_length e" using same by (simp add: um_same_tx_def)
  have c3: "um_cost e3 = um_cost e" by (rule um_cost_cong [OF sn])
  have hs3: "um_compute_pdu_header_size e3 = um_compute_pdu_header_size e" "um_header_fields e3 = um_header_fields e"
    using sn by (auto simp: um_compute_pdu_header_size_def um_header_fields_def fun_eq_iff)
  from um_send_segment_ok [OF core, of buffer now] fits c3 hs3 u obtain h buffer' e' where
    send: "um_send_segment now buffer s e3 = Inr (um_cost e s, buffer', e')"
      "length buffer' = length buffer" "take (nat (um_cost e s)) buffer' = h @ seg_bytes (sdu_mem e3) s"
      "int (length h) = um_compute_pdu_header_size e s"
      "bytes_bits h = concat (map (\<lambda>(v, c). bits_of c v) (um_header_fields e s (um_tx_next e)))"
      "um_tx_core e' (um_tx_list e3)" "um_tx_list e' = um_tx_list e3" "um_same_tx e3 e'" "bstatus e' = bstatus e3"
      "um_tx_size e' = um_tx_size e3 - seg_size s"
      "map (seg_bytes (sdu_mem e')) (um_tx_list e3) = map (seg_bytes (sdu_mem e3)) (um_tx_list e3)"
    by auto
  have same': "um_same_tx e e'" using send(8) same by (simp add: um_same_tx_def)
  have cost: "um_cost e' = um_cost e" by (rule um_cost_cong) (use same' in \<open>simp add: um_same_tx_def\<close>)
  have len: "int (length (seg_bytes (sdu_mem e3) s)) = seg_size s" "0 < seg_size s"
    using core u length_seg_bytes [of "sdu_mem e3" "s # um_tx_list e3" s u]
    by (auto simp: um_tx_core_def seg_within_def)
  have "um_tx_ok e'"
    using ok send(6,7,9,10) same' cost shape bs size len(2)
    by (auto simp: um_tx_ok_def um_same_tx_def)
  moreover have "um_pending e = seg_bytes (sdu_mem e3) s @ um_pending e'"
    using pend by (simp only: um_pending_def send(7,11))
  ultimately have "um_sent e (int (length buffer)) e' (um_cost e s) (take (nat (um_cost e s)) buffer') s"
    using send(3-5,7) len fits seg unfolding um_sent_def
    by (intro conjI exI [of _ h] exI [of _ "seg_bytes (sdu_mem e3) s"]) (auto simp: um_cost_def)
  with send(1,2) same' \<open>um_tx_ok e'\<close> show ?thesis by auto
qed

lemma um_generate_whole:
  assumes ok: "um_tx_ok e" and l: "um_tx_list e = sdu # rest" and fits: "um_cost e sdu \<le> int (length buffer)"
    and big: "um_compute_pdu_header_size e sdu + 1 \<le> int (length buffer)"
  shows "\<exists>ret buffer' e' s. um_generate_tx_pdu now buffer e = Inr (ret, buffer', e') \<and> um_tx_ok e' \<and>
    um_same_tx e e' \<and> length buffer' = length buffer \<and>
    um_sent e (int (length buffer)) e' ret (take (nat ret) buffer') s"
proof -
  obtain u where u: "mem_sdu (sdu_mem e) (seg_sdu sdu) = Some u" "seg_within u sdu"
    using ok l by (auto simp: um_tx_ok_def um_tx_core_def)
  define e1 where "e1 = e\<lparr>um_tx_list := rest,
        sdu_mem := sdu_put (sdu_mem e) (seg_sdu sdu) (u\<lparr>sdu_sn := um_tx_next e\<rparr>),
        bstatus := (bstatus e)\<lparr>bs_tx_size := bs_tx_size (bstatus e) - um_cost e sdu\<rparr>\<rparr>"
  note e1 = um_take_head_ok [OF ok l u(1) e1_def]
  have gen: "um_generate_tx_pdu now buffer e = um_send_segment now buffer sdu e1"
    using l u fits big by (simp add: um_generate_tx_pdu_def Let_def sdu_at_def um_cost_def e1_def)
  have simps: "um_tx_list e1 = rest" "um_same_tx e e1" "um_tx_size e1 = um_tx_size e"
    "mem_sdu (sdu_mem e1) (seg_sdu sdu) = Some (u\<lparr>sdu_sn := um_tx_next e\<rparr>)"
    "bs_tx_size (bstatus e1) = bs_tx_size (bstatus e) - um_cost e sdu"
    by (auto simp: e1_def um_same_tx_def)
  have last: "seg_is_last sdu" "um_shape rest" using ok l um_shape_full by (auto simp: um_tx_ok_def)
  show ?thesis
    unfolding gen
    using um_send_finish [OF ok simps(2), of sdu "u\<lparr>sdu_sn := um_tx_next e\<rparr>" buffer now] ok l e1 simps last fits
    by (auto simp: um_tx_ok_def um_pending_def um_left_def)
qed

lemma um_generate_split:
  assumes ok: "um_tx_ok e" and l: "um_tx_list e = sdu # rest" and fits: "int (length buffer) < um_cost e sdu"
    and big: "um_compute_pdu_header_size e sdu + 1 \<le> int (length buffer)" and n2: "length buffer \<noteq> 2"
  shows "\<exists>ret buffer' e' s. um_generate_tx_pdu now buffer e = Inr (ret, buffer', e') \<and> um_tx_ok e' \<and>
    um_same_tx e e' \<and> length buffer' = length buffer \<and>
    um_sent e (int (length buffer)) e' ret (take (nat ret) buffer') s"
proof -
  let ?n = "int (length buffer)"
  obtain u where u: "mem_sdu (sdu_mem e) (seg_sdu sdu) = Some u" "seg_within u sdu"
    using ok l by (auto simp: um_tx_ok_def um_tx_core_def)
  let ?u = "u\<lparr>sdu_sn := um_tx_next e\<rparr>"
  define e1 where "e1 = e\<lparr>um_tx_list := rest,
        sdu_mem := sdu_put (sdu_mem e) (seg_sdu sdu) ?u,
        bstatus := (bstatus e)\<lparr>bs_tx_size := bs_tx_size (bstatus e) - um_cost e sdu\<rparr>\<rparr>"
  note e1 = um_take_head_ok [OF ok l u(1) e1_def]
  have hs1: "um_compute_pdu_header_size e1 = um_compute_pdu_header_size e"
    and u1: "mem_sdu (sdu_mem e1) (seg_sdu sdu) = Some ?u" by (simp_all add: e1_def fun_eq_iff)
  from um_resegment_ok [OF e1(1) u1, of ?n] hs1 e1(3) fits big n2 obtain e2 s1 s2 where
    re: "um_resegment e1 sdu ?n = Inr (e2, Some (s1, s2))" "um_tx_core e2 (s1 # s2 # rest)"
      "um_cost e s1 = ?n" "seg_bytes (sdu_mem e1) sdu = seg_bytes (sdu_mem e1) s1 @ seg_bytes (sdu_mem e1) s2"
      "seg_bytes (sdu_mem e2) = seg_bytes (sdu_mem e1)"
      "mem_sdu (sdu_mem e2) (seg_sdu sdu) = Some (?u\<lparr>sdu_ref_count := sdu_ref_count ?u + 1\<rparr>)"
      "e2 = e1\<lparr>sdu_mem := sdu_mem e2, stats := stats e2\<rparr>" "seg_size s1 + seg_size s2 = seg_size sdu"
      "seg_sdu s1 = seg_sdu sdu" "seg_so s1 = seg_so sdu" "seg_is_first s1 = seg_is_first sdu"
      "\<not> seg_is_last s1" "seg_is_last s2 = seg_is_last sdu" "0 < seg_size s1" "0 < seg_size s2"
      "seg_so s2 = seg_so s1 + seg_size s1 \<and> \<not> seg_is_first s2"
    by auto
  define e3 where "e3 = e2\<lparr>um_tx_list := s2 # um_tx_list e2,
      stats := (stats e2)\<lparr>txpdu_segmented := txpdu_segmented (stats e2) + 1\<rparr>,
      bstatus := (bstatus e2)\<lparr>bs_tx_size := bs_tx_size (bstatus e2) + um_cost e2 s2\<rparr>\<rparr>"
  have e2e1: "um_tx_list e2 = um_tx_list e1" "bstatus e2 = bstatus e1" "um_tx_size e2 = um_tx_size e1"
    "um_sn_field_length e2 = um_sn_field_length e1" "um_same_tx e1 e2" "um_tx_next e2 = um_tx_next e1"
    by (subst re(7), simp add: um_same_tx_def)+
  have cost2: "um_cost e2 = um_cost e" by (rule um_cost_cong) (simp add: e2e1 e1_def)
  have simps: "um_tx_list e3 = s2 # rest" "um_same_tx e e3" "um_tx_size e3 = um_tx_size e"
    "um_sn_field_length e3 = um_sn_field_length e" "sdu_mem e3 = sdu_mem e2"
    "bs_tx_size (bstatus e3) = bs_tx_size (bstatus e) - um_cost e sdu + um_cost e s2"
    using e2e1 cost2 by (auto simp: e3_def e1_def um_same_tx_def)
  have core3: "um_tx_core e3 (s1 # um_tx_list e3)"
    using re(2) simps by (simp add: um_tx_core_def um_cfg_ok_def e3_def)
  have gen: "um_generate_tx_pdu now buffer e = um_send_segment now buffer s1 e3"
    using l u(1) fits big re(1)
    by (simp add: um_generate_tx_pdu_def Let_def sdu_at_def um_cost_def e1_def [unfolded um_cost_def, symmetric] e3_def)
  have last: "seg_is_last sdu" "list_all seg_full rest" using ok l by (auto simp: um_tx_ok_def)
  have "\<exists>ret buffer' e'. um_send_segment now buffer s1 e3 = Inr (ret, buffer', e') \<and> um_tx_ok e' \<and>
    um_same_tx e e' \<and> length buffer' = length buffer \<and>
    um_sent e (int (length buffer)) e' ret (take (nat ret) buffer') s1"
  proof (rule um_send_finish [OF ok simps(2) core3])
    show "um_shape (um_tx_list e3)" using simps(1) last re(13) by simp
    show "bs_tx_size (bstatus e3) = (\<Sum>s\<leftarrow>um_tx_list e3. um_cost e s)"
      using simps(1,6) ok l by (simp add: um_tx_ok_def)
    show "seg_size s1 + (\<Sum>s\<leftarrow>um_tx_list e3. seg_size s) \<le> um_tx_size e"
      using simps(1) re(8) ok l by (simp add: um_tx_ok_def)
    show "um_pending e = seg_bytes (sdu_mem e3) s1 @ concat (map (seg_bytes (sdu_mem e3)) (um_tx_list e3))"
      using simps(1,5) re(4,5) e1(2) l by (simp add: um_pending_def)
    show "mem_sdu (sdu_mem e3) (seg_sdu s1) = Some (?u\<lparr>sdu_ref_count := sdu_ref_count ?u + 1\<rparr>)"
      using simps(5) re(6,9) by simp
    show "um_left e s1 (um_tx_list e3)"
      using simps(1) re(8,10,12,16) l by (simp add: um_left_def)
  qed (use simps re l fits in auto)
  then show ?thesis unfolding gen by blast
qed

lemma um_generate_ok:
  assumes "um_tx_ok e" and "length buffer \<noteq> 2"
  shows "um_tx_list e = [] \<or> int (length buffer) < um_compute_pdu_header_size e (hd (um_tx_list e)) + 1 \<Longrightarrow>
      nr_rlc_entity_um_generate_pdu now buffer e = Inr (0, buffer, e)"
    and "\<not> (um_tx_list e = [] \<or> int (length buffer) < um_compute_pdu_header_size e (hd (um_tx_list e)) + 1) \<Longrightarrow>
      \<exists>ret buffer' e' s. nr_rlc_entity_um_generate_pdu now buffer e = Inr (ret, buffer', e') \<and> um_tx_ok e' \<and>
        um_same_tx e e' \<and> length buffer' = length buffer \<and>
        um_sent e (int (length buffer)) e' ret (take (nat ret) buffer') s"
proof -
  assume "um_tx_list e = [] \<or> int (length buffer) < um_compute_pdu_header_size e (hd (um_tx_list e)) + 1"
  then show "nr_rlc_entity_um_generate_pdu now buffer e = Inr (0, buffer, e)"
    by (cases "um_tx_list e") (auto simp: nr_rlc_entity_um_generate_pdu_def um_generate_tx_pdu_def Let_def)
next
  assume *: "\<not> (um_tx_list e = [] \<or> int (length buffer) < um_compute_pdu_header_size e (hd (um_tx_list e)) + 1)"
  then obtain sdu rest where l: "um_tx_list e = sdu # rest" by (cases "um_tx_list e") auto
  show "\<exists>ret buffer' e' s. nr_rlc_entity_um_generate_pdu now buffer e = Inr (ret, buffer', e') \<and> um_tx_ok e' \<and>
        um_same_tx e e' \<and> length buffer' = length buffer \<and>
        um_sent e (int (length buffer)) e' ret (take (nat ret) buffer') s"
    unfolding nr_rlc_entity_um_generate_pdu_def
  proof (cases "um_cost e sdu \<le> int (length buffer)")
    case True
    with * l show "\<exists>ret buffer' e' s. um_generate_tx_pdu now buffer e = Inr (ret, buffer', e') \<and> um_tx_ok e' \<and>
        um_same_tx e e' \<and> length buffer' = length buffer \<and>
        um_sent e (int (length buffer)) e' ret (take (nat ret) buffer') s"
      by (intro um_generate_whole [OF assms(1) l]) auto
  next
    case False
    with * l assms(2) show "\<exists>ret buffer' e' s. um_generate_tx_pdu now buffer e = Inr (ret, buffer', e') \<and> um_tx_ok e' \<and>
        um_same_tx e e' \<and> length buffer' = length buffer \<and>
        um_sent e (int (length buffer)) e' ret (take (nat ret) buffer') s"
      by (intro um_generate_split [OF assms(1) l]) auto
  qed
qed


subsection \<open>Submission, discard, re-establishment\<close>

lemma um_accept_ok:
  assumes ok: "um_tx_ok e" and new: "nr_rlc_new_sdu (sdu_mem e) buffer sdu_id = (sdu, m)"
    and size: "sdu_size_ok buffer" and "um_tx_size e + int (length buffer) \<le> um_tx_maxsize e"
    and e': "e' = e\<lparr>um_tx_size := um_tx_size e + int (length buffer), sdu_mem := m,
        um_tx_list := um_tx_list e @ [sdu],
        bstatus := (bstatus e)\<lparr>bs_tx_size := bs_tx_size (bstatus e) + um_cost e sdu\<rparr>\<rparr>"
  shows "um_tx_ok e'" and "um_pending e' = um_pending e @ buffer"
proof -
  from ok have inv: "mem_inv (sdu_mem e) (um_tx_list e)" and segs: "segs_ok (sdu_mem e) (um_tx_list e)"
    and small: "sdus_small (sdu_mem e)"
    by (simp_all add: um_tx_ok_def um_tx_core_def)
  have ne: "buffer \<noteq> []" using size by (simp add: sdu_size_ok_def)
  note seg = new_sdu_seg [OF new]
  have "mem_inv m (um_tx_list e @ [sdu])"
    by (rule mem_inv_perm [OF new_sdu_inv [OF inv new]]) simp
  moreover have "segs_ok m (um_tx_list e @ [sdu])"
    using new_sdu_segs_ok [OF new inv segs ne] by auto
  moreover have "sdus_small m"
    using small size new by (auto simp: sdus_small_def nr_rlc_new_sdu_def sdu_size_ok_def split: if_splits)
  moreover have "um_shape (um_tx_list e @ [sdu])"
    using ok seg by (cases "um_tx_list e") (auto simp: um_tx_ok_def seg_full_def)
  moreover have "um_cost e' = um_cost e" by (rule um_cost_cong) (simp add: e')
  ultimately show "um_tx_ok e'"
    using ok seg assms(4) by (simp add: um_tx_ok_def um_tx_core_def um_cfg_ok_def e')
  show "um_pending e' = um_pending e @ buffer"
  proof -
    have "map (seg_bytes m) (um_tx_list e) = map (seg_bytes (sdu_mem e)) (um_tx_list e)"
      by (rule map_seg_bytes_same) (rule new_sdu_bytes_same(2) [OF inv new])
    then show ?thesis by (simp add: um_pending_def e' new_sdu_bytes_same(1) [OF inv new] cong: map_cong)
  qed
qed

lemma um_stamp_ok:
  assumes ok: "um_tx_ok e" and u: "mem_sdu (sdu_mem e) a = Some u"
    and e': "e' = e\<lparr>sdu_mem := sdu_put (sdu_mem e) a (u\<lparr>sdu_time_of_arrival := now\<rparr>)\<rparr>"
  shows "um_tx_ok e'" and "um_pending e' = um_pending e"
proof -
  let ?u = "u\<lparr>sdu_time_of_arrival := now\<rparr>"
  from ok have inv: "mem_inv (sdu_mem e) (um_tx_list e)" and segs: "segs_ok (sdu_mem e) (um_tx_list e)"
    and small: "sdus_small (sdu_mem e)"
    by (simp_all add: um_tx_ok_def um_tx_core_def)
  have cost: "um_cost e' = um_cost e" by (rule um_cost_cong) (simp add: e')
  show "um_tx_ok e'"
    using ok cost put_sdu_inv(1) [OF inv u, of ?u] put_sdu_segs_ok [OF segs u, of ?u] sdus_small_put [OF small u, of ?u]
    by (simp add: um_tx_ok_def um_tx_core_def um_cfg_ok_def e')
  show "um_pending e' = um_pending e"
    using put_sdu_bytes [OF u, of ?u] by (simp add: um_pending_def e' cong: map_cong)
qed

lemma um_recv_sdu_ok:
  assumes ok: "um_tx_ok e" and size: "sdu_size_ok buffer"
  shows "\<exists>e'. nr_rlc_entity_um_recv_sdu now buffer sdu_id e = Inr e' \<and> um_tx_ok e' \<and> um_same_tx e e' \<and>
    um_pending e' = um_pending e @ (if um_tx_size e + int (length buffer) > um_tx_maxsize e then [] else buffer)"
proof -
  let ?e0 = "e\<lparr>stats := (stats e)\<lparr>rxsdu_pkts := rxsdu_pkts (stats e) + 1,
                                 rxsdu_bytes := rxsdu_bytes (stats e) + of_int (int (length buffer))\<rparr>\<rparr>"
  define e1 where "e1 = (if um_sdu_rejected ?e0 \<noteq> 0 \<and> um_t_current ?e0 > um_t_log_buffer_full ?e0 + 1000
    then ?e0\<lparr>um_sdu_rejected := 0, um_t_log_buffer_full := um_t_current ?e0\<rparr> else ?e0)"
  have c1: "um_cost e1 = um_cost e" by (rule um_cost_cong) (simp add: e1_def)
  have e1: "um_tx_ok e1" "um_pending e1 = um_pending e" "um_tx_maxsize e1 = um_tx_maxsize e"
    "um_tx_size e1 = um_tx_size e" "um_same_tx e e1"
    using ok c1 by (auto simp: e1_def um_tx_ok_def um_tx_core_def um_cfg_ok_def um_pending_def um_same_tx_def)
  obtain sdu m where new: "nr_rlc_new_sdu (sdu_mem e1) buffer sdu_id = (sdu, m)" by fastforce
  obtain u where u: "mem_sdu m (seg_sdu sdu) = Some u" using new by (auto simp: nr_rlc_new_sdu_def)
  have max: "int (length buffer) \<le> NR_SDU_MAX" using size by (simp add: sdu_size_ok_def)
  show ?thesis
  proof (cases "um_tx_size e1 + int (length buffer) > um_tx_maxsize e1")
    case True
    let ?e2 = "e1\<lparr>um_sdu_rejected := um_sdu_rejected e1 + 1,
        stats := (stats e1)\<lparr>rxsdu_dd_pkts := rxsdu_dd_pkts (stats e1) + 1,
                           rxsdu_dd_bytes := rxsdu_dd_bytes (stats e1) + of_int (int (length buffer))\<rparr>\<rparr>"
    have "nr_rlc_entity_um_recv_sdu now buffer sdu_id e = Inr ?e2"
      using True max unfolding nr_rlc_entity_um_recv_sdu_def Let_def e1_def [unfolded Let_def, symmetric] by simp
    moreover have "um_cost ?e2 = um_cost e1" by (rule um_cost_cong) simp
    then have "um_tx_ok ?e2" using e1(1) by (simp add: um_tx_ok_def um_tx_core_def um_cfg_ok_def)
    moreover have "um_pending ?e2 = um_pending e" using e1(2) by (simp add: um_pending_def)
    moreover have "um_same_tx e ?e2" using e1(5) by (simp add: um_same_tx_def)
    ultimately show ?thesis using True e1 by auto
  next
    case False
    let ?e2 = "e1\<lparr>um_tx_size := um_tx_size e1 + int (length buffer), sdu_mem := m,
        um_tx_list := um_tx_list e1 @ [sdu],
        bstatus := (bstatus e1)\<lparr>bs_tx_size := bs_tx_size (bstatus e1) + um_cost e1 sdu\<rparr>\<rparr>"
    have e2: "um_tx_ok ?e2" "um_pending ?e2 = um_pending e @ buffer" "um_same_tx e ?e2"
      using um_accept_ok [OF e1(1) new size, of ?e2] False e1(2,5) by (auto simp: um_same_tx_def)
    let ?e3 = "?e2\<lparr>sdu_mem := sdu_put m (seg_sdu sdu) (u\<lparr>sdu_time_of_arrival := now\<rparr>)\<rparr>"
    have e3: "um_tx_ok ?e3" "um_pending ?e3 = um_pending e @ buffer" "um_same_tx e ?e3"
      using um_stamp_ok [OF e2(1), of "seg_sdu sdu" u ?e3 now] e2(2,3) u by (auto simp: um_same_tx_def)
    have "nr_rlc_entity_um_recv_sdu now buffer sdu_id e = Inr (if avg_time_is_on e1 then ?e3 else ?e2)"
      using False max new u
      unfolding nr_rlc_entity_um_recv_sdu_def Let_def e1_def [unfolded Let_def, symmetric]
      by (simp add: sdu_at_def um_cost_def)
    with e2 e3 False e1 show ?thesis by auto
  qed
qed

lemma find_sdu_ok:
  "(\<And>s. s \<in> set l \<Longrightarrow> \<exists>u. mem_sdu m (seg_sdu s) = Some u) \<Longrightarrow>
   \<exists>front rest. find_sdu m sdu_id l = Inr (front, rest) \<and> l = front @ rest \<and>
     (\<forall>s \<in> set front. \<exists>u. mem_sdu m (seg_sdu s) = Some u \<and> sdu_upper_layer_id u \<noteq> sdu_id) \<and>
     (rest \<noteq> [] \<longrightarrow> (\<exists>u. mem_sdu m (seg_sdu (hd rest)) = Some u \<and> sdu_upper_layer_id u = sdu_id))"
proof (induction l)
  case (Cons cur l)
  from Cons.prems [of cur] obtain u where u: "mem_sdu m (seg_sdu cur) = Some u" by auto
  from Cons obtain front rest where
    "find_sdu m sdu_id l = Inr (front, rest)" "l = front @ rest"
    "\<forall>s \<in> set front. \<exists>u. mem_sdu m (seg_sdu s) = Some u \<and> sdu_upper_layer_id u \<noteq> sdu_id"
    "rest \<noteq> [] \<longrightarrow> (\<exists>u. mem_sdu m (seg_sdu (hd rest)) = Some u \<and> sdu_upper_layer_id u = sdu_id)" by auto
  with u show ?case by (auto simp: sdu_at_def)
qed simp

lemma um_shape_remove: "um_shape (xs @ s # ys) \<Longrightarrow> um_shape (xs @ ys)"
  by (cases xs) (auto simp: um_shape_full)

definition um_sdu_removed :: "nr_rlc_entity_um_t \<Rightarrow> int \<Rightarrow> nr_rlc_entity_um_t \<Rightarrow> bool" where
  "um_sdu_removed e sdu_id e' \<longleftrightarrow>
     (\<exists>front s rest. um_tx_list e = front @ s # rest \<and> um_tx_list e' = front @ rest \<and> seg_full s \<and>
       (\<exists>u. mem_sdu (sdu_mem e) (seg_sdu s) = Some u \<and> sdu_upper_layer_id u = sdu_id) \<and>
       map (seg_bytes (sdu_mem e')) (um_tx_list e') = map (seg_bytes (sdu_mem e)) (um_tx_list e'))"

lemma um_discard_sdu_ok:
  assumes ok: "um_tx_ok e"
  shows "\<exists>e'. nr_rlc_entity_um_discard_sdu e sdu_id = Inr e' \<and> um_tx_ok e' \<and> um_same_tx e e' \<and>
    um_tx_size e' = um_tx_size e \<and>
    (e' = e \<or> um_sdu_removed e sdu_id e')"
proof -
  from ok have inv: "mem_inv (sdu_mem e) (um_tx_list e)" and segs: "segs_ok (sdu_mem e) (um_tx_list e)"
    and small: "sdus_small (sdu_mem e)"
    by (simp_all add: um_tx_ok_def um_tx_core_def)
  from find_sdu_ok [of "um_tx_list e" "sdu_mem e" sdu_id, OF mem_inv_live [OF inv]] obtain front rest where
    find: "find_sdu (sdu_mem e) sdu_id (um_tx_list e) = Inr (front, rest)" "um_tx_list e = front @ rest"
      "rest \<noteq> [] \<longrightarrow> (\<exists>u. mem_sdu (sdu_mem e) (seg_sdu (hd rest)) = Some u \<and> sdu_upper_layer_id u = sdu_id)"
    by blast
  have refl: "um_same_tx e e" by (simp add: um_same_tx_def)
  show ?thesis
  proof (cases rest)
    case Nil
    with find ok refl show ?thesis by (auto simp: nr_rlc_entity_um_discard_sdu_def)
  next
    case (Cons cur l)
    show ?thesis
    proof (cases "seg_full cur")
      case False
      with Cons find ok refl show ?thesis
        by (auto simp: nr_rlc_entity_um_discard_sdu_def seg_full_def)
    next
      case True
      have inv': "mem_inv (sdu_mem e) (cur # front @ l)"
        by (rule mem_inv_perm [OF inv]) (simp add: find(2) Cons)
      from free_segment_inv [OF inv'] obtain freed m where
        m: "nr_rlc_free_sdu_segment (sdu_mem e) cur = Inr (freed, m)" "mem_inv m (front @ l)" by blast
      define e' where "e' = e\<lparr>um_tx_list := front @ l, bstatus := (bstatus e)\<lparr>bs_tx_size :=
          bs_tx_size (bstatus e) - (um_compute_pdu_header_size e cur + seg_size cur)\<rparr>, sdu_mem := m\<rparr>"
      have dis: "nr_rlc_entity_um_discard_sdu e sdu_id = Inr e'"
        using find(1) Cons True m(1)
        by (simp add: nr_rlc_entity_um_discard_sdu_def seg_full_def e'_def)
      have cost: "um_cost e' = um_cost e" by (rule um_cost_cong) (simp add: e'_def)
      have "0 < seg_size cur" using segs find(2) Cons by (auto simp: seg_within_def)
      moreover have "segs_ok m (front @ l)"
        by (rule free_segment_segs_ok [OF inv' _ m(1)]) (use segs find(2) Cons in simp)
      ultimately have "um_tx_ok e'"
        using ok m(2) cost sdus_small_free [OF small m(1)] find(2) Cons um_shape_remove [of front cur l]
        by (auto simp: um_tx_ok_def um_tx_core_def um_cfg_ok_def e'_def um_cost_def)
      moreover have "map (seg_bytes (sdu_mem e')) (um_tx_list e') = map (seg_bytes (sdu_mem e)) (um_tx_list e')"
        by (rule map_seg_bytes_same) (use free_segment_bytes [OF inv' m(1)] in \<open>simp add: e'_def\<close>)
      then have "um_sdu_removed e sdu_id e'"
        unfolding um_sdu_removed_def using find(2,3) Cons True
        by (intro exI [of _ front] exI [of _ cur] exI [of _ l]) (auto simp: e'_def)
      moreover have "um_same_tx e e'" "um_tx_size e' = um_tx_size e" "um_tx_list e' = front @ l"
        by (simp_all add: e'_def um_same_tx_def)
      ultimately show ?thesis using dis by blast
    qed
  qed
qed

lemma um_reestablishment_ok:
  assumes ok: "um_tx_ok e" and "0 \<le> um_tx_maxsize e"
  shows "\<exists>e'. nr_rlc_entity_um_reestablishment e = Inr e' \<and> um_tx_ok e' \<and> um_pending e' = [] \<and>
    mem_bytes (sdu_mem e') = 0 \<and> um_tx_list e' = [] \<and> um_tx_size e' = 0 \<and> um_tx_maxsize e' = um_tx_maxsize e \<and>
    um_rx_list e' = [] \<and> um_rx_size e' = 0 \<and> um_rx_next_highest e' = 0 \<and> um_rx_next_reassembly e' = 0"
proof -
  from ok have "mem_inv (sdu_mem e) (um_tx_list e)" by (simp add: um_tx_ok_def um_tx_core_def)
  from pool.release_everything [OF this] obtain m where
    m: "nr_rlc_free_sdu_segment_list (um_tx_list e) (sdu_mem e) = Inr m" "mem_inv m []" "mem_bytes m = 0"
    by (auto simp: free_list_release_all)
  then have "sdus_small m" using mem_inv_none [OF m(2)] by (simp add: sdus_small_def)
  with m assms show ?thesis
    by (simp add: nr_rlc_entity_um_reestablishment_def um_clear_entity_def um_tx_ok_def um_tx_core_def
        um_pending_def um_cfg_ok_def)
qed

definition um_tx_inv :: "nr_rlc_entity_um_t \<Rightarrow> bool" where
  "um_tx_inv e \<longleftrightarrow> um_tx_ok e \<and> 0 \<le> um_tx_maxsize e"

lemma um_generate_inv:
  assumes "um_tx_inv e" and "length buffer \<noteq> 2"
  shows "\<exists>ret buffer' e'. nr_rlc_entity_um_generate_pdu now buffer e = Inr (ret, buffer', e') \<and> um_tx_inv e' \<and>
      0 \<le> ret \<and> ret \<le> int (length buffer) \<and> length buffer' = length buffer"
proof -
  have ok: "um_tx_ok e" using assms(1) by (simp add: um_tx_inv_def)
  show ?thesis
    using um_generate_ok [OF ok assms(2), of now] assms(1)
    by (cases "um_tx_list e = [] \<or> int (length buffer) < um_compute_pdu_header_size e (hd (um_tx_list e)) + 1")
      (fastforce simp: um_tx_inv_def um_same_tx_def um_sent_def)+
qed

interpretation um: rlc_tx_entity um_tx_inv "\<lambda>n. n \<noteq> 2" nr_rlc_entity_um_recv_sdu
  nr_rlc_entity_um_generate_pdu nr_rlc_entity_um_reestablishment nr_rlc_entity_um_available_tx_space
proof unfold_locales
  fix e buffer now sdu_id
  assume "um_tx_inv e" "sdu_size_ok buffer"
  then show "\<exists>e'. nr_rlc_entity_um_recv_sdu now buffer sdu_id e = Inr e' \<and> um_tx_inv e'"
    using um_recv_sdu_ok [of e buffer now sdu_id] by (auto simp: um_tx_inv_def um_same_tx_def)
next
  fix e and buffer :: "byte list" and now
  assume "um_tx_inv e" "length buffer \<noteq> 2"
  then show "\<exists>ret buffer' e'. nr_rlc_entity_um_generate_pdu now buffer e = Inr (ret, buffer', e') \<and> um_tx_inv e' \<and>
      0 \<le> ret \<and> ret \<le> int (length buffer) \<and> length buffer' = length buffer"
    by (rule um_generate_inv)
next
  fix e
  assume "um_tx_inv e"
  then show "\<exists>e'. nr_rlc_entity_um_reestablishment e = Inr e' \<and> um_tx_inv e'"
    using um_reestablishment_ok [of e] by (auto simp: um_tx_inv_def)
next
  fix e
  assume "um_tx_inv e"
  then show "0 \<le> nr_rlc_entity_um_available_tx_space e"
    by (simp add: um_tx_inv_def um_tx_ok_def nr_rlc_entity_um_available_tx_space_def)
qed



subsection \<open>Properties\<close>

text \<open>C11. A UM PDU carries the next bytes of the stream. For any grant other than exactly two bytes,
  \<open>generate_pdu\<close> either sends nothing and changes nothing (the list is empty or the grant cannot
  hold the header and one byte), or it keeps the invariant and sends a header and a non-empty
  payload that fit in the grant, where the payload is exactly the front of the pending byte
  stream, the header has the length and the bits of the segment's header fields with sequence
  number \<open>tx_next\<close>, a PDU that does not complete its SDU fills the grant, and the rest of the SDU stays in
  front of the list.\<close>

theorem um_generate_pdu_stream:
  assumes "um_tx_ok e" and "length buffer \<noteq> 2"
  shows "if um_tx_list e = [] \<or> int (length buffer) < um_compute_pdu_header_size e (hd (um_tx_list e)) + 1
    then nr_rlc_entity_um_generate_pdu now buffer e = Inr (0, buffer, e)
    else \<exists>ret buffer' e' s. nr_rlc_entity_um_generate_pdu now buffer e = Inr (ret, buffer', e') \<and>
      um_tx_ok e' \<and> length buffer' = length buffer \<and>
      um_sent e (int (length buffer)) e' ret (take (nat ret) buffer') s"
  using um_generate_ok [OF assms, of now]
  by (cases "um_tx_list e = [] \<or> int (length buffer) < um_compute_pdu_header_size e (hd (um_tx_list e)) + 1")
    auto

text \<open>An entity with one SDU of four bytes queued, sequence numbers of 12 bits.\<close>

definition um_example_seg :: nr_rlc_sdu_segment_t where
  "um_example_seg = \<lparr>seg_sdu = 0, seg_size = 4, seg_so = 0, seg_is_first = True, seg_is_last = True\<rparr>"

definition um_example_mem :: sdu_mem_t where
  "um_example_mem = snd (nr_rlc_new_sdu mem_empty [1, 2, 3, 4] 7)"

definition um_example :: nr_rlc_entity_um_t where
  "um_example =
     \<lparr>bstatus = \<lparr>bs_status_size = 0, bs_tx_size = 5, bs_retx_size = 0\<rparr>,
      stats = nr_rlc_statistics_zero NR_RLC_UM, txsdu_avg_time_to_tx = idle_average,
      avg_time_is_on = False, sdu_mem = um_example_mem, um_t_reassembly = 35,
      um_sn_field_length = 12, um_sn_modulus = 4096, um_window_size = 2048, um_rx_next_highest = 0,
      um_rx_next_reassembly = 0, um_rx_timer_trigger = 0, um_tx_next = 9, um_t_current = 0,
      um_t_log_buffer_full = 0, um_sdu_rejected = 0, um_t_reassembly_start = 0, um_rx_list = [],
      um_rx_size = 0, um_rx_maxsize = 100, um_tx_list = [um_example_seg], um_tx_size = 4,
      um_tx_maxsize = 100\<rparr>"

lemma um_example_ok: "um_tx_ok um_example"
proof -
  have new: "nr_rlc_new_sdu mem_empty [1, 2, 3, 4] 7 = (um_example_seg, um_example_mem)"
    by (simp add: nr_rlc_new_sdu_def um_example_seg_def um_example_mem_def mem_empty_def)
  have "mem_inv um_example_mem [um_example_seg]" by (rule new_sdu_inv [OF mem_inv_empty(1) new])
  moreover have "segs_ok um_example_mem [um_example_seg]"
    by (rule new_sdu_segs_ok [OF new mem_inv_empty(1)]) simp_all
  moreover have "sdus_small um_example_mem"
    by (auto simp: sdus_small_def um_example_mem_def nr_rlc_new_sdu_def mem_empty_def NR_SDU_MAX_def
        split: if_splits)
  ultimately show ?thesis
    by (simp add: um_tx_ok_def um_tx_core_def um_cfg_ok_def um_example_def um_cost_def
        um_compute_pdu_header_size_def um_example_seg_def)
qed

theorem um_generate_pdu_stream_witness:
  "um_tx_ok um_example \<and>
   (\<exists>ret buffer' e' s. nr_rlc_entity_um_generate_pdu 0 [0, 0, 0, 0] um_example = Inr (ret, buffer', e') \<and>
      um_tx_ok e' \<and> length buffer' = 4 \<and> um_sent um_example 4 e' ret (take (nat ret) buffer') s)"
proof -
  have "\<not> (um_tx_list um_example = [] \<or>
      int (length ([0, 0, 0, 0] :: byte list)) < um_compute_pdu_header_size um_example (hd (um_tx_list um_example)) + 1)"
    by (simp add: um_example_def um_example_seg_def um_compute_pdu_header_size_def)
  with um_generate_pdu_stream [OF um_example_ok, of "[0, 0, 0, 0]" 0] um_example_ok show ?thesis
    by auto
qed

text \<open>C29. Submission. An SDU of legal size (not empty, at most \<open>NR_SDU_MAX\<close>) never fails; it is
  appended to the pending stream when \<open>tx_size\<close> leaves room for it and dropped whole otherwise, and
  the invariant (buffer status, memory accounting, list shape) is kept.\<close>

theorem um_recv_sdu_stream:
  assumes "um_tx_ok e" and "sdu_size_ok buffer"
  shows "\<exists>e'. nr_rlc_entity_um_recv_sdu now buffer sdu_id e = Inr e' \<and> um_tx_ok e' \<and>
    um_pending e' = um_pending e @ (if um_tx_size e + int (length buffer) > um_tx_maxsize e then [] else buffer)"
  using um_recv_sdu_ok [OF assms, of now sdu_id] by blast

theorem um_recv_sdu_stream_witness:
  "\<exists>e'. nr_rlc_entity_um_recv_sdu 0 [8, 9] 1 um_example = Inr e' \<and> um_tx_ok e' \<and> um_pending e' = [1, 2, 3, 4, 8, 9]"
proof -
  have "um_pending um_example = [1, 2, 3, 4]"
    by (simp add: um_pending_def um_example_def um_example_seg_def um_example_mem_def seg_bytes_def
        nr_rlc_new_sdu_def mem_empty_def)
  with um_recv_sdu_stream [OF um_example_ok, of "[8, 9]" 0 1] show ?thesis
    by (simp add: sdu_size_ok_def NR_SDU_MAX_def um_example_def)
qed

text \<open>Discarding an SDU by its upper layer identifier removes it from the transmit list, and from
  the buffer status, only when none of its bytes has been sent; the other segments and their bytes
  are untouched. \<open>tx_size\<close> is left as it was, so the bytes of the discarded SDU keep counting
  against \<open>tx_maxsize\<close> until the next re-establishment.\<close>

theorem um_discard_sdu_effect:
  assumes "um_tx_ok e"
  shows "\<exists>e'. nr_rlc_entity_um_discard_sdu e sdu_id = Inr e' \<and> um_tx_ok e' \<and>
    nr_rlc_entity_um_available_tx_space e' = nr_rlc_entity_um_available_tx_space e \<and>
    (e' = e \<or> um_sdu_removed e sdu_id e')"
proof -
  from um_discard_sdu_ok [OF assms, of sdu_id] obtain e' where
    "nr_rlc_entity_um_discard_sdu e sdu_id = Inr e'" "um_tx_ok e'" "um_same_tx e e'"
    "um_tx_size e' = um_tx_size e" "e' = e \<or> um_sdu_removed e sdu_id e'" by blast
  then show ?thesis by (simp add: nr_rlc_entity_um_available_tx_space_def um_same_tx_def)
qed

theorem um_discard_sdu_effect_witness:
  "\<exists>e'. nr_rlc_entity_um_discard_sdu um_example 7 = Inr e' \<and> um_tx_ok e' \<and> um_tx_list e' = [] \<and>
     nr_rlc_entity_um_available_tx_space e' = 96"
proof -
  have eval: "\<exists>e'. nr_rlc_entity_um_discard_sdu um_example 7 = Inr e' \<and> um_tx_list e' = []"
    by (simp add: nr_rlc_entity_um_discard_sdu_def um_example_def um_example_seg_def um_example_mem_def
        nr_rlc_new_sdu_def mem_empty_def sdu_at_def nr_rlc_free_sdu_segment_def Let_def)
  with um_discard_sdu_effect [OF um_example_ok, of 7] show ?thesis
    by (auto simp: nr_rlc_entity_um_available_tx_space_def um_example_def)
qed

text \<open>C30. A grant of exactly two bytes loses an SDU when sequence numbers have 12 bits: the head of
  the list is a whole SDU of at least two bytes, the one-byte header of the whole SDU leaves room, so
  the SDU is unlinked and taken off the buffer status; the two-byte header of a segment does not fit,
  so nothing is sent. The SDU is gone from the list and never freed.\<close>

theorem um_two_byte_grant_loses_sdu:
  assumes "um_tx_ok e" and "um_sn_field_length e = 12" and "um_tx_list e = sdu # rest" and "seg_full sdu"
    and "2 \<le> seg_size sdu" and "length buffer = 2"
  shows "\<exists>e'. nr_rlc_entity_um_generate_pdu now buffer e = Inr (0, buffer, e') \<and> um_tx_list e' = rest \<and>
    bs_tx_size (bstatus e') = bs_tx_size (bstatus e) - um_cost e sdu \<and> um_tx_size e' = um_tx_size e \<and>
    mem_bytes (sdu_mem e') = mem_bytes (sdu_mem e) \<and> \<not> mem_inv (sdu_mem e') (um_tx_list e')"
proof -
  from assms(1,3) have inv: "mem_inv (sdu_mem e) (sdu # rest)" by (simp add: um_tx_ok_def um_tx_core_def)
  from mem_inv_live [OF inv] obtain u where u: "mem_sdu (sdu_mem e) (seg_sdu sdu) = Some u" by auto
  let ?u = "u\<lparr>sdu_sn := um_tx_next e\<rparr>"
  let ?v = "?u\<lparr>sdu_ref_count := sdu_ref_count u + 1\<rparr>"
  let ?m = "sdu_put (sdu_put (sdu_mem e) (seg_sdu sdu) ?u) (seg_sdu sdu) ?v"
  have hs: "um_compute_pdu_header_size e sdu = 1"
    "um_compute_pdu_header_size e (sdu\<lparr>seg_is_last := False\<rparr>) = 2"
    using assms(2,4) by (auto simp: um_compute_pdu_header_size_def seg_full_def)
  let ?e = "e\<lparr>um_tx_list := rest, sdu_mem := ?m,
      bstatus := (bstatus e)\<lparr>bs_tx_size := bs_tx_size (bstatus e) - um_cost e sdu\<rparr>\<rparr>"
  have gen: "nr_rlc_entity_um_generate_pdu now buffer e = Inr (0, buffer, ?e)"
    using assms(3,5,6) u hs
    by (simp add: nr_rlc_entity_um_generate_pdu_def um_generate_tx_pdu_def Let_def sdu_at_def
        um_resegment_def um_cost_def)
  have inv2: "mem_inv (sdu_put (sdu_mem e) (seg_sdu sdu) ?u) (sdu # rest)"
    "mem_bytes (sdu_put (sdu_mem e) (seg_sdu sdu) ?u) = mem_bytes (sdu_mem e)"
    by (rule put_sdu_inv [OF inv u]; simp)+
  have bytes: "mem_bytes ?m = mem_bytes (sdu_mem e)"
    using split_segment_inv(2) [OF inv2(1), of ?u sdu sdu ?v] inv2(2) by simp
  have cnt: "sdu_ref_count u = sdu_free_count u + int (live_refs (sdu # rest) (seg_sdu sdu))"
    using inv u by (simp add: mem_inv_def sdu_counted_def)
  have "\<not> mem_inv ?m rest"
    using cnt by (auto simp: mem_inv_def sdu_counted_def)
  with gen bytes show ?thesis by (intro exI [of _ ?e]) simp
qed

theorem um_two_byte_grant_loses_sdu_witness:
  "\<exists>e'. nr_rlc_entity_um_generate_pdu 0 [0, 0] um_example = Inr (0, [0, 0], e') \<and> um_tx_list e' = [] \<and>
     bs_tx_size (bstatus e') = 0 \<and> mem_bytes (sdu_mem e') = 4"
proof -
  have "mem_bytes (sdu_mem um_example) = 4"
    by (simp add: mem_bytes_def um_example_def um_example_mem_def nr_rlc_new_sdu_def mem_empty_def)
  moreover have "um_sn_field_length um_example = 12" "um_tx_list um_example = [um_example_seg]"
    "seg_full um_example_seg" "2 \<le> seg_size um_example_seg" "length ([0, 0] :: byte list) = 2"
    by (simp_all add: um_example_def um_example_seg_def seg_full_def)
  note um_two_byte_grant_loses_sdu [OF um_example_ok this, of 0]
  moreover have "bs_tx_size (bstatus um_example) = um_cost um_example um_example_seg"
    by (simp add: um_example_def um_example_seg_def um_cost_def um_compute_pdu_header_size_def)
  ultimately show ?thesis by auto
qed

end
