(* ===== verification/Rlc_Um_Rx.thy ===== *)
theory Rlc_Um_Rx
  imports Rlc_Um_Tx
begin

text \<open>
  Reception in unacknowledged mode. \<open>um_rx_ok\<close> is the invariant: the reception list is sorted by
  position in the reassembly window and lies inside it, \<open>rx_next_reassembly\<close> is in the window or at
  its end, and \<open>rx_size\<close> accounts for at least the bytes held. It holds after every PDU, whatever
  its bytes, and makes the loops over sequence numbers end. With segments that are consistent with
  their SDU, reception delivers exactly the SDUs whose bytes have all arrived, once each.
\<close>

definition um_win_ok :: "nr_rlc_entity_um_t \<Rightarrow> bool" where
  "um_win_ok e \<longleftrightarrow> um_cfg_ok e \<and> 0 \<le> um_rx_next_highest e \<and> um_rx_next_highest e < um_sn_modulus e"

lemma um_modulus_window:
  assumes "um_win_ok e"
  shows "um_sn_modulus e = 2 * um_window_size e" "0 < um_window_size e"
  using assms by (auto simp: um_win_ok_def um_cfg_ok_def)

interpretation um_win: sn_window um_win_ok um_modulus_rx "\<lambda>e. um_rx_next_highest e - um_window_size e" um_sn_modulus
proof unfold_locales
  fix e
  assume "um_win_ok e"
  then show "0 < um_sn_modulus e" by (auto simp: um_win_ok_def um_cfg_ok_def)
next
  fix e a
  assume ok: "um_win_ok e" and a: "0 \<le> a" "a < um_sn_modulus e"
  let ?r = "a - (um_rx_next_highest e - um_window_size e)"
  have "- um_sn_modulus e \<le> ?r" "0 < um_sn_modulus e"
    using ok a um_modulus_window [OF ok] by (simp_all add: um_win_ok_def)
  then show "um_modulus_rx e a = ?r mod um_sn_modulus e"
    by (simp only: um_modulus_rx_def Let_def window_position)
qed

lemma um_position_highest:
  assumes "um_win_ok e"
  shows "um_modulus_rx e (um_rx_next_highest e) = um_window_size e"
  using assms um_modulus_window [OF assms] um_win.position_eq [OF assms, of "um_rx_next_highest e"]
  by (simp add: um_win_ok_def)

lemma um_modulus_rx_upd [simp]:
  "um_modulus_rx (e\<lparr>um_rx_list := l\<rparr>) = um_modulus_rx e"
  "um_modulus_rx (e\<lparr>um_rx_size := n\<rparr>) = um_modulus_rx e"
  "um_modulus_rx (e\<lparr>stats := st\<rparr>) = um_modulus_rx e"
  "um_modulus_rx (e\<lparr>um_rx_next_reassembly := r\<rparr>) = um_modulus_rx e"
  "um_modulus_rx (e\<lparr>um_t_reassembly_start := t\<rparr>) = um_modulus_rx e"
  "um_modulus_rx (e\<lparr>um_rx_timer_trigger := r\<rparr>) = um_modulus_rx e"
  "um_modulus_rx (e\<lparr>um_t_current := t\<rparr>) = um_modulus_rx e"
  by (simp_all add: um_modulus_rx_def fun_eq_iff Let_def)

lemma um_win_ok_upd [simp]:
  "um_win_ok (e\<lparr>um_rx_list := l\<rparr>) = um_win_ok e"
  "um_win_ok (e\<lparr>um_rx_size := n\<rparr>) = um_win_ok e"
  "um_win_ok (e\<lparr>stats := st\<rparr>) = um_win_ok e"
  "um_win_ok (e\<lparr>um_rx_next_reassembly := r\<rparr>) = um_win_ok e"
  "um_win_ok (e\<lparr>um_t_reassembly_start := t\<rparr>) = um_win_ok e"
  "um_win_ok (e\<lparr>um_rx_timer_trigger := r\<rparr>) = um_win_ok e"
  "um_win_ok (e\<lparr>um_t_current := t\<rparr>) = um_win_ok e"
  by (simp_all add: um_win_ok_def um_cfg_ok_def)

lemma um_compare_upd [simp]:
  "um_sn_compare_rx (e\<lparr>um_rx_list := l\<rparr>) = um_sn_compare_rx e"
  "um_sn_compare_rx (e\<lparr>um_rx_size := n\<rparr>) = um_sn_compare_rx e"
  "um_sn_compare_rx (e\<lparr>stats := st\<rparr>) = um_sn_compare_rx e"
  "um_sn_compare_rx (e\<lparr>um_rx_next_reassembly := r\<rparr>) = um_sn_compare_rx e"
  "um_sn_compare_rx (e\<lparr>um_t_reassembly_start := t\<rparr>) = um_sn_compare_rx e"
  by (simp_all add: um_sn_compare_rx_def fun_eq_iff)

text \<open>A PDU the list may hold, and the invariant without the timer. \<open>extra x\<close> allows the sequence
  number being received to be ahead of the window.\<close>

definition um_pdu_ok :: "nr_rlc_entity_um_t \<Rightarrow> nr_rlc_pdu_t \<Rightarrow> bool" where
  "um_pdu_ok e p \<longleftrightarrow> 0 \<le> pdu_sn p \<and> pdu_sn p < um_sn_modulus e \<and> 0 \<le> pdu_size p \<and> 0 \<le> pdu_so p"

definition um_in_window :: "nr_rlc_entity_um_t \<Rightarrow> int \<Rightarrow> bool" where
  "um_in_window e sn \<longleftrightarrow> um_modulus_rx e sn < um_window_size e"

definition um_rx_core :: "nr_rlc_entity_um_t \<Rightarrow> bool" where
  "um_rx_core e \<longleftrightarrow> um_win_ok e \<and> 0 \<le> um_rx_next_reassembly e \<and> um_rx_next_reassembly e < um_sn_modulus e \<and>
     um_modulus_rx e (um_rx_next_reassembly e) \<le> um_window_size e \<and>
     rx_sorted (um_modulus_rx e) (um_rx_list e) \<and> (\<forall>p \<in> set (um_rx_list e). um_pdu_ok e p) \<and>
     (\<Sum>p\<leftarrow>um_rx_list e. pdu_size p) \<le> um_rx_size e"

definition um_timer_ok :: "nr_rlc_entity_um_t \<Rightarrow> bool" where
  "um_timer_ok e \<longleftrightarrow> 0 \<le> um_rx_timer_trigger e \<and> um_rx_timer_trigger e < um_sn_modulus e \<and>
     (um_t_reassembly_start e \<noteq> 0 \<longrightarrow> um_modulus_rx e (um_rx_timer_trigger e) \<le> um_window_size e)"

definition um_trigger_range :: "nr_rlc_entity_um_t \<Rightarrow> bool" where
  "um_trigger_range e \<longleftrightarrow> 0 \<le> um_rx_timer_trigger e \<and> um_rx_timer_trigger e < um_sn_modulus e"

definition um_rx_ok :: "nr_rlc_entity_um_t \<Rightarrow> bool" where
  "um_rx_ok e \<longleftrightarrow> um_rx_core e \<and> (\<forall>p \<in> set (um_rx_list e). um_in_window e (pdu_sn p)) \<and> um_timer_ok e"

lemma um_inj:
  assumes "um_win_ok e" and "\<forall>p \<in> set l. um_pdu_ok e p" and "0 \<le> sn" and "sn < um_sn_modulus e"
  shows "inj_on (um_modulus_rx e) (insert sn (pdu_sn ` set l))"
  by (rule um_win.position_inj_subset [OF assms(1)]) (use assms(2-4) in \<open>auto simp: um_pdu_ok_def\<close>)

lemma um_skip_delivered_ok:
  assumes win: "um_win_ok e" and "\<forall>p \<in> set (um_rx_list e). um_pdu_ok e p \<and> um_in_window e (pdu_sn p)"
    and sn: "0 \<le> sn" "sn < um_sn_modulus e" "um_modulus_rx e sn \<le> um_window_size e"
  shows "\<exists>r. um_skip_delivered e sn = Inr r \<and> 0 \<le> r \<and> r < um_sn_modulus e \<and>
    um_modulus_rx e r \<le> um_window_size e \<and> \<not> sdu_delivered (um_rx_list e) r"
proof -
  have P: "0 \<le> x \<and> x < um_sn_modulus e \<and> um_modulus_rx e x < um_window_size e"
    if "sdu_delivered (um_rx_list e) x" for x
    using sdu_delivered_sn [OF that] assms(2) by (auto simp: um_pdu_ok_def um_in_window_def)
  have w: "um_window_size e < um_sn_modulus e" using um_modulus_window [OF win] by simp
  from um_win.skip_ends [OF win sn(1,2) w P] obtain r where
    r: "skip_while_sn (nat (um_sn_modulus e)) (sdu_delivered (um_rx_list e)) (um_sn_modulus e) sn = Some r"
    by blast
  then have "um_modulus_rx e r \<le> um_window_size e"
    using um_win.skip_position [OF win sn(1,2) w sn(3) _ r] P by blast
  with r show ?thesis
    using skip_while_sn_range [OF r sn(1,2)] skip_while_sn_stops [OF r] by (simp add: um_skip_delivered_def)
qed

lemma um_discard_outside_eq:
  "\<exists>st. um_discard_outside e l =
     e\<lparr>um_rx_list := dropWhile (\<lambda>p. 0 \<le> um_sn_compare_rx e (pdu_sn p) (um_rx_next_highest e)) l,
       um_rx_size := um_rx_size e -
         (\<Sum>p\<leftarrow>takeWhile (\<lambda>p. 0 \<le> um_sn_compare_rx e (pdu_sn p) (um_rx_next_highest e)) l. pdu_size p),
       stats := st\<rparr>"
proof (induction l arbitrary: e)
  case Nil
  show ?case by (rule exI [of _ "stats e"]) simp
next
  case (Cons p l)
  show ?case
  proof (cases "0 \<le> um_sn_compare_rx e (pdu_sn p) (um_rx_next_highest e)")
    case True
    let ?e = "e\<lparr>um_rx_size := um_rx_size e - pdu_size p,
                stats := (stats e)\<lparr>rxpdu_dd_pkts := rxpdu_dd_pkts (stats e) + 1,
                                   rxpdu_dd_bytes := rxpdu_dd_bytes (stats e) + of_int (pdu_size p),
                                   rxpdu_ow_pkts := rxpdu_ow_pkts (stats e) + 1,
                                   rxpdu_ow_bytes := rxpdu_ow_bytes (stats e) + of_int (pdu_size p)\<rparr>\<rparr>"
    from Cons.IH [of ?e] obtain st where "um_discard_outside ?e l =
       ?e\<lparr>um_rx_list := dropWhile (\<lambda>p. 0 \<le> um_sn_compare_rx e (pdu_sn p) (um_rx_next_highest e)) l,
         um_rx_size := um_rx_size ?e -
           (\<Sum>p\<leftarrow>takeWhile (\<lambda>p. 0 \<le> um_sn_compare_rx e (pdu_sn p) (um_rx_next_highest e)) l. pdu_size p),
         stats := st\<rparr>" by auto
    with True show ?thesis by (intro exI [of _ st]) (simp add: algebra_simps)
  next
    case False
    then show ?thesis by (intro exI [of _ "stats e"]) simp
  qed
qed

text \<open>Moving the end of the window behind \<open>x\<close> shifts every position.\<close>

lemma um_window_shift:
  assumes win: "um_win_ok e" and x: "0 \<le> x" "x < um_sn_modulus e" "um_window_size e \<le> um_modulus_rx e x"
    and e1: "e1 = e\<lparr>um_rx_next_highest := (x + 1) mod um_sn_modulus e\<rparr>"
    and s: "s = um_modulus_rx e x + 1 - um_window_size e" and a: "0 \<le> a" "a < um_sn_modulus e"
  shows "um_win_ok e1" and "1 \<le> s" and "s \<le> um_window_size e"
    and "um_modulus_rx e1 a = (if um_modulus_rx e a < s then um_modulus_rx e a - s + um_sn_modulus e
           else um_modulus_rx e a - s)"
proof -
  let ?M = "um_sn_modulus e"
  note M = um_modulus_window [OF win]
  have pos: "0 < ?M" using M by simp
  show ok1: "um_win_ok e1" using win pos by (simp add: e1 um_win_ok_def um_cfg_ok_def)
  note rx = um_win.position_range [OF win x(1,2)] and ra = um_win.position_range [OF win a]
  show s1: "1 \<le> s" and s2: "s \<le> um_window_size e" using s x(3) rx(2) M by linarith+
  have "um_modulus_rx e1 a = (um_modulus_rx e a - ((x + 1) mod ?M - um_rx_next_highest e)) mod ?M"
    using um_win.position_rebase [OF win ok1 _ a] by (simp add: e1)
  also have "\<dots> = (um_modulus_rx e a - s) mod ?M"
  proof -
    have px: "um_modulus_rx e x = (x - (um_rx_next_highest e - um_window_size e)) mod ?M"
      by (rule um_win.position_eq [OF win x(1,2)])
    have "um_modulus_rx e a - s - (um_modulus_rx e a - ((x + 1) mod ?M - um_rx_next_highest e)) =
        (x + 1) mod ?M - (x + 1) + (x - (um_rx_next_highest e - um_window_size e) - um_modulus_rx e x)"
      by (simp add: s)
    also have "\<dots> = ?M * (- ((x + 1) div ?M) + (x - (um_rx_next_highest e - um_window_size e)) div ?M)"
      by (simp add: px minus_mult_div_eq_mod [symmetric] algebra_simps)
    finally show ?thesis by (metis dvd_triv_left mod_eq_dvd_iff)
  qed
  finally have res: "um_modulus_rx e1 a = (um_modulus_rx e a - s) mod ?M" .
  show "um_modulus_rx e1 a = (if um_modulus_rx e a < s then um_modulus_rx e a - s + ?M
           else um_modulus_rx e a - s)"
  proof (cases "um_modulus_rx e a < s")
    case True
    have "(um_modulus_rx e a - s) mod ?M = (um_modulus_rx e a - s + ?M) mod ?M" by simp
    also have "\<dots> = um_modulus_rx e a - s + ?M"
      by (rule mod_pos_pos_trivial) (use True ra s2 M in linarith)+
    finally show ?thesis using True res by simp
  next
    case False
    then have "(um_modulus_rx e a - s) mod ?M = um_modulus_rx e a - s"
      by (intro mod_pos_pos_trivial) (use ra s1 in linarith)+
    with False res show ?thesis by simp
  qed
qed

text \<open>The PDUs that fall out of the moved window are a prefix of the list; the others stay sorted.\<close>

lemma um_window_shift_list:
  assumes core: "um_rx_core e" and x: "0 \<le> x" "x < um_sn_modulus e" "um_window_size e \<le> um_modulus_rx e x"
    and l: "\<forall>p \<in> set (um_rx_list e). um_in_window e (pdu_sn p) \<or> pdu_sn p = x"
    and e1: "e1 = e\<lparr>um_rx_next_highest := (x + 1) mod um_sn_modulus e\<rparr>"
    and kept: "kept = dropWhile (\<lambda>p. 0 \<le> um_sn_compare_rx e1 (pdu_sn p) (um_rx_next_highest e1)) (um_rx_list e)"
  shows "rx_sorted (um_modulus_rx e1) kept" and "p \<in> set kept \<Longrightarrow> um_in_window e1 (pdu_sn p)"
proof -
  define s where "s = um_modulus_rx e x + 1 - um_window_size e"
  have win: "um_win_ok e" using core by (simp add: um_rx_core_def)
  note shift = um_window_shift [OF win x e1 s_def]
  have s: "1 \<le> s" "s \<le> um_window_size e" and win1: "um_win_ok e1" using shift [of x] x by auto
  note M = um_modulus_window [OF win]
  have sn: "0 \<le> pdu_sn p" "pdu_sn p < um_sn_modulus e" if "p \<in> set (um_rx_list e)" for p
    using core that by (auto simp: um_rx_core_def um_pdu_ok_def)
  have "0 \<le> um_sn_compare_rx e1 (pdu_sn p) (um_rx_next_highest e1) \<longleftrightarrow> um_modulus_rx e (pdu_sn p) < s"
    if "p \<in> set (um_rx_list e)" for p
  proof -
    have "um_modulus_rx e (pdu_sn p) < um_window_size e \<or> um_modulus_rx e (pdu_sn p) = um_modulus_rx e x"
      using l that by (auto simp: um_in_window_def)
    moreover have "um_window_size e1 = um_window_size e" by (simp add: e1)
    ultimately show ?thesis
      using shift(4) [OF sn [OF that]] M s um_win.position_range [OF win sn [OF that]] s_def
      by (auto simp: um_sn_compare_rx_def um_position_highest [OF win1] split: if_splits)
  qed
  then have dw: "kept = dropWhile (\<lambda>p. um_modulus_rx e (pdu_sn p) < s) (um_rx_list e)"
    unfolding kept by (intro dropWhile_cong) auto
  have sorted: "rx_sorted (um_modulus_rx e) (um_rx_list e)" using core by (simp add: um_rx_core_def)
  have in_l: "p \<in> set (um_rx_list e)" if "p \<in> set kept" for p
    using that unfolding kept by (rule set_dropWhileD)
  have pos: "um_modulus_rx e1 (pdu_sn p) = um_modulus_rx e (pdu_sn p) - s" if "p \<in> set kept" for p
    using shift(4) [OF sn [OF in_l [OF that]]] rx_sorted_keys [OF sorted] that dw by force
  show "rx_sorted (um_modulus_rx e1) kept"
    unfolding dw by (rule rx_sorted_shift [OF rx_sorted_dropWhile [OF sorted]]) (use pos dw in simp)
  show "um_in_window e1 (pdu_sn p)" if "p \<in> set kept"
    using pos [OF that] l in_l [OF that] s s_def by (auto simp: um_in_window_def e1)
qed

lemma um_base_position:
  assumes "um_win_ok e"
  shows "um_modulus_rx e ((um_rx_next_highest e - um_window_size e + um_sn_modulus e) mod um_sn_modulus e) = 0"
  using assms um_modulus_window [OF assms] by (subst um_win.position_eq) (simp_all add: mod_diff_left_eq)

lemma um_advance_window_ok:
  assumes core: "um_rx_core e" and x: "0 \<le> x" "x < um_sn_modulus e" "um_window_size e \<le> um_modulus_rx e x"
    and l: "\<forall>p \<in> set (um_rx_list e). um_in_window e (pdu_sn p) \<or> pdu_sn p = x"
  shows "\<exists>e' front. um_advance_window e x = Inr e' \<and> um_rx_core e' \<and> um_rx_list e = front @ um_rx_list e' \<and>
    (\<forall>p \<in> set (um_rx_list e'). um_in_window e' (pdu_sn p)) \<and> um_sn_modulus e' = um_sn_modulus e \<and>
    um_rx_timer_trigger e' = um_rx_timer_trigger e \<and>
    (\<forall>p \<in> set front. \<forall>q \<in> set (um_rx_list e'). pdu_sn p \<noteq> pdu_sn q)"
proof -
  define e1 where "e1 = e\<lparr>um_rx_next_highest := (x + 1) mod um_sn_modulus e\<rparr>"
  let ?out = "\<lambda>p. 0 \<le> um_sn_compare_rx e1 (pdu_sn p) (um_rx_next_highest e1)"
  let ?l = "dropWhile ?out (um_rx_list e)"
  note kept = um_window_shift_list [OF core x l e1_def refl]
  have win: "um_win_ok e" using core by (simp add: um_rx_core_def)
  have win1: "um_win_ok e1" by (rule um_window_shift(1) [OF win x e1_def refl x(1,2)])
  have M1: "um_sn_modulus e1 = um_sn_modulus e" "um_window_size e1 = um_window_size e"
    "um_rx_list e1 = um_rx_list e" "um_rx_size e1 = um_rx_size e" by (simp_all add: e1_def)
  obtain st where e2: "um_discard_outside e1 (um_rx_list e1) =
      e1\<lparr>um_rx_list := ?l, um_rx_size := um_rx_size e - (\<Sum>p\<leftarrow>takeWhile ?out (um_rx_list e). pdu_size p), stats := st\<rparr>"
    using um_discard_outside_eq [of e1 "um_rx_list e1"] M1 by auto
  define e2 where "e2 = e1\<lparr>um_rx_list := ?l,
      um_rx_size := um_rx_size e - (\<Sum>p\<leftarrow>takeWhile ?out (um_rx_list e). pdu_size p), stats := st\<rparr>"
  have "(\<Sum>p\<leftarrow>?l. pdu_size p) \<le> um_rx_size e - (\<Sum>p\<leftarrow>takeWhile ?out (um_rx_list e). pdu_size p)"
    using core sum_list_map_partition [of pdu_size "um_rx_list e" ?out] by (simp add: um_rx_core_def)
  moreover have "\<forall>p \<in> set ?l. um_pdu_ok e2 p"
    using core M1 by (auto simp: um_rx_core_def um_pdu_ok_def e2_def dest: set_dropWhileD)
  ultimately have base: "um_win_ok e2" "rx_sorted (um_modulus_rx e2) (um_rx_list e2)" "um_rx_list e2 = ?l"
    "\<forall>p \<in> set ?l. um_pdu_ok e2 p \<and> um_in_window e2 (pdu_sn p)" "(\<Sum>p\<leftarrow>um_rx_list e2. pdu_size p) \<le> um_rx_size e2"
    "um_sn_modulus e2 = um_sn_modulus e" "um_rx_next_reassembly e2 = um_rx_next_reassembly e"
    "um_rx_timer_trigger e2 = um_rx_timer_trigger e"
    using win1 kept M1 by (auto simp: um_in_window_def e2_def e1_def)
  have split: "um_rx_list e = takeWhile ?out (um_rx_list e) @ ?l" by simp
  have sep: "\<forall>p \<in> set (takeWhile ?out (um_rx_list e)). \<forall>q \<in> set ?l. pdu_sn p \<noteq> pdu_sn q"
    using kept(2) um_position_highest [OF win1] M1(2)
    by (fastforce simp: um_sn_compare_rx_def um_in_window_def dest: set_takeWhileD)
  have adv: "um_advance_window e x = (if 0 \<le> um_sn_compare_rx e2 (um_rx_next_reassembly e2) (um_rx_next_highest e2)
      then bind_r (um_skip_delivered e2
             ((um_rx_next_highest e2 - um_window_size e2 + um_sn_modulus e2) mod um_sn_modulus e2))
             (\<lambda>r. Inr (e2\<lparr>um_rx_next_reassembly := r\<rparr>))
      else Inr e2)"
    unfolding um_advance_window_def Let_def e1_def [symmetric] e2 e2_def [symmetric] ..
  show ?thesis
  proof (cases "0 \<le> um_sn_compare_rx e2 (um_rx_next_reassembly e2) (um_rx_next_highest e2)")
    case True
    have "0 < um_sn_modulus e2" "0 \<le> um_window_size e2" using um_modulus_window [OF base(1)] by auto
    with um_skip_delivered_ok [OF base(1), of "(um_rx_next_highest e2 - um_window_size e2 + um_sn_modulus e2) mod um_sn_modulus e2"]
      base(3,4) um_base_position [OF base(1)] obtain r where
      r: "um_skip_delivered e2 ((um_rx_next_highest e2 - um_window_size e2 + um_sn_modulus e2) mod um_sn_modulus e2) = Inr r"
        "0 \<le> r" "r < um_sn_modulus e2" "um_modulus_rx e2 r \<le> um_window_size e2" by auto
    let ?e3 = "e2\<lparr>um_rx_next_reassembly := r\<rparr>"
    have "um_rx_core ?e3 \<and> (\<forall>p \<in> set (um_rx_list ?e3). um_in_window ?e3 (pdu_sn p))"
      using base r by (simp add: um_rx_core_def um_pdu_ok_def um_in_window_def)
    with adv True r(1) base(3,6,8) split sep show ?thesis
      by (intro exI [of _ ?e3] exI [of _ "takeWhile ?out (um_rx_list e)"]) simp
  next
    case False
    then have "um_modulus_rx e2 (um_rx_next_reassembly e2) \<le> um_window_size e2"
      using um_position_highest [OF base(1)] by (simp add: um_sn_compare_rx_def)
    then have "um_rx_core e2 \<and> (\<forall>p \<in> set (um_rx_list e2). um_in_window e2 (pdu_sn p))"
      using base core by (auto simp: um_rx_core_def)
    with adv False base(3,6,8) split sep show ?thesis
      by (intro exI [of _ e2] exI [of _ "takeWhile ?out (um_rx_list e)"]) simp
  qed
qed

lemma um_stop_timer_ok:
  assumes "um_rx_core e" and "\<forall>p \<in> set (um_rx_list e). um_in_window e (pdu_sn p)" and "um_trigger_range e"
  shows "um_rx_ok (um_stop_timer e)"
proof -
  have H: "um_modulus_rx e (um_rx_next_highest e) = um_window_size e"
    using assms(1) by (intro um_position_highest) (simp add: um_rx_core_def)
  show ?thesis
  proof (cases "um_t_reassembly_start e \<noteq> 0 \<and> um_modulus_rx e (um_rx_timer_trigger e) > um_window_size e")
    case True
    then have "um_stop_timer e = e\<lparr>um_t_reassembly_start := 0\<rparr>"
      using H by (simp add: um_stop_timer_def um_sn_compare_rx_def)
    with assms show ?thesis
      by (simp add: um_rx_ok_def um_rx_core_def um_pdu_ok_def um_in_window_def um_timer_ok_def um_trigger_range_def)
  next
    case False
    then have "um_rx_ok e" using assms by (auto simp: um_rx_ok_def um_timer_ok_def um_trigger_range_def)
    then have "um_rx_ok (e\<lparr>um_t_reassembly_start := 0\<rparr>)"
      by (simp add: um_rx_ok_def um_rx_core_def um_pdu_ok_def um_in_window_def um_timer_ok_def)
    with \<open>um_rx_ok e\<close> show ?thesis by (simp add: um_stop_timer_def)
  qed
qed

lemma um_start_timer_ok:
  assumes "um_rx_ok e"
  shows "um_rx_ok (um_start_timer e)"
proof -
  have win: "um_win_ok e" using assms by (simp add: um_rx_ok_def um_rx_core_def)
  then have range: "0 \<le> um_rx_next_highest e" "um_rx_next_highest e < um_sn_modulus e"
    by (simp_all add: um_win_ok_def)
  have "um_rx_ok (e\<lparr>um_t_reassembly_start := um_t_current e, um_rx_timer_trigger := um_rx_next_highest e\<rparr>)"
    using assms um_position_highest [OF win] range
    by (simp add: um_rx_ok_def um_rx_core_def um_pdu_ok_def um_in_window_def um_timer_ok_def)
  with assms show ?thesis by (simp add: um_start_timer_def)
qed

lemma um_timers_keep [simp]:
  "um_rx_list (um_stop_timer e) = um_rx_list e" "um_rx_list (um_start_timer e) = um_rx_list e"
  by (simp_all add: um_stop_timer_def um_start_timer_def)

text \<open>The list after a PDU has been put in it.\<close>

definition um_put :: "nr_rlc_entity_um_t \<Rightarrow> nr_rlc_pdu_t \<Rightarrow> nr_rlc_entity_um_t" where
  "um_put e pdu = e\<lparr>um_rx_size := um_rx_size e + pdu_size pdu,
     um_rx_list := nr_rlc_pdu_list_add (um_sn_compare_rx e) (um_rx_list e) pdu\<rparr>"

lemma um_put_set: "set (um_rx_list (um_put e pdu)) = insert pdu (set (um_rx_list e))"
  using pdu_list_add_set [of "um_modulus_rx e" "um_rx_list e" pdu]
  by (simp add: um_put_def um_sn_compare_rx_def [abs_def])

lemma um_put_core:
  assumes "um_rx_core e" and "um_pdu_ok e pdu"
  shows "um_rx_core (um_put e pdu)"
proof -
  have cmp: "um_sn_compare_rx e = (\<lambda>a b. um_modulus_rx e a - um_modulus_rx e b)"
    by (simp add: um_sn_compare_rx_def fun_eq_iff)
  have "\<forall>p \<in> set (um_rx_list (um_put e pdu)). um_pdu_ok (um_put e pdu) p"
    unfolding um_put_set using assms by (auto simp: um_rx_core_def um_pdu_ok_def um_put_def)
  moreover have "rx_sorted (um_modulus_rx e) (um_rx_list (um_put e pdu))"
    using assms(1) by (auto simp: um_put_def cmp um_rx_core_def intro: rx_sorted_add)
  ultimately show ?thesis
    using assms(1) by (simp add: um_rx_core_def um_put_def cmp pdu_list_add_sum)
qed

lemma single_segment_not_full:
  assumes "rx_sorted key l" and "inj_on key (insert sn (pdu_sn ` set l))" and "set (of_sn sn l) = {p}"
    and "pdu_so p = 0 \<longrightarrow> \<not> pdu_is_last p" and "0 \<le> pdu_so p"
  shows "\<not> sdu_full l sn"
proof -
  from first_of_block [OF assms(1,2)] obtain rest where
    rest: "first_of sn l = of_sn sn l @ rest" "block_of sn (of_sn sn l) rest" by blast
  have "\<not> sdu_full_loop sn k (segs @ rest)"
    if "set segs \<subseteq> {p}" "segs \<noteq> [] \<longrightarrow> pdu_so p = 0 \<or> k < 0" "block_of sn segs rest" for segs k
    using that
  proof (induction segs arbitrary: k)
    case Nil
    then show ?case using sdu_full_loop_stop by simp
  next
    case (Cons q segs)
    then have q: "q = p" by simp
    show ?case
    proof (cases "pdu_so p = 0")
      case True
      with Cons q assms(4) show ?thesis by (auto simp: Let_def block_of_Cons)
    next
      case False
      with Cons.prems q assms(5) show ?thesis by auto
    qed
  qed
  from this [of "of_sn sn l" "-1"] rest assms(3) show ?thesis
    by (auto simp: sdu_full_def Let_def)
qed

definition deliver_events :: "byte list option \<Rightarrow> rlc_event list" where
  "deliver_events out = (case out of None \<Rightarrow> [] | Some sdu \<Rightarrow> [Deliver_sdu sdu])"

lemma um_deliver_ok:
  assumes core: "um_rx_core e" and win: "\<forall>p \<in> set (um_rx_list e). um_in_window e (pdu_sn p)"
    and x: "0 \<le> x" "x < um_sn_modulus e" and re: "reassemble (um_rx_list e) x = Inr (l, freed, out)"
  shows "\<exists>e'. um_reassemble_and_deliver e x = Inr (e', deliver_events out) \<and> um_rx_core e' \<and>
    um_rx_list e' = free_sn x (um_rx_list e) \<and> (\<forall>p \<in> set (um_rx_list e'). um_in_window e' (pdu_sn p)) \<and>
    um_trigger_range e' = um_trigger_range e \<and> um_rx_next_reassembly e' = um_rx_next_reassembly e"
proof -
  have ok: "um_win_ok e" "\<forall>p \<in> set (um_rx_list e). um_pdu_ok e p"
    and sorted: "rx_sorted (um_modulus_rx e) (um_rx_list e)" using core by (auto simp: um_rx_core_def)
  have l: "l = free_sn x (um_rx_list e)" and freed: "freed = (\<Sum>p\<leftarrow>of_sn x (um_rx_list e). pdu_size p)"
    using reassemble_frees [OF sorted um_inj [OF ok x] re] by auto
  define e1 where "e1 = e\<lparr>um_rx_list := l, um_rx_size := um_rx_size e - freed\<rparr>"
  obtain st where res: "um_reassemble_and_deliver e x = Inr (e1\<lparr>stats := st\<rparr>, deliver_events out)"
  proof (cases out)
    case None
    then have "um_reassemble_and_deliver e x = Inr (e1\<lparr>stats := stats e1\<rparr>, deliver_events out)"
      using re by (simp add: um_reassemble_and_deliver_def Let_def deliver_events_def e1_def)
    then show ?thesis by (rule that)
  next
    case (Some sdu)
    with re that show ?thesis by (simp add: um_reassemble_and_deliver_def Let_def deliver_events_def e1_def)
  qed
  have mem: "um_pdu_ok e p \<and> um_in_window e (pdu_sn p)" if "p \<in> set l" for p
    using set_free_sn [of p x "um_rx_list e"] that l ok(2) win by (auto simp: um_pdu_ok_def)
  have "um_rx_core (e1\<lparr>stats := st\<rparr>)"
    using core mem l freed sorted
    by (simp add: um_rx_core_def e1_def um_pdu_ok_def free_sn_sorted free_sn_size)
  moreover have "\<forall>p \<in> set l. um_in_window (e1\<lparr>stats := st\<rparr>) (pdu_sn p)"
    using mem by (simp add: um_in_window_def e1_def)
  ultimately show ?thesis using res l by (simp add: e1_def um_trigger_range_def)
qed

lemma um_reception_full:
  assumes core: "um_rx_core e" and win: "\<forall>p \<in> set (um_rx_list e). um_in_window e (pdu_sn p)"
    and trig: "um_trigger_range e" and x: "0 \<le> pdu_sn pdu" "pdu_sn pdu < um_sn_modulus e"
    and full: "sdu_full (um_rx_list e) (pdu_sn pdu)"
    and re: "reassemble (um_rx_list e) (pdu_sn pdu) = Inr (l, freed, out)"
  shows "\<exists>e'. um_reception_actions e pdu = Inr (e', deliver_events out) \<and> um_rx_ok e' \<and>
    um_rx_list e' = free_sn (pdu_sn pdu) (um_rx_list e)"
proof -
  from um_deliver_ok [OF core win x re] obtain e1 where
    e1: "um_reassemble_and_deliver e (pdu_sn pdu) = Inr (e1, deliver_events out)" "um_rx_core e1"
      "um_rx_list e1 = free_sn (pdu_sn pdu) (um_rx_list e)"
      "\<forall>p \<in> set (um_rx_list e1). um_in_window e1 (pdu_sn p)" "um_trigger_range e1"
    using trig by blast
  show ?thesis
  proof (cases "pdu_sn pdu = um_rx_next_reassembly e1")
    case True
    have c1: "um_win_ok e1" "\<forall>p \<in> set (um_rx_list e1). um_pdu_ok e1 p \<and> um_in_window e1 (pdu_sn p)"
      "0 \<le> um_rx_next_reassembly e1" "um_rx_next_reassembly e1 < um_sn_modulus e1"
      "um_modulus_rx e1 (um_rx_next_reassembly e1) \<le> um_window_size e1"
      using e1(2,4) by (auto simp: um_rx_core_def)
    from um_skip_delivered_ok [OF c1] obtain r where
      r: "um_skip_delivered e1 (um_rx_next_reassembly e1) = Inr r" "0 \<le> r" "r < um_sn_modulus e1"
        "um_modulus_rx e1 r \<le> um_window_size e1" by blast
    let ?e2 = "e1\<lparr>um_rx_next_reassembly := r\<rparr>"
    have "um_rx_core ?e2" "\<forall>p \<in> set (um_rx_list ?e2). um_in_window ?e2 (pdu_sn p)" "um_trigger_range ?e2"
      using e1 r by (simp_all add: um_rx_core_def um_pdu_ok_def um_in_window_def um_trigger_range_def)
    from um_start_timer_ok [OF um_stop_timer_ok [OF this]] full e1(1,3) True r(1) show ?thesis
      by (simp add: um_reception_actions_def Let_def)
  next
    case False
    from um_start_timer_ok [OF um_stop_timer_ok [OF e1(2,4,5)]] full e1(1,3) False show ?thesis
      by (simp add: um_reception_actions_def Let_def)
  qed
qed

lemma um_reception_partial:
  assumes core: "um_rx_core e" and win: "\<forall>p \<in> set (um_rx_list e). um_in_window e (pdu_sn p) \<or> pdu_sn p = pdu_sn pdu"
    and trig: "um_trigger_range e" and x: "0 \<le> pdu_sn pdu" "pdu_sn pdu < um_sn_modulus e"
    and full: "\<not> sdu_full (um_rx_list e) (pdu_sn pdu)"
  shows "\<exists>e' front. um_reception_actions e pdu = Inr (e', []) \<and> um_rx_ok e' \<and> um_rx_list e = front @ um_rx_list e' \<and>
    (\<forall>p \<in> set front. \<forall>q \<in> set (um_rx_list e'). pdu_sn p \<noteq> pdu_sn q)"
proof (cases "0 \<le> um_sn_compare_rx e (pdu_sn pdu) (um_rx_next_highest e)")
  case True
  have "um_win_ok e" using core by (simp add: um_rx_core_def)
  then have "um_window_size e \<le> um_modulus_rx e (pdu_sn pdu)"
    using True by (simp add: um_sn_compare_rx_def um_position_highest)
  from um_advance_window_ok [OF core x this win] obtain e1 front where
    e1: "um_advance_window e (pdu_sn pdu) = Inr e1" "um_rx_core e1" "um_rx_list e = front @ um_rx_list e1"
      "\<forall>p \<in> set (um_rx_list e1). um_in_window e1 (pdu_sn p)" "um_trigger_range e1"
      "\<forall>p \<in> set front. \<forall>q \<in> set (um_rx_list e1). pdu_sn p \<noteq> pdu_sn q"
    using trig by (auto simp: um_trigger_range_def)
  from um_start_timer_ok [OF um_stop_timer_ok [OF e1(2,4,5)]] full True e1(1,3,6) show ?thesis
    by (simp add: um_reception_actions_def Let_def)
next
  case False
  have "um_win_ok e" using core by (simp add: um_rx_core_def)
  then have "um_in_window e (pdu_sn pdu)"
    using False by (simp add: um_sn_compare_rx_def um_position_highest um_in_window_def)
  with win have "\<forall>p \<in> set (um_rx_list e). um_in_window e (pdu_sn p)" by auto
  from um_start_timer_ok [OF um_stop_timer_ok [OF core this trig]] full False show ?thesis
    by (simp add: um_reception_actions_def Let_def)
qed


subsection \<open>Any PDU\<close>

lemma reassemble_error:
  assumes "reassemble l sn = Inl err" and "sdu_full l sn"
  shows "err = Null_deref \<or> err = Out_of_bounds"
proof -
  have "err = Null_deref \<or> err = Out_of_bounds" if "reassemble_loop sn xs sdu bad = Inl err" for xs sdu bad
    using that
  proof (induction sn xs sdu bad rule: reassemble_loop.induct)
    case (2 sn p l sdu bad)
    show ?case
    proof (cases "copy_segment sdu p bad")
      case (Inl err')
      with "2.prems" show ?thesis
        by (auto simp: copy_segment_def Let_def read_at_def split: if_splits option.splits)
    next
      case (Inr r)
      obtain a b where "r = (a, b)" by (cases r)
      with Inr "2.prems" "2.IH" show ?thesis by (auto simp: bind_r_eq_Inl split: if_splits)
    qed
  qed simp
  with assms show ?thesis by (auto simp: reassemble_def Let_def bind_r_eq_Inl split: if_splits)
qed

lemma um_put_window:
  assumes "um_rx_ok e"
  shows "\<forall>p \<in> set (um_rx_list (um_put e pdu)). um_in_window (um_put e pdu) (pdu_sn p) \<or> pdu_sn p = pdu_sn pdu"
  unfolding um_put_set using assms by (auto simp: um_rx_ok_def um_in_window_def um_put_def)

text \<open>A PDU that completes an SDU is inside the window.\<close>

lemma um_full_in_window:
  assumes ok: "um_rx_ok e" and pdu: "um_pdu_ok e pdu" "pdu_so pdu = 0 \<longrightarrow> \<not> pdu_is_last pdu"
    and full: "sdu_full (um_rx_list (um_put e pdu)) (pdu_sn pdu)"
  shows "\<forall>p \<in> set (um_rx_list (um_put e pdu)). um_in_window (um_put e pdu) (pdu_sn p)"
proof (cases "um_in_window e (pdu_sn pdu)")
  case True
  then show ?thesis unfolding um_put_set using ok by (auto simp: um_rx_ok_def um_in_window_def um_put_def)
next
  case False
  then have "pdu_sn p \<noteq> pdu_sn pdu" if "p \<in> set (um_rx_list e)" for p
    using ok that by (auto simp: um_rx_ok_def)
  then have one: "set (of_sn (pdu_sn pdu) (um_rx_list (um_put e pdu))) = {pdu}"
    using um_put_set [of e pdu] by auto
  have core: "um_rx_core (um_put e pdu)"
    by (rule um_put_core) (use ok pdu in \<open>simp_all add: um_rx_ok_def\<close>)
  have "um_modulus_rx (um_put e pdu) = um_modulus_rx e" "um_sn_modulus (um_put e pdu) = um_sn_modulus e"
    by (simp_all add: um_put_def)
  then have "\<not> sdu_full (um_rx_list (um_put e pdu)) (pdu_sn pdu)"
    using core pdu one um_inj [of "um_put e pdu" "um_rx_list (um_put e pdu)" "pdu_sn pdu"]
    by (intro single_segment_not_full [of "um_modulus_rx (um_put e pdu)"]) (auto simp: um_rx_core_def um_pdu_ok_def)
  with full show ?thesis by simp
qed

lemma um_reception_put:
  assumes ok: "um_rx_ok e" and pdu: "um_pdu_ok e pdu" "pdu_so pdu = 0 \<longrightarrow> \<not> pdu_is_last pdu"
  shows "sdu_full (um_rx_list (um_put e pdu)) (pdu_sn pdu) \<Longrightarrow>
      reassemble (um_rx_list (um_put e pdu)) (pdu_sn pdu) = Inr (l, freed, out) \<Longrightarrow>
      \<exists>e'. um_reception_actions (um_put e pdu) pdu = Inr (e', deliver_events out) \<and> um_rx_ok e' \<and>
        um_rx_list e' = free_sn (pdu_sn pdu) (um_rx_list (um_put e pdu))"
    and "\<not> sdu_full (um_rx_list (um_put e pdu)) (pdu_sn pdu) \<Longrightarrow>
      \<exists>e' front. um_reception_actions (um_put e pdu) pdu = Inr (e', []) \<and> um_rx_ok e' \<and>
        um_rx_list (um_put e pdu) = front @ um_rx_list e' \<and>
        (\<forall>p \<in> set front. \<forall>q \<in> set (um_rx_list e'). pdu_sn p \<noteq> pdu_sn q)"
proof -
  have core: "um_rx_core (um_put e pdu)"
    by (rule um_put_core) (use ok pdu in \<open>simp_all add: um_rx_ok_def\<close>)
  have trig: "um_trigger_range (um_put e pdu)"
    using ok by (simp add: um_rx_ok_def um_timer_ok_def um_trigger_range_def um_put_def)
  have x: "0 \<le> pdu_sn pdu" "pdu_sn pdu < um_sn_modulus (um_put e pdu)"
    using pdu by (simp_all add: um_pdu_ok_def um_put_def)
  show "sdu_full (um_rx_list (um_put e pdu)) (pdu_sn pdu) \<Longrightarrow>
      reassemble (um_rx_list (um_put e pdu)) (pdu_sn pdu) = Inr (l, freed, out) \<Longrightarrow>
      \<exists>e'. um_reception_actions (um_put e pdu) pdu = Inr (e', deliver_events out) \<and> um_rx_ok e' \<and>
        um_rx_list e' = free_sn (pdu_sn pdu) (um_rx_list (um_put e pdu))"
    using um_reception_full [OF core um_full_in_window [OF ok pdu] trig x] by blast
  show "\<not> sdu_full (um_rx_list (um_put e pdu)) (pdu_sn pdu) \<Longrightarrow>
      \<exists>e' front. um_reception_actions (um_put e pdu) pdu = Inr (e', []) \<and> um_rx_ok e' \<and>
        um_rx_list (um_put e pdu) = front @ um_rx_list e' \<and>
        (\<forall>p \<in> set front. \<forall>q \<in> set (um_rx_list e'). pdu_sn p \<noteq> pdu_sn q)"
    by (rule um_reception_partial [OF core um_put_window [OF ok] trig x])
qed

lemma um_recv_segment_cases:
  assumes "dec_byte d \<le> length buffer"
  shows "um_recv_segment e buffer sn so f l d = um_discard_pdu e (int (length buffer)) \<or>
    dec_byte d < length buffer \<and>
    um_recv_segment e buffer sn so f l d =
      um_reception_actions (um_put e (nr_rlc_new_pdu sn so f l (drop (dec_byte d) buffer)))
        (nr_rlc_new_pdu sn so f l (drop (dec_byte d) buffer))"
  using assms by (auto simp: um_recv_segment_def Let_def um_put_def nr_rlc_new_pdu_def)

lemma um_recv_sn_cases:
  assumes "dec_ok d" and "dec_buffer d = buffer" and "0 \<le> um_sn_field_length e" "um_sn_field_length e \<le> 31"
  shows "um_recv_sn e buffer err f l d = err \<or>
    (\<exists>sn so d'. um_recv_sn e buffer err f l d = um_recv_segment e buffer sn so f l d' \<and>
      0 \<le> sn \<and> sn < 2 ^ nat (um_sn_field_length e) \<and> (f \<longleftrightarrow> so = 0) \<and> 0 \<le> so \<and> dec_byte d' \<le> length buffer)"
proof -
  have bound: "dec_byte d' \<le> length buffer" if "dec_ok d'" "dec_buffer d' = buffer" for d'
    using that by (auto simp: dec_ok_def)
  have "nat (um_sn_field_length e) \<le> 31" using assms(3,4) by simp
  from with_bits_cases [OF assms(1) this, of err] consider "um_recv_sn e buffer err f l d = err"
    | sn d1 where "um_recv_sn e buffer err f l d =
          (if \<not> f then with_bits d1 16 err (\<lambda>so d. if so = 0 then err else um_recv_segment e buffer sn so f l d)
           else um_recv_segment e buffer sn 0 f l d1)" "dec_ok d1" "dec_buffer d1 = buffer"
        "0 \<le> sn" "sn < 2 ^ nat (um_sn_field_length e)"
    unfolding assms(2) um_recv_sn_def by blast
  then show ?thesis
  proof cases
    case 2
    show ?thesis
    proof (cases f)
      case True
      with 2 bound [OF 2(2,3)] show ?thesis by auto
    next
      case False
      from with_bits_cases [OF 2(2), of 16 err "\<lambda>so d. if so = 0 then err else um_recv_segment e buffer sn so f l d"]
      consider "um_recv_sn e buffer err f l d = err"
        | so d2 where "um_recv_sn e buffer err f l d = (if so = 0 then err else um_recv_segment e buffer sn so f l d2)"
          "dec_ok d2" "dec_buffer d2 = buffer" "0 \<le> so"
        using 2(1,3) False by auto
      then show ?thesis using 2(4,5) False bound by cases (auto split: if_splits)
    qed
  qed simp
qed

definition um_counted :: "nr_rlc_entity_um_t \<Rightarrow> byte list \<Rightarrow> nr_rlc_entity_um_t" where
  "um_counted e buffer = e\<lparr>stats := (stats e)\<lparr>rxpdu_pkts := rxpdu_pkts (stats e) + 1,
     rxpdu_bytes := rxpdu_bytes (stats e) + of_int (int (length buffer))\<rparr>\<rparr>"

lemma um_recv_pdu_eq:
  "nr_rlc_entity_um_recv_pdu e buffer =
     with_bits (nr_rlc_pdu_decoder_init buffer) 2 (um_discard_pdu (um_counted e buffer) (int (length buffer)))
       (um_recv_si (um_counted e buffer) buffer (um_discard_pdu (um_counted e buffer) (int (length buffer))))"
  by (simp add: nr_rlc_entity_um_recv_pdu_def Let_def um_counted_def)

lemma um_recv_pdu_cases:
  assumes cfg: "um_cfg_ok e"
  shows "nr_rlc_entity_um_recv_pdu e buffer = um_discard_pdu (um_counted e buffer) (int (length buffer)) \<or>
    (\<exists>st. nr_rlc_entity_um_recv_pdu e buffer = Inr (e\<lparr>stats := st\<rparr>, [Deliver_sdu (drop 1 buffer)]) \<and> 2 \<le> length buffer) \<or>
    (\<exists>sn so f l d. nr_rlc_entity_um_recv_pdu e buffer = um_recv_segment (um_counted e buffer) buffer sn so f l d \<and>
       0 \<le> sn \<and> sn < um_sn_modulus e \<and> (f \<longleftrightarrow> so = 0) \<and> 0 \<le> so \<and> \<not> (f \<and> l) \<and> dec_byte d \<le> length buffer)"
proof -
  let ?e = "um_counted e buffer" and ?n = "int (length buffer)"
  let ?err = "um_discard_pdu ?e ?n"
  have sn: "0 \<le> um_sn_field_length ?e" "um_sn_field_length ?e \<le> 31" "um_sn_modulus e = 2 ^ nat (um_sn_field_length ?e)"
    using cfg by (auto simp: um_cfg_ok_def um_counted_def)
  let ?k = "um_recv_si ?e buffer ?err"
  from with_bits_cases [of "nr_rlc_pdu_decoder_init buffer" 2 ?err ?k] consider
    "nr_rlc_entity_um_recv_pdu e buffer = ?err"
    | si d where "nr_rlc_entity_um_recv_pdu e buffer = ?k si d" "dec_ok d" "dec_buffer d = buffer"
    unfolding um_recv_pdu_eq by auto
  then show ?thesis
  proof cases
    case (2 si d)
    let ?f = "\<not> bit si 1" and ?l = "\<not> bit si 0"
    show ?thesis
    proof (cases "?f \<and> ?l")
      case True
      with 2(1) show ?thesis by (auto simp: um_recv_si_def um_counted_def Let_def)
    next
      case False
      from with_bits_cases [OF 2(2), of 2 ?err "\<lambda>_ d. um_recv_sn ?e buffer ?err ?f ?l d"] False
      consider "?k si d = ?err"
        | d1 where "?k si d = um_recv_sn ?e buffer ?err ?f ?l d1" "dec_ok d1" "dec_buffer d1 = buffer"
        using 2(2,3) unfolding um_recv_si_def Let_def by (cases "um_sn_field_length ?e = 12") auto
      then show ?thesis
      proof cases
        case d1: 2
        from um_recv_sn_cases [OF d1(2,3) sn(1,2), of ?err ?f ?l] show ?thesis
          unfolding 2(1) d1(1) sn(3) using False by blast
      qed (use 2 in simp)
    qed
  qed simp
qed

lemma um_rx_ok_stats [simp]: "um_rx_ok (e\<lparr>stats := st\<rparr>) = um_rx_ok e"
  by (simp add: um_rx_ok_def um_rx_core_def um_pdu_ok_def um_in_window_def um_timer_ok_def)

lemma um_counted_simps [simp]:
  "um_rx_ok (um_counted e buffer) = um_rx_ok e" "um_rx_list (um_counted e buffer) = um_rx_list e"
  "um_sn_modulus (um_counted e buffer) = um_sn_modulus e" "um_rx_size (um_counted e buffer) = um_rx_size e"
  "um_rx_maxsize (um_counted e buffer) = um_rx_maxsize e"
  "um_rx_next_reassembly (um_counted e buffer) = um_rx_next_reassembly e"
  "um_sn_compare_rx (um_counted e buffer) = um_sn_compare_rx e"
  by (simp_all add: um_counted_def)

lemma um_discard_pdu_ok: "um_rx_ok e \<Longrightarrow> \<exists>st. um_discard_pdu e n = Inr (e\<lparr>stats := st\<rparr>, [])"
  by (auto simp: um_discard_pdu_def)

lemma um_recv_pdu_safe_aux:
  assumes ok: "um_rx_ok e"
  shows "(\<exists>e' ev. nr_rlc_entity_um_recv_pdu e buffer = Inr (e', ev) \<and> um_rx_ok e') \<or>
    nr_rlc_entity_um_recv_pdu e buffer = Inl Null_deref \<or> nr_rlc_entity_um_recv_pdu e buffer = Inl Out_of_bounds"
proof -
  have cfg: "um_cfg_ok e" using ok by (simp add: um_rx_ok_def um_rx_core_def um_win_ok_def)
  let ?e = "um_counted e buffer"
  have ok': "um_rx_ok ?e" using ok by simp
  note dis = um_discard_pdu_ok [OF ok', of "int (length buffer)"]
  from um_recv_pdu_cases [OF cfg, of buffer] show ?thesis
  proof (elim disjE exE conjE)
    assume "nr_rlc_entity_um_recv_pdu e buffer = um_discard_pdu ?e (int (length buffer))"
    then show ?thesis using dis ok' by auto
  next
    fix st
    assume "nr_rlc_entity_um_recv_pdu e buffer = Inr (e\<lparr>stats := st\<rparr>, [Deliver_sdu (drop 1 buffer)])"
    then show ?thesis using ok by simp
  next
    fix sn so f l d
    assume recv: "nr_rlc_entity_um_recv_pdu e buffer = um_recv_segment ?e buffer sn so f l d"
      and sn: "0 \<le> sn" "sn < um_sn_modulus e" "f \<longleftrightarrow> so = 0" "0 \<le> so" "\<not> (f \<and> l)" and d: "dec_byte d \<le> length buffer"
    let ?pdu = "nr_rlc_new_pdu sn so f l (drop (dec_byte d) buffer)"
    from um_recv_segment_cases [OF d, of ?e sn so f l] show ?thesis
    proof (elim disjE conjE)
      assume "um_recv_segment ?e buffer sn so f l d = um_discard_pdu ?e (int (length buffer))"
      then show ?thesis using dis ok' recv by auto
    next
      assume seg: "um_recv_segment ?e buffer sn so f l d = um_reception_actions (um_put ?e ?pdu) ?pdu"
      have pdu: "um_pdu_ok ?e ?pdu" "pdu_so ?pdu = 0 \<longrightarrow> \<not> pdu_is_last ?pdu" "pdu_sn ?pdu = sn"
        using sn by (auto simp: um_pdu_ok_def nr_rlc_new_pdu_def)
      note put = um_reception_put [OF ok' pdu(1,2)]
      show ?thesis
      proof (cases "sdu_full (um_rx_list (um_put ?e ?pdu)) sn")
        case True
        show ?thesis
        proof (cases "reassemble (um_rx_list (um_put ?e ?pdu)) sn")
          case (Inl err)
          then have "um_reception_actions (um_put ?e ?pdu) ?pdu = Inl err"
            using True pdu(3) by (simp add: um_reception_actions_def um_reassemble_and_deliver_def)
          with reassemble_error [OF Inl True] recv seg show ?thesis by auto
        next
          case (Inr r)
          obtain l' freed out where "r = (l', freed, out)" by (cases r)
          with put(1) [of l' freed out] Inr True pdu(3) obtain e' where
            "um_reception_actions (um_put ?e ?pdu) ?pdu = Inr (e', deliver_events out)" "um_rx_ok e'" by auto
          with recv seg show ?thesis by metis
        qed
      next
        case False
        with put(2) pdu(3) obtain e' where
          "um_reception_actions (um_put ?e ?pdu) ?pdu = Inr (e', [])" "um_rx_ok e'" by auto
        with recv seg show ?thesis by metis
      qed
    qed
  qed
qed


subsection \<open>Segments of honest peers\<close>

lemma si_bits:
  "bits_of 1 (1 - int_of_bool f) @ bits_of 1 (1 - int_of_bool l) =
     bits_of 2 (2 * (1 - int_of_bool f) + (1 - int_of_bool l))"
  by (cases f; cases l; simp add: bits_of_def upt_rec bit_iff_odd)

lemma si_bit:
  "bit (take_bit 2 (2 * (1 - int_of_bool f) + (1 - int_of_bool l))) 1 = (\<not> f)"
  "bit (take_bit 2 (2 * (1 - int_of_bool f) + (1 - int_of_bool l))) 0 = (\<not> l)"
  by (cases f; cases l; simp add: bit_take_bit_iff bit_iff_odd)+

lemma dec_byte_pos: "dec_ok d \<Longrightarrow> dec_pos d = 8 * k \<Longrightarrow> dec_byte d = k"
  unfolding dec_ok_def dec_pos_def by linarith

definition um_header_of :: "nr_rlc_entity_um_t \<Rightarrow> nr_rlc_sdu_segment_t \<Rightarrow> int \<Rightarrow> byte list \<Rightarrow> bool" where
  "um_header_of e s sn h \<longleftrightarrow> int (length h) = um_compute_pdu_header_size e s \<and>
     bytes_bits h = concat (map (\<lambda>(v, c). bits_of c v) (um_header_fields e s sn))"

lemma um_recv_sn_header:
  assumes cfg: "um_cfg_ok e" and d: "dec_ok d" "dec_pos d = (if um_sn_field_length e = 12 then 4 else 2)"
    and rest: "dec_rest d = bits_of (nat (um_sn_field_length e)) sn @ (if f then [] else bits_of 16 so) @ tail"
    and sn: "0 \<le> sn" "sn < um_sn_modulus e" and so: "0 \<le> so" "so < 65536" "f \<longleftrightarrow> so = 0"
  shows "\<exists>d'. um_recv_sn e buffer err f l d = um_recv_segment e buffer sn so f l d' \<and>
    int (dec_byte d') = (if um_sn_field_length e = 12 then 2 else 1) + (if f then 0 else 2)"
proof -
  let ?n = "nat (um_sn_field_length e)"
  have n: "?n \<le> 31" and v: "take_bit ?n sn = sn"
    using cfg sn by (auto simp: um_cfg_ok_def take_bit_eq_mod)
  let ?k = "\<lambda>sn d. if \<not> f then with_bits d 16 err (\<lambda>so d. if so = 0 then err else um_recv_segment e buffer sn so f l d)
      else um_recv_segment e buffer sn 0 f l d"
  from with_bits_field [OF d(1) rest n, of err ?k] obtain d1 where
    field: "with_bits d ?n err ?k = ?k (take_bit ?n sn) d1" "dec_ok d1"
      "dec_rest d1 = (if f then [] else bits_of 16 so) @ tail" "dec_pos d1 = dec_pos d + ?n" by blast
  have "um_recv_sn e buffer err f l d = ?k sn d1" unfolding um_recv_sn_def field(1) v ..
  note d1 = this field(2-4)
  have pos1: "dec_pos d1 = 8 * (if um_sn_field_length e = 12 then 2 else 1)"
    using d1(4) d(2) cfg by (auto simp: um_cfg_ok_def)
  show ?thesis
  proof (cases f)
    case True
    with d1(1) dec_byte_pos [OF d1(2) pos1] so(3) show ?thesis by auto
  next
    case False
    with d1(3) have r1: "dec_rest d1 = bits_of 16 so @ tail" by simp
    have v16: "take_bit 16 so = so" using so by (simp add: take_bit_eq_mod)
    from with_bits_field [OF d1(2) r1, of err] v16 obtain d2 where
      d2: "with_bits d1 16 err (\<lambda>so d. if so = 0 then err else um_recv_segment e buffer sn so f l d) =
          (if so = 0 then err else um_recv_segment e buffer sn so f l d2)" "dec_ok d2" "dec_pos d2 = dec_pos d1 + 16"
      by auto
    have "dec_pos d2 = 8 * ((if um_sn_field_length e = 12 then 2 else 1) + 2)" using d2(3) pos1 by auto
    from dec_byte_pos [OF d2(2) this] d1(1) d2(1) False so(3) show ?thesis by auto
  qed
qed

lemma um_recv_header:
  assumes cfg: "um_cfg_ok e" and h: "um_header_of e s sn h" and "payload \<noteq> []"
    and sn: "0 \<le> sn" "sn < um_sn_modulus e"
    and so: "0 \<le> seg_so s" "seg_so s < 65536" "seg_is_first s \<longleftrightarrow> seg_so s = 0"
  shows "if seg_full s
    then \<exists>st. nr_rlc_entity_um_recv_pdu e (h @ payload) = Inr (e\<lparr>stats := st\<rparr>, [Deliver_sdu payload])
    else \<exists>d. dec_byte d = length h \<and>
      nr_rlc_entity_um_recv_pdu e (h @ payload) = um_recv_segment (um_counted e (h @ payload)) (h @ payload) sn
        (seg_so s) (seg_is_first s) (seg_is_last s) d"
proof -
  let ?f = "seg_is_first s" and ?l = "seg_is_last s" and ?b = "h @ payload"
  let ?e = "um_counted e ?b" and ?d = "nr_rlc_pdu_decoder_init ?b"
  let ?v = "2 * (1 - int_of_bool ?f) + (1 - int_of_bool ?l)"
  let ?tail = "(if ?f \<and> ?l then bits_of 6 (0::int)
      else (if um_sn_field_length e = 12 then bits_of 2 (0::int) else []) @ bits_of (nat (um_sn_field_length e)) sn) @
      (if ?f then [] else bits_of 16 (seg_so s)) @ bytes_bits payload"
  have "dec_rest ?d = (bits_of 1 (1 - int_of_bool ?f) @ bits_of 1 (1 - int_of_bool ?l)) @ ?tail"
    using h by (auto simp: bytes_bits_append um_header_of_def um_header_fields_def)
  then have rest: "dec_rest ?d = bits_of 2 ?v @ ?tail" by (simp only: si_bits)
  let ?err = "um_discard_pdu ?e (int (length ?b))"
  from with_bits_field [OF _ rest, of ?err "um_recv_si ?e ?b ?err"] obtain d1 where
    d1: "nr_rlc_entity_um_recv_pdu e ?b = um_recv_si ?e ?b ?err (take_bit 2 ?v) d1" "dec_ok d1"
      "dec_rest d1 = ?tail" "dec_pos d1 = 2"
    unfolding um_recv_pdu_eq by auto
  note si = um_recv_si_def [of ?e ?b ?err "take_bit 2 ?v" d1, unfolded si_bit Let_def not_not]
  have len: "1 \<le> length h" using h um_header_size_bounds [of e s] by (simp add: um_header_of_def)
  have cfg': "um_cfg_ok ?e" using cfg by (simp add: um_cfg_ok_def um_counted_def)
  have len_e: "um_sn_field_length ?e = um_sn_field_length e" by (simp add: um_counted_def)
  show ?thesis
  proof (cases "?f \<and> ?l")
    case True
    then have "length h = 1" using h by (simp add: um_header_of_def um_compute_pdu_header_size_def)
    moreover have "\<not> int (length ?b) < 2" using assms(3) len by (cases payload) simp_all
    ultimately have "nr_rlc_entity_um_recv_pdu e ?b = Inr (?e\<lparr>stats := (stats ?e)\<lparr>txsdu_pkts := txsdu_pkts (stats ?e) + 1,
        txsdu_bytes := txsdu_bytes (stats ?e) + of_int (int (length ?b) - 1)\<rparr>\<rparr>, [Deliver_sdu payload])"
      unfolding d1(1) si using True by simp
    with True show ?thesis by (auto simp: seg_full_def um_counted_def)
  next
    case False
    obtain d2 where d2: "nr_rlc_entity_um_recv_pdu e ?b = um_recv_sn ?e ?b ?err ?f ?l d2" "dec_ok d2"
      "dec_rest d2 = bits_of (nat (um_sn_field_length ?e)) sn @ (if ?f then [] else bits_of 16 (seg_so s)) @ bytes_bits payload"
      "dec_pos d2 = (if um_sn_field_length ?e = 12 then 4 else 2)"
    proof (cases "um_sn_field_length e = 12")
      case True
      have "dec_rest d1 = bits_of 2 (0::int) @ bits_of (nat (um_sn_field_length ?e)) sn @
          (if ?f then [] else bits_of 16 (seg_so s)) @ bytes_bits payload"
        using d1(3) False True len_e by auto
      from with_bits_field [OF d1(2) this, of ?err "\<lambda>_ d. um_recv_sn ?e ?b ?err ?f ?l d"] obtain d2 where
        "with_bits d1 2 ?err (\<lambda>_ d. um_recv_sn ?e ?b ?err ?f ?l d) = um_recv_sn ?e ?b ?err ?f ?l d2" "dec_ok d2"
        "dec_rest d2 = bits_of (nat (um_sn_field_length ?e)) sn @ (if ?f then [] else bits_of 16 (seg_so s)) @ bytes_bits payload"
        "dec_pos d2 = 4" using d1(4) by auto
      then show ?thesis using that [of d2] True len_e False unfolding d1(1) si by simp
    next
      case F12: False
      then show ?thesis using that [of d1] d1(2-4) False len_e unfolding d1(1) si by simp
    qed
    from um_recv_sn_header [OF cfg' d2(2,4,3) sn(1) _ so(1,2,3), of ?b ?err ?l] sn(2) obtain d3 where
      "um_recv_sn ?e ?b ?err ?f ?l d2 = um_recv_segment ?e ?b sn (seg_so s) ?f ?l d3"
      "int (dec_byte d3) = (if um_sn_field_length e = 12 then 2 else 1) + (if ?f then 0 else 2)"
      by (auto simp: len_e)
    moreover from this(2) h False have "dec_byte d3 = length h"
      by (auto simp: um_header_of_def um_compute_pdu_header_size_def split: if_splits)
    ultimately show ?thesis using d2(1) False by (auto simp: seg_full_def)
  qed
qed

end
