(* ===== verification/Rlc_Um_Peer.thy ===== *)
theory Rlc_Um_Peer
  imports Rlc_Um_Rx
begin

text \<open>
  What a UM entity delivers. \<open>um_peer_ok truth l\<close> says that the list \<open>l\<close> holds, for every sequence
  number, either segments consistent with the SDU \<open>truth sn\<close> or an SDU already delivered. A PDU that
  an honest peer sends keeps it, is never the cause of an error, and delivers \<open>truth sn\<close> exactly when
  it brings the last missing byte. The last section lists what the code does not promise.
\<close>

lemma first_of_hd:
  "first_of sn l = [] \<longleftrightarrow> of_sn sn l = []" "first_of sn l \<noteq> [] \<Longrightarrow> hd (first_of sn l) = hd (of_sn sn l)"
  by (induction l) (auto simp: first_of_def)

lemma sdu_delivered_iff:
  "sdu_delivered l sn \<longleftrightarrow> of_sn sn l \<noteq> [] \<and> pdu_data (hd (of_sn sn l)) = None"
  using first_of_hd [of sn l] by (auto simp: sdu_delivered_def Let_def)

definition delivered_at_0 :: "nr_rlc_pdu_t list \<Rightarrow> bool" where
  "delivered_at_0 segs \<longleftrightarrow> segs \<noteq> [] \<and> pdu_data (hd segs) = None \<and> pdu_so (hd segs) = 0"

definition um_peer_ok :: "(int \<Rightarrow> byte list) \<Rightarrow> nr_rlc_pdu_t list \<Rightarrow> bool" where
  "um_peer_ok truth l \<longleftrightarrow> (\<forall>sn. delivered_at_0 (of_sn sn l) \<or> (\<forall>p \<in> set (of_sn sn l). seg_of (truth sn) p))"

lemma of_sn_add_other:
  "sn \<noteq> pdu_sn pdu \<Longrightarrow> of_sn sn (nr_rlc_pdu_list_add cmp l pdu) = of_sn sn l"
  by (induction cmp l pdu rule: nr_rlc_pdu_list_add.induct) auto

lemma of_sn_add_hd:
  assumes "rx_sorted key l" and "of_sn (pdu_sn pdu) l \<noteq> []"
    and "pdu_so (hd (of_sn (pdu_sn pdu) l)) \<le> pdu_so pdu"
  shows "of_sn (pdu_sn pdu) (nr_rlc_pdu_list_add (\<lambda>a b. key a - key b) l pdu) \<noteq> [] \<and>
    hd (of_sn (pdu_sn pdu) (nr_rlc_pdu_list_add (\<lambda>a b. key a - key b) l pdu)) = hd (of_sn (pdu_sn pdu) l)"
  using assms
proof (induction l)
  case (Cons cur l)
  show ?case
  proof (cases "pdu_sn cur = pdu_sn pdu")
    case True
    with Cons.prems(3) show ?thesis by simp
  next
    case False
    with Cons.prems(2) obtain q where q: "q \<in> set l" "pdu_sn q = pdu_sn pdu"
      by (auto simp: filter_empty_conv)
    with Cons.prems(1) have "\<not> key (pdu_sn pdu) < key (pdu_sn cur)" by (auto simp: pdu_before_def)
    with False Cons show ?thesis by simp
  qed
qed simp

lemma um_put_of_sn:
  "set (of_sn sn (um_rx_list (um_put e pdu))) = (if sn = pdu_sn pdu then insert pdu else id) (set (of_sn sn (um_rx_list e)))"
  using um_put_set [of e pdu] by auto

lemma um_put_peer:
  assumes ok: "um_rx_ok e" and peer: "um_peer_ok truth (um_rx_list e)" and seg: "seg_of (truth (pdu_sn pdu)) pdu"
  shows "um_peer_ok truth (um_rx_list (um_put e pdu))"
    and "delivered_at_0 (of_sn (pdu_sn pdu) (um_rx_list e)) \<Longrightarrow>
      delivered_at_0 (of_sn (pdu_sn pdu) (um_rx_list (um_put e pdu)))"
proof -
  have cmp: "um_sn_compare_rx e = (\<lambda>a b. um_modulus_rx e a - um_modulus_rx e b)"
    by (simp add: um_sn_compare_rx_def fun_eq_iff)
  have so: "0 \<le> pdu_so pdu" using seg by (auto simp: seg_of_def split: option.splits)
  have sorted: "rx_sorted (um_modulus_rx e) (um_rx_list e)" using ok by (simp add: um_rx_ok_def um_rx_core_def)
  show del: "delivered_at_0 (of_sn (pdu_sn pdu) (um_rx_list e)) \<Longrightarrow>
      delivered_at_0 (of_sn (pdu_sn pdu) (um_rx_list (um_put e pdu)))"
    using of_sn_add_hd [OF sorted, of pdu] so by (auto simp: delivered_at_0_def um_put_def cmp)
  show "um_peer_ok truth (um_rx_list (um_put e pdu))"
    unfolding um_peer_ok_def
  proof
    fix sn
    show "delivered_at_0 (of_sn sn (um_rx_list (um_put e pdu))) \<or>
        (\<forall>p \<in> set (of_sn sn (um_rx_list (um_put e pdu))). seg_of (truth sn) p)"
    proof (cases "sn = pdu_sn pdu")
      case True
      with del peer seg um_put_of_sn [of sn e pdu] show ?thesis unfolding um_peer_ok_def by fastforce
    next
      case False
      then have "of_sn sn (um_rx_list (um_put e pdu)) = of_sn sn (um_rx_list e)"
        by (simp add: um_put_def of_sn_add_other)
      with peer show ?thesis by (simp add: um_peer_ok_def)
    qed
  qed
qed

lemma peer_drop:
  assumes "um_peer_ok truth (front @ l)" and "\<forall>p \<in> set front. \<forall>q \<in> set l. pdu_sn p \<noteq> pdu_sn q"
  shows "um_peer_ok truth l"
  unfolding um_peer_ok_def
proof
  fix sn
  show "delivered_at_0 (of_sn sn l) \<or> (\<forall>p \<in> set (of_sn sn l). seg_of (truth sn) p)"
  proof (cases "of_sn sn l = []")
    case False
    then have "of_sn sn front = []" using assms(2) by (auto simp: filter_empty_conv)
    with assms(1) [unfolded um_peer_ok_def, rule_format, of sn] show ?thesis by simp
  qed simp
qed

lemma of_sn_free_sn: "of_sn sn (free_sn x l) = (if sn = x then map freed_pdu (of_sn sn l) else of_sn sn l)"
  by (induction l) (auto simp: free_sn_def)

lemma sdu_full_first:
  assumes "sdu_full l sn"
  shows "of_sn sn l \<noteq> [] \<and> pdu_so (hd (of_sn sn l)) \<le> 0 \<and> pdu_data (hd (of_sn sn l)) \<noteq> None"
proof -
  obtain p ps where f: "first_of sn l = p # ps"
    using assms by (cases "first_of sn l") (auto simp: sdu_full_def)
  with assms have "pdu_so p \<le> 0" "pdu_data p \<noteq> None"
    by (auto simp: sdu_full_def Let_def split: if_splits)
  with f first_of_hd [of sn l] show ?thesis by auto
qed

lemma peer_free:
  assumes "um_peer_ok truth l" and "sdu_full l x" and "\<forall>p \<in> set l. 0 \<le> pdu_so p"
  shows "um_peer_ok truth (free_sn x l)"
  unfolding um_peer_ok_def
proof
  fix sn
  note first = sdu_full_first [OF assms(2)]
  show "delivered_at_0 (of_sn sn (free_sn x l)) \<or> (\<forall>p \<in> set (of_sn sn (free_sn x l)). seg_of (truth sn) p)"
  proof (cases "sn = x")
    case True
    have "hd (of_sn x l) \<in> set l" using first hd_in_set [of "of_sn x l"] by auto
    with first assms(3) True show ?thesis
      by (auto simp: of_sn_free_sn delivered_at_0_def hd_map intro!: antisym)
  next
    case False
    with assms(1) show ?thesis by (simp add: of_sn_free_sn um_peer_ok_def)
  qed
qed

definition all_bytes_in :: "byte list \<Rightarrow> nr_rlc_pdu_t set \<Rightarrow> bool" where
  "all_bytes_in d segs \<longleftrightarrow> (\<forall>i. 0 \<le> i \<and> i < int (length d) \<longrightarrow> (\<exists>p \<in> segs. covers p i))"

definition truth_ok :: "(int \<Rightarrow> byte list) \<Rightarrow> bool" where
  "truth_ok truth \<longleftrightarrow> (\<forall>sn. truth sn \<noteq> [] \<and> int (length (truth sn)) \<le> NR_SDU_MAX)"

lemma um_reception_peer:
  assumes ok: "um_rx_ok e" and peer: "um_peer_ok truth (um_rx_list e)" and truth: "truth_ok truth"
    and pdu: "um_pdu_ok e pdu" "pdu_so pdu = 0 \<longrightarrow> \<not> pdu_is_last pdu" and seg: "seg_of (truth (pdu_sn pdu)) pdu"
  shows "\<exists>e'. um_reception_actions (um_put e pdu) pdu =
      Inr (e', if \<not> delivered_at_0 (of_sn (pdu_sn pdu) (um_rx_list e)) \<and>
                 all_bytes_in (truth (pdu_sn pdu)) (insert pdu (set (of_sn (pdu_sn pdu) (um_rx_list e))))
               then [Deliver_sdu (truth (pdu_sn pdu))] else []) \<and>
    um_rx_ok e' \<and> um_peer_ok truth (um_rx_list e')"
proof -
  let ?sn = "pdu_sn pdu" and ?e = "um_put e pdu" and ?d = "truth (pdu_sn pdu)"
  let ?l = "um_rx_list (um_put e pdu)"
  note peer' = um_put_peer [OF ok peer seg]
  have core: "um_rx_core ?e" by (rule um_put_core) (use ok pdu in \<open>simp_all add: um_rx_ok_def\<close>)
  have sorted: "rx_sorted (um_modulus_rx ?e) ?l" and so: "\<forall>p \<in> set ?l. 0 \<le> pdu_so p"
    using core by (auto simp: um_rx_core_def um_pdu_ok_def)
  have inj: "inj_on (um_modulus_rx ?e) (insert ?sn (pdu_sn ` set ?l))"
    using core pdu um_inj [of ?e ?l ?sn] by (simp add: um_rx_core_def um_pdu_ok_def um_put_def)
  have d: "?d \<noteq> []" "int (length ?d) \<le> NR_SDU_MAX" using truth by (simp_all add: truth_ok_def)
  have set: "set (of_sn ?sn ?l) = insert pdu (set (of_sn ?sn (um_rx_list e)))" using um_put_of_sn [of ?sn e pdu] by simp
  note put = um_reception_put [OF ok pdu]
  show ?thesis
  proof (cases "delivered_at_0 (of_sn ?sn (um_rx_list e))")
    case True
    then have "delivered_at_0 (of_sn ?sn ?l)" by (rule peer'(2))
    then have "\<not> sdu_full ?l ?sn" using sdu_full_first [of ?l ?sn] by (auto simp: delivered_at_0_def)
    from put(2) [OF this] True peer'(1) peer_drop show ?thesis by fastforce
  next
    case False
    then have segs: "\<forall>p \<in> set (of_sn ?sn ?l). seg_of ?d p"
      using peer seg unfolding set um_peer_ok_def by blast
    have full: "sdu_full ?l ?sn \<longleftrightarrow> all_bytes_in ?d (insert pdu (set (of_sn ?sn (um_rx_list e))))"
      using sdu_full_iff_covered [OF sorted inj segs d(1)] unfolding all_bytes_in_def set by blast
    show ?thesis
    proof (cases "sdu_full ?l ?sn")
      case True
      from put(1) [OF True reassemble_full [OF sorted inj segs d(2) True]] peer_free [OF peer'(1) True so]
        True full False show ?thesis by (auto simp: deliver_events_def)
    next
      case not_full: False
      from put(2) [OF not_full] peer'(1) peer_drop full not_full show ?thesis by fastforce
    qed
  qed
qed

text \<open>The header of a segment is read back, and its bytes are put in the list.\<close>

lemma um_recv_pdu_put:
  assumes ok: "um_rx_ok e" and h: "um_header_of e s sn h" and sn: "0 \<le> sn" "sn < um_sn_modulus e"
    and so: "seg_is_first s \<longleftrightarrow> seg_so s = 0" "seg_so s < 65536" and data: "payload \<noteq> []" "0 \<le> seg_so s" and part: "\<not> seg_full s"
    and pdu: "pdu = nr_rlc_new_pdu sn (seg_so s) (seg_is_first s) (seg_is_last s) payload"
    and accepted: "um_rx_size e + int (length payload) \<le> um_rx_maxsize e" "0 \<le> um_sn_compare_rx e sn (um_rx_next_reassembly e)"
  shows "nr_rlc_entity_um_recv_pdu e (h @ payload) = um_reception_actions (um_put (um_counted e (h @ payload)) pdu) pdu"
proof -
  have cfg: "um_cfg_ok e" using ok by (simp add: um_rx_ok_def um_rx_core_def um_win_ok_def)
  obtain d where d: "dec_byte d = length h"
    "nr_rlc_entity_um_recv_pdu e (h @ payload) =
      um_recv_segment (um_counted e (h @ payload)) (h @ payload) sn (seg_so s) (seg_is_first s) (seg_is_last s) d"
    using um_recv_header [OF cfg h data(1) sn data(2) so(2,1)] part by auto
  have "pdu_size pdu = int (length payload)" using pdu by (simp add: nr_rlc_new_pdu_def)
  with d data(1) accepted show ?thesis by (simp add: um_recv_segment_def Let_def um_put_def pdu)
qed

lemma um_recv_pdu_peer:
  assumes ok: "um_rx_ok e" and peer: "um_peer_ok truth (um_rx_list e)" and truth: "truth_ok truth"
    and h: "um_header_of e s sn h" and sn: "0 \<le> sn" "sn < um_sn_modulus e"
    and so: "seg_is_first s \<longleftrightarrow> seg_so s = 0" "seg_so s < 65536"
    and pdu: "pdu = nr_rlc_new_pdu sn (seg_so s) (seg_is_first s) (seg_is_last s) payload"
    and seg: "seg_of (truth sn) pdu"
    and accepted: "um_rx_size e + int (length payload) \<le> um_rx_maxsize e"
      "0 \<le> um_sn_compare_rx e sn (um_rx_next_reassembly e)"
  shows "\<exists>e'. nr_rlc_entity_um_recv_pdu e (h @ payload) =
      Inr (e', if seg_full s \<or> \<not> delivered_at_0 (of_sn sn (um_rx_list e)) \<and>
                 all_bytes_in (truth sn) (insert pdu (set (of_sn sn (um_rx_list e))))
               then [Deliver_sdu (truth sn)] else []) \<and>
    um_rx_ok e' \<and> um_peer_ok truth (um_rx_list e')"
proof -
  let ?e = "um_counted e (h @ payload)"
  have cfg: "um_cfg_ok e" using ok by (simp add: um_rx_ok_def um_rx_core_def um_win_ok_def)
  have p: "pdu_sn pdu = sn" "pdu_so pdu = seg_so s" "pdu_is_last pdu = seg_is_last s" "pdu_data pdu = Some payload"
    "pdu_size pdu = int (length payload)" using pdu by (simp_all add: nr_rlc_new_pdu_def)
  have data: "payload \<noteq> []" "0 \<le> seg_so s" "payload = take (length payload) (drop (nat (seg_so s)) (truth sn))"
    "seg_is_last s \<longleftrightarrow> seg_so s + int (length payload) = int (length (truth sn))"
    using seg p by (auto simp: seg_of_def)
  note recv = um_recv_header [OF cfg h data(1) sn data(2) so(2,1)]
  show ?thesis
  proof (cases "seg_full s")
    case True
    then have "payload = truth sn" using data so(1) by (auto simp: seg_full_def)
    with recv True obtain st where "nr_rlc_entity_um_recv_pdu e (h @ payload) = Inr (e\<lparr>stats := st\<rparr>, [Deliver_sdu (truth sn)])"
      by auto
    with True ok peer show ?thesis by auto
  next
    case False
    then have recv': "nr_rlc_entity_um_recv_pdu e (h @ payload) = um_reception_actions (um_put ?e pdu) pdu"
      by (intro um_recv_pdu_put [OF ok h sn so data(1,2) _ pdu accepted])
    have "um_pdu_ok ?e pdu" using p sn data(2) by (simp add: um_pdu_ok_def)
    moreover have "pdu_so pdu = 0 \<longrightarrow> \<not> pdu_is_last pdu" using False so(1) p by (auto simp: seg_full_def)
    ultimately show ?thesis
      using um_reception_peer [of ?e truth pdu, unfolded p(1)] ok peer truth seg recv' False by simp
  qed
qed


subsection \<open>Segments behind the end of an SDU\<close>

lemma sdu_full_loop_append: "sdu_full_loop sn k xs \<Longrightarrow> sdu_full_loop sn k (xs @ ys)"
  by (induction sn k xs rule: sdu_full_loop.induct) (auto simp: Let_def split: if_splits)

lemma reassemble_loop_append_error:
  assumes "\<forall>p \<in> set xs. pdu_sn p = sn" and "reassemble_loop sn xs sdu bad = Inr (l', sdu', bad', freed)"
    and "reassemble_loop sn ys sdu' bad' = Inl err"
  shows "reassemble_loop sn (xs @ ys) sdu bad = Inl err"
  using assms by (induction xs arbitrary: sdu bad l' freed) (fastforce simp: result_simps)+

lemma sorted_partition:
  "sorted_wrt (\<lambda>a b. key a \<le> (key b :: int)) l \<Longrightarrow> l = filter (\<lambda>p. key p < c) l @ filter (\<lambda>p. c \<le> key p) l"
proof (induction l)
  case Nil
  show ?case by simp
next
  case (Cons p l)
  show ?case
  proof (cases "key p < c")
    case True
    with Cons show ?thesis by simp
  next
    case False
    with Cons.prems have "\<forall>q \<in> set (p # l). c \<le> key q" by auto
    then have "filter (\<lambda>p. key p < c) (p # l) = []" "filter (\<lambda>p. c \<le> key p) (p # l) = p # l"
      by (auto simp: filter_empty_conv filter_id_conv)
    then show ?thesis by simp
  qed
qed

text \<open>A segment that starts behind the end of the SDU \<open>d\<close>, with bytes between.\<close>

definition seg_beyond :: "byte list \<Rightarrow> nr_rlc_pdu_t \<Rightarrow> bool" where
  "seg_beyond d p \<longleftrightarrow> pdu_data p \<noteq> None \<and> 0 < pdu_size p \<and> int (length d) < pdu_so p \<and> pdu_so p + pdu_size p \<le> NR_SDU_MAX"

lemma copy_segment_beyond: "seg_beyond d g \<Longrightarrow> copy_segment d g False = Inl Out_of_bounds"
  by (auto simp: seg_beyond_def copy_segment_def Let_def read_at_def)

lemma reassemble_beyond:
  assumes sorted: "rx_sorted key l" and inj: "inj_on key (insert sn (pdu_sn ` set l))"
    and segs: "\<forall>p \<in> set (of_sn sn l). seg_of d p \<or> seg_beyond d p"
    and bytes: "all_bytes_in d {p \<in> set (of_sn sn l). seg_of d p}" and d: "d \<noteq> []" "int (length d) \<le> NR_SDU_MAX"
    and g: "g \<in> set (of_sn sn l)" "seg_beyond d g"
  shows "sdu_full l sn \<and> reassemble l sn = Inl Out_of_bounds"
proof -
  define A where "A = filter (\<lambda>p. pdu_so p < int (length d)) (of_sn sn l)"
  define B where "B = filter (\<lambda>p. int (length d) \<le> pdu_so p) (of_sn sn l)"
  from first_of_block [OF sorted inj] obtain rest where rest: "first_of sn l = of_sn sn l @ rest" by blast
  have part: "of_sn sn l = A @ B"
    unfolding A_def B_def by (rule sorted_partition [OF of_sn_sorted [OF sorted]])
  have low: "pdu_so p < int (length d)" if "seg_of d p" for p
    using that by (auto simp: seg_of_def split: option.splits)
  have A: "\<forall>p \<in> set A. seg_of d p" and A_set: "{p \<in> set (of_sn sn l). seg_of d p} \<subseteq> set A" and block: "block_of sn A []"
    and B: "\<forall>p \<in> set B. seg_beyond d p \<and> pdu_sn p = sn"
    using segs low by (fastforce simp: A_def B_def seg_beyond_def block_of_def)+
  have "B \<noteq> []" using g by (auto simp: B_def seg_beyond_def filter_empty_conv)
  then obtain x G where G: "B = x # G" by (meson neq_Nil_conv)
  have first: "first_of sn l = A @ x # G @ rest"
    using rest part G by simp
  have "sorted_wrt (\<lambda>p q. pdu_so p \<le> pdu_so q) A"
    unfolding A_def by (rule sorted_wrt_filter [OF of_sn_sorted [OF sorted]])
  moreover have "\<exists>p \<in> set A. covers p i" if "0 \<le> i" "i < int (length d)" for i
    using bytes A_set that unfolding all_bytes_in_def by blast
  ultimately have full: "sdu_full_loop sn (int 0 - 1) (A @ [])"
    using d(1) by (intro covers_sdu_full_loop [OF block A]) auto
  have "reassemble_loop sn (x # G @ rest) d False = Inl Out_of_bounds"
    using B G copy_segment_beyond by simp
  moreover have "reassemble_loop sn A [] False = Inr (map freed_pdu A, d, False, \<Sum>p\<leftarrow>A. pdu_size p)"
    using reassemble_loop_full [OF block A d(2) _ full] by simp
  ultimately have "reassemble_loop sn (A @ x # G @ rest) [] False = Inl Out_of_bounds"
    using block by (intro reassemble_loop_append_error [of A]) (auto simp: block_of_def)
  then have "reassemble l sn = Inl Out_of_bounds"
    by (simp add: reassemble_def first)
  moreover have "A \<noteq> []"
    using full by auto
  then have "pdu_data (hd (A @ x # G @ rest)) \<noteq> None"
    using A hd_in_set [of A] by (auto simp: seg_of_def split: option.splits)
  then have "sdu_full l sn"
    using sdu_full_loop_append [OF full, of "x # G @ rest"] by (simp add: sdu_full_def first)
  ultimately show ?thesis by simp
qed

lemma um_recv_pdu_gap:
  assumes ok: "um_rx_ok e" and h: "um_header_of e s sn h" and sn: "0 \<le> sn" "sn < um_sn_modulus e"
    and so: "seg_is_first s \<longleftrightarrow> seg_so s = 0" "seg_so s < 65536" and part: "\<not> seg_full s"
    and pdu: "pdu = nr_rlc_new_pdu sn (seg_so s) (seg_is_first s) (seg_is_last s) payload"
    and accepted: "um_rx_size e + int (length payload) \<le> um_rx_maxsize e" "0 \<le> um_sn_compare_rx e sn (um_rx_next_reassembly e)"
    and d: "d \<noteq> []" "int (length d) \<le> NR_SDU_MAX" and seg: "seg_of d pdu"
    and segs: "\<forall>p \<in> set (of_sn sn (um_rx_list e)). seg_of d p \<or> seg_beyond d p"
    and bytes: "all_bytes_in d (insert pdu {p \<in> set (of_sn sn (um_rx_list e)). seg_of d p})"
    and g: "g \<in> set (of_sn sn (um_rx_list e))" "seg_beyond d g"
  shows "nr_rlc_entity_um_recv_pdu e (h @ payload) = Inl Out_of_bounds"
proof -
  let ?e = "um_counted e (h @ payload)"
  have p: "pdu_sn pdu = sn" "pdu_so pdu = seg_so s" "pdu_data pdu = Some payload" "pdu_size pdu = int (length payload)"
    using pdu by (simp_all add: nr_rlc_new_pdu_def)
  have data: "payload \<noteq> []" "0 \<le> seg_so s" using seg p by (auto simp: seg_of_def)
  have recv: "nr_rlc_entity_um_recv_pdu e (h @ payload) = um_reception_actions (um_put ?e pdu) pdu"
    by (rule um_recv_pdu_put [OF ok h sn so data part pdu accepted])
  let ?l = "um_rx_list (um_put ?e pdu)"
  have "um_rx_ok ?e" using ok by simp
  then have core: "um_rx_core (um_put ?e pdu)"
    by (intro um_put_core) (use sn data p in \<open>simp_all add: um_rx_ok_def um_pdu_ok_def\<close>)
  have sorted: "rx_sorted (um_modulus_rx (um_put ?e pdu)) ?l"
    using core by (simp add: um_rx_core_def)
  have inj: "inj_on (um_modulus_rx (um_put ?e pdu)) (insert sn (pdu_sn ` set ?l))"
    using core sn um_inj [of "um_put ?e pdu" ?l sn] by (simp add: um_rx_core_def um_put_def)
  have set: "set (of_sn sn ?l) = insert pdu (set (of_sn sn (um_rx_list e)))"
    using um_put_of_sn [of sn ?e pdu] p by simp
  have "{q \<in> set (of_sn sn ?l). seg_of d q} = insert pdu {q \<in> set (of_sn sn (um_rx_list e)). seg_of d q}"
    unfolding set using seg by blast
  with bytes have "all_bytes_in d {q \<in> set (of_sn sn ?l). seg_of d q}"
    by simp
  moreover have "\<forall>q \<in> set (of_sn sn ?l). seg_of d q \<or> seg_beyond d q" "g \<in> set (of_sn sn ?l)"
    unfolding set using segs seg g(1) by auto
  ultimately have "sdu_full ?l sn \<and> reassemble ?l sn = Inl Out_of_bounds"
    using reassemble_beyond [OF sorted inj _ _ d _ g(2)] by blast
  then show ?thesis
    using p by (simp add: recv um_reception_actions_def um_reassemble_and_deliver_def)
qed


subsection \<open>Timers\<close>

lemma um_discard_before_eq:
  "\<exists>st. um_discard_before e l =
     e\<lparr>um_rx_list := dropWhile (\<lambda>p. um_sn_compare_rx e (pdu_sn p) (um_rx_next_reassembly e) < 0) l, stats := st\<rparr>"
proof (induction l arbitrary: e)
  case Nil
  show ?case by (rule exI [of _ "stats e"]) simp
next
  case (Cons p l)
  show ?case
  proof (cases "um_sn_compare_rx e (pdu_sn p) (um_rx_next_reassembly e) < 0")
    case True
    let ?e = "e\<lparr>stats := (stats e)\<lparr>rxpdu_dd_pkts := rxpdu_dd_pkts (stats e) + 1,
                                  rxpdu_dd_bytes := rxpdu_dd_bytes (stats e) + of_int (pdu_size p)\<rparr>\<rparr>"
    from Cons.IH [of ?e] obtain st where "um_discard_before ?e l =
       ?e\<lparr>um_rx_list := dropWhile (\<lambda>p. um_sn_compare_rx e (pdu_sn p) (um_rx_next_reassembly e) < 0) l, stats := st\<rparr>"
      by auto
    with True show ?thesis by (intro exI [of _ st]) simp
  next
    case False
    then show ?thesis by (intro exI [of _ "stats e"]) simp
  qed
qed

lemma um_set_time_ok:
  assumes ok: "um_rx_ok e"
  shows "\<exists>e' front. nr_rlc_entity_um_set_time e now = Inr e' \<and> um_rx_ok e' \<and> um_rx_list e = front @ um_rx_list e' \<and>
    um_rx_size e' = um_rx_size e"
proof -
  let ?e = "e\<lparr>um_t_current := now\<rparr>"
  have ok': "um_rx_ok ?e"
    using ok by (simp add: um_rx_ok_def um_rx_core_def um_pdu_ok_def um_in_window_def um_timer_ok_def)
  show ?thesis
  proof (cases "um_t_reassembly_start e = 0 \<or> now \<le> um_t_reassembly_start e + of_int (um_t_reassembly e)")
    case True
    with ok' show ?thesis by (auto simp: nr_rlc_entity_um_set_time_def um_check_t_reassembly_def)
  next
    case False
    have win: "um_win_ok ?e" and l: "\<forall>p \<in> set (um_rx_list ?e). um_pdu_ok ?e p \<and> um_in_window ?e (pdu_sn p)"
      and trig: "0 \<le> um_rx_timer_trigger ?e" "um_rx_timer_trigger ?e < um_sn_modulus ?e"
        "um_modulus_rx ?e (um_rx_timer_trigger ?e) \<le> um_window_size ?e"
      using ok' False by (auto simp: um_rx_ok_def um_rx_core_def um_timer_ok_def)
    from um_skip_delivered_ok [OF win l trig] obtain r where
      r: "um_skip_delivered ?e (um_rx_timer_trigger ?e) = Inr r" "0 \<le> r" "r < um_sn_modulus ?e"
        "um_modulus_rx ?e r \<le> um_window_size ?e" by blast
    define e1 where "e1 = ?e\<lparr>um_t_reassembly_start := 0, um_rx_next_reassembly := r\<rparr>"
    let ?out = "\<lambda>p. um_sn_compare_rx e1 (pdu_sn p) (um_rx_next_reassembly e1) < 0"
    obtain st where e2: "um_discard_before e1 (um_rx_list e1) =
        e1\<lparr>um_rx_list := dropWhile ?out (um_rx_list e), stats := st\<rparr>" (is "_ = ?e2")
      using um_discard_before_eq [of e1 "um_rx_list e1"] by (auto simp: e1_def)
    have sum: "(\<Sum>p\<leftarrow>dropWhile ?out (um_rx_list e). pdu_size p) \<le> um_rx_size e"
      using ok sum_list_map_partition [of pdu_size "um_rx_list e" ?out]
        sum_list_map_nonneg [of "takeWhile ?out (um_rx_list e)" pdu_size]
      by (fastforce simp: um_rx_ok_def um_rx_core_def um_pdu_ok_def dest: set_takeWhileD)
    let ?e3 = "?e2\<lparr>um_t_reassembly_start := um_t_current ?e2, um_rx_timer_trigger := um_rx_next_highest ?e2\<rparr>"
    have ok2: "um_rx_ok ?e2"
      using ok r sum rx_sorted_dropWhile [of "um_modulus_rx e" "um_rx_list e" ?out]
      by (auto simp: um_rx_ok_def um_rx_core_def um_pdu_ok_def um_in_window_def um_timer_ok_def e1_def
          dest: set_dropWhileD)
    then have "0 \<le> um_rx_next_highest ?e2" "um_rx_next_highest ?e2 < um_sn_modulus ?e2"
      "um_modulus_rx ?e2 (um_rx_next_highest ?e2) = um_window_size ?e2"
      using um_position_highest [of ?e2] by (auto simp: um_rx_ok_def um_rx_core_def um_win_ok_def)
    with ok2 have ok3: "um_rx_ok ?e3"
      by (simp add: um_rx_ok_def um_rx_core_def um_pdu_ok_def um_in_window_def um_timer_ok_def)
    have keep: "um_rx_list e = takeWhile ?out (um_rx_list e) @ um_rx_list ?e2" "um_rx_size ?e2 = um_rx_size e"
      "um_rx_list ?e3 = um_rx_list ?e2" "um_rx_size ?e3 = um_rx_size e"
      by (simp_all add: e1_def)
    have "nr_rlc_entity_um_set_time e now = Inr ?e2 \<or> nr_rlc_entity_um_set_time e now = Inr ?e3"
      using False r(1) e2
      by (auto simp: nr_rlc_entity_um_set_time_def um_check_t_reassembly_def Let_def e1_def [symmetric])
    with ok2 ok3 keep show ?thesis by metis
  qed
qed

lemma dropWhile_sorted_filter:
  "sorted_wrt (\<lambda>a b. key a \<le> (key b :: int)) l \<Longrightarrow> dropWhile (\<lambda>p. key p < c) l = filter (\<lambda>p. c \<le> key p) l"
proof (induction l)
  case Nil
  show ?case by simp
next
  case (Cons p l)
  show ?case
  proof (cases "key p < c")
    case True
    with Cons show ?thesis by simp
  next
    case False
    with Cons.prems have "\<forall>q \<in> set (p # l). c \<le> key q" by auto
    with False show ?thesis by (simp add: filter_id_conv)
  qed
qed

lemma um_discard_before_filter:
  assumes "um_rx_core e" and "l = um_rx_list e"
  shows "\<exists>st. um_discard_before e l =
     e\<lparr>um_rx_list := filter (\<lambda>p. 0 \<le> um_sn_compare_rx e (pdu_sn p) (um_rx_next_reassembly e)) l, stats := st\<rparr>"
proof -
  have "sorted_wrt (\<lambda>p q. um_modulus_rx e (pdu_sn p) \<le> um_modulus_rx e (pdu_sn q)) l"
    using assms by (auto simp: um_rx_core_def rx_sorted_def pdu_before_def not_less elim!: sorted_wrt_mono_rel [rotated])
  from dropWhile_sorted_filter [OF this, of "um_modulus_rx e (um_rx_next_reassembly e)"] um_discard_before_eq [of e l]
  show ?thesis by (simp add: um_sn_compare_rx_def)
qed

text \<open>What an expired timer skips and drops, and when it starts anew.\<close>

lemma um_set_time_expired:
  assumes ok: "um_rx_ok e" and run: "um_t_reassembly_start e \<noteq> 0" "um_t_reassembly_start e + of_int (um_t_reassembly e) < now"
    and set_time: "nr_rlc_entity_um_set_time e now = Inr e'"
  shows "\<exists>k. um_rx_next_reassembly e' = (um_rx_timer_trigger e + int k) mod um_sn_modulus e \<and>
      (\<forall>j < k. sdu_delivered (um_rx_list e) ((um_rx_timer_trigger e + int j) mod um_sn_modulus e))"
    and "\<not> sdu_delivered (um_rx_list e) (um_rx_next_reassembly e')"
    and "um_rx_list e' = filter (\<lambda>p. 0 \<le> um_sn_compare_rx e (pdu_sn p) (um_rx_next_reassembly e')) (um_rx_list e)"
    and "um_t_reassembly_start e' =
      (if 0 < um_sn_compare_rx e (um_rx_next_highest e) ((um_rx_next_reassembly e' + 1) mod um_sn_modulus e) \<or>
          um_rx_next_highest e = um_rx_next_reassembly e' + 1 \<and> sdu_has_missing_bytes (um_rx_list e') (um_rx_next_reassembly e')
       then now else 0)"
proof -
  let ?e = "e\<lparr>um_t_current := now\<rparr>"
  have ok': "um_rx_ok ?e"
    using ok by (simp add: um_rx_ok_def um_rx_core_def um_pdu_ok_def um_in_window_def um_timer_ok_def)
  have cmp: "um_sn_compare_rx ?e = um_sn_compare_rx e"
    by (simp add: um_sn_compare_rx_def fun_eq_iff)
  have win: "um_win_ok ?e" and l: "\<forall>p \<in> set (um_rx_list ?e). um_pdu_ok ?e p \<and> um_in_window ?e (pdu_sn p)"
    and trig: "0 \<le> um_rx_timer_trigger ?e" "um_rx_timer_trigger ?e < um_sn_modulus ?e"
      "um_modulus_rx ?e (um_rx_timer_trigger ?e) \<le> um_window_size ?e"
    using ok' run(1) by (auto simp: um_rx_ok_def um_rx_core_def um_timer_ok_def)
  from um_skip_delivered_ok [OF win l trig] obtain r where
    r: "um_skip_delivered ?e (um_rx_timer_trigger ?e) = Inr r" "0 \<le> r" "r < um_sn_modulus ?e"
      "um_modulus_rx ?e r \<le> um_window_size ?e" "\<not> sdu_delivered (um_rx_list ?e) r" by blast
  define e1 where "e1 = ?e\<lparr>um_t_reassembly_start := 0, um_rx_next_reassembly := r\<rparr>"
  have "um_rx_core e1"
    using ok' r(2-4) by (simp add: um_rx_ok_def um_rx_core_def um_pdu_ok_def e1_def)
  then obtain st where e2: "um_discard_before e1 (um_rx_list e) =
      e1\<lparr>um_rx_list := filter (\<lambda>p. 0 \<le> um_sn_compare_rx e (pdu_sn p) r) (um_rx_list e), stats := st\<rparr>" (is "_ = ?e2")
    using um_discard_before_filter [of e1 "um_rx_list e"] by (auto simp: e1_def cmp)
  have l1: "um_rx_list e1 = um_rx_list e"
    by (simp add: e1_def)
  have "nr_rlc_entity_um_set_time e now =
      (if 0 < um_sn_compare_rx ?e2 (um_rx_next_highest ?e2) ((um_rx_next_reassembly ?e2 + 1) mod um_sn_modulus ?e2) \<or>
          um_rx_next_highest ?e2 = um_rx_next_reassembly ?e2 + 1 \<and> sdu_has_missing_bytes (um_rx_list ?e2) (um_rx_next_reassembly ?e2)
       then Inr (?e2\<lparr>um_t_reassembly_start := um_t_current ?e2, um_rx_timer_trigger := um_rx_next_highest ?e2\<rparr>) else Inr ?e2)"
    using run r(1) e2 by (simp add: l1 not_le nr_rlc_entity_um_set_time_def um_check_t_reassembly_def Let_def e1_def [symmetric])
  note eq = this [unfolded set_time]
  have "skip_while_sn (nat (um_sn_modulus e)) (sdu_delivered (um_rx_list e)) (um_sn_modulus e) (um_rx_timer_trigger e) = Some r"
    using r(1) by (simp add: um_skip_delivered_def split: option.splits)
  then have skip: "\<exists>k. r = (um_rx_timer_trigger e + int k) mod um_sn_modulus e \<and>
      (\<forall>j < k. sdu_delivered (um_rx_list e) ((um_rx_timer_trigger e + int j) mod um_sn_modulus e))"
    using skip_while_sn_run trig(1,2) by fastforce
  have e': "um_rx_next_reassembly e' = r"
      "um_rx_list e' = filter (\<lambda>p. 0 \<le> um_sn_compare_rx e (pdu_sn p) r) (um_rx_list e)"
      "um_t_reassembly_start e' =
        (if 0 < um_sn_compare_rx e (um_rx_next_highest e) ((r + 1) mod um_sn_modulus e) \<or>
            um_rx_next_highest e = r + 1 \<and> sdu_has_missing_bytes (um_rx_list e') r then now else 0)"
    using eq by (auto simp: e1_def cmp split: if_splits)
  show "\<exists>k. um_rx_next_reassembly e' = (um_rx_timer_trigger e + int k) mod um_sn_modulus e \<and>
      (\<forall>j < k. sdu_delivered (um_rx_list e) ((um_rx_timer_trigger e + int j) mod um_sn_modulus e))"
    using skip by (simp only: e'(1))
  show "\<not> sdu_delivered (um_rx_list e) (um_rx_next_reassembly e')"
    using r(5) by (simp add: e'(1))
  show "um_rx_list e' = filter (\<lambda>p. 0 \<le> um_sn_compare_rx e (pdu_sn p) (um_rx_next_reassembly e')) (um_rx_list e)"
    by (simp only: e'(1,2))
  show "um_t_reassembly_start e' =
      (if 0 < um_sn_compare_rx e (um_rx_next_highest e) ((um_rx_next_reassembly e' + 1) mod um_sn_modulus e) \<or>
          um_rx_next_highest e = um_rx_next_reassembly e' + 1 \<and> sdu_has_missing_bytes (um_rx_list e') (um_rx_next_reassembly e')
       then now else 0)"
    by (simp only: e'(1,3))
qed


subsection \<open>Properties\<close>

text \<open>PDUs received one after the other, up to the first failing call.\<close>

primrec um_recv_pdus :: "nr_rlc_entity_um_t \<Rightarrow> byte list list \<Rightarrow> (nr_rlc_entity_um_t \<times> rlc_event list) result" where
  "um_recv_pdus e [] = Inr (e, [])"
| "um_recv_pdus e (p # ps) =
     bind_r (nr_rlc_entity_um_recv_pdu e p) (\<lambda>(e1, ev1).
     bind_r (um_recv_pdus e1 ps) (\<lambda>(e2, ev2). Inr (e2, ev1 @ ev2)))"

definition error_of :: "'a result \<Rightarrow> c_error option" where
  "error_of r = (case r of Inl err \<Rightarrow> Some err | Inr _ \<Rightarrow> None)"

text \<open>An entity with 12-bit sequence numbers that holds the last byte of SDU number 5, bytes 1, 2, 3.\<close>

definition um_rx_example :: nr_rlc_entity_um_t where
  "um_rx_example = um_example\<lparr>um_rx_next_highest := 6, um_rx_next_reassembly := 5, um_rx_size := 1,
     um_rx_list := [nr_rlc_new_pdu 5 2 False True [3]]\<rparr>"

definition um_rx_first :: nr_rlc_sdu_segment_t where
  "um_rx_first = \<lparr>seg_sdu = 0, seg_size = 2, seg_so = 0, seg_is_first = True, seg_is_last = False\<rparr>"

lemma um_rx_example_ok:
  "um_rx_ok um_rx_example" "um_peer_ok (\<lambda>_. [1, 2, 3]) (um_rx_list um_rx_example)"
  by (simp_all add: um_rx_ok_def um_rx_core_def um_win_ok_def um_cfg_ok_def um_timer_ok_def um_in_window_def
      um_pdu_ok_def um_rx_example_def um_example_def nr_rlc_new_pdu_def um_modulus_rx_def rx_sorted_def
      um_peer_ok_def seg_of_def)

lemma um_rx_example_header: "um_header_of um_rx_example um_rx_first 5 [64, 5]"
  by (simp add: um_header_of_def um_rx_example_def um_example_def um_rx_first_def um_compute_pdu_header_size_def
      um_header_fields_def bytes_bits_def bits_of_def upt_rec bit_iff_odd int_of_bool_def)

text \<open>The same entity with a segment of SDU 5 that starts at byte 10, behind the end of the SDU. Such segments can arrive
  before the end is known: three PDUs lead a new entity to the access out of bounds.\<close>

definition um_gap_example :: nr_rlc_entity_um_t where
  "um_gap_example = um_rx_example\<lparr>um_rx_size := 2,
     um_rx_list := [nr_rlc_new_pdu 5 2 False True [3], nr_rlc_new_pdu 5 10 False False [9]]\<rparr>"

lemma um_gap_example_ok: "um_rx_ok um_gap_example"
  by (simp add: um_rx_ok_def um_rx_core_def um_win_ok_def um_cfg_ok_def um_timer_ok_def um_in_window_def um_gap_example_def
      um_pdu_ok_def um_rx_example_def um_example_def nr_rlc_new_pdu_def um_modulus_rx_def rx_sorted_def pdu_before_def)

lemma um_gap_example_header: "um_header_of um_gap_example um_rx_first 5 [64, 5]"
  using um_rx_example_header
  by (simp add: um_gap_example_def um_header_of_def um_compute_pdu_header_size_def um_header_fields_def)

lemma um_gap_reachable:
  "error_of (bind_r (new_nr_rlc_entity_um 100 100 35 6) (\<lambda>e.
     um_recv_pdus e [[195, 0, 10, 9], [67, 1]])) = None"
  "error_of (bind_r (new_nr_rlc_entity_um 100 100 35 6) (\<lambda>e.
     um_recv_pdus e [[195, 0, 10, 9], [67, 1], [131, 0, 1, 2]])) = Some Out_of_bounds"
  by code_simp+

text \<open>
  C10. Reception of a PDU from an honest peer. The peer numbers its SDUs (\<open>truth sn\<close>) and sends
  segments of them. When a PDU with a well-formed header arrives, is in the window and there is
  room for it, the entity delivers an SDU exactly when the PDU carries it whole, or when this PDU
  makes the bytes of its SDU complete and the SDU was not delivered before. What it delivers is the
  peer's SDU, byte for byte, and the reception invariant is kept, the window loops ending.
\<close>

theorem um_recv_pdu_delivers:
  assumes "um_rx_ok e" and "um_peer_ok truth (um_rx_list e)" and "truth_ok truth"
    and "um_header_of e s sn h" and "0 \<le> sn" and "sn < um_sn_modulus e"
    and "seg_is_first s \<longleftrightarrow> seg_so s = 0" and "seg_so s < 65536"
    and "pdu = nr_rlc_new_pdu sn (seg_so s) (seg_is_first s) (seg_is_last s) payload"
    and "seg_of (truth sn) pdu"
    and "um_rx_size e + int (length payload) \<le> um_rx_maxsize e"
    and "0 \<le> um_sn_compare_rx e sn (um_rx_next_reassembly e)"
  shows "\<exists>e'. nr_rlc_entity_um_recv_pdu e (h @ payload) =
      Inr (e', if seg_full s \<or> \<not> delivered_at_0 (of_sn sn (um_rx_list e)) \<and>
                 all_bytes_in (truth sn) (insert pdu (set (of_sn sn (um_rx_list e))))
               then [Deliver_sdu (truth sn)] else []) \<and>
    um_rx_ok e' \<and> um_peer_ok truth (um_rx_list e')"
  by (rule um_recv_pdu_peer [OF assms])

theorem um_recv_pdu_delivers_witness:
  "\<exists>e'. nr_rlc_entity_um_recv_pdu um_rx_example [64, 5, 1, 2] = Inr (e', [Deliver_sdu [1, 2, 3]]) \<and> um_rx_ok e'"
proof -
  let ?p = "nr_rlc_new_pdu 5 (seg_so um_rx_first) (seg_is_first um_rx_first) (seg_is_last um_rx_first) [1, 2]"
  have seg: "seg_of [1, 2, 3] ?p" by (simp add: seg_of_def nr_rlc_new_pdu_def um_rx_first_def)
  have full: "all_bytes_in [1, 2, 3] (insert ?p (set (of_sn 5 (um_rx_list um_rx_example))))"
    by (auto simp: all_bytes_in_def covers_def um_rx_example_def nr_rlc_new_pdu_def um_rx_first_def)
  have "truth_ok (\<lambda>_. [1, 2, 3])" "seg_is_first um_rx_first \<longleftrightarrow> seg_so um_rx_first = 0" "seg_so um_rx_first < 65536"
    "5 < um_sn_modulus um_rx_example" "um_rx_size um_rx_example + int (length [1, 2]) \<le> um_rx_maxsize um_rx_example"
    "0 \<le> um_sn_compare_rx um_rx_example 5 (um_rx_next_reassembly um_rx_example)"
    "\<not> delivered_at_0 (of_sn 5 (um_rx_list um_rx_example))"
    by (simp_all add: truth_ok_def NR_SDU_MAX_def um_rx_first_def um_rx_example_def um_example_def
        delivered_at_0_def nr_rlc_new_pdu_def um_sn_compare_rx_def um_modulus_rx_def)
  then show ?thesis
    using um_recv_pdu_delivers [OF um_rx_example_ok _ um_rx_example_header _ _ _ _ refl seg] full by auto
qed

text \<open>
  C36. Reception of arbitrary bytes. Whatever the bytes of a PDU, the entity either stays in a state
  satisfying the reception invariant, or stops with a null dereference or an access outside a
  buffer: it never exits, uses freed memory, or loops forever.
\<close>

theorem um_recv_pdu_safe:
  assumes "um_rx_ok e"
  shows "(\<exists>e' ev. nr_rlc_entity_um_recv_pdu e buffer = Inr (e', ev) \<and> um_rx_ok e') \<or>
    nr_rlc_entity_um_recv_pdu e buffer = Inl Null_deref \<or> nr_rlc_entity_um_recv_pdu e buffer = Inl Out_of_bounds"
  by (rule um_recv_pdu_safe_aux [OF assms])

theorem um_recv_pdu_safe_witness:
  "um_rx_ok um_rx_example \<and> nr_rlc_entity_um_recv_pdu um_rx_example [255] \<noteq> Inl Diverges"
  using um_recv_pdu_safe [OF um_rx_example_ok(1), of "[255]"] um_rx_example_ok(1) by auto

text \<open>
  C37. Reassembly trusts the segment offsets. Take a reception list in which the segments of SDU \<open>sn\<close> are
  segments of \<open>d\<close> except for some that start behind the end of \<open>d\<close> with a gap, at least one of them. The PDU
  that brings the last missing byte of \<open>d\<close> makes \<open>sdu_full\<close> hold, and \<open>reassemble_and_deliver\<close>, which
  also walks over the segments behind the end, reads before the start of one of them: the call is an access out of
  bounds, whatever the rest of the list is.
\<close>

theorem um_reassembly_gap:
  assumes "um_rx_ok e" and "um_header_of e s sn h" and "0 \<le> sn" and "sn < um_sn_modulus e"
    and "seg_is_first s \<longleftrightarrow> seg_so s = 0" and "seg_so s < 65536" and "\<not> seg_full s"
    and "pdu = nr_rlc_new_pdu sn (seg_so s) (seg_is_first s) (seg_is_last s) payload"
    and "um_rx_size e + int (length payload) \<le> um_rx_maxsize e" and "0 \<le> um_sn_compare_rx e sn (um_rx_next_reassembly e)"
    and "d \<noteq> []" and "int (length d) \<le> NR_SDU_MAX" and "seg_of d pdu"
    and "\<forall>p \<in> set (of_sn sn (um_rx_list e)). seg_of d p \<or> seg_beyond d p"
    and "all_bytes_in d (insert pdu {p \<in> set (of_sn sn (um_rx_list e)). seg_of d p})"
    and "g \<in> set (of_sn sn (um_rx_list e))" and "seg_beyond d g"
  shows "nr_rlc_entity_um_recv_pdu e (h @ payload) = Inl Out_of_bounds"
  by (rule um_recv_pdu_gap [OF assms])

theorem um_reassembly_gap_witness:
  "um_rx_ok um_gap_example \<and> nr_rlc_entity_um_recv_pdu um_gap_example [64, 5, 1, 2] = Inl Out_of_bounds"
proof -
  let ?p = "nr_rlc_new_pdu 5 (seg_so um_rx_first) (seg_is_first um_rx_first) (seg_is_last um_rx_first) [1, 2]"
  have "seg_of [1, 2, 3] ?p" by (simp add: seg_of_def nr_rlc_new_pdu_def um_rx_first_def)
  moreover have "all_bytes_in [1, 2, 3] (insert ?p {p \<in> set (of_sn 5 (um_rx_list um_gap_example)). seg_of [1, 2, 3] p})"
  proof -
    let ?q = "nr_rlc_new_pdu 5 2 False True [3]"
    have "?q \<in> {p \<in> set (of_sn 5 (um_rx_list um_gap_example)). seg_of [1, 2, 3] p}"
      by (simp add: um_gap_example_def nr_rlc_new_pdu_def seg_of_def)
    moreover have "covers ?p i \<or> covers ?q i" if "0 \<le> i" "i < 3" for i
      using that by (auto simp: covers_def nr_rlc_new_pdu_def um_rx_first_def)
    ultimately show ?thesis
      by (fastforce simp: all_bytes_in_def)
  qed
  moreover have "\<forall>p \<in> set (of_sn 5 (um_rx_list um_gap_example)). seg_of [1, 2, 3] p \<or> seg_beyond [1, 2, 3] p"
    "nr_rlc_new_pdu 5 10 False False [9] \<in> set (of_sn 5 (um_rx_list um_gap_example))"
    "seg_beyond [1, 2, 3] (nr_rlc_new_pdu 5 10 False False [9])"
    by (auto simp: um_gap_example_def um_rx_example_def nr_rlc_new_pdu_def seg_of_def seg_beyond_def NR_SDU_MAX_def)
  moreover have "seg_is_first um_rx_first \<longleftrightarrow> seg_so um_rx_first = 0" "seg_so um_rx_first < 65536" "\<not> seg_full um_rx_first"
    "5 < um_sn_modulus um_gap_example" "um_rx_size um_gap_example + int (length [1, 2]) \<le> um_rx_maxsize um_gap_example"
    "0 \<le> um_sn_compare_rx um_gap_example 5 (um_rx_next_reassembly um_gap_example)"
    by (simp_all add: um_rx_first_def um_gap_example_def um_rx_example_def um_example_def seg_full_def
        um_sn_compare_rx_def um_modulus_rx_def)
  moreover have "int (length [1, 2, 3 :: byte]) \<le> NR_SDU_MAX" "(0 :: int) \<le> 5" "[1, 2, 3 :: byte] \<noteq> []"
    by (simp_all add: NR_SDU_MAX_def)
  ultimately have "nr_rlc_entity_um_recv_pdu um_gap_example ([64, 5] @ [1, 2]) = Inl Out_of_bounds"
    by (intro um_reassembly_gap [OF um_gap_example_ok um_gap_example_header _ _ _ _ _ refl])
  then show ?thesis
    using um_gap_example_ok by simp
qed



end
