(* ===== verification/Rlc_Um_Link.thy ===== *)
theory Rlc_Um_Link
  imports Rlc_Um_Peer
begin

text \<open>
  Two UM entities over a channel. A peer that assigns one SDU to each sequence number sends PDUs that
  carry segments of those SDUs; the channel may lose, repeat and reorder them, and the clock of the receiver
  may advance in between. The receiver never stops with an error and never delivers anything but SDUs
  of the peer. An SDU that fits into one grant crosses the link in one PDU, whatever was stored at the receiver.
\<close>

subsection \<open>The configuration is kept\<close>

lemma um_discard_keeps [simp]:
  "um_sn_field_length (um_discard_outside e l) = um_sn_field_length e"
  "um_sn_field_length (um_discard_before e l) = um_sn_field_length e"
  by (induction l arbitrary: e) auto

lemma um_timers_keep_length [simp]:
  "um_sn_field_length (um_start_timer (um_stop_timer e)) = um_sn_field_length e"
  by (simp add: um_start_timer_def um_stop_timer_def)

lemma um_deliver_keeps:
  "um_reassemble_and_deliver e sn = Inr (e', ev) \<Longrightarrow> um_sn_field_length e' = um_sn_field_length e"
  by (auto simp: um_reassemble_and_deliver_def result_simps Let_def split: option.splits)

lemma um_advance_keeps: "um_advance_window e x = Inr e' \<Longrightarrow> um_sn_field_length e' = um_sn_field_length e"
  by (auto simp: um_advance_window_def result_simps Let_def split: if_splits)

lemma um_reception_keeps:
  assumes "um_reception_actions e pdu = Inr (e', ev)"
  shows "um_sn_field_length e' = um_sn_field_length e"
  using assms
  by (auto simp: um_reception_actions_def result_simps Let_def split: if_splits
      dest!: um_deliver_keeps um_advance_keeps)

lemma um_put_keeps [simp]:
  "um_sn_field_length (um_put e pdu) = um_sn_field_length e"
  "um_sn_field_length (um_counted e b) = um_sn_field_length e"
  by (simp_all add: um_put_def um_counted_def)

lemma um_discard_pdu_keeps: "um_discard_pdu e n = Inr (e', ev) \<Longrightarrow> um_sn_field_length e' = um_sn_field_length e"
  by (auto simp: um_discard_pdu_def)

lemma um_recv_keeps:
  assumes "um_cfg_ok e" and "nr_rlc_entity_um_recv_pdu e buffer = Inr (e', ev)"
  shows "um_sn_field_length e' = um_sn_field_length e"
proof -
  have seg: "um_sn_field_length e' = um_sn_field_length e"
    if "um_recv_segment (um_counted e buffer) buffer sn so f l d = Inr (e', ev)" "dec_byte d \<le> length buffer" for sn so f l d
    using um_recv_segment_cases [OF that(2), of "um_counted e buffer" sn so f l] that(1)
    by (auto dest: um_reception_keeps [OF sym] um_discard_pdu_keeps [OF sym])
  show ?thesis
    using um_recv_pdu_cases [OF assms(1), of buffer] assms(2) seg
    by (auto dest: um_discard_pdu_keeps [OF sym])
qed


subsection \<open>The clock\<close>

lemma dropWhile_sorted_separates:
  assumes "sorted_wrt (\<lambda>a b. key a \<le> (key b :: int)) l"
  shows "\<exists>front. l = front @ dropWhile (\<lambda>p. key p < c) l \<and>
    (\<forall>p \<in> set front. \<forall>q \<in> set (dropWhile (\<lambda>p. key p < c) l). key p < key q)"
proof (intro exI conjI ballI)
  show "l = takeWhile (\<lambda>p. key p < c) l @ dropWhile (\<lambda>p. key p < c) l" by simp
next
  fix p q assume p: "p \<in> set (takeWhile (\<lambda>p. key p < c) l)" and q: "q \<in> set (dropWhile (\<lambda>p. key p < c) l)"
  have "c \<le> key q"
    using assms q by (induction l) (auto split: if_splits)
  then show "key p < key q"
    using set_takeWhileD [OF p] by simp
qed

lemma um_set_time_peer:
  assumes ok: "um_rx_ok e" and peer: "um_peer_ok truth (um_rx_list e)"
    and run: "nr_rlc_entity_um_set_time e now = Inr e'"
  shows "um_peer_ok truth (um_rx_list e') \<and> um_sn_field_length e' = um_sn_field_length e"
proof -
  let ?e0 = "e\<lparr>um_t_current := now\<rparr>"
  have cases: "e' = ?e0 \<or> (\<exists>r. let e2 = um_discard_before (?e0\<lparr>um_t_reassembly_start := 0, um_rx_next_reassembly := r\<rparr>) (um_rx_list e)
      in um_rx_list e' = um_rx_list e2 \<and> um_sn_field_length e' = um_sn_field_length e2)"
  proof (cases "um_t_reassembly_start ?e0 = 0 \<or> um_t_current ?e0 \<le> um_t_reassembly_start ?e0 + of_int (um_t_reassembly ?e0)")
    case True
    then show ?thesis
      using run unfolding nr_rlc_entity_um_set_time_def um_check_t_reassembly_def by simp
  next
    case False
    obtain r where r: "um_skip_delivered ?e0 (um_rx_timer_trigger ?e0) = Inr r"
      using run False unfolding nr_rlc_entity_um_set_time_def um_check_t_reassembly_def
      by (cases "um_skip_delivered ?e0 (um_rx_timer_trigger ?e0)") simp_all
    define e2 where "e2 = um_discard_before (?e0\<lparr>um_t_reassembly_start := 0, um_rx_next_reassembly := r\<rparr>) (um_rx_list e)"
    have "e' = e2 \<or> e' = e2\<lparr>um_t_reassembly_start := um_t_current e2, um_rx_timer_trigger := um_rx_next_highest e2\<rparr>"
      using run False r unfolding nr_rlc_entity_um_set_time_def um_check_t_reassembly_def Let_def
      by (simp add: e2_def [symmetric] split: if_splits)
    then show ?thesis
      unfolding Let_def by (intro disjI2 exI [of _ r]) (auto simp: e2_def [symmetric])
  qed
  then consider "e' = ?e0" | r e2 where "e2 = um_discard_before (?e0\<lparr>um_t_reassembly_start := 0, um_rx_next_reassembly := r\<rparr>) (um_rx_list e)"
      "um_rx_list e' = um_rx_list e2" "um_sn_field_length e' = um_sn_field_length e2"
    unfolding Let_def by blast
  then show ?thesis
  proof cases
    case 1
    then show ?thesis using peer by simp
  next
    case 2
    have sorted: "sorted_wrt (\<lambda>a b. um_modulus_rx e (pdu_sn a) \<le> um_modulus_rx e (pdu_sn b)) (um_rx_list e)"
    proof (rule sorted_wrt_mono_rel)
      show "sorted_wrt (\<lambda>p q. \<not> pdu_before (um_modulus_rx e) q p) (um_rx_list e)"
        using ok by (simp add: um_rx_ok_def um_rx_core_def rx_sorted_def)
    qed (auto simp: pdu_before_def)
    have l2: "um_rx_list e2 = dropWhile (\<lambda>p. um_modulus_rx e (pdu_sn p) < um_modulus_rx e r) (um_rx_list e)"
      using um_discard_before_eq [of "?e0\<lparr>um_t_reassembly_start := 0, um_rx_next_reassembly := r\<rparr>" "um_rx_list e"] 2(1)
      by (auto simp: um_sn_compare_rx_def um_modulus_rx_def)
    moreover obtain front where "um_rx_list e = front @ dropWhile (\<lambda>p. um_modulus_rx e (pdu_sn p) < um_modulus_rx e r) (um_rx_list e)"
      and sep: "\<forall>p\<in>set front. \<forall>q\<in>set (dropWhile (\<lambda>p. um_modulus_rx e (pdu_sn p) < um_modulus_rx e r) (um_rx_list e)).
        um_modulus_rx e (pdu_sn p) < um_modulus_rx e (pdu_sn q)"
      using dropWhile_sorted_separates [OF sorted, of "um_modulus_rx e r"] by blast
    ultimately have "um_rx_list e = front @ um_rx_list e2" by simp
    moreover have "\<forall>p\<in>set front. \<forall>q\<in>set (um_rx_list e2). pdu_sn p \<noteq> pdu_sn q"
      using sep l2 by fastforce
    ultimately have "um_peer_ok truth (um_rx_list e2)"
      using peer peer_drop [of truth front "um_rx_list e2"] by simp
    then show ?thesis
      using 2 by simp
  qed
qed


subsection \<open>An honest peer\<close>

text \<open>A PDU of a peer that sends \<open>truth sn\<close> under the number \<open>sn\<close>: the header of a segment, and its bytes.\<close>

definition um_honest :: "nr_rlc_entity_um_t \<Rightarrow> (int \<Rightarrow> byte list) \<Rightarrow> byte list \<Rightarrow> bool" where
  "um_honest e truth buffer \<longleftrightarrow> (\<exists>s sn h payload. buffer = h @ payload \<and> um_header_of e s sn h \<and>
     0 \<le> sn \<and> sn < um_sn_modulus e \<and> (seg_is_first s \<longleftrightarrow> seg_so s = 0) \<and> seg_so s < 65536 \<and>
     seg_of (truth sn) (nr_rlc_new_pdu sn (seg_so s) (seg_is_first s) (seg_is_last s) payload))"

lemma um_cfg_of_rx_ok: "um_rx_ok e \<Longrightarrow> um_cfg_ok e"
  by (simp add: um_rx_ok_def um_rx_core_def um_win_ok_def)

lemma um_honest_cong:
  assumes "um_sn_field_length e' = um_sn_field_length e" and "um_rx_ok e" and "um_rx_ok e'"
  shows "um_honest e' = um_honest e"
proof -
  have "um_sn_modulus e' = um_sn_modulus e"
    using assms um_cfg_of_rx_ok by (auto simp: um_cfg_ok_def)
  moreover have "um_header_of e' = um_header_of e"
    using assms(1) by (auto simp: fun_eq_iff um_header_of_def um_compute_pdu_header_size_def um_header_fields_def)
  ultimately show ?thesis
    by (simp add: fun_eq_iff um_honest_def)
qed

lemma um_recv_honest:
  assumes ok: "um_rx_ok e" and peer: "um_peer_ok truth (um_rx_list e)" and truth: "truth_ok truth"
    and honest: "um_honest e truth buffer"
  shows "\<exists>e' ev. nr_rlc_entity_um_recv_pdu e buffer = Inr (e', ev) \<and> set ev \<subseteq> range (\<lambda>sn. Deliver_sdu (truth sn)) \<and>
    um_rx_ok e' \<and> um_peer_ok truth (um_rx_list e')"
proof -
  obtain s sn h payload where b: "buffer = h @ payload" and h: "um_header_of e s sn h"
    and sn: "0 \<le> sn" "sn < um_sn_modulus e" and so: "seg_is_first s \<longleftrightarrow> seg_so s = 0" "seg_so s < 65536"
    and seg: "seg_of (truth sn) (nr_rlc_new_pdu sn (seg_so s) (seg_is_first s) (seg_is_last s) payload)"
    using honest by (auto simp: um_honest_def)
  have data: "payload \<noteq> []" "0 \<le> seg_so s" "payload = take (length payload) (drop (nat (seg_so s)) (truth sn))"
    "seg_is_last s \<longleftrightarrow> seg_so s + int (length payload) = int (length (truth sn))"
    using seg by (auto simp: seg_of_def nr_rlc_new_pdu_def)
  note recv = um_recv_header [OF um_cfg_of_rx_ok [OF ok] h data(1) sn data(2) so(2,1)]
  consider (full) "seg_full s"
    | (accepted) "um_rx_size e + int (length payload) \<le> um_rx_maxsize e" "0 \<le> um_sn_compare_rx e sn (um_rx_next_reassembly e)"
    | (rejected) "\<not> seg_full s" "um_rx_size e + int (length payload) > um_rx_maxsize e \<or> um_sn_compare_rx e sn (um_rx_next_reassembly e) < 0"
    by linarith
  then show ?thesis
  proof cases
    case full
    then have "payload = truth sn" using data so(1) by (auto simp: seg_full_def)
    then show ?thesis using recv full ok peer b by auto
  next
    case accepted
    from um_recv_pdu_peer [OF ok peer truth h sn so refl seg accepted] obtain e' where
      "nr_rlc_entity_um_recv_pdu e buffer =
        Inr (e', if seg_full s \<or> \<not> delivered_at_0 (of_sn sn (um_rx_list e)) \<and>
          all_bytes_in (truth sn) (insert (nr_rlc_new_pdu sn (seg_so s) (seg_is_first s) (seg_is_last s) payload) (set (of_sn sn (um_rx_list e))))
          then [Deliver_sdu (truth sn)] else [])" "um_rx_ok e'" "um_peer_ok truth (um_rx_list e')"
      unfolding b by blast
    then show ?thesis by (intro exI conjI) auto
  next
    case rejected
    then obtain d where d: "dec_byte d = length h" "nr_rlc_entity_um_recv_pdu e buffer =
        um_recv_segment (um_counted e buffer) buffer sn (seg_so s) (seg_is_first s) (seg_is_last s) d"
      using recv unfolding b by auto
    have "um_recv_segment (um_counted e buffer) buffer sn (seg_so s) (seg_is_first s) (seg_is_last s) d =
        um_discard_pdu (um_counted e buffer) (int (length buffer))"
      using rejected(2) d(1) b by (auto simp: um_recv_segment_def Let_def)
    moreover obtain st where "um_discard_pdu (um_counted e buffer) (int (length buffer)) = Inr ((um_counted e buffer)\<lparr>stats := st\<rparr>, [])"
      using um_discard_pdu_ok [of "um_counted e buffer" "int (length buffer)"] ok by auto
    ultimately show ?thesis
      using d(2) ok peer by auto
  qed
qed

datatype um_input = Um_pdu "byte list" | Um_tick u64

fun um_rx_run :: "um_input list \<Rightarrow> nr_rlc_entity_um_t \<Rightarrow> (nr_rlc_entity_um_t \<times> rlc_event list) result" where
  "um_rx_run [] e = Inr (e, [])"
| "um_rx_run (Um_pdu b # xs) e =
     bind_r (nr_rlc_entity_um_recv_pdu e b) (\<lambda>(e, ev1). bind_r (um_rx_run xs e) (\<lambda>(e, ev2). Inr (e, ev1 @ ev2)))"
| "um_rx_run (Um_tick now # xs) e = bind_r (nr_rlc_entity_um_set_time e now) (um_rx_run xs)"

lemma um_rx_run_honest:
  assumes "truth_ok truth"
  shows "um_rx_ok e \<Longrightarrow> um_peer_ok truth (um_rx_list e) \<Longrightarrow> \<forall>b. Um_pdu b \<in> set xs \<longrightarrow> um_honest e truth b \<Longrightarrow>
    \<exists>e' ev. um_rx_run xs e = Inr (e', ev) \<and> set ev \<subseteq> range (\<lambda>sn. Deliver_sdu (truth sn)) \<and> um_rx_ok e'"
proof (induction xs arbitrary: e)
  case Nil
  then show ?case by simp
next
  case (Cons x xs)
  show ?case
  proof (cases x)
    case (Um_pdu b)
    obtain e1 ev1 where 1: "nr_rlc_entity_um_recv_pdu e b = Inr (e1, ev1)" "set ev1 \<subseteq> range (\<lambda>sn. Deliver_sdu (truth sn))"
      "um_rx_ok e1" "um_peer_ok truth (um_rx_list e1)"
      using um_recv_honest [OF Cons.prems(1,2) assms, of b] Cons.prems(3) Um_pdu by auto
    have same: "um_honest e1 = um_honest e"
      using um_honest_cong um_recv_keeps [OF um_cfg_of_rx_ok 1(1)] Cons.prems(1) 1(3) by blast
    show ?thesis
      using Cons.IH [OF 1(3,4)] Cons.prems(3) same 1 Um_pdu by auto
  next
    case (Um_tick now)
    obtain e1 where 1: "nr_rlc_entity_um_set_time e now = Inr e1" "um_rx_ok e1"
      using um_set_time_ok [OF Cons.prems(1), of now] by blast
    have p: "um_peer_ok truth (um_rx_list e1)" and same: "um_honest e1 = um_honest e"
      using um_set_time_peer [OF Cons.prems(1,2) 1(1)] um_honest_cong [OF _ Cons.prems(1) 1(2)] by blast+
    show ?thesis
      using Cons.IH [OF 1(2) p] Cons.prems(3) same 1 Um_tick by auto
  qed
qed


subsection \<open>One SDU in one PDU\<close>

lemma um_recv_sdu_queues:
  assumes "nr_rlc_entity_um_recv_sdu now buffer sdu_id e = Inr e'"
    and "um_tx_size e + int (length buffer) \<le> um_tx_maxsize e"
  shows "\<exists>s. um_tx_list e' = um_tx_list e @ [s] \<and> seg_full s \<and> seg_so s = 0 \<and> seg_size s = int (length buffer)"
  using assms
  by (auto simp: nr_rlc_entity_um_recv_sdu_def nr_rlc_new_sdu_def Let_def seg_full_def result_simps split: if_splits)

lemma um_transfer_whole:
  assumes tx: "um_tx_ok u" "um_tx_list u = []" and rx: "um_rx_ok v" "um_sn_field_length v = um_sn_field_length u"
    and sdu: "sdu_size_ok sdu" "um_tx_size u + int (length sdu) \<le> um_tx_maxsize u"
    and grant: "length sdu + 1 \<le> length buffer" "2 < length buffer"
  shows "\<exists>u1 ret buffer' u2 st. nr_rlc_entity_um_recv_sdu now sdu sdu_id u = Inr u1 \<and>
    nr_rlc_entity_um_generate_pdu now' buffer u1 = Inr (ret, buffer', u2) \<and> um_tx_ok u2 \<and> um_tx_list u2 = [] \<and>
    nr_rlc_entity_um_recv_pdu v (take (nat ret) buffer') = Inr (v\<lparr>stats := st\<rparr>, [Deliver_sdu sdu])"
proof -
  obtain u1 where u1: "nr_rlc_entity_um_recv_sdu now sdu sdu_id u = Inr u1" "um_tx_ok u1" "um_same_tx u u1"
    "um_pending u1 = sdu"
    using um_recv_sdu_ok [OF tx(1) sdu(1), of now sdu_id] sdu(2) tx(2) by (auto simp: um_pending_def)
  obtain x where x: "um_tx_list u1 = [x]" "seg_full x" "seg_so x = 0" "seg_size x = int (length sdu)"
    using um_recv_sdu_queues [OF u1(1) sdu(2)] tx(2) by auto
  have cost: "um_compute_pdu_header_size u1 x = 1" "um_cost u1 x \<le> int (length buffer)"
    using x grant by (simp_all add: um_cost_def um_compute_pdu_header_size_def seg_full_def)
  have "\<exists>ret buffer' u2 s. nr_rlc_entity_um_generate_pdu now' buffer u1 = Inr (ret, buffer', u2) \<and> um_tx_ok u2 \<and>
      um_same_tx u1 u2 \<and> length buffer' = length buffer \<and>
      um_sent u1 (int (length buffer)) u2 ret (take (nat ret) buffer') s"
    using um_generate_ok(2) [OF u1(2), of buffer now'] x grant cost by simp
  then obtain ret buffer' u2 s where gen: "nr_rlc_entity_um_generate_pdu now' buffer u1 = Inr (ret, buffer', u2)" "um_tx_ok u2"
    and sent: "um_sent u1 (int (length buffer)) u2 ret (take (nat ret) buffer') s"
    by blast
  then obtain h p where p: "take (nat ret) buffer' = h @ p" "p \<noteq> []" "um_pending u1 = p @ um_pending u2"
    "int (length h) = um_compute_pdu_header_size u1 s"
    "bytes_bits h = concat (map (\<lambda>(v, c). bits_of c v) (um_header_fields u1 s (um_tx_next u1)))"
    "seg_so s = 0" "seg_is_first s" "seg_is_last s" "um_left u1 s (um_tx_list u2)"
    using x cost by (auto simp: um_sent_def seg_full_def)
  have l2: "um_tx_list u2 = []" using p(8,9) x(1) by (simp add: um_left_def)
  then have "p = sdu" using p(3) u1(4) by (simp add: um_pending_def)
  have fl: "um_sn_field_length v = um_sn_field_length u1" using rx(2) u1(3) by (simp add: um_same_tx_def)
  have hd: "um_header_of v s (um_tx_next u1) h"
    using p(4,5) fl by (simp add: um_header_of_def um_compute_pdu_header_size_def um_header_fields_def)
  have "um_sn_modulus v = um_sn_modulus u1"
    using fl um_cfg_of_rx_ok [OF rx(1)] u1(2) by (auto simp: um_cfg_ok_def um_tx_ok_def um_tx_core_def)
  then have sn: "0 \<le> um_tx_next u1" "um_tx_next u1 < um_sn_modulus v"
    using u1(2) by (auto simp: um_tx_ok_def um_tx_core_def)
  obtain st where "nr_rlc_entity_um_recv_pdu v (h @ p) = Inr (v\<lparr>stats := st\<rparr>, [Deliver_sdu p])"
    using um_recv_header [OF um_cfg_of_rx_ok [OF rx(1)] hd p(2) sn] p(6-8) by (auto simp: seg_full_def)
  then show ?thesis
    using u1(1) gen l2 p(1) \<open>p = sdu\<close> by auto
qed


subsection \<open>Properties\<close>

text \<open>C2. Whatever PDUs of an honest peer arrive, in whatever order and however often, and however the clock advances in
  between, a UM receiver never stops with an error and delivers nothing but SDUs that the peer sent.\<close>

theorem um_run_faithful:
  assumes "um_rx_ok e" and "um_peer_ok truth (um_rx_list e)" and "truth_ok truth"
    and "\<forall>b. Um_pdu b \<in> set inputs \<longrightarrow> um_honest e truth b"
  shows "\<exists>e' ev. um_rx_run inputs e = Inr (e', ev) \<and> set ev \<subseteq> range (\<lambda>sn. Deliver_sdu (truth sn)) \<and> um_rx_ok e'"
  using um_rx_run_honest [OF assms(3,1,2,4)] .

theorem um_run_faithful_witness:
  "\<exists>e' ev. um_rx_run [Um_pdu [64, 5, 1, 2], Um_tick 7, Um_pdu [64, 5, 1, 2]] um_rx_example = Inr (e', ev) \<and>
     set ev \<subseteq> range (\<lambda>sn :: int. Deliver_sdu [1, 2, 3]) \<and> um_rx_ok e'"
proof (rule um_run_faithful [where truth = "\<lambda>_. [1, 2, 3]"])
  have seg: "seg_of [1, 2, 3] (nr_rlc_new_pdu 5 (seg_so um_rx_first) (seg_is_first um_rx_first) (seg_is_last um_rx_first) [1, 2])"
    by (simp add: seg_of_def nr_rlc_new_pdu_def um_rx_first_def)
  have "um_honest um_rx_example (\<lambda>_. [1, 2, 3]) ([64, 5] @ [1, 2])"
    unfolding um_honest_def
    by (intro exI conjI, rule refl, rule um_rx_example_header)
      (use seg in \<open>simp_all add: um_rx_first_def um_rx_example_def um_example_def\<close>)
  then show "\<forall>b. Um_pdu b \<in> set [Um_pdu [64, 5, 1, 2], Um_tick 7, Um_pdu [64, 5, 1, 2]] \<longrightarrow>
      um_honest um_rx_example (\<lambda>_. [1, 2, 3]) b"
    by simp
qed (simp_all add: um_rx_example_ok truth_ok_def NR_SDU_MAX_def)

end
