(* ===== verification/Rlc_Am.thy ===== *)
theory Rlc_Am
  imports Rlc_Um
begin

text \<open>
  \<open>openair2/LAYER2/nr_rlc/nr_rlc_entity_am.c\<close>: the acknowledged mode entity. This theory holds the entity
  itself, the reception of data PDUs, the transmission and retransmission of data PDUs, the timers and
  the life cycle. Status reports are built in \<open>Rlc_Am_Status\<close> and processed in \<open>Rlc_Am_Ctrl\<close>.

  \<^item> The three lists of segments (\<open>tx_list\<close>, \<open>wait_list\<close>, \<open>retransmit_list\<close>) refer to SDUs in the memory of
    \<open>Rlc_Sdu\<close>. The pointers \<open>tx_end\<close> and \<open>wait_end\<close> are the last elements of their lists.
    (The insertion of a segment into the wait list moves \<open>wait_end\<close> only when the list has one element; a
    segment that belongs behind \<open>wait_end\<close> is appended, so an insertion is at the end only when two
    segments of an SDU in the list have the same offset.)
  \<^item> \<open>sdu_full\<close>, \<open>sdu_delivered\<close> and \<open>sdu_has_missing_bytes\<close> have the text of the UM entity; the reassembly
    loop differs from it in that a delivered PDU keeps its \<open>size\<close>. The search of \<open>discard_sdu\<close> is that of UM.
\<close>

record nr_rlc_entity_am_t = nr_rlc_entity_t +
  am_t_poll_retransmit :: int
  am_t_reassembly :: int
  am_t_status_prohibit :: int
  am_poll_pdu :: int
  am_poll_byte :: int
  am_max_retx_threshold :: int
  am_sn_field_length :: int
  am_sn_modulus :: int
  am_window_size :: int
  am_rx_next :: int
  am_rx_next_status_trigger :: int
  am_rx_highest_status :: int
  am_rx_next_highest :: int
  am_status_triggered :: bool
  am_tx_next :: int
  am_tx_next_ack :: int
  am_poll_sn :: int
  am_pdu_without_poll :: int
  am_byte_without_poll :: int
  am_force_poll :: bool
  am_t_current :: u64
  am_t_log_buffer_full :: u64
  am_sdu_rejected :: int
  am_t_poll_retransmit_start :: u64
  am_t_reassembly_start :: u64
  am_t_status_prohibit_start :: u64
  am_rx_list :: "nr_rlc_pdu_t list"
  am_rx_size :: int
  am_rx_maxsize :: int
  am_tx_list :: "nr_rlc_sdu_segment_t list"
  am_tx_size :: int
  am_tx_maxsize :: int
  am_wait_list :: "nr_rlc_sdu_segment_t list"
  am_retransmit_list :: "nr_rlc_sdu_segment_t list"

definition new_nr_rlc_entity_am ::
  "int \<Rightarrow> int \<Rightarrow> int \<Rightarrow> int \<Rightarrow> int \<Rightarrow> int \<Rightarrow> int \<Rightarrow> int \<Rightarrow> int \<Rightarrow> nr_rlc_entity_am_t result" where
  "new_nr_rlc_entity_am rx_maxsize tx_maxsize t_poll_retransmit t_reassembly t_status_prohibit poll_pdu poll_byte
      max_retx_threshold sn_field_length =
     (if sn_field_length \<noteq> 12 \<and> sn_field_length \<noteq> 18 then Inl Fatal_exit
      else
        let sn_modulus = 2 ^ nat sn_field_length in
        bind_r (time_average_new (100 * 1000) 1024) (\<lambda>avg.
        Inr \<lparr>bstatus = bstatus_zero, stats = nr_rlc_statistics_zero NR_RLC_AM,
             txsdu_avg_time_to_tx = avg, avg_time_is_on = False, sdu_mem = mem_empty,
             am_t_poll_retransmit = t_poll_retransmit, am_t_reassembly = t_reassembly,
             am_t_status_prohibit = t_status_prohibit, am_poll_pdu = poll_pdu, am_poll_byte = poll_byte,
             am_max_retx_threshold = max_retx_threshold, am_sn_field_length = sn_field_length,
             am_sn_modulus = sn_modulus, am_window_size = sn_modulus div 2,
             am_rx_next = 0, am_rx_next_status_trigger = 0, am_rx_highest_status = 0, am_rx_next_highest = 0,
             am_status_triggered = False, am_tx_next = 0, am_tx_next_ack = 0, am_poll_sn = 0,
             am_pdu_without_poll = 0, am_byte_without_poll = 0, am_force_poll = False,
             am_t_current = 0, am_t_log_buffer_full = 0, am_sdu_rejected = 0,
             am_t_poll_retransmit_start = 0, am_t_reassembly_start = 0, am_t_status_prohibit_start = 0,
             am_rx_list = [], am_rx_size = 0, am_rx_maxsize = rx_maxsize,
             am_tx_list = [], am_tx_size = 0, am_tx_maxsize = tx_maxsize,
             am_wait_list = [], am_retransmit_list = []\<rparr>))"

definition nr_rlc_entity_am_reconfigure ::
  "nr_rlc_entity_am_t \<Rightarrow> int \<Rightarrow> int \<Rightarrow> int \<Rightarrow> int \<Rightarrow> int \<Rightarrow> int \<Rightarrow> int option \<Rightarrow> nr_rlc_entity_am_t" where
  "nr_rlc_entity_am_reconfigure e t_poll_retransmit t_reassembly t_status_prohibit poll_pdu poll_byte max_retx_threshold
      sn_field_length =
     (let e = e\<lparr>am_t_poll_retransmit := t_poll_retransmit, am_t_reassembly := t_reassembly,
                am_t_status_prohibit := t_status_prohibit, am_poll_pdu := poll_pdu, am_poll_byte := poll_byte,
                am_max_retx_threshold := max_retx_threshold\<rparr> in
      case sn_field_length of None \<Rightarrow> e | Some l \<Rightarrow> e\<lparr>am_sn_field_length := l\<rparr>)"

definition am_compute_pdu_header_size :: "nr_rlc_entity_am_t \<Rightarrow> nr_rlc_sdu_segment_t \<Rightarrow> int" where
  "am_compute_pdu_header_size e sdu =
     2 + (if am_sn_field_length e = 18 then 1 else 0) + (if \<not> seg_is_first sdu then 2 else 0)"

definition am_modulus_rx :: "nr_rlc_entity_am_t \<Rightarrow> int \<Rightarrow> int" where
  "am_modulus_rx e a = (let r = a - am_rx_next e in if r < 0 then r + am_sn_modulus e else r)"

definition am_modulus_tx :: "nr_rlc_entity_am_t \<Rightarrow> int \<Rightarrow> int" where
  "am_modulus_tx e a = (let r = a - am_tx_next_ack e in if r < 0 then r + am_sn_modulus e else r)"

definition am_sn_in_recv_window :: "nr_rlc_entity_am_t \<Rightarrow> int \<Rightarrow> bool" where
  "am_sn_in_recv_window e sn \<longleftrightarrow> am_modulus_rx e sn < am_window_size e"

definition am_sn_compare_rx :: "nr_rlc_entity_am_t \<Rightarrow> int \<Rightarrow> int \<Rightarrow> int" where
  "am_sn_compare_rx e a b = am_modulus_rx e a - am_modulus_rx e b"

definition am_sn_compare_tx :: "nr_rlc_entity_am_t \<Rightarrow> int \<Rightarrow> int \<Rightarrow> int" where
  "am_sn_compare_tx e a b = am_modulus_tx e a - am_modulus_tx e b"

text \<open>The segments carry their sequence number in the SDU they share.\<close>

fun nr_rlc_tx_sdu_segment_list_add ::
  "nr_rlc_entity_am_t \<Rightarrow> nr_rlc_sdu_segment_t list \<Rightarrow> nr_rlc_sdu_segment_t \<Rightarrow> nr_rlc_sdu_segment_t list result" where
  "nr_rlc_tx_sdu_segment_list_add e [] seg = Inr [seg]"
| "nr_rlc_tx_sdu_segment_list_add e (cur # l) seg =
     bind_r (sdu_at (sdu_mem e) (seg_sdu cur)) (\<lambda>c.
     bind_r (sdu_at (sdu_mem e) (seg_sdu seg)) (\<lambda>u.
       if am_sn_compare_tx e (sdu_sn c) (sdu_sn u) > 0 \<or> sdu_sn c = sdu_sn u \<and> seg_so cur > seg_so seg
       then Inr (seg # cur # l)
       else bind_r (nr_rlc_tx_sdu_segment_list_add e l seg) (\<lambda>l'. Inr (cur # l'))))"


subsection \<open>Reception of data\<close>

fun am_received_loop :: "int \<Rightarrow> nr_rlc_pdu_t list \<Rightarrow> int \<Rightarrow> int \<Rightarrow> bool" where
  "am_received_loop sn [] so sz = (sz \<le> 0)"
| "am_received_loop sn (p # l) so sz =
     (if sz \<le> 0 then True
      else if pdu_sn p = sn
      then if pdu_so p \<le> so \<and> so < pdu_so p + pdu_size p
           then let covered = pdu_size p - (so - pdu_so p) in am_received_loop sn l (so + covered) (sz - covered)
           else if pdu_so p \<le> so + sz - 1 \<and> so + sz - 1 < pdu_so p + pdu_size p
           then let covered = sz - (pdu_so p - so) in am_received_loop sn l so (sz - covered)
           else am_received_loop sn l so sz
      else am_received_loop sn l so sz)"

definition segment_already_received :: "nr_rlc_entity_am_t \<Rightarrow> int \<Rightarrow> int \<Rightarrow> int \<Rightarrow> bool" where
  "segment_already_received e sn so sz = am_received_loop sn (am_rx_list e) so sz"

definition am_sdu_full :: "nr_rlc_entity_am_t \<Rightarrow> int \<Rightarrow> bool" where
  "am_sdu_full e sn = sdu_full (am_rx_list e) sn"

definition am_sdu_delivered :: "nr_rlc_entity_am_t \<Rightarrow> int \<Rightarrow> bool" where
  "am_sdu_delivered e sn = sdu_delivered (am_rx_list e) sn"

definition am_sdu_has_missing_bytes :: "nr_rlc_entity_am_t \<Rightarrow> int \<Rightarrow> bool" where
  "am_sdu_has_missing_bytes e sn = sdu_has_missing_bytes (am_rx_list e) sn"

text \<open>\<open>while (sdu_delivered(entity, sn)) sn = (sn + 1) % sn_modulus\<close>\<close>

definition am_skip_delivered :: "nr_rlc_entity_am_t \<Rightarrow> int \<Rightarrow> int result" where
  "am_skip_delivered e sn =
     (case skip_while_sn (nat (am_sn_modulus e)) (am_sdu_delivered e) (am_sn_modulus e) sn of
        None \<Rightarrow> Inl Diverges | Some r \<Rightarrow> Inr r)"

fun am_reassemble_loop ::
  "int \<Rightarrow> nr_rlc_pdu_t list \<Rightarrow> byte list \<Rightarrow> bool \<Rightarrow> (nr_rlc_pdu_t list \<times> byte list \<times> bool \<times> int) result" where
  "am_reassemble_loop sn [] sdu bad_sdu = Inr ([], sdu, bad_sdu, 0)"
| "am_reassemble_loop sn (p # l) sdu bad_sdu =
     (if pdu_sn p \<noteq> sn then Inr (p # l, sdu, bad_sdu, 0)
      else
        bind_r (copy_segment sdu p bad_sdu) (\<lambda>(sdu', bad').
        bind_r (am_reassemble_loop sn l sdu' bad') (\<lambda>(l', sdu'', bad'', freed).
          Inr (p\<lparr>pdu_data := None\<rparr> # l', sdu'', bad'', freed + pdu_size p))))"

definition am_reassemble_and_deliver ::
  "nr_rlc_entity_am_t \<Rightarrow> int \<Rightarrow> (nr_rlc_entity_am_t \<times> rlc_event list) result" where
  "am_reassemble_and_deliver e sn =
     (let front = takeWhile (\<lambda>p. pdu_sn p \<noteq> sn) (am_rx_list e); l = first_of sn (am_rx_list e) in
      if l = [] then Inl Null_deref
      else bind_r (am_reassemble_loop sn l [] False) (\<lambda>(l', sdu, bad_sdu, freed).
             let e = e\<lparr>am_rx_list := front @ l', am_rx_size := am_rx_size e - freed\<rparr> in
             if bad_sdu then Inr (e, [])
             else Inr (e\<lparr>stats := (stats e)\<lparr>txsdu_pkts := txsdu_pkts (stats e) + 1\<rparr>\<rparr>, [Deliver_sdu sdu])))"

text \<open>The delivered SDUs at the head of the list, freed while their number is \<open>rx_next\<close>.\<close>

function am_free_delivered :: "int \<Rightarrow> int \<Rightarrow> nr_rlc_pdu_t list \<Rightarrow> int \<times> nr_rlc_pdu_t list" where
  "am_free_delivered m rx_next [] = (rx_next, [])"
| "am_free_delivered m rx_next (p # l) =
     (if pdu_data p = None \<and> pdu_sn p = rx_next
      then am_free_delivered m ((rx_next + 1) mod m) (dropWhile (\<lambda>q. pdu_sn q = rx_next) l)
      else (rx_next, p # l))"
  by pat_completeness auto

termination
  by (relation "measure (\<lambda>(_, _, l). length l)") (auto simp: le_imp_less_Suc length_dropWhile_le)

definition am_reception_full :: "nr_rlc_entity_am_t \<Rightarrow> int \<Rightarrow> (nr_rlc_entity_am_t \<times> rlc_event list) result" where
  "am_reception_full e x =
     bind_r (am_reassemble_and_deliver e x) (\<lambda>(e, ev).
     bind_r (if x = am_rx_highest_status e
             then bind_r (am_skip_delivered e (am_rx_highest_status e)) (\<lambda>r. Inr (e\<lparr>am_rx_highest_status := r\<rparr>))
             else Inr e) (\<lambda>e.
       Inr (if x = am_rx_next e
            then let (n, l) = am_free_delivered (am_sn_modulus e) (am_rx_next e) (am_rx_list e)
                 in e\<lparr>am_rx_list := l, am_rx_next := n\<rparr>
            else e, ev)))"

definition am_stop_timer :: "nr_rlc_entity_am_t \<Rightarrow> nr_rlc_entity_am_t" where
  "am_stop_timer e =
     (if am_t_reassembly_start e \<noteq> 0 \<and>
         (am_rx_next_status_trigger e = am_rx_next e \<or>
          am_rx_next_status_trigger e = (am_rx_next e + 1) mod am_sn_modulus e \<and>
            \<not> am_sdu_has_missing_bytes e (am_rx_next e) \<or>
          \<not> am_sn_in_recv_window e (am_rx_next_status_trigger e) \<and>
            am_rx_next_status_trigger e \<noteq> (am_rx_next e + am_window_size e) mod am_sn_modulus e)
      then e\<lparr>am_t_reassembly_start := 0\<rparr> else e)"

definition am_start_timer :: "nr_rlc_entity_am_t \<Rightarrow> nr_rlc_entity_am_t" where
  "am_start_timer e =
     (if am_t_reassembly_start e = 0 \<and>
         (am_sn_compare_rx e (am_rx_next_highest e) ((am_rx_next e + 1) mod am_sn_modulus e) > 0 \<or>
          am_rx_next_highest e = (am_rx_next e + 1) mod am_sn_modulus e \<and> am_sdu_has_missing_bytes e (am_rx_next e))
      then e\<lparr>am_t_reassembly_start := am_t_current e, am_rx_next_status_trigger := am_rx_next_highest e\<rparr>
      else e)"

definition am_reception_actions ::
  "nr_rlc_entity_am_t \<Rightarrow> nr_rlc_pdu_t \<Rightarrow> (nr_rlc_entity_am_t \<times> rlc_event list) result" where
  "am_reception_actions e pdu =
     (let x = pdu_sn pdu;
          e = (if am_sn_compare_rx e x (am_rx_next_highest e) \<ge> 0
               then e\<lparr>am_rx_next_highest := (x + 1) mod am_sn_modulus e\<rparr> else e) in
      bind_r (if am_sdu_full e x then am_reception_full e x else Inr (e, [])) (\<lambda>(e, ev).
        Inr (am_start_timer (am_stop_timer e), ev)))"

definition am_discard_pdu :: "nr_rlc_entity_am_t \<Rightarrow> bool \<Rightarrow> int \<Rightarrow> (nr_rlc_entity_am_t \<times> rlc_event list) result" where
  "am_discard_pdu e p sz =
     (let e = (if p then e\<lparr>am_status_triggered := True\<rparr> else e) in
      Inr (e\<lparr>stats := (stats e)\<lparr>rxpdu_dd_pkts := rxpdu_dd_pkts (stats e) + 1,
                                rxpdu_dd_bytes := rxpdu_dd_bytes (stats e) + of_int sz\<rparr>\<rparr>, []))"

text \<open>\<open>recv_pdu\<close> from the end of the header on: \<open>d\<close> is the decoder behind it.\<close>

definition am_recv_segment ::
  "nr_rlc_entity_am_t \<Rightarrow> byte list \<Rightarrow> bool \<Rightarrow> int \<Rightarrow> int \<Rightarrow> bool \<Rightarrow> bool \<Rightarrow> nr_rlc_pdu_decoder_t \<Rightarrow>
   (nr_rlc_entity_am_t \<times> rlc_event list) result" where
  "am_recv_segment e buffer p sn so is_first is_last d =
     (let size = int (length buffer); data_size = size - int (dec_byte d) in
      if data_size \<le> 0 then am_discard_pdu e p size
      else if am_rx_size e + data_size > am_rx_maxsize e then am_discard_pdu e p size
      else if \<not> am_sn_in_recv_window e sn
      then am_discard_pdu (e\<lparr>stats := (stats e)\<lparr>rxpdu_ow_pkts := rxpdu_ow_pkts (stats e) + 1,
                                               rxpdu_ow_bytes := rxpdu_ow_bytes (stats e) + of_int size\<rparr>\<rparr>) p size
      else if segment_already_received e sn so data_size
      then am_discard_pdu (e\<lparr>stats := (stats e)\<lparr>rxpdu_dup_pkts := rxpdu_dup_pkts (stats e) + 1,
                                               rxpdu_dup_bytes := rxpdu_dup_bytes (stats e) + of_int size\<rparr>\<rparr>) p size
      else
        let pdu = nr_rlc_new_pdu sn so is_first is_last (drop (nat (size - data_size)) buffer);
            e = e\<lparr>am_rx_size := am_rx_size e + data_size,
                  am_rx_list := nr_rlc_pdu_list_add (am_sn_compare_rx e) (am_rx_list e) pdu\<rparr> in
        bind_r (am_reception_actions e pdu) (\<lambda>(e, ev).
          Inr (if p then e\<lparr>am_status_triggered := True\<rparr> else e, ev)))"

definition am_recv_data ::
  "nr_rlc_entity_am_t \<Rightarrow> byte list \<Rightarrow> nr_rlc_pdu_decoder_t \<Rightarrow> (nr_rlc_entity_am_t \<times> rlc_event list) result" where
  "am_recv_data e buffer d =
     (let size = int (length buffer) in
      with_bits d 1 (am_discard_pdu e False size) (\<lambda>p d.
      let p = (p \<noteq> 0); err = am_discard_pdu e p size in
      with_bits d 2 err (\<lambda>si d.
      let is_first = \<not> bit si 1; is_last = \<not> bit si 0 in
      with_bits d (if am_sn_field_length e = 18 then 2 else 0) err (\<lambda>_ d.
      with_bits d (nat (am_sn_field_length e)) err (\<lambda>sn d.
        if \<not> is_first
        then with_bits d 16 err (\<lambda>so d.
               if so = 0 then err else am_recv_segment e buffer p sn so is_first is_last d)
        else am_recv_segment e buffer p sn 0 is_first is_last d)))))"


subsection \<open>Transmission\<close>

definition is_window_stalling :: "nr_rlc_entity_am_t \<Rightarrow> bool" where
  "is_window_stalling e \<longleftrightarrow>
     \<not> (am_sn_compare_tx e (am_tx_next_ack e) (am_tx_next e) \<le> 0 \<and>
        am_sn_compare_tx e (am_tx_next e) ((am_tx_next_ack e + am_window_size e) mod am_sn_modulus e) < 0)"

definition include_poll :: "nr_rlc_entity_am_t \<Rightarrow> byte list \<Rightarrow> (nr_rlc_entity_am_t \<times> byte list) result" where
  "include_poll e buffer =
     (if buffer = [] then Inl Out_of_bounds
      else Inr (e\<lparr>am_pdu_without_poll := 0, am_byte_without_poll := 0,
                  am_poll_sn := c_rem (am_tx_next e - 1 + am_sn_modulus e) (am_sn_modulus e),
                  am_t_poll_retransmit_start := am_t_current e\<rparr>,
                buffer[0 := buffer ! 0 OR 0x40]))"

definition check_poll_after_pdu_assembly :: "nr_rlc_entity_am_t \<Rightarrow> bool" where
  "check_poll_after_pdu_assembly e \<longleftrightarrow> am_tx_list e = [] \<and> am_retransmit_list e = [] \<or> is_window_stalling e"

definition am_header_fields :: "nr_rlc_entity_am_t \<Rightarrow> nr_rlc_sdu_segment_t \<Rightarrow> int \<Rightarrow> (int \<times> nat) list" where
  "am_header_fields e sdu sn =
     [(1, 1), (0, 1), (1 - int_of_bool (seg_is_first sdu), 1), (1 - int_of_bool (seg_is_last sdu), 1)] @
     (if am_sn_field_length e = 18 then [(0, 2)] else []) @ [(sn, nat (am_sn_field_length e))] @
     (if \<not> seg_is_first sdu then [(seg_so sdu, 16)] else [])"

definition am_serialize_sdu ::
  "nr_rlc_entity_am_t \<Rightarrow> nr_rlc_sdu_segment_t \<Rightarrow> byte list \<Rightarrow> bool \<Rightarrow> (int \<times> byte list \<times> nr_rlc_entity_am_t) result" where
  "am_serialize_sdu e sdu buffer p =
     bind_r (sdu_at (sdu_mem e) (seg_sdu sdu)) (\<lambda>u.
     bind_r (put_fields (am_header_fields e sdu (sdu_sn u)) (nr_rlc_pdu_encoder_init buffer)) (\<lambda>enc.
     bind_r (read_at (sdu_data u) (seg_so sdu) (seg_size sdu)) (\<lambda>data.
     bind_r (memcpy_at (enc_buffer enc) (enc_byte enc) data) (\<lambda>buffer.
     bind_r (if p then include_poll e buffer else Inr (e, buffer)) (\<lambda>(e, buffer).
       Inr (int (enc_byte enc) + seg_size sdu, buffer, e))))))"

text \<open>The segment that fits into \<open>pdu_size\<close> bytes and the one with the rest; the SDU gets one more reference.\<close>

definition am_resegment ::
  "nr_rlc_entity_am_t \<Rightarrow> nr_rlc_sdu_segment_t \<Rightarrow> int \<Rightarrow>
   (nr_rlc_entity_am_t \<times> nr_rlc_sdu_segment_t \<times> nr_rlc_sdu_segment_t) result" where
  "am_resegment e sdu pdu_len =
     bind_r (sdu_at (sdu_mem e) (seg_sdu sdu)) (\<lambda>u.
       let over_size = am_compute_pdu_header_size e sdu + seg_size sdu - pdu_len;
           sdu' = sdu\<lparr>seg_size := seg_size sdu - over_size, seg_is_last := False\<rparr>;
           next = sdu\<lparr>seg_size := over_size, seg_so := seg_so sdu' + seg_size sdu', seg_is_first := False\<rparr> in
       Inr (e\<lparr>sdu_mem := sdu_put (sdu_mem e) (seg_sdu sdu) (u\<lparr>sdu_ref_count := sdu_ref_count u + 1\<rparr>)\<rparr>, sdu', next))"

text \<open>A segment just sent goes to the end of the wait list when it comes after \<open>wait_end\<close>, to its place otherwise.\<close>

definition am_wait_add :: "nr_rlc_entity_am_t \<Rightarrow> nr_rlc_sdu_segment_t \<Rightarrow> nr_rlc_entity_am_t result" where
  "am_wait_add e sdu =
     bind_r (sdu_at (sdu_mem e) (seg_sdu sdu)) (\<lambda>u.
     bind_r (if am_wait_list e = [] then Inr True
             else let wait_end = last (am_wait_list e) in
                  bind_r (sdu_at (sdu_mem e) (seg_sdu wait_end)) (\<lambda>w.
                    Inr (am_sn_compare_tx e (sdu_sn u) (sdu_sn w) > 0 \<or>
                         am_sn_compare_tx e (sdu_sn u) (sdu_sn w) = 0 \<and> seg_so sdu > seg_so wait_end))) (\<lambda>after.
     bind_r (if after then Inr (nr_rlc_sdu_segment_list_append (am_wait_list e) sdu)
             else nr_rlc_tx_sdu_segment_list_add e (am_wait_list e) sdu) (\<lambda>l.
       Inr (e\<lparr>am_wait_list := l\<rparr>))))"

definition am_take_force_poll :: "nr_rlc_entity_am_t \<Rightarrow> bool \<Rightarrow> nr_rlc_entity_am_t \<times> bool" where
  "am_take_force_poll e p = (if am_force_poll e then (e\<lparr>am_force_poll := False\<rparr>, True) else (e, p))"

text \<open>Retransmission: cut the segment if necessary, then put it in the wait list and write it.\<close>

definition am_retx_cut ::
  "nr_rlc_entity_am_t \<Rightarrow> nr_rlc_sdu_segment_t \<Rightarrow> int \<Rightarrow> (nr_rlc_entity_am_t \<times> nr_rlc_sdu_segment_t) result" where
  "am_retx_cut e sdu sz =
     (if am_compute_pdu_header_size e sdu + seg_size sdu > sz
      then bind_r (am_resegment e sdu sz) (\<lambda>(e, sdu, next_sdu).
             Inr (e\<lparr>am_retransmit_list := next_sdu # am_retransmit_list e,
                    bstatus := (bstatus e)\<lparr>bs_retx_size := bs_retx_size (bstatus e) +
                      (am_compute_pdu_header_size e next_sdu + seg_size next_sdu)\<rparr>,
                    stats := (stats e)\<lparr>txpdu_segmented := txpdu_segmented (stats e) + 1\<rparr>\<rparr>, sdu))
      else Inr (e, sdu))"

definition am_retx_send ::
  "byte list \<Rightarrow> nr_rlc_entity_am_t \<Rightarrow> nr_rlc_sdu_segment_t \<Rightarrow> (int \<times> byte list \<times> nr_rlc_entity_am_t) result" where
  "am_retx_send buffer e sdu =
     bind_r (am_wait_add e sdu) (\<lambda>e.
     let (e, p) = am_take_force_poll e (check_poll_after_pdu_assembly e) in
     bind_r (am_serialize_sdu e sdu buffer p) (\<lambda>(ret, buffer, e).
       Inr (ret, buffer, e\<lparr>stats := (stats e)\<lparr>txpdu_pkts := txpdu_pkts (stats e) + 1,
              txpdu_bytes := txpdu_bytes (stats e) + of_int ret,
              txpdu_retx_pkts := txpdu_retx_pkts (stats e) + 1,
              txpdu_retx_bytes := txpdu_retx_bytes (stats e) + of_int ret\<rparr>\<rparr>)))"

definition generate_retx_pdu ::
  "byte list \<Rightarrow> nr_rlc_entity_am_t \<Rightarrow> (int \<times> byte list \<times> nr_rlc_entity_am_t) result" where
  "generate_retx_pdu buffer e =
     (case am_retransmit_list e of
        [] \<Rightarrow> Inl Null_deref
      | sdu # rest \<Rightarrow>
          let size = int (length buffer); pdu_header_size = am_compute_pdu_header_size e sdu in
          if pdu_header_size + 1 > size then Inr (0, buffer, e)
          else
            let e = e\<lparr>am_retransmit_list := rest,
                      bstatus := (bstatus e)\<lparr>bs_retx_size := bs_retx_size (bstatus e) - (pdu_header_size + seg_size sdu)\<rparr>\<rparr> in
            bind_r (am_retx_cut e sdu size) (\<lambda>(e, sdu). am_retx_send buffer e sdu))"

text \<open>The sequence number of an SDU is assigned when its first byte is sent.\<close>

definition am_assign_sn :: "nr_rlc_entity_am_t \<Rightarrow> nr_rlc_sdu_segment_t \<Rightarrow> nr_rlc_entity_am_t result" where
  "am_assign_sn e sdu =
     bind_r (sdu_at (sdu_mem e) (seg_sdu sdu)) (\<lambda>u.
       Inr (if sdu_sn u = - 1
            then e\<lparr>sdu_mem := sdu_put (sdu_mem e) (seg_sdu sdu) (u\<lparr>sdu_sn := am_tx_next e\<rparr>),
                   am_tx_next := (am_tx_next e + 1) mod am_sn_modulus e\<rparr>
            else e))"

definition am_count_poll :: "nr_rlc_entity_am_t \<Rightarrow> nr_rlc_sdu_segment_t \<Rightarrow> nr_rlc_entity_am_t \<times> bool" where
  "am_count_poll e sdu =
     (let e = e\<lparr>am_pdu_without_poll := am_pdu_without_poll e + 1,
                am_byte_without_poll := am_byte_without_poll e + seg_size sdu\<rparr> in
      (e, am_poll_pdu e \<noteq> - 1 \<and> am_pdu_without_poll e \<ge> am_poll_pdu e \<or>
          am_poll_byte e \<noteq> - 1 \<and> am_byte_without_poll e \<ge> am_poll_byte e \<or>
          check_poll_after_pdu_assembly e))"

text \<open>First transmission, in the same two parts.\<close>

definition am_tx_cut ::
  "nr_rlc_entity_am_t \<Rightarrow> nr_rlc_sdu_segment_t \<Rightarrow> int \<Rightarrow> (nr_rlc_entity_am_t \<times> nr_rlc_sdu_segment_t) result" where
  "am_tx_cut e sdu sz =
     (if am_compute_pdu_header_size e sdu + seg_size sdu > sz
      then bind_r (am_resegment e sdu sz) (\<lambda>(e, sdu, next_sdu).
             Inr (e\<lparr>am_tx_list := next_sdu # am_tx_list e,
                    stats := (stats e)\<lparr>txpdu_segmented := txpdu_segmented (stats e) + 1\<rparr>,
                    bstatus := (bstatus e)\<lparr>bs_tx_size := bs_tx_size (bstatus e) +
                      (am_compute_pdu_header_size e next_sdu + seg_size next_sdu)\<rparr>\<rparr>, sdu))
      else Inr (e, sdu))"

definition am_tx_send ::
  "u64 \<Rightarrow> byte list \<Rightarrow> nr_rlc_entity_am_t \<Rightarrow> nr_rlc_sdu_segment_t \<Rightarrow> (int \<times> byte list \<times> nr_rlc_entity_am_t) result" where
  "am_tx_send now buffer e sdu =
     bind_r (am_wait_add e sdu) (\<lambda>e.
     let (e, p) = am_count_poll e sdu; (e, p) = am_take_force_poll e p in
     bind_r (am_serialize_sdu e sdu buffer p) (\<lambda>(ret, buffer, e).
     let e = e\<lparr>stats := (stats e)\<lparr>txpdu_pkts := txpdu_pkts (stats e) + 1,
                                   txpdu_bytes := txpdu_bytes (stats e) + of_int ret\<rparr>\<rparr> in
     bind_r (sdu_at (sdu_mem e) (seg_sdu sdu)) (\<lambda>u.
       Inr (ret, buffer, record_waited_time now u e))))"

definition am_generate_tx_pdu ::
  "u64 \<Rightarrow> byte list \<Rightarrow> nr_rlc_entity_am_t \<Rightarrow> (int \<times> byte list \<times> nr_rlc_entity_am_t) result" where
  "am_generate_tx_pdu now buffer e =
     (if is_window_stalling e then Inr (0, buffer, e)
      else case am_tx_list e of
        [] \<Rightarrow> Inr (0, buffer, e)
      | sdu # rest \<Rightarrow>
          let size = int (length buffer); pdu_header_size = am_compute_pdu_header_size e sdu in
          if pdu_header_size + 1 > size then Inr (0, buffer, e)
          else
            let e = e\<lparr>am_tx_list := rest,
                      bstatus := (bstatus e)\<lparr>bs_tx_size := bs_tx_size (bstatus e) - (pdu_header_size + seg_size sdu)\<rparr>\<rparr> in
            bind_r (am_assign_sn e sdu) (\<lambda>e.
            bind_r (am_tx_cut e sdu size) (\<lambda>(e, sdu). am_tx_send now buffer e sdu)))"

definition nr_rlc_entity_am_recv_sdu ::
  "u64 \<Rightarrow> byte list \<Rightarrow> int \<Rightarrow> nr_rlc_entity_am_t \<Rightarrow> nr_rlc_entity_am_t result" where
  "nr_rlc_entity_am_recv_sdu now buffer sdu_id e =
     (let size = int (length buffer);
          e = e\<lparr>stats := (stats e)\<lparr>rxsdu_pkts := rxsdu_pkts (stats e) + 1\<rparr>\<rparr> in
      if size > NR_SDU_MAX then Inl Fatal_exit
      else
        let e = (if am_sdu_rejected e \<noteq> 0 \<and> am_t_current e > am_t_log_buffer_full e + 1000
                 then e\<lparr>am_sdu_rejected := 0, am_t_log_buffer_full := am_t_current e\<rparr> else e) in
        if am_tx_size e + size > am_tx_maxsize e then Inr (e\<lparr>am_sdu_rejected := am_sdu_rejected e + 1\<rparr>)
        else
          let (sdu, m) = nr_rlc_new_sdu (sdu_mem e) buffer sdu_id;
              e = e\<lparr>am_tx_size := am_tx_size e + size, sdu_mem := m,
                    stats := (stats e)\<lparr>rxsdu_bytes := rxsdu_bytes (stats e) + of_int size\<rparr>,
                    am_tx_list := nr_rlc_sdu_segment_list_append (am_tx_list e) sdu,
                    bstatus := (bstatus e)\<lparr>bs_tx_size := bs_tx_size (bstatus e)
                      + (am_compute_pdu_header_size e sdu + seg_size sdu)\<rparr>\<rparr> in
          if avg_time_is_on e
          then bind_r (sdu_at (sdu_mem e) (seg_sdu sdu)) (\<lambda>u.
               Inr (e\<lparr>sdu_mem := sdu_put (sdu_mem e) (seg_sdu sdu) (u\<lparr>sdu_time_of_arrival := now\<rparr>)\<rparr>))
          else Inr e)"


subsection \<open>Timers\<close>

text \<open>The loop of \<open>check_t_poll_retransmit\<close>: the segments of SDU \<open>sn\<close> at the head of the wait list move to their places
  in the retransmission list.\<close>

fun am_requeue_loop :: "nr_rlc_entity_am_t \<Rightarrow> int \<Rightarrow> nr_rlc_sdu_segment_t list \<Rightarrow> nr_rlc_entity_am_t result" where
  "am_requeue_loop e sn [] = Inr (e\<lparr>am_wait_list := []\<rparr>)"
| "am_requeue_loop e sn (cur # l) =
     bind_r (sdu_at (sdu_mem e) (seg_sdu cur)) (\<lambda>u.
       if sdu_sn u \<noteq> sn then Inr (e\<lparr>am_wait_list := cur # l\<rparr>)
       else
         let e = e\<lparr>bstatus := (bstatus e)\<lparr>bs_retx_size := bs_retx_size (bstatus e) +
                    (am_compute_pdu_header_size e cur + seg_size cur)\<rparr>\<rparr> in
         bind_r (nr_rlc_tx_sdu_segment_list_add e (am_retransmit_list e) cur) (\<lambda>r.
           am_requeue_loop (e\<lparr>am_retransmit_list := r\<rparr>) sn l))"

definition check_t_poll_retransmit :: "nr_rlc_entity_am_t \<Rightarrow> (nr_rlc_entity_am_t \<times> rlc_event list) result" where
  "check_t_poll_retransmit e =
     (if am_t_poll_retransmit_start e = 0 \<or>
         am_t_current e \<le> am_t_poll_retransmit_start e + of_int (am_t_poll_retransmit e)
      then Inr (e, [])
      else
        let e = e\<lparr>am_t_poll_retransmit_start := 0, am_force_poll := True\<rparr> in
        if \<not> check_poll_after_pdu_assembly e then Inr (e, [])
        else case am_wait_list e of
          [] \<Rightarrow> Inl Null_deref
        | cur # _ \<Rightarrow>
            bind_r (sdu_at (sdu_mem e) (seg_sdu cur)) (\<lambda>u.
            let u = u\<lparr>sdu_retx_count := sdu_retx_count u + 1\<rparr>;
                e = e\<lparr>sdu_mem := sdu_put (sdu_mem e) (seg_sdu cur) u\<rparr> in
            bind_r (am_requeue_loop e (sdu_sn u) (am_wait_list e)) (\<lambda>e.
              Inr (e, if sdu_retx_count u \<ge> am_max_retx_threshold e then [Max_retx_reached] else []))))"

definition am_check_t_reassembly :: "nr_rlc_entity_am_t \<Rightarrow> nr_rlc_entity_am_t result" where
  "am_check_t_reassembly e =
     (if am_t_reassembly_start e = 0 \<or> am_t_current e \<le> am_t_reassembly_start e + of_int (am_t_reassembly e)
      then Inr e
      else
        bind_r (am_skip_delivered e (am_rx_next_status_trigger e)) (\<lambda>sn.
        let e = e\<lparr>am_t_reassembly_start := 0, am_rx_highest_status := sn, am_status_triggered := True\<rparr> in
        if am_sn_compare_rx e (am_rx_next_highest e) ((am_rx_highest_status e + 1) mod am_sn_modulus e) > 0 \<or>
           am_rx_next_highest e = (am_rx_highest_status e + 1) mod am_sn_modulus e \<and>
           am_sdu_has_missing_bytes e (am_rx_highest_status e)
        then Inr (e\<lparr>am_t_reassembly_start := am_t_current e, am_rx_next_status_trigger := am_rx_next_highest e\<rparr>)
        else Inr e))"

definition nr_rlc_entity_am_set_time ::
  "nr_rlc_entity_am_t \<Rightarrow> u64 \<Rightarrow> (nr_rlc_entity_am_t \<times> rlc_event list) result" where
  "nr_rlc_entity_am_set_time e now =
     bind_r (check_t_poll_retransmit (e\<lparr>am_t_current := now\<rparr>)) (\<lambda>(e, ev).
     bind_r (am_check_t_reassembly e) (\<lambda>e. Inr (e, ev)))"


subsection \<open>Discard, re-establishment, deletion\<close>

definition nr_rlc_entity_am_discard_sdu :: "nr_rlc_entity_am_t \<Rightarrow> int \<Rightarrow> nr_rlc_entity_am_t result" where
  "nr_rlc_entity_am_discard_sdu e sdu_id =
     bind_r (find_sdu (sdu_mem e) sdu_id (am_tx_list e)) (\<lambda>(front, rest).
       case rest of
         [] \<Rightarrow> Inr e
       | cur # l \<Rightarrow>
           if \<not> seg_is_first cur \<or> \<not> seg_is_last cur then Inr e
           else
             bind_r (sdu_at (sdu_mem e) (seg_sdu cur)) (\<lambda>u.
             let e = e\<lparr>am_tx_list := front @ l,
                       bstatus := (bstatus e)\<lparr>bs_tx_size := bs_tx_size (bstatus e)
                         - (am_compute_pdu_header_size e cur + seg_size cur)\<rparr>,
                       am_tx_size := am_tx_size e - sdu_size u\<rparr> in
             bind_r (nr_rlc_free_sdu_segment (sdu_mem e) cur) (\<lambda>(_, m). Inr (e\<lparr>sdu_mem := m\<rparr>))))"

definition am_clear_entity :: "nr_rlc_entity_am_t \<Rightarrow> nr_rlc_entity_am_t result" where
  "am_clear_entity e =
     bind_r (nr_rlc_free_sdu_segment_list (am_tx_list e) (sdu_mem e)) (\<lambda>m.
     bind_r (nr_rlc_free_sdu_segment_list (am_wait_list e) m) (\<lambda>m.
     bind_r (nr_rlc_free_sdu_segment_list (am_retransmit_list e) m) (\<lambda>m.
       Inr (e\<lparr>am_rx_next := 0, am_rx_next_status_trigger := 0, am_rx_highest_status := 0, am_rx_next_highest := 0,
              am_status_triggered := False, am_tx_next := 0, am_tx_next_ack := 0, am_poll_sn := 0,
              am_pdu_without_poll := 0, am_byte_without_poll := 0, am_force_poll := False,
              am_t_current := 0, am_t_log_buffer_full := 0, am_sdu_rejected := 0,
              am_t_poll_retransmit_start := 0, am_t_reassembly_start := 0, am_t_status_prohibit_start := 0,
              am_rx_list := [], am_rx_size := 0, sdu_mem := m, am_tx_list := [], am_tx_size := 0,
              am_wait_list := [], am_retransmit_list := [],
              bstatus := (bstatus e)\<lparr>bs_tx_size := 0, bs_retx_size := 0\<rparr>\<rparr>))))"

definition nr_rlc_entity_am_reestablishment :: "nr_rlc_entity_am_t \<Rightarrow> nr_rlc_entity_am_t result" where
  "nr_rlc_entity_am_reestablishment e = am_clear_entity e"

definition nr_rlc_entity_am_delete :: "nr_rlc_entity_am_t \<Rightarrow> sdu_mem_t result" where
  "nr_rlc_entity_am_delete e = bind_r (am_clear_entity e) (\<lambda>e'. Inr (sdu_mem e'))"

definition nr_rlc_entity_am_available_tx_space :: "nr_rlc_entity_am_t \<Rightarrow> int" where
  "nr_rlc_entity_am_available_tx_space e = am_tx_maxsize e - am_tx_size e"

definition nr_rlc_entity_am_get_stats ::
  "u64 \<Rightarrow> nr_rlc_entity_am_t \<Rightarrow> (nr_rlc_statistics_t \<times> nr_rlc_entity_am_t) result" where
  "nr_rlc_entity_am_get_stats now e =
     nr_rlc_entity_get_stats now (if am_retransmit_list e \<noteq> [] then am_retransmit_list e else am_tx_list e) e"

end
