(* ===== verification/Rlc_Am_Status.thy ===== *)
theory Rlc_Am_Status
  imports Rlc_Am
begin

text \<open>
  Status reports of the acknowledged mode: the search for missing data in the reception list, the size and the
  bytes of the report, and the operations that choose what to send. A position in the reception list is the
  rest of the list from there on; the empty list is NULL.
\<close>

record missing_data_t =
  m_sn_start :: int
  m_so_start :: int
  m_sn_end :: int
  m_so_end :: int
  m_next :: "nr_rlc_pdu_t list"

text \<open>\<open>sn_start = -1\<close> (nothing more to report) is \<open>None\<close>. The end of the missing part lies before \<open>cur\<close>, the head of
  \<open>next\<close>, and not beyond \<open>rx_highest_status - 1\<close> (label \<open>set_end_different_sdu\<close>).\<close>

definition am_before_status :: "nr_rlc_entity_am_t \<Rightarrow> int" where
  "am_before_status e = c_rem (am_rx_highest_status e - 1 + am_sn_modulus e) (am_sn_modulus e)"

definition am_set_end :: "nr_rlc_entity_am_t \<Rightarrow> int \<Rightarrow> int \<Rightarrow> nr_rlc_pdu_t \<Rightarrow> nr_rlc_pdu_t list \<Rightarrow> missing_data_t option" where
  "am_set_end e sn_start so_start cur next =
     (let (sn_end, so_end) = (if pdu_is_first cur then (c_rem (pdu_sn cur - 1 + am_sn_modulus e) (am_sn_modulus e), 0xffff)
                              else (pdu_sn cur, pdu_so cur - 1)) in
      if am_sn_compare_rx e (am_rx_highest_status e) sn_end \<le> 0
      then Some \<lparr>m_sn_start = sn_start, m_so_start = so_start, m_sn_end = am_before_status e, m_so_end = 0xffff, m_next = []\<rparr>
      else Some \<lparr>m_sn_start = sn_start, m_so_start = so_start, m_sn_end = sn_end, m_so_end = so_end, m_next = next\<rparr>)"

text \<open>Don't report what is out of the reporting window.\<close>

definition am_reportable :: "nr_rlc_entity_am_t \<Rightarrow> int \<Rightarrow> bool" where
  "am_reportable e sn \<longleftrightarrow> \<not> am_sn_compare_rx e (am_rx_highest_status e) sn \<le> 0"

text \<open>The label \<open>next_pdu\<close>, with \<open>cur # l\<close> the list from the current PDU on.\<close>

fun next_missing_loop ::
  "nr_rlc_entity_am_t \<Rightarrow> nr_rlc_pdu_t \<Rightarrow> nr_rlc_pdu_t list \<Rightarrow> int \<Rightarrow> bool \<Rightarrow> missing_data_t option" where
  "next_missing_loop e cur [] max_so last_reached =
     (let cur_max_so = pdu_so cur + pdu_size cur - 1;
          max_so = (if cur_max_so > max_so then cur_max_so else max_so);
          last_reached = (last_reached \<or> pdu_is_last cur);
          (sn_start, so_start) = (if pdu_data cur = None \<or> last_reached then ((pdu_sn cur + 1) mod am_sn_modulus e, 0)
                                  else (pdu_sn cur, max_so + 1)) in
      if \<not> am_reportable e sn_start then None
      else Some \<lparr>m_sn_start = sn_start, m_so_start = so_start, m_sn_end = am_before_status e, m_so_end = 0xffff, m_next = []\<rparr>)"
| "next_missing_loop e cur (nxt # l) max_so last_reached =
     (let sn = pdu_sn cur; cur_max_so = pdu_so cur + pdu_size cur - 1;
          max_so = (if cur_max_so > max_so then cur_max_so else max_so);
          last_reached = (last_reached \<or> pdu_is_last cur) in
      if pdu_sn nxt = sn \<and> max_so \<ge> pdu_so nxt - 1 then next_missing_loop e nxt l max_so last_reached
      else if pdu_sn nxt = (sn + 1) mod am_sn_modulus e \<and> last_reached \<and> pdu_is_first nxt
      then next_missing_loop e nxt l 0 False
      else if pdu_sn nxt = sn
      then if \<not> am_reportable e sn then None
           else Some \<lparr>m_sn_start = sn, m_so_start = max_so + 1, m_sn_end = sn, m_so_end = pdu_so nxt - 1, m_next = nxt # l\<rparr>
      else let (sn_start, so_start) = (if last_reached then ((sn + 1) mod am_sn_modulus e, 0) else (sn, max_so + 1)) in
           if \<not> am_reportable e sn_start then None else am_set_end e sn_start so_start nxt (nxt # l))"

definition next_missing ::
  "nr_rlc_entity_am_t \<Rightarrow> nr_rlc_pdu_t \<Rightarrow> nr_rlc_pdu_t list \<Rightarrow> bool \<Rightarrow> missing_data_t option" where
  "next_missing e cur l check_head =
     (if check_head \<and> (pdu_sn cur \<noteq> am_rx_next e \<or> \<not> pdu_is_first cur)
      then if \<not> am_reportable e (am_rx_next e) then None else am_set_end e (am_rx_next e) 0 cur (cur # l)
      else next_missing_loop e cur l 0 False)"

definition nack_size :: "nr_rlc_entity_am_t \<Rightarrow> missing_data_t \<Rightarrow> int" where
  "nack_size e m =
     (let nack_length = 2 + (if am_sn_field_length e = 18 then 1 else 0); whole = (m_so_start m = 0 \<and> m_so_end m = 0xffff) in
      if m_sn_start m = m_sn_end m then (if whole then nack_length else nack_length + 4)
      else if whole then nack_length + 1 else nack_length + 5)"

definition get_e1_position :: "nr_rlc_entity_am_t \<Rightarrow> nr_rlc_pdu_encoder_t \<Rightarrow> nat \<times> nat" where
  "get_e1_position e enc = (if am_sn_field_length e = 18 then (enc_byte enc + 2, 5) else (enc_byte enc + 1, 3))"

text \<open>The range of at most 255 sequence numbers that the loops of \<open>generate_missing\<close> and \<open>missing_size\<close> report next, and
  how many they are.\<close>

definition nack_range :: "nr_rlc_entity_am_t \<Rightarrow> missing_data_t \<Rightarrow> int \<Rightarrow> int \<Rightarrow> missing_data_t \<times> int" where
  "nack_range e m sn_start sn_count =
     (let cur_sn_count = (if sn_count > 255 then 255 else sn_count);
          so_start = (if sn_start = m_sn_start m then m_so_start m else 0);
          (sn_end, so_end) = (if cur_sn_count = sn_count then (m_sn_end m, m_so_end m)
                              else ((sn_start + 254) mod am_sn_modulus e, 0xffff)) in
      (\<lparr>m_sn_start = sn_start, m_so_start = so_start, m_sn_end = sn_end, m_so_end = so_end, m_next = []\<rparr>, cur_sn_count))"

definition nack_fields :: "nr_rlc_entity_am_t \<Rightarrow> missing_data_t \<Rightarrow> int \<Rightarrow> (int \<times> nat) list" where
  "nack_fields e n cur_sn_count =
     (let e2 = (\<not> (m_so_start n = 0 \<and> m_so_end n = 0xffff)); e3 = (m_sn_start n \<noteq> m_sn_end n) in
      [(m_sn_start n, nat (am_sn_field_length e)), (0, 1), (int_of_bool e2, 1), (int_of_bool e3, 1),
       (0, if am_sn_field_length e = 18 then 3 else 1)] @
      (if e2 then [(m_so_start n, 16), (m_so_end n, 16)] else []) @
      (if e3 then [(cur_sn_count, 8)] else []))"

definition set_bit_at :: "byte list \<Rightarrow> nat \<Rightarrow> nat \<Rightarrow> byte list result" where
  "set_bit_at buffer i k =
     (if i < length buffer then Inr (buffer[i := buffer ! i OR push_bit k 1]) else Inl Out_of_bounds)"

text \<open>The variables that \<open>generate_missing\<close> shares with its caller: the encoder, the position of the last \<open>e1\<close> bit, the
  position of the last \<open>so_end\<close> written, the last NACK, and whether the report was truncated.\<close>

record status_state =
  st_enc :: nr_rlc_pdu_encoder_t
  st_e1 :: "nat \<times> nat"
  st_so_end :: "nat option"
  st_last_nack :: int
  st_truncated :: bool

definition am_put_nack ::
  "nr_rlc_entity_am_t \<Rightarrow> missing_data_t \<Rightarrow> int \<Rightarrow> status_state \<Rightarrow> status_state result" where
  "am_put_nack e n cur_sn_count s =
     (let enc = st_enc s; e2 = (\<not> (m_so_start n = 0 \<and> m_so_end n = 0xffff)); e3 = (m_sn_start n \<noteq> m_sn_end n);
          fixed = (if am_sn_field_length e = 18 then 3 else 2) in
      bind_r (set_bit_at (enc_buffer enc) (fst (st_e1 s)) (snd (st_e1 s))) (\<lambda>buffer.
      bind_r (put_fields (nack_fields e n cur_sn_count) (enc\<lparr>enc_buffer := buffer\<rparr>)) (\<lambda>enc'.
        Inr (s\<lparr>st_enc := enc', st_e1 := get_e1_position e enc,
               st_so_end := (if e2 then Some (enc_byte enc + fixed + 2) else None),
               st_last_nack := m_sn_start n + (if e3 then cur_sn_count - 1 else 0)\<rparr>))))"

function generate_missing ::
  "nr_rlc_entity_am_t \<Rightarrow> missing_data_t \<Rightarrow> int \<Rightarrow> int \<Rightarrow> status_state \<Rightarrow> (bool \<times> status_state) result" where
  "generate_missing e m sn_start sn_count s =
     (if sn_count \<le> 0 then Inr (False, s)
      else
        let (n, cur_sn_count) = nack_range e m sn_start sn_count in
        if int (enc_byte (st_enc s)) + nack_size e n > int (enc_size (st_enc s)) then Inr (True, s\<lparr>st_truncated := True\<rparr>)
        else bind_r (am_put_nack e n cur_sn_count s) (\<lambda>s.
               generate_missing e m ((sn_start + cur_sn_count) mod am_sn_modulus e) (sn_count - cur_sn_count) s))"
  by pat_completeness auto

termination
  by (relation "measure (\<lambda>(_, _, _, sn_count, _). nat sn_count)") (auto simp: nack_range_def Let_def split: if_splits)

definition missing_count :: "nr_rlc_entity_am_t \<Rightarrow> missing_data_t \<Rightarrow> int" where
  "missing_count e m = c_rem (m_sn_end m - m_sn_start m + am_sn_modulus e) (am_sn_modulus e) + 1"

lemma next_missing_loop_shorter:
  "next_missing_loop e cur l max_so lr = Some m \<Longrightarrow> length (m_next m) < Suc (length l)"
proof (induction l arbitrary: cur max_so lr)
  case (Cons nxt l)
  have set_end: "am_set_end e a b c (nxt # l) = Some m \<Longrightarrow> length (m_next m) < Suc (Suc (length l))" for a b c
    by (auto simp: am_set_end_def Let_def split: if_splits)
  show ?case
    using Cons.prems by (auto simp: Let_def split: if_splits dest!: Cons.IH set_end)
qed (auto simp: Let_def split: if_splits)

lemma next_missing_shorter:
  assumes "next_missing e cur l check_head = Some m"
  shows "length (m_next m) < Suc (length l) \<or> check_head \<and> length (m_next m) \<le> Suc (length l)"
  using assms next_missing_loop_shorter [of e cur l 0 False m]
  by (auto simp: next_missing_def am_set_end_def Let_def split: if_splits)

text \<open>A truncated report stops the loop of the caller. When the last NACK written has an \<open>so_end\<close>, it is then made to
  cover the rest of its SDU.\<close>

definition am_force_so_end :: "status_state \<Rightarrow> status_state result" where
  "am_force_so_end s =
     (case st_so_end s of None \<Rightarrow> Inr s
      | Some i \<Rightarrow>
          let buffer = enc_buffer (st_enc s) in
          if i + 1 < length buffer
          then Inr (s\<lparr>st_enc := (st_enc s)\<lparr>enc_buffer := buffer[i := 0xff, i + 1 := 0xff]\<rparr>\<rparr>)
          else Inl Out_of_bounds)"

function am_status_loop ::
  "nr_rlc_entity_am_t \<Rightarrow> bool \<Rightarrow> nr_rlc_pdu_t list \<Rightarrow> status_state \<Rightarrow> status_state result" where
  "am_status_loop e check_head [] s = Inr s"
| "am_status_loop e check_head (cur # l) s =
     (case next_missing e cur l check_head of None \<Rightarrow> Inr s
      | Some m \<Rightarrow>
          bind_r (generate_missing e m (m_sn_start m) (missing_count e m) (s\<lparr>st_truncated := False\<rparr>)) (\<lambda>(stop, s).
          bind_r (if st_truncated s then am_force_so_end s else Inr s) (\<lambda>s.
            am_status_loop e False (if stop then [] else m_next m) s)))"
  by pat_completeness auto

termination
  by (relation "measure (\<lambda>(_, check_head, l, _). 2 * length l + (if check_head then 1 else 0))")
    (auto dest!: next_missing_shorter split: if_splits)

text \<open>The acknowledged number goes into the first bytes at the end.\<close>

definition am_put_ack :: "nr_rlc_entity_am_t \<Rightarrow> int \<Rightarrow> byte list \<Rightarrow> byte list" where
  "am_put_ack e ack_sn buffer =
     (if am_sn_field_length e = 12
      then buffer[0 := of_int (drop_bit 8 ack_sn), 1 := of_int (ack_sn AND 255)]
      else buffer[0 := of_int (drop_bit 14 ack_sn), 1 := of_int (drop_bit 6 ack_sn AND 255),
                  2 := buffer ! 2 OR of_int (push_bit 2 (ack_sn AND 0x3f))])"

definition generate_status ::
  "byte list \<Rightarrow> nr_rlc_entity_am_t \<Rightarrow> (int \<times> byte list \<times> nr_rlc_entity_am_t) result" where
  "generate_status buffer e =
     (if length buffer < 3 then Inr (0, buffer, e)
      else
        bind_r (nr_rlc_pdu_encoder_put_bits (nr_rlc_pdu_encoder_init buffer) 0 (8 * 3)) (\<lambda>enc.
        bind_r (am_status_loop e True (am_rx_list e)
                  \<lparr>st_enc = enc, st_e1 = (2, if am_sn_field_length e = 18 then 1 else 7), st_so_end = None,
                   st_last_nack = c_rem (am_rx_next e - 1 + am_sn_modulus e) (am_sn_modulus e), st_truncated = False\<rparr>) (\<lambda>s.
          let ack_sn = c_rem (st_last_nack s + 1) (am_sn_modulus e); ret = int (enc_byte (st_enc s)) in
          Inr (ret, am_put_ack e ack_sn (enc_buffer (st_enc s)),
               e\<lparr>am_status_triggered := False, am_t_status_prohibit_start := am_t_current e,
                 stats := (stats e)\<lparr>txpdu_pkts := txpdu_pkts (stats e) + 1,
                   txpdu_bytes := txpdu_bytes (stats e) + of_int ret,
                   txpdu_status_pkts := txpdu_status_pkts (stats e) + 1,
                   txpdu_status_bytes := txpdu_status_bytes (stats e) + of_int ret\<rparr>\<rparr>))))"

definition status_to_report :: "nr_rlc_entity_am_t \<Rightarrow> bool" where
  "status_to_report e \<longleftrightarrow> am_status_triggered e \<and>
     (am_t_status_prohibit_start e = 0 \<or>
      am_t_current e - am_t_status_prohibit_start e > of_int (am_t_status_prohibit e))"

text \<open>A missing part has at least one range, so a loop that counts none has stopped for lack of room.
  \<open>missing_size\<close> computes the size with the bit counts of the fields. Its result is the number of ranges, the new
  size, and whether the report would be truncated.\<close>

definition nack_bits :: "nr_rlc_entity_am_t \<Rightarrow> missing_data_t \<Rightarrow> int" where
  "nack_bits e n =
     (let r_bits = (if am_sn_field_length e = 18 then 3 else 1); whole = (m_so_start n = 0 \<and> m_so_end n = 0xffff) in
      am_sn_field_length e + 3 + r_bits + (if whole then 0 else 16 * 2) + (if m_sn_start n = m_sn_end n then 0 else 8))"

function missing_size ::
  "nr_rlc_entity_am_t \<Rightarrow> missing_data_t \<Rightarrow> int \<Rightarrow> int \<Rightarrow> int \<Rightarrow> int \<Rightarrow> int \<Rightarrow> bool \<times> int \<times> int" where
  "missing_size e m sn_start sn_count range_count sz maxsize =
     (if sn_count \<le> 0 then (False, range_count, sz)
      else
        let (n, cur_sn_count) = nack_range e m sn_start sn_count in
        if sz + nack_size e n > maxsize then (True, range_count, sz)
        else missing_size e m ((sn_start + cur_sn_count) mod am_sn_modulus e) (sn_count - cur_sn_count) (range_count + 1)
               (sz + nack_bits e n div 8) maxsize)"
  by pat_completeness auto

termination
  by (relation "measure (\<lambda>(_, _, _, sn_count, _). nat sn_count)") (auto simp: nack_range_def Let_def split: if_splits)

function status_size_loop :: "nr_rlc_entity_am_t \<Rightarrow> int \<Rightarrow> nr_rlc_pdu_t list \<Rightarrow> int \<Rightarrow> int \<Rightarrow> int" where
  "status_size_loop e nack_count [] sz maxsize = sz"
| "status_size_loop e nack_count (cur # l) sz maxsize =
     (case next_missing e cur l (nack_count = 0) of None \<Rightarrow> sz
      | Some m \<Rightarrow>
          let (stop, range_count, sz) = missing_size e m (m_sn_start m) (missing_count e m) 0 sz maxsize in
          if stop \<or> range_count = 0 then sz else status_size_loop e (nack_count + range_count) (m_next m) sz maxsize)"
  by pat_completeness auto

termination
  by (relation "measure (\<lambda>(_, nack_count, l, _). 2 * length l + (if nack_count = 0 then 1 else 0))")
    (auto dest!: next_missing_shorter split: if_splits)

definition status_size :: "nr_rlc_entity_am_t \<Rightarrow> int \<Rightarrow> int" where
  "status_size e maxsize = (if maxsize < 3 then 0 else status_size_loop e 0 (am_rx_list e) 3 maxsize)"

definition nr_rlc_entity_am_buffer_status :: "nr_rlc_entity_am_t \<Rightarrow> int \<Rightarrow> nr_rlc_entity_buffer_status_t" where
  "nr_rlc_entity_am_buffer_status e maxsize =
     \<lparr>bs_status_size = (if status_to_report e then status_size e maxsize else 0),
      bs_tx_size = bs_tx_size (bstatus e), bs_retx_size = bs_retx_size (bstatus e)\<rparr>"

definition nr_rlc_entity_am_generate_pdu ::
  "u64 \<Rightarrow> byte list \<Rightarrow> nr_rlc_entity_am_t \<Rightarrow> (int \<times> byte list \<times> nr_rlc_entity_am_t) result" where
  "nr_rlc_entity_am_generate_pdu now buffer e =
     bind_r (if status_to_report e then generate_status buffer e else Inr (0, buffer, e)) (\<lambda>(ret, buffer, e).
       if ret \<noteq> 0 then Inr (ret, buffer, e)
       else
         bind_r (if am_retransmit_list e \<noteq> [] then generate_retx_pdu buffer e else Inr (0, buffer, e)) (\<lambda>(ret, buffer, e).
           if ret \<noteq> 0 then Inr (ret, buffer, e) else am_generate_tx_pdu now buffer e))"

end
