(* ===== verification/Rlc_Am_Ctrl.thy ===== *)
theory Rlc_Am_Ctrl
  imports Rlc_Am
begin

text \<open>
  Reception of status reports (\<open>process_control_pdu\<close>) and the dispatch of \<open>recv_pdu\<close>. The report is read twice by the
  code, first to validate it and then to process it; the second reading gives the values of the first, so
  the model keeps the list of NACKs that the validation read.

  The state of the processing is the wait list cut at \<open>prev_wait_list\<close> (\<open>wdone\<close> up to it, \<open>wrest\<close> behind it), whether
  \<open>cur_wait_list\<close> was set to NULL although nodes are left (\<open>wover\<close>), the new retransmission list (\<open>rnew\<close>) and
  what is left of the old one (\<open>rcur\<close>).
\<close>

definition so_overlap :: "int \<Rightarrow> int \<Rightarrow> int \<Rightarrow> int \<Rightarrow> bool" where
  "so_overlap s1 e1 s2 e2 = (if s1 < s2 then e1 = - 1 \<or> e1 \<ge> s2 else e2 = - 1 \<or> s1 \<le> e2)"

record nack_t =
  nk_sn :: int
  nk_so_start :: int
  nk_so_end :: int
  nk_range :: int

text \<open>One NACK and the \<open>e1\<close> bit behind its sequence number; \<open>None\<close> is the jump to \<open>err\<close>.\<close>

definition am_read_nack ::
  "nr_rlc_entity_am_t \<Rightarrow> nr_rlc_pdu_decoder_t \<Rightarrow> (nack_t \<times> bool \<times> nr_rlc_pdu_decoder_t) option result" where
  "am_read_nack e d =
     with_bits d (nat (am_sn_field_length e)) (Inr None) (\<lambda>nack_sn d.
     with_bits d 1 (Inr None) (\<lambda>e1 d.
     with_bits d 1 (Inr None) (\<lambda>e2 d.
     with_bits d 1 (Inr None) (\<lambda>e3 d.
     with_bits d (if am_sn_field_length e = 18 then 3 else 1) (Inr None) (\<lambda>_ d.
     with_bits d (if e2 \<noteq> 0 then 16 else 0) (Inr None) (\<lambda>so_start d.
     with_bits d (if e2 \<noteq> 0 then 16 else 0) (Inr None) (\<lambda>so_end d.
     with_bits d (if e3 \<noteq> 0 then 8 else 0) (Inr None) (\<lambda>range d.
       let so_end = (if e2 \<noteq> 0 then so_end else 0xffff) in
       Inr (Some (\<lparr>nk_sn = nack_sn, nk_so_start = (if e2 \<noteq> 0 then so_start else 0),
                   nk_so_end = (if so_end = 0xffff then - 1 else so_end),
                   nk_range = (if e3 \<noteq> 0 then range else 1)\<rparr>, e1 \<noteq> 0, d))))))))))"

text \<open>The single numbers of a NACK range, each with the bytes it covers.\<close>

definition nack_items :: "nr_rlc_entity_am_t \<Rightarrow> nack_t \<Rightarrow> (int \<times> int \<times> int) list" where
  "nack_items e n =
     map (\<lambda>i. (c_rem (nk_sn n + i) (am_sn_modulus e), if i = 0 then nk_so_start n else 0,
               if i = nk_range n - 1 then nk_so_end n else - 1)) [0 .. nk_range n - 1]"

text \<open>The validation: every number at most \<open>ack_sn\<close>. The comparison with the previous NACK is guarded by
  \<open>prev_nack_sn != -1\<close>, and the loop leaves \<open>prev_nack_sn\<close> at -1. The loop reads at least sixteen bits per round, so
  \<open>fuel\<close> rounds for \<open>fuel\<close> bytes are enough.\<close>

fun am_validate_nacks ::
  "nat \<Rightarrow> nr_rlc_entity_am_t \<Rightarrow> int \<Rightarrow> bool \<Rightarrow> nr_rlc_pdu_decoder_t \<Rightarrow> nack_t list option result" where
  "am_validate_nacks fuel e ack_sn e1 d =
     (if \<not> e1 then Inr (Some [])
      else if fuel = 0 then Inl Diverges
      else bind_r (am_read_nack e d) (\<lambda>r.
             case r of None \<Rightarrow> Inr None
             | Some (n, e1, d) \<Rightarrow>
                 if \<exists>(sn, _, _) \<in> set (nack_items e n). am_sn_compare_tx e sn ack_sn > 0 then Inr None
                 else bind_r (am_validate_nacks (fuel - 1) e ack_sn e1 d) (\<lambda>ns.
                        Inr (case ns of None \<Rightarrow> None | Some ns \<Rightarrow> Some (n # ns)))))"

declare am_validate_nacks.simps [simp del]

definition am_read_status ::
  "nr_rlc_entity_am_t \<Rightarrow> byte list \<Rightarrow> (int \<times> nack_t list) option result" where
  "am_read_status e buffer =
     with_bits (nr_rlc_pdu_decoder_init buffer) 1 (Inr None) (\<lambda>_ d.
     with_bits d 3 (Inr None) (\<lambda>cpt d.
       if cpt \<noteq> 0 then Inr None
       else
         with_bits d (nat (am_sn_field_length e)) (Inr None) (\<lambda>ack_sn d.
         with_bits d 1 (Inr None) (\<lambda>e1 d.
         with_bits d (if am_sn_field_length e = 18 then 1 else 7) (Inr None) (\<lambda>_ d.
           if am_sn_compare_tx e ack_sn (am_tx_next e) > 0 then Inr None
           else bind_r (am_validate_nacks (length buffer) e ack_sn (e1 \<noteq> 0) d) (\<lambda>ns.
                  Inr (case ns of None \<Rightarrow> None | Some ns \<Rightarrow> Some (ack_sn, ns))))))))"


subsection \<open>Processing\<close>

record ctrl_state =
  ct_e :: nr_rlc_entity_am_t
  ct_wdone :: "nr_rlc_sdu_segment_t list"
  ct_wrest :: "nr_rlc_sdu_segment_t list"
  ct_wover :: bool
  ct_rnew :: "nr_rlc_sdu_segment_t list"
  ct_rcur :: "nr_rlc_sdu_segment_t list"
  ct_ev :: "rlc_event list"

datatype ctrl_step = Next_pdu ctrl_state | Done_nack ctrl_state | Lists_over ctrl_state

definition ct_cur_wait :: "ctrl_state \<Rightarrow> nr_rlc_sdu_segment_t option" where
  "ct_cur_wait s = (if ct_wover s then None else case ct_wrest s of [] \<Rightarrow> None | w # _ \<Rightarrow> Some w)"

text \<open>Free an acknowledged segment and report the delivery when it was the last one of its SDU.\<close>

definition am_free_acked ::
  "nr_rlc_entity_am_t \<Rightarrow> nr_rlc_sdu_segment_t \<Rightarrow> (nr_rlc_entity_am_t \<times> rlc_event list) result" where
  "am_free_acked e cur =
     bind_r (sdu_at (sdu_mem e) (seg_sdu cur)) (\<lambda>u.
     bind_r (nr_rlc_free_sdu_segment (sdu_mem e) cur) (\<lambda>(freed, m).
       let e = e\<lparr>sdu_mem := m\<rparr> in
       if freed
       then Inr (e\<lparr>am_tx_size := am_tx_size e - sdu_size u,
                   stats := (stats e)\<lparr>txsdu_bytes := txsdu_bytes (stats e) + of_int (sdu_size u)\<rparr>\<rparr>,
                 [Sdu_successful_delivery (sdu_upper_layer_id u)])
       else Inr (e, [])))"

definition am_retx_size_sub :: "nr_rlc_entity_am_t \<Rightarrow> nr_rlc_sdu_segment_t \<Rightarrow> nr_rlc_entity_am_t" where
  "am_retx_size_sub e cur =
     e\<lparr>bstatus := (bstatus e)\<lparr>bs_retx_size := bs_retx_size (bstatus e) - (am_compute_pdu_header_size e cur + seg_size cur)\<rparr>\<rparr>"

text \<open>Label \<open>process_wait_list_head\<close>; \<open>w\<close> is \<open>cur_wait_list\<close> and \<open>rest\<close> what follows it.\<close>

definition process_wait_list_head ::
  "int \<times> int \<times> int \<Rightarrow> int \<Rightarrow> ctrl_state \<Rightarrow> nr_rlc_sdu_segment_t \<Rightarrow> nr_rlc_sdu_segment_t list \<Rightarrow> ctrl_step result" where
  "process_wait_list_head nack ack_sn s w rest =
     (let e = ct_e s; (cur_nack_sn, cur_so_start, cur_so_end) = nack in
      bind_r (sdu_at (sdu_mem e) (seg_sdu w)) (\<lambda>u.
        if sdu_sn u = cur_nack_sn \<and> so_overlap cur_so_start cur_so_end (seg_so w) (seg_so w + seg_size w - 1)
        then
          let u = u\<lparr>sdu_retx_count := sdu_retx_count u + 1\<rparr>;
              ev = (if sdu_retx_count u \<ge> am_max_retx_threshold e * sdu_ref_count u then [Max_retx_reached] else []);
              e = e\<lparr>sdu_mem := sdu_put (sdu_mem e) (seg_sdu w) u,
                    bstatus := (bstatus e)\<lparr>bs_retx_size := bs_retx_size (bstatus e) +
                      (am_compute_pdu_header_size e w + seg_size w)\<rparr>\<rparr> in
          Inr (Next_pdu (s\<lparr>ct_e := e, ct_wrest := rest, ct_rnew := ct_rnew s @ [w], ct_ev := ct_ev s @ ev\<rparr>))
        else if am_sn_compare_tx e (sdu_sn u) cur_nack_sn > 0 \<or>
                am_sn_compare_tx e (sdu_sn u) cur_nack_sn = 0 \<and> seg_so w > cur_so_start
        then Inr (Done_nack s)
        else if am_sn_compare_tx e (sdu_sn u) ack_sn < 0
        then bind_r (am_free_acked e w) (\<lambda>(e, ev).
               Inr (Next_pdu (s\<lparr>ct_e := e, ct_wrest := rest, ct_ev := ct_ev s @ ev\<rparr>)))
        else if am_sn_compare_tx e (sdu_sn u) ack_sn > 0 then Inr (Next_pdu (s\<lparr>ct_wover := True\<rparr>))
        else Inr (Next_pdu (s\<lparr>ct_wdone := ct_wdone s @ [w], ct_wrest := rest\<rparr>))))"

text \<open>Label \<open>process_retransmit_list_head\<close>. When the wait list is over, the rest of the retransmission list is hung
  behind \<open>new_retransmit_list\<close>, whose \<open>next\<close> pointer is overwritten at the end with the then empty
  \<open>cur_retransmit_list\<close>.\<close>

definition process_retransmit_list_head ::
  "int \<times> int \<times> int \<Rightarrow> int \<Rightarrow> ctrl_state \<Rightarrow> nr_rlc_sdu_segment_t \<Rightarrow> nr_rlc_sdu_segment_t list \<Rightarrow> ctrl_step result" where
  "process_retransmit_list_head nack ack_sn s r rest =
     (let e = ct_e s; (cur_nack_sn, cur_so_start, cur_so_end) = nack in
      bind_r (sdu_at (sdu_mem e) (seg_sdu r)) (\<lambda>u.
        if sdu_sn u = cur_nack_sn \<and> so_overlap cur_so_start cur_so_end (seg_so r) (seg_so r + seg_size r - 1)
        then Inr (Next_pdu (s\<lparr>ct_rnew := ct_rnew s @ [r], ct_rcur := rest\<rparr>))
        else if am_sn_compare_tx e (sdu_sn u) cur_nack_sn > 0 \<or>
                am_sn_compare_tx e (sdu_sn u) cur_nack_sn = 0 \<and> seg_so r > cur_so_start
        then Inr (Done_nack s)
        else if am_sn_compare_tx e (sdu_sn u) ack_sn < 0
        then bind_r (am_free_acked (am_retx_size_sub e r) r) (\<lambda>(e, ev).
               Inr (Next_pdu (s\<lparr>ct_e := e, ct_rcur := rest, ct_ev := ct_ev s @ ev\<rparr>)))
        else if ct_cur_wait s = None then Inr (Lists_over (s\<lparr>ct_rcur := []\<rparr>))
        else Inr (Next_pdu (s\<lparr>ct_rnew := ct_rnew s @ [r], ct_rcur := rest\<rparr>))))"

text \<open>Label \<open>process_next_pdu\<close>: the smaller of the two heads.\<close>

definition process_next_pdu :: "int \<times> int \<times> int \<Rightarrow> int \<Rightarrow> ctrl_state \<Rightarrow> ctrl_step result" where
  "process_next_pdu nack ack_sn s =
     (case (ct_cur_wait s, ct_rcur s) of
        (None, []) \<Rightarrow> Inr (Lists_over s)
      | (None, r # rs) \<Rightarrow> process_retransmit_list_head nack ack_sn s r rs
      | (Some w, []) \<Rightarrow> process_wait_list_head nack ack_sn s w (tl (ct_wrest s))
      | (Some w, r # rs) \<Rightarrow>
          bind_r (sdu_at (sdu_mem (ct_e s)) (seg_sdu w)) (\<lambda>u.
          bind_r (sdu_at (sdu_mem (ct_e s)) (seg_sdu r)) (\<lambda>v.
            let cmp = am_sn_compare_tx (ct_e s) (sdu_sn u) (sdu_sn v) in
            if cmp < 0 \<or> cmp = 0 \<and> seg_so w < seg_so r
            then process_wait_list_head nack ack_sn s w (tl (ct_wrest s))
            else process_retransmit_list_head nack ack_sn s r rs)))"

definition ctrl_left :: "ctrl_state \<Rightarrow> nat" where
  "ctrl_left s = length (ct_wrest s) + length (ct_rcur s) + (if ct_wover s then 0 else 1)"

lemma wait_head_left:
  assumes "process_wait_list_head (a, b, c) ack_sn s w rest = Inr (Next_pdu s')" and "ct_wrest s = w # rest" and "\<not> ct_wover s"
  shows "ctrl_left s' < ctrl_left s"
  using assms unfolding process_wait_list_head_def Let_def prod.case
  by (auto simp: ctrl_left_def result_simps split: if_splits)

lemma retransmit_head_left:
  assumes "process_retransmit_list_head (a, b, c) ack_sn s r rest = Inr (Next_pdu s')" and "ct_rcur s = r # rest"
  shows "ctrl_left s' < ctrl_left s"
  using assms unfolding process_retransmit_list_head_def Let_def prod.case
  by (auto simp: ctrl_left_def result_simps split: if_splits)

lemma cur_wait_Some: "ct_cur_wait s = Some w \<Longrightarrow> ct_wrest s = w # tl (ct_wrest s) \<and> \<not> ct_wover s"
  by (auto simp: ct_cur_wait_def split: if_splits list.splits)

lemma process_next_pdu_left:
  assumes "process_next_pdu nack ack_sn s = Inr (Next_pdu s')"
  shows "ctrl_left s' < ctrl_left s"
proof -
  obtain a b c where n: "nack = (a, b, c)" by (cases nack)
  have w: "ctrl_left s' < ctrl_left s"
    if "process_wait_list_head nack ack_sn s w (tl (ct_wrest s)) = Inr (Next_pdu s')" "ct_cur_wait s = Some w" for w
    using wait_head_left [OF that(1) [unfolded n]] cur_wait_Some [OF that(2)] by simp
  have r: "ctrl_left s' < ctrl_left s"
    if "process_retransmit_list_head nack ack_sn s x rs = Inr (Next_pdu s')" "ct_rcur s = x # rs" for x rs
    using retransmit_head_left [OF that(1) [unfolded n] that(2)] .
  show ?thesis
    using assms w r unfolding process_next_pdu_def Let_def
    by (auto simp: result_simps split: option.splits list.splits if_splits)
qed

function am_nack_loop :: "int \<times> int \<times> int \<Rightarrow> int \<Rightarrow> ctrl_state \<Rightarrow> (bool \<times> ctrl_state) result" where
  "am_nack_loop nack ack_sn s =
     bind_r (process_next_pdu nack ack_sn s) (\<lambda>r.
       case r of Next_pdu s' \<Rightarrow> am_nack_loop nack ack_sn s'
       | Done_nack s' \<Rightarrow> Inr (False, s')
       | Lists_over s' \<Rightarrow> Inr (True, s'))"
  by pat_completeness auto

termination
  by (relation "measure (\<lambda>(_, _, s). ctrl_left s)") (auto dest: process_next_pdu_left)

declare am_nack_loop.simps [simp del]

text \<open>The numbers of one NACK range; the jump to \<open>lists_over\<close> leaves the loop over them.\<close>

fun am_process_items :: "(int \<times> int \<times> int) list \<Rightarrow> int \<Rightarrow> ctrl_state \<Rightarrow> ctrl_state result" where
  "am_process_items [] ack_sn s = Inr s"
| "am_process_items (i # items) ack_sn s =
     bind_r (am_nack_loop i ack_sn s) (\<lambda>(over, s). if over then Inr s else am_process_items items ack_sn s)"

fun am_process_nacks :: "nack_t list \<Rightarrow> int \<Rightarrow> ctrl_state \<Rightarrow> ctrl_state result" where
  "am_process_nacks [] ack_sn s = Inr s"
| "am_process_nacks (n # ns) ack_sn s =
     bind_r (am_process_items (nack_items (ct_e s) n) ack_sn s) (\<lambda>s.
       let e = ct_e s;
           e = (if am_sn_compare_tx e (nk_sn n) (am_poll_sn e) \<le> 0 \<and>
                   am_sn_compare_tx e (am_poll_sn e) (c_rem (nk_sn n + nk_range n) (am_sn_modulus e)) < 0
                then e\<lparr>am_t_poll_retransmit_start := 0\<rparr> else e) in
       am_process_nacks ns ack_sn (s\<lparr>ct_e := e\<rparr>))"

text \<open>The two loops behind the NACKs, on what is left of the wait list and of the retransmission list.\<close>

fun am_ack_wait ::
  "nr_rlc_entity_am_t \<Rightarrow> int \<Rightarrow> nr_rlc_sdu_segment_t list \<Rightarrow>
   (nr_rlc_entity_am_t \<times> nr_rlc_sdu_segment_t list \<times> rlc_event list) result" where
  "am_ack_wait e ack_sn [] = Inr (e, [], [])"
| "am_ack_wait e ack_sn (w # l) =
     bind_r (sdu_at (sdu_mem e) (seg_sdu w)) (\<lambda>u.
       if am_sn_compare_tx e (sdu_sn u) ack_sn < 0
       then bind_r (am_free_acked e w) (\<lambda>(e, ev1).
            bind_r (am_ack_wait e ack_sn l) (\<lambda>(e, l, ev2). Inr (e, l, ev1 @ ev2)))
       else Inr (e, w # l, []))"

fun am_ack_retransmit ::
  "nr_rlc_entity_am_t \<Rightarrow> int \<Rightarrow> nr_rlc_sdu_segment_t list \<Rightarrow>
   (nr_rlc_entity_am_t \<times> nr_rlc_sdu_segment_t list \<times> rlc_event list) result" where
  "am_ack_retransmit e ack_sn [] = Inr (e, [], [])"
| "am_ack_retransmit e ack_sn (r # l) =
     bind_r (sdu_at (sdu_mem e) (seg_sdu r)) (\<lambda>u.
       if am_sn_compare_tx e (sdu_sn u) ack_sn < 0
       then bind_r (am_free_acked (am_retx_size_sub e r) r) (\<lambda>(e, ev1).
            bind_r (am_ack_retransmit e ack_sn l) (\<lambda>(e, l, ev2). Inr (e, l, ev1 @ ev2)))
       else Inr (e, r # l, []))"

text \<open>\<open>tx_next_ack\<close> goes down from \<open>tx_next\<close> to the smallest number not acknowledged.\<close>

definition am_lower_to_head :: "nr_rlc_entity_am_t \<Rightarrow> nr_rlc_sdu_segment_t list \<Rightarrow> int \<Rightarrow> int result" where
  "am_lower_to_head e l n =
     (case l of [] \<Rightarrow> Inr n
      | w # _ \<Rightarrow> bind_r (sdu_at (sdu_mem e) (seg_sdu w)) (\<lambda>u.
          Inr (if am_sn_compare_tx e (sdu_sn u) n < 0 then sdu_sn u else n)))"

definition am_update_tx_next_ack :: "nr_rlc_entity_am_t \<Rightarrow> int \<Rightarrow> nr_rlc_entity_am_t result" where
  "am_update_tx_next_ack e ack_sn =
     bind_r (am_lower_to_head e (am_wait_list e) (am_tx_next e)) (\<lambda>n.
     bind_r (am_lower_to_head e (am_retransmit_list e) n) (\<lambda>n.
       Inr (e\<lparr>am_tx_next_ack := (if am_sn_compare_tx e ack_sn n < 0 then ack_sn else n)\<rparr>)))"

definition am_apply_status ::
  "nr_rlc_entity_am_t \<Rightarrow> int \<Rightarrow> nack_t list \<Rightarrow> (nr_rlc_entity_am_t \<times> rlc_event list) result" where
  "am_apply_status e ack_sn nacks =
     (let e = (if am_sn_compare_tx e (am_poll_sn e) ack_sn < 0 then e\<lparr>am_t_poll_retransmit_start := 0\<rparr> else e) in
      bind_r (am_process_nacks nacks ack_sn
                \<lparr>ct_e = e, ct_wdone = [], ct_wrest = am_wait_list e, ct_wover = False, ct_rnew = [],
                 ct_rcur = am_retransmit_list e, ct_ev = []\<rparr>) (\<lambda>s.
      bind_r (if ct_wover s then Inr (ct_e s, ct_wrest s, []) else am_ack_wait (ct_e s) ack_sn (ct_wrest s)) (\<lambda>(e, w, ev1).
      bind_r (am_ack_retransmit e ack_sn (ct_rcur s)) (\<lambda>(e, r, ev2).
      bind_r (am_update_tx_next_ack (e\<lparr>am_wait_list := ct_wdone s @ w, am_retransmit_list := ct_rnew s @ r\<rparr>) ack_sn) (\<lambda>e.
        Inr (e, ct_ev s @ ev1 @ ev2))))))"

definition process_control_pdu ::
  "nr_rlc_entity_am_t \<Rightarrow> byte list \<Rightarrow> (nr_rlc_entity_am_t \<times> rlc_event list) result" where
  "process_control_pdu e buffer =
     bind_r (am_read_status e buffer) (\<lambda>r.
       case r of None \<Rightarrow> Inr (e, []) | Some (ack_sn, nacks) \<Rightarrow> am_apply_status e ack_sn nacks)"

definition nr_rlc_entity_am_recv_pdu ::
  "nr_rlc_entity_am_t \<Rightarrow> byte list \<Rightarrow> (nr_rlc_entity_am_t \<times> rlc_event list) result" where
  "nr_rlc_entity_am_recv_pdu e buffer =
     (let size = int (length buffer);
          e = e\<lparr>stats := (stats e)\<lparr>rxpdu_pkts := rxpdu_pkts (stats e) + 1,
                                  rxpdu_bytes := rxpdu_bytes (stats e) + of_int size\<rparr>\<rparr> in
      with_bits (nr_rlc_pdu_decoder_init buffer) 1 (am_discard_pdu e False size) (\<lambda>dc d.
        if dc = 0 then process_control_pdu e buffer else am_recv_data e buffer d))"

end
