(* ===== verification/Rlc_Am_Tx.thy ===== *)
theory Rlc_Am_Tx
  imports Rlc_Am_Status Rlc_Am_Ctrl
begin

text \<open>
  The transmit side of the acknowledged mode. The invariant \<open>am_tx_inv fl lost e\<close> says that the SDU memory holds exactly
  the SDUs that the segments of the three lists refer to, together with the segments \<open>fl\<close> in the hands of a running
  operation and the segments \<open>lost\<close> that no list holds any more; the buffer status counts the headers and
  the bytes of the lists, and \<open>tx_size\<close> is at most the bytes held in memory. Every operation keeps it and none but the processing of a status report adds to \<open>lost\<close>.
\<close>

definition am_cfg_ok :: "nr_rlc_entity_am_t \<Rightarrow> bool" where
  "am_cfg_ok e \<longleftrightarrow> (am_sn_field_length e = 12 \<or> am_sn_field_length e = 18) \<and> am_sn_modulus e = 2 ^ nat (am_sn_field_length e) \<and>
     am_window_size e = am_sn_modulus e div 2 \<and> 0 \<le> am_tx_maxsize e"

definition am_cost :: "nr_rlc_entity_am_t \<Rightarrow> nr_rlc_sdu_segment_t \<Rightarrow> int" where
  "am_cost e s = am_compute_pdu_header_size e s + seg_size s"

definition am_segs :: "nr_rlc_entity_am_t \<Rightarrow> nr_rlc_sdu_segment_t list" where
  "am_segs e = am_tx_list e @ am_wait_list e @ am_retransmit_list e"

definition am_tx_inv ::
  "nr_rlc_sdu_segment_t list \<Rightarrow> nr_rlc_sdu_segment_t list \<Rightarrow> nr_rlc_entity_am_t \<Rightarrow> bool" where
  "am_tx_inv fl lost e \<longleftrightarrow> am_cfg_ok e \<and> mem_inv (sdu_mem e) (fl @ am_segs e @ lost) \<and>
     segs_ok (sdu_mem e) (fl @ am_segs e @ lost) \<and> bs_tx_size (bstatus e) = (\<Sum>s\<leftarrow>am_tx_list e. am_cost e s) \<and>
     am_tx_size e \<le> am_tx_maxsize e \<and> am_tx_size e \<le> mem_bytes (sdu_mem e) \<and>
     (lost = [] \<longrightarrow> bs_retx_size (bstatus e) = (\<Sum>s\<leftarrow>am_retransmit_list e. am_cost e s))"

abbreviation am_tx_ok :: "nr_rlc_sdu_segment_t list \<Rightarrow> nr_rlc_entity_am_t \<Rightarrow> bool" where
  "am_tx_ok lost e \<equiv> am_tx_inv [] lost e"

text \<open>The part of the entity that the invariant reads.\<close>

definition am_tx_view where
  "am_tx_view e = ((am_sn_field_length e, am_sn_modulus e, am_window_size e, am_tx_maxsize e), sdu_mem e,
     (am_tx_list e, am_wait_list e, am_retransmit_list e), bs_tx_size (bstatus e), bs_retx_size (bstatus e), am_tx_size e)"

lemma am_cost_cong: "am_sn_field_length e' = am_sn_field_length e \<Longrightarrow> am_cost e' = am_cost e"
  by (simp add: am_cost_def am_compute_pdu_header_size_def fun_eq_iff)

lemma am_tx_inv_view: "am_tx_view e' = am_tx_view e \<Longrightarrow> am_tx_inv fl lost e' = am_tx_inv fl lost e"
  using am_cost_cong [of e' e] by (simp add: am_tx_view_def am_tx_inv_def am_cfg_ok_def am_segs_def)

lemma am_cost_upd [simp]:
  "am_cost (e\<lparr>sdu_mem := m\<rparr>) = am_cost e" "am_cost (e\<lparr>stats := st\<rparr>) = am_cost e" "am_cost (e\<lparr>bstatus := b\<rparr>) = am_cost e"
  "am_cost (e\<lparr>am_tx_list := l\<rparr>) = am_cost e" "am_cost (e\<lparr>am_wait_list := l\<rparr>) = am_cost e"
  "am_cost (e\<lparr>am_retransmit_list := l\<rparr>) = am_cost e" "am_cost (e\<lparr>am_tx_next := n\<rparr>) = am_cost e"
  "am_cost (e\<lparr>am_tx_size := n\<rparr>) = am_cost e"
  by (rule am_cost_cong, simp)+

lemma am_header_size_bounds:
  "2 \<le> am_compute_pdu_header_size e s" "am_compute_pdu_header_size e s \<le> 5"
  by (auto simp: am_compute_pdu_header_size_def)

lemma am_tx_inv_live:
  assumes "am_tx_inv fl lost e" and "s \<in> set fl \<union> set (am_segs e) \<union> set lost"
  shows "\<exists>u. mem_sdu (sdu_mem e) (seg_sdu s) = Some u \<and> seg_within u s"
  using assms by (auto simp: am_tx_inv_def segs_ok_def)

lemma tx_segment_list_add_ok:
  assumes "\<forall>s \<in> set (x # l). \<exists>u. mem_sdu (sdu_mem e) (seg_sdu s) = Some u"
  shows "\<exists>l'. nr_rlc_tx_sdu_segment_list_add e l x = Inr l' \<and> mset l' = add_mset x (mset l)"
  using assms
proof (induction l)
  case (Cons y l)
  then obtain l' where "nr_rlc_tx_sdu_segment_list_add e l x = Inr l'" "mset l' = add_mset x (mset l)" by auto
  moreover obtain u v where "mem_sdu (sdu_mem e) (seg_sdu x) = Some u" "mem_sdu (sdu_mem e) (seg_sdu y) = Some v"
    using Cons.prems by auto
  ultimately show ?case by (auto simp: sdu_at_def)
qed simp

text \<open>A segment in flight comes to rest in the wait list.\<close>

lemma am_wait_add_ok:
  assumes "am_tx_inv [s] lost e"
  shows "\<exists>l. am_wait_add e s = Inr (e\<lparr>am_wait_list := l\<rparr>) \<and> mset l = add_mset s (mset (am_wait_list e)) \<and>
    am_tx_ok lost (e\<lparr>am_wait_list := l\<rparr>)"
proof -
  obtain u where u: "mem_sdu (sdu_mem e) (seg_sdu s) = Some u"
    using am_tx_inv_live [OF assms, of s] by auto
  have live: "\<exists>u. mem_sdu (sdu_mem e) (seg_sdu t) = Some u" if "t \<in> set (am_wait_list e)" for t
    using am_tx_inv_live [OF assms, of t] that by (auto simp: am_segs_def)
  then obtain l' where l': "nr_rlc_tx_sdu_segment_list_add e (am_wait_list e) s = Inr l'"
    "mset l' = add_mset s (mset (am_wait_list e))"
    using tx_segment_list_add_ok [of s "am_wait_list e" e] u by auto
  have "\<exists>l. am_wait_add e s = Inr (e\<lparr>am_wait_list := l\<rparr>) \<and> mset l = add_mset s (mset (am_wait_list e))"
  proof (cases "am_wait_list e = []")
    case False
    then obtain w where "mem_sdu (sdu_mem e) (seg_sdu (last (am_wait_list e))) = Some w"
      using live [of "last (am_wait_list e)"] by auto
    with u False l' show ?thesis by (auto simp: am_wait_add_def sdu_at_def Let_def)
  qed (use u in \<open>auto simp: am_wait_add_def sdu_at_def\<close>)
  then obtain l where l: "am_wait_add e s = Inr (e\<lparr>am_wait_list := l\<rparr>)" "mset l = add_mset s (mset (am_wait_list e))" by blast
  have set: "set l = insert s (set (am_wait_list e))"
    using l(2) by (metis set_mset_add_mset_insert set_mset_mset)
  have "am_tx_ok lost (e\<lparr>am_wait_list := l\<rparr>)"
    using assms mem_inv_perm [of "sdu_mem e" "[s] @ am_segs e @ lost" "am_segs (e\<lparr>am_wait_list := l\<rparr>) @ lost"] l(2) set
    by (auto simp: am_tx_inv_def am_segs_def am_cfg_ok_def segs_ok_def)
  with l show ?thesis by blast
qed


subsection \<open>Writing a PDU\<close>

text \<open>The header fields with the polling bit.\<close>

definition am_polled_fields :: "nr_rlc_entity_am_t \<Rightarrow> nr_rlc_sdu_segment_t \<Rightarrow> int \<Rightarrow> bool \<Rightarrow> (int \<times> nat) list" where
  "am_polled_fields e s sn p = (am_header_fields e s sn)[1 := (int_of_bool p, 1)]"

lemma am_header_fields_bits:
  assumes "am_cfg_ok e"
  shows "(\<Sum>(v, c)\<leftarrow>am_header_fields e s sn. c) = 8 * nat (am_compute_pdu_header_size e s)"
    and "\<forall>(v, c) \<in> set (am_header_fields e s sn). c \<le> 31"
  using assms by (auto simp: am_cfg_ok_def am_header_fields_def am_compute_pdu_header_size_def)

lemma bits_of_poll: "bits_of 8 (b OR 0x40 :: byte) = (bits_of 8 b)[1 := True]"
proof (rule nth_equalityI)
  fix i
  assume "i < length (bits_of 8 (b OR 0x40))"
  then have "i \<in> {0, 1, 2, 3, 4, 5, 6, 7}" by auto
  then show "bits_of 8 (b OR 0x40) ! i = (bits_of 8 b)[1 := True] ! i"
    by (auto simp: nth_bits_of bit_or_iff)
qed simp

lemma am_polled_bits:
  assumes "bytes_bits h = concat (map (\<lambda>(v, c). bits_of c v) (am_header_fields e s sn))" and "h \<noteq> []"
  shows "bytes_bits (h[0 := h ! 0 OR 0x40]) = concat (map (\<lambda>(v, c). bits_of c v) (am_polled_fields e s sn True))"
proof -
  obtain b r where h: "h = b # r" using assms(2) by (cases h) auto
  have "bytes_bits (h[0 := h ! 0 OR 0x40]) = (bytes_bits h)[1 := True]"
    by (simp add: h bytes_bits_def bits_of_poll list_update_append)
  then show ?thesis
    by (simp add: assms(1) am_header_fields_def am_polled_fields_def bits_of_def)
qed

lemma am_serialize_ok:
  assumes cfg: "am_cfg_ok e" and inv: "mem_inv (sdu_mem e) xs" and u: "mem_sdu (sdu_mem e) (seg_sdu s) = Some u"
    and within: "seg_within u s" and room: "am_cost e s \<le> int (length buffer)"
  shows "\<exists>h buffer' e'. am_serialize_sdu e s buffer p = Inr (am_cost e s, buffer', e') \<and> length buffer' = length buffer \<and>
    take (nat (am_cost e s)) buffer' = h @ seg_bytes (sdu_mem e) s \<and> int (length h) = am_compute_pdu_header_size e s \<and>
    bytes_bits h = concat (map (\<lambda>(v, c). bits_of c v) (am_polled_fields e s (sdu_sn u) p)) \<and>
    am_tx_view e' = am_tx_view e"
proof -
  let ?k = "nat (am_compute_pdu_header_size e s)"
  note hs = am_header_size_bounds [of e s]
  have size: "0 < seg_size s" "0 \<le> seg_so s" "seg_so s + seg_size s \<le> int (length (sdu_data u))"
    using within mem_inv_size [OF inv u] by (auto simp: seg_within_def)
  have room': "?k + nat (seg_size s) \<le> length buffer" using room hs size by (simp add: am_cost_def)
  from put_header [OF am_header_fields_bits(2,1) [OF cfg, of s "sdu_sn u"], of buffer] room'
  obtain enc where enc: "put_fields (am_header_fields e s (sdu_sn u)) (nr_rlc_pdu_encoder_init buffer) = Inr enc"
    "enc_byte enc = ?k" "length (enc_buffer enc) = length buffer"
    "bytes_bits (take ?k (enc_buffer enc)) =
       concat (map (\<lambda>(v, c). bits_of c v) (am_header_fields e s (sdu_sn u)))" by auto
  let ?d = "seg_bytes (sdu_mem e) s" and ?h = "take ?k (enc_buffer enc)"
  have d: "read_at (sdu_data u) (seg_so s) (seg_size s) = Inr ?d" "length ?d = nat (seg_size s)"
    using size u length_seg_bytes [OF inv u within] by (auto simp: read_at_def seg_bytes_def)
  let ?b = "?h @ ?d @ drop (?k + length ?d) (enc_buffer enc)"
  have b: "memcpy_at (enc_buffer enc) ?k ?d = Inr ?b"
    using room' enc(3) d(2) by (simp add: memcpy_at_def)
  have cost: "nat (am_cost e s) = ?k + length ?d"
    using hs size d(2) by (simp add: am_cost_def nat_add_distrib)
  have len: "length ?h = ?k" "?h \<noteq> []" "?b \<noteq> []" using enc(3) room' hs by auto
  show ?thesis
  proof (cases p)
    case True
    let ?h' = "?h[0 := ?h ! 0 OR 0x40]"
    have upd: "?b[0 := ?b ! 0 OR 0x40] = ?h' @ ?d @ drop (?k + length ?d) (enc_buffer enc)"
      using len by (simp add: list_update_append nth_append)
    have "\<exists>e'. am_serialize_sdu e s buffer p =
        Inr (am_cost e s, ?h' @ ?d @ drop (?k + length ?d) (enc_buffer enc), e') \<and> am_tx_view e' = am_tx_view e"
      using u enc(1,2) d(1) b hs True len(3) unfolding upd [symmetric]
      by (simp add: am_serialize_sdu_def sdu_at_def am_cost_def include_poll_def am_tx_view_def)
    then show ?thesis
      using am_polled_bits [OF enc(4) len(2)] enc(3) d(2) room' hs len(1) True cost
      by (intro exI [of _ ?h'] exI [of _ "?h' @ ?d @ drop (?k + length ?d) (enc_buffer enc)"]) auto
  next
    case False
    have "am_serialize_sdu e s buffer p = Inr (am_cost e s, ?b, e)"
      using u enc(1,2) d(1) b hs False by (simp add: am_serialize_sdu_def sdu_at_def am_cost_def)
    moreover have "am_polled_fields e s (sdu_sn u) p = am_header_fields e s (sdu_sn u)"
      using False by (simp add: am_polled_fields_def am_header_fields_def)
    ultimately show ?thesis
      using enc(3,4) d(2) room' hs len(1) cost
      by (intro exI [of _ ?h] exI [of _ ?b] exI [of _ e]) simp
  qed
qed


subsection \<open>Segmentation\<close>

lemma am_resegment_ok:
  assumes inv: "am_tx_inv [s] lost e" and fits: "am_compute_pdu_header_size e s + 1 \<le> n" "n < am_cost e s"
  shows "\<exists>u s1 s2. mem_sdu (sdu_mem e) (seg_sdu s) = Some u \<and>
    am_resegment e s n = Inr (e\<lparr>sdu_mem := sdu_put (sdu_mem e) (seg_sdu s) (u\<lparr>sdu_ref_count := sdu_ref_count u + 1\<rparr>)\<rparr>, s1, s2) \<and>
    am_tx_inv [s1, s2] lost (e\<lparr>sdu_mem := sdu_put (sdu_mem e) (seg_sdu s) (u\<lparr>sdu_ref_count := sdu_ref_count u + 1\<rparr>)\<rparr>) \<and>
    am_cost e s1 = n \<and> seg_sdu s1 = seg_sdu s \<and> seg_so s1 = seg_so s \<and> seg_is_first s1 = seg_is_first s \<and> \<not> seg_is_last s1 \<and>
    seg_bytes (sdu_mem e) s = seg_bytes (sdu_mem e) s1 @ seg_bytes (sdu_mem e) s2"
proof -
  obtain u where u: "mem_sdu (sdu_mem e) (seg_sdu s) = Some u" "seg_within u s"
    using am_tx_inv_live [OF inv, of s] by auto
  define k where "k = n - am_compute_pdu_header_size e s"
  define s1 where "s1 = s\<lparr>seg_size := k, seg_is_last := False\<rparr>"
  define s2 where "s2 = s\<lparr>seg_size := seg_size s - k, seg_so := seg_so s + k, seg_is_first := False\<rparr>"
  let ?u = "u\<lparr>sdu_ref_count := sdu_ref_count u + 1\<rparr>"
  let ?m = "sdu_put (sdu_mem e) (seg_sdu s) ?u"
  have k: "0 < k" "k < seg_size s" using fits by (auto simp: k_def am_cost_def)
  note split = seg_split(1,2) [OF u(2) k s1_def s2_def] seg_split(3) [OF u(2) k s1_def s2_def, of "sdu_mem e"]
  have mem: "mem_inv (sdu_mem e) (s # am_segs e @ lost)" "segs_ok (sdu_mem e) (am_segs e @ lost)"
    using inv by (auto simp: am_tx_inv_def)
  have "mem_inv ?m (s1 # s2 # am_segs e @ lost)" "mem_bytes ?m = mem_bytes (sdu_mem e)"
    by (rule split_segment_inv [OF mem(1) u(1)]; simp add: s1_def s2_def)+
  moreover have "segs_ok ?m (am_segs e @ lost)"
    by (rule put_sdu_segs_ok [OF mem(2) u(1)]) simp
  moreover have "seg_within ?u s1" "seg_within ?u s2" "seg_sdu s1 = seg_sdu s" "seg_sdu s2 = seg_sdu s"
    using split(1,2) by (simp_all add: seg_within_def s1_def s2_def)
  ultimately have "am_tx_inv [s1, s2] lost (e\<lparr>sdu_mem := ?m\<rparr>)"
    using inv by (simp add: am_tx_inv_def am_segs_def am_cfg_ok_def)
  moreover have "am_resegment e s n = Inr (e\<lparr>sdu_mem := ?m\<rparr>, s1, s2)"
    using u(1) by (simp add: am_resegment_def sdu_at_def Let_def s1_def s2_def k_def)
  moreover have "am_cost e s1 = n"
    by (simp add: am_cost_def s1_def k_def am_compute_pdu_header_size_def)
  ultimately show ?thesis
    using u(1) split(3) by (auto simp: s1_def)
qed


subsection \<open>Sending a segment\<close>

text \<open>A PDU that carries the segment \<open>x\<close> with sequence number \<open>sn\<close>.\<close>

definition am_pdu :: "nr_rlc_entity_am_t \<Rightarrow> nr_rlc_sdu_segment_t \<Rightarrow> int \<Rightarrow> byte list \<Rightarrow> bool" where
  "am_pdu e x sn pdu \<longleftrightarrow> (\<exists>h p. pdu = h @ seg_bytes (sdu_mem e) x \<and> int (length h) = am_compute_pdu_header_size e x \<and>
     bytes_bits h = concat (map (\<lambda>(v, c). bits_of c v) (am_polled_fields e x sn p)))"

text \<open>The segment \<open>x\<close> that is sent of \<open>s\<close> in a grant of \<open>n\<close> bytes: all of it, or a front that fills the grant.\<close>

definition am_piece :: "nr_rlc_entity_am_t \<Rightarrow> nr_rlc_sdu_segment_t \<Rightarrow> int \<Rightarrow> nr_rlc_sdu_segment_t \<Rightarrow> bool" where
  "am_piece e s n x \<longleftrightarrow> am_cost e s \<le> n \<and> x = s \<or>
     n < am_cost e s \<and> am_cost e x = n \<and> seg_sdu x = seg_sdu s \<and> seg_so x = seg_so s \<and> \<not> seg_is_last x \<and>
     (\<exists>rest. seg_bytes (sdu_mem e) s = seg_bytes (sdu_mem e) x @ rest)"

text \<open>What an operation may change of the memory while a segment is in flight.\<close>

definition am_same_sdus :: "nr_rlc_entity_am_t \<Rightarrow> nr_rlc_entity_am_t \<Rightarrow> bool" where
  "am_same_sdus e e' \<longleftrightarrow> am_sn_field_length e' = am_sn_field_length e \<and>
     (\<forall>t. seg_bytes (sdu_mem e') t = seg_bytes (sdu_mem e) t)"

lemma am_pdu_cong: "am_same_sdus e e' \<Longrightarrow> am_pdu e' = am_pdu e"
  by (simp add: fun_eq_iff am_same_sdus_def am_pdu_def am_compute_pdu_header_size_def am_polled_fields_def am_header_fields_def)

lemma am_piece_cong: "am_same_sdus e e' \<Longrightarrow> am_piece e' = am_piece e"
  using am_cost_cong [of e' e] by (simp add: fun_eq_iff am_same_sdus_def am_piece_def)

lemma am_tx_view_upd [simp]:
  "am_tx_view (e\<lparr>stats := st\<rparr>) = am_tx_view e" "am_tx_view (e\<lparr>am_force_poll := b\<rparr>) = am_tx_view e"
  "am_tx_view (e\<lparr>am_pdu_without_poll := i\<rparr>) = am_tx_view e" "am_tx_view (e\<lparr>am_byte_without_poll := i\<rparr>) = am_tx_view e"
  "am_tx_view (record_waited_time now u e) = am_tx_view e"
  by (simp_all add: am_tx_view_def record_waited_time_def)

lemma am_tx_inv_upd [simp]:
  "am_tx_inv fl lost (e\<lparr>stats := st\<rparr>) = am_tx_inv fl lost e"
  "am_tx_inv fl lost (record_waited_time now u e) = am_tx_inv fl lost e"
  by (rule am_tx_inv_view, simp)+

lemma am_take_force_poll_view: "am_take_force_poll e p = (e2, q) \<Longrightarrow> am_tx_view e2 = am_tx_view e"
  by (auto simp: am_take_force_poll_def split: if_splits)

lemma am_count_poll_view: "am_count_poll e s = (e2, q) \<Longrightarrow> am_tx_view e2 = am_tx_view e"
  by (auto simp: am_count_poll_def Let_def)

text \<open>Once the segment rests in the wait list, writing it succeeds whatever the polling bookkeeping did before.\<close>

lemma am_serialize_waiting:
  assumes inv: "am_tx_inv [x] lost e" and room: "am_cost e x \<le> int (length buffer)"
    and u: "mem_sdu (sdu_mem e) (seg_sdu x) = Some u"
    and wait: "am_tx_ok lost (e\<lparr>am_wait_list := l\<rparr>)" and view: "am_tx_view e2 = am_tx_view (e\<lparr>am_wait_list := l\<rparr>)"
  shows "\<exists>buffer' e'. am_serialize_sdu e2 x buffer p = Inr (am_cost e x, buffer', e') \<and> length buffer' = length buffer \<and>
    am_pdu e x (sdu_sn u) (take (nat (am_cost e x)) buffer') \<and> am_tx_ok lost e' \<and> sdu_mem e' = sdu_mem e"
proof -
  have inv2: "am_tx_ok lost e2" using wait am_tx_inv_view [OF view] by simp
  have same: "sdu_mem e2 = sdu_mem e" "am_sn_field_length e2 = am_sn_field_length e"
    using view by (simp_all add: am_tx_view_def)
  have eqs: "am_cost e2 x = am_cost e x" "am_compute_pdu_header_size e2 x = am_compute_pdu_header_size e x"
    "am_polled_fields e2 x (sdu_sn u) p = am_polled_fields e x (sdu_sn u) p"
    using same am_cost_cong [of e2 e] by (simp_all add: am_compute_pdu_header_size_def am_polled_fields_def am_header_fields_def)
  have "am_cfg_ok e2" "mem_inv (sdu_mem e2) (am_segs e2 @ lost)" using inv2 by (simp_all add: am_tx_inv_def)
  moreover have "seg_within u x" using am_tx_inv_live [OF inv, of x] u by auto
  ultimately obtain h buffer' e' where
    r: "am_serialize_sdu e2 x buffer p = Inr (am_cost e x, buffer', e')" "length buffer' = length buffer"
    "take (nat (am_cost e x)) buffer' = h @ seg_bytes (sdu_mem e) x" "int (length h) = am_compute_pdu_header_size e x"
    "bytes_bits h = concat (map (\<lambda>(v, c). bits_of c v) (am_polled_fields e x (sdu_sn u) p))" "am_tx_view e' = am_tx_view e2"
    using am_serialize_ok [of e2 _ x u buffer p] u room same eqs by fastforce
  have "am_tx_ok lost e'" using inv2 am_tx_inv_view [OF r(6)] by simp
  moreover have "sdu_mem e' = sdu_mem e" using r(6) same by (simp add: am_tx_view_def)
  ultimately show ?thesis using r unfolding am_pdu_def by blast
qed

lemma am_retx_send_ok:
  assumes inv: "am_tx_inv [x] lost e" and room: "am_cost e x \<le> int (length buffer)"
    and u: "mem_sdu (sdu_mem e) (seg_sdu x) = Some u"
  shows "\<exists>buffer' e'. am_retx_send buffer e x = Inr (am_cost e x, buffer', e') \<and> length buffer' = length buffer \<and>
    am_pdu e x (sdu_sn u) (take (nat (am_cost e x)) buffer') \<and> am_tx_ok lost e' \<and> sdu_mem e' = sdu_mem e"
proof -
  obtain l where l: "am_wait_add e x = Inr (e\<lparr>am_wait_list := l\<rparr>)" "am_tx_ok lost (e\<lparr>am_wait_list := l\<rparr>)"
    using am_wait_add_ok [OF inv] by blast
  obtain e2 p where f: "am_take_force_poll (e\<lparr>am_wait_list := l\<rparr>) (check_poll_after_pdu_assembly (e\<lparr>am_wait_list := l\<rparr>)) = (e2, p)"
    by fastforce
  show ?thesis
    using am_serialize_waiting [OF inv room u l(2) am_take_force_poll_view [OF f], of p] l(1) f
    by (auto simp: am_retx_send_def Let_def)
qed

lemma am_tx_send_ok:
  assumes inv: "am_tx_inv [x] lost e" and room: "am_cost e x \<le> int (length buffer)"
    and u: "mem_sdu (sdu_mem e) (seg_sdu x) = Some u"
  shows "\<exists>buffer' e'. am_tx_send now buffer e x = Inr (am_cost e x, buffer', e') \<and> length buffer' = length buffer \<and>
    am_pdu e x (sdu_sn u) (take (nat (am_cost e x)) buffer') \<and> am_tx_ok lost e' \<and> sdu_mem e' = sdu_mem e"
proof -
  obtain l where l: "am_wait_add e x = Inr (e\<lparr>am_wait_list := l\<rparr>)" "am_tx_ok lost (e\<lparr>am_wait_list := l\<rparr>)"
    using am_wait_add_ok [OF inv] by blast
  obtain e1 p where c: "am_count_poll (e\<lparr>am_wait_list := l\<rparr>) x = (e1, p)" by fastforce
  obtain e2 q where f: "am_take_force_poll e1 p = (e2, q)" by fastforce
  have "am_tx_view e2 = am_tx_view (e\<lparr>am_wait_list := l\<rparr>)"
    using am_count_poll_view [OF c] am_take_force_poll_view [OF f] by simp
  from am_serialize_waiting [OF inv room u l(2) this, of q] obtain buffer' e' where
    "am_serialize_sdu e2 x buffer q = Inr (am_cost e x, buffer', e')" "length buffer' = length buffer"
    "am_pdu e x (sdu_sn u) (take (nat (am_cost e x)) buffer')" "am_tx_ok lost e'" "sdu_mem e' = sdu_mem e" by blast
  then show ?thesis
    using l(1) c f u by (simp add: am_tx_send_def sdu_at_def)
qed


subsection \<open>Taking segments off the lists\<close>

lemma am_take_retransmit:
  assumes "am_tx_ok lost e" and "am_retransmit_list e = s # rest"
  shows "am_tx_inv [s] lost (e\<lparr>am_retransmit_list := rest,
    bstatus := (bstatus e)\<lparr>bs_retx_size := bs_retx_size (bstatus e) - am_cost e s\<rparr>\<rparr>)"
proof -
  have "mem_inv (sdu_mem e) ([s] @ (am_tx_list e @ am_wait_list e @ rest) @ lost)"
    using assms mem_inv_perm [of "sdu_mem e" "am_segs e @ lost"] by (auto simp: am_tx_inv_def am_segs_def)
  then show ?thesis
    using assms by (auto simp: am_tx_inv_def am_segs_def am_cfg_ok_def)
qed

lemma am_take_tx:
  assumes "am_tx_ok lost e" and "am_tx_list e = s # rest"
  shows "am_tx_inv [s] lost (e\<lparr>am_tx_list := rest,
    bstatus := (bstatus e)\<lparr>bs_tx_size := bs_tx_size (bstatus e) - am_cost e s\<rparr>\<rparr>)"
  using assms by (auto simp: am_tx_inv_def am_segs_def am_cfg_ok_def)

lemma am_put_retransmit:
  assumes "am_tx_inv [s1, s2] lost e"
  shows "am_tx_inv [s1] lost (e\<lparr>am_retransmit_list := s2 # am_retransmit_list e,
    bstatus := (bstatus e)\<lparr>bs_retx_size := bs_retx_size (bstatus e) + am_cost e s2\<rparr>, stats := st\<rparr>)"
proof -
  have "mem_inv (sdu_mem e) ([s1] @ (am_tx_list e @ am_wait_list e @ s2 # am_retransmit_list e) @ lost)"
    using assms mem_inv_perm [of "sdu_mem e" "[s1, s2] @ am_segs e @ lost"] by (auto simp: am_tx_inv_def am_segs_def)
  then show ?thesis
    using assms by (auto simp: am_tx_inv_def am_segs_def am_cfg_ok_def)
qed

lemma am_put_tx:
  assumes "am_tx_inv [s1, s2] lost e"
  shows "am_tx_inv [s1] lost (e\<lparr>am_tx_list := s2 # am_tx_list e, stats := st,
    bstatus := (bstatus e)\<lparr>bs_tx_size := bs_tx_size (bstatus e) + am_cost e s2\<rparr>\<rparr>)"
  using assms by (auto simp: am_tx_inv_def am_segs_def am_cfg_ok_def)

text \<open>The facts that both ways of cutting share.\<close>

lemma am_cut_facts:
  assumes inv: "am_tx_inv [s] lost e" and fits: "am_compute_pdu_header_size e s + 1 \<le> n" "n < am_cost e s"
  shows "\<exists>m s1 s2 u1. am_resegment e s n = Inr (e\<lparr>sdu_mem := m\<rparr>, s1, s2) \<and> am_tx_inv [s1, s2] lost (e\<lparr>sdu_mem := m\<rparr>) \<and>
    am_cost e s1 = n \<and> am_piece e s n s1 \<and> (\<forall>t. seg_bytes m t = seg_bytes (sdu_mem e) t) \<and>
    mem_sdu m (seg_sdu s1) = Some u1 \<and> (\<exists>u. mem_sdu (sdu_mem e) (seg_sdu s) = Some u \<and> sdu_sn u1 = sdu_sn u)"
proof -
  from am_resegment_ok [OF assms] obtain u s1 s2 where u: "mem_sdu (sdu_mem e) (seg_sdu s) = Some u"
    and r: "am_resegment e s n = Inr (e\<lparr>sdu_mem := sdu_put (sdu_mem e) (seg_sdu s) (u\<lparr>sdu_ref_count := sdu_ref_count u + 1\<rparr>)\<rparr>, s1, s2)"
      "am_tx_inv [s1, s2] lost (e\<lparr>sdu_mem := sdu_put (sdu_mem e) (seg_sdu s) (u\<lparr>sdu_ref_count := sdu_ref_count u + 1\<rparr>)\<rparr>)"
    and s1: "am_cost e s1 = n" "seg_sdu s1 = seg_sdu s" "seg_so s1 = seg_so s" "\<not> seg_is_last s1"
      "seg_bytes (sdu_mem e) s = seg_bytes (sdu_mem e) s1 @ seg_bytes (sdu_mem e) s2" by blast
  let ?u = "u\<lparr>sdu_ref_count := sdu_ref_count u + 1\<rparr>"
  have "am_piece e s n s1" using s1 fits(2) by (auto simp: am_piece_def)
  moreover have "\<forall>t. seg_bytes (sdu_put (sdu_mem e) (seg_sdu s) ?u) t = seg_bytes (sdu_mem e) t"
    using put_sdu_bytes [OF u, of ?u] by simp
  ultimately show ?thesis
    using r s1 u by (intro exI [of _ "sdu_put (sdu_mem e) (seg_sdu s) ?u"] exI [of _ s1] exI [of _ s2] exI [of _ ?u]) auto
qed

lemma am_retx_cut_ok:
  assumes inv: "am_tx_inv [s] lost e" and fits: "am_compute_pdu_header_size e s + 1 \<le> n"
  shows "\<exists>e' x u u'. am_retx_cut e s n = Inr (e', x) \<and> am_tx_inv [x] lost e' \<and> am_same_sdus e e' \<and> am_cost e x \<le> n \<and>
    am_piece e s n x \<and> mem_sdu (sdu_mem e') (seg_sdu x) = Some u' \<and> mem_sdu (sdu_mem e) (seg_sdu s) = Some u \<and> sdu_sn u' = sdu_sn u"
proof (cases "am_cost e s \<le> n")
  case True
  then show ?thesis
    using am_tx_inv_live [OF inv, of s] inv by (auto simp: am_retx_cut_def am_cost_def am_same_sdus_def am_piece_def)
next
  case False
  then obtain m s1 s2 u1 u where r: "am_resegment e s n = Inr (e\<lparr>sdu_mem := m\<rparr>, s1, s2)" "am_tx_inv [s1, s2] lost (e\<lparr>sdu_mem := m\<rparr>)"
    and s1: "am_cost e s1 = n" "am_piece e s n s1" "\<forall>t. seg_bytes m t = seg_bytes (sdu_mem e) t"
    and u: "mem_sdu m (seg_sdu s1) = Some u1" "mem_sdu (sdu_mem e) (seg_sdu s) = Some u" "sdu_sn u1 = sdu_sn u"
    using am_cut_facts [OF assms] by (auto simp: not_le)
  then show ?thesis
    using False am_put_retransmit [OF r(2)] by (simp add: am_retx_cut_def am_cost_def [symmetric] am_same_sdus_def)
qed

lemma am_tx_cut_ok:
  assumes inv: "am_tx_inv [s] lost e" and fits: "am_compute_pdu_header_size e s + 1 \<le> n"
  shows "\<exists>e' x u u'. am_tx_cut e s n = Inr (e', x) \<and> am_tx_inv [x] lost e' \<and> am_same_sdus e e' \<and> am_cost e x \<le> n \<and>
    am_piece e s n x \<and> mem_sdu (sdu_mem e') (seg_sdu x) = Some u' \<and> mem_sdu (sdu_mem e) (seg_sdu s) = Some u \<and> sdu_sn u' = sdu_sn u"
proof (cases "am_cost e s \<le> n")
  case True
  then show ?thesis
    using am_tx_inv_live [OF inv, of s] inv by (auto simp: am_tx_cut_def am_cost_def am_same_sdus_def am_piece_def)
next
  case False
  then obtain m s1 s2 u1 u where r: "am_resegment e s n = Inr (e\<lparr>sdu_mem := m\<rparr>, s1, s2)" "am_tx_inv [s1, s2] lost (e\<lparr>sdu_mem := m\<rparr>)"
    and s1: "am_cost e s1 = n" "am_piece e s n s1" "\<forall>t. seg_bytes m t = seg_bytes (sdu_mem e) t"
    and u: "mem_sdu m (seg_sdu s1) = Some u1" "mem_sdu (sdu_mem e) (seg_sdu s) = Some u" "sdu_sn u1 = sdu_sn u"
    using am_cut_facts [OF assms] by (auto simp: not_le)
  then show ?thesis
    using False am_put_tx [OF r(2)] by (simp add: am_tx_cut_def am_cost_def [symmetric] am_same_sdus_def)
qed


subsection \<open>Retransmission and first transmission\<close>

lemma am_piece_positive: "am_piece e s n x \<Longrightarrow> 0 < seg_size s \<Longrightarrow> am_compute_pdu_header_size e s + 1 \<le> n \<Longrightarrow> 0 < am_cost e x"
  using am_header_size_bounds [of e s] by (auto simp: am_piece_def am_cost_def)

lemma generate_retx_ok:
  assumes inv: "am_tx_ok lost e" and l: "am_retransmit_list e = s # rest"
    and room: "am_compute_pdu_header_size e s + 1 \<le> int (length buffer)"
  shows "\<exists>buffer' e' x u. generate_retx_pdu buffer e = Inr (am_cost e x, buffer', e') \<and> am_tx_ok lost e' \<and>
    length buffer' = length buffer \<and> 0 < am_cost e x \<and> am_cost e x \<le> int (length buffer) \<and>
    am_piece e s (int (length buffer)) x \<and> mem_sdu (sdu_mem e) (seg_sdu s) = Some u \<and>
    am_pdu e x (sdu_sn u) (take (nat (am_cost e x)) buffer')"
proof -
  define e1 where "e1 = e\<lparr>am_retransmit_list := rest,
    bstatus := (bstatus e)\<lparr>bs_retx_size := bs_retx_size (bstatus e) - am_cost e s\<rparr>\<rparr>"
  have inv1: "am_tx_inv [s] lost e1" unfolding e1_def by (rule am_take_retransmit [OF inv l])
  have same: "am_same_sdus e e1" and cost: "am_cost e1 = am_cost e" and mem: "sdu_mem e1 = sdu_mem e"
    and hs: "am_compute_pdu_header_size e1 s = am_compute_pdu_header_size e s"
    by (simp_all add: e1_def am_same_sdus_def am_compute_pdu_header_size_def)
  obtain e2 x u u' where c: "am_retx_cut e1 s (int (length buffer)) = Inr (e2, x)" "am_tx_inv [x] lost e2" "am_same_sdus e1 e2"
    "am_cost e1 x \<le> int (length buffer)" "am_piece e1 s (int (length buffer)) x"
    and u: "mem_sdu (sdu_mem e2) (seg_sdu x) = Some u'" "mem_sdu (sdu_mem e1) (seg_sdu s) = Some u" "sdu_sn u' = sdu_sn u"
    using am_retx_cut_ok [OF inv1, of "int (length buffer)"] room hs by auto
  have cost2: "am_cost e2 = am_cost e" using c(3) cost am_cost_cong [of e2 e1] by (simp add: am_same_sdus_def)
  obtain buffer' e' where "am_retx_send buffer e2 x = Inr (am_cost e x, buffer', e')" "length buffer' = length buffer"
    "am_pdu e2 x (sdu_sn u) (take (nat (am_cost e x)) buffer')" "am_tx_ok lost e'"
    using am_retx_send_ok [OF c(2) _ u(1), of buffer] c(4) cost cost2 u(3) by auto
  moreover have "am_pdu e2 = am_pdu e" using am_pdu_cong [OF c(3)] am_pdu_cong [OF same] by simp
  moreover have piece: "am_piece e s (int (length buffer)) x" using c(5) am_piece_cong [OF same] by simp
  moreover have "0 < am_cost e x"
    using am_piece_positive [OF piece _ room] am_tx_inv_live [OF inv1, of s] by (auto simp: seg_within_def)
  moreover have "generate_retx_pdu buffer e = am_retx_send buffer e2 x"
    using l room c(1) by (simp add: generate_retx_pdu_def Let_def e1_def am_cost_def)
  ultimately show ?thesis using u(2) mem c(4) cost by auto
qed

lemma am_assign_sn_ok:
  assumes inv: "am_tx_inv [s] lost e" and u: "mem_sdu (sdu_mem e) (seg_sdu s) = Some u"
  shows "\<exists>e' u'. am_assign_sn e s = Inr e' \<and> am_tx_inv [s] lost e' \<and> am_same_sdus e e' \<and>
    mem_sdu (sdu_mem e') (seg_sdu s) = Some u' \<and> sdu_sn u' = (if sdu_sn u = - 1 then am_tx_next e else sdu_sn u)"
proof (cases "sdu_sn u = - 1")
  case True
  let ?u = "u\<lparr>sdu_sn := am_tx_next e\<rparr>" and ?m = "sdu_put (sdu_mem e) (seg_sdu s) (u\<lparr>sdu_sn := am_tx_next e\<rparr>)"
  have mem: "mem_inv (sdu_mem e) ([s] @ am_segs e @ lost)" "segs_ok (sdu_mem e) ([s] @ am_segs e @ lost)"
    using inv by (simp_all add: am_tx_inv_def)
  have "mem_inv ?m ([s] @ am_segs e @ lost)" "mem_bytes ?m = mem_bytes (sdu_mem e)"
    by (rule put_sdu_inv [OF mem(1) u]; simp)+
  moreover have "segs_ok ?m ([s] @ am_segs e @ lost)" by (rule put_sdu_segs_ok [OF mem(2) u]) simp
  ultimately have "am_tx_inv [s] lost (e\<lparr>sdu_mem := ?m, am_tx_next := (am_tx_next e + 1) mod am_sn_modulus e\<rparr>)"
    using inv by (simp add: am_tx_inv_def am_segs_def am_cfg_ok_def)
  moreover have "\<forall>t. seg_bytes ?m t = seg_bytes (sdu_mem e) t" using put_sdu_bytes [OF u, of ?u] by simp
  ultimately show ?thesis using True u by (simp add: am_assign_sn_def sdu_at_def am_same_sdus_def)
qed (use inv u in \<open>simp add: am_assign_sn_def sdu_at_def am_same_sdus_def\<close>)

lemma am_generate_tx_ok:
  assumes inv: "am_tx_ok lost e" and stall: "\<not> is_window_stalling e" and l: "am_tx_list e = s # rest"
    and room: "am_compute_pdu_header_size e s + 1 \<le> int (length buffer)"
  shows "\<exists>buffer' e' x u. am_generate_tx_pdu now buffer e = Inr (am_cost e x, buffer', e') \<and> am_tx_ok lost e' \<and>
    length buffer' = length buffer \<and> 0 < am_cost e x \<and> am_cost e x \<le> int (length buffer) \<and>
    am_piece e s (int (length buffer)) x \<and> mem_sdu (sdu_mem e) (seg_sdu s) = Some u \<and>
    am_pdu e x (if sdu_sn u = - 1 then am_tx_next e else sdu_sn u) (take (nat (am_cost e x)) buffer')"
proof -
  define e0 where "e0 = e\<lparr>am_tx_list := rest,
    bstatus := (bstatus e)\<lparr>bs_tx_size := bs_tx_size (bstatus e) - am_cost e s\<rparr>\<rparr>"
  have inv0: "am_tx_inv [s] lost e0" unfolding e0_def by (rule am_take_tx [OF inv l])
  obtain u where u: "mem_sdu (sdu_mem e) (seg_sdu s) = Some u" "seg_within u s"
    using am_tx_inv_live [OF inv0, of s] by (auto simp: e0_def)
  then obtain e1 u1 where a: "am_assign_sn e0 s = Inr e1" "am_tx_inv [s] lost e1" "am_same_sdus e0 e1"
    "mem_sdu (sdu_mem e1) (seg_sdu s) = Some u1" "sdu_sn u1 = (if sdu_sn u = - 1 then am_tx_next e else sdu_sn u)"
    using am_assign_sn_ok [OF inv0, of u] by (auto simp: e0_def)
  have same: "am_same_sdus e e1" using a(3) by (simp add: am_same_sdus_def e0_def)
  then have cost: "am_cost e1 = am_cost e" and hs: "am_compute_pdu_header_size e1 s = am_compute_pdu_header_size e s"
    using am_cost_cong [of e1 e] by (simp_all add: am_same_sdus_def am_compute_pdu_header_size_def)
  obtain e2 x u' where c: "am_tx_cut e1 s (int (length buffer)) = Inr (e2, x)" "am_tx_inv [x] lost e2" "am_same_sdus e1 e2"
    "am_cost e1 x \<le> int (length buffer)" "am_piece e1 s (int (length buffer)) x"
    and u': "mem_sdu (sdu_mem e2) (seg_sdu x) = Some u'" "sdu_sn u' = sdu_sn u1"
    using am_tx_cut_ok [OF a(2), of "int (length buffer)"] room hs a(4) by auto
  have cost2: "am_cost e2 = am_cost e" using c(3) cost am_cost_cong [of e2 e1] by (simp add: am_same_sdus_def)
  obtain buffer' e' where "am_tx_send now buffer e2 x = Inr (am_cost e x, buffer', e')" "length buffer' = length buffer"
    "am_pdu e2 x (sdu_sn u1) (take (nat (am_cost e x)) buffer')" "am_tx_ok lost e'"
    using am_tx_send_ok [OF c(2) _ u'(1), of buffer now] c(4) cost cost2 u'(2) by auto
  moreover have "am_pdu e2 = am_pdu e" using am_pdu_cong [OF c(3)] am_pdu_cong [OF same] by simp
  moreover have piece: "am_piece e s (int (length buffer)) x" using c(5) am_piece_cong [OF same] by simp
  moreover have "0 < am_cost e x" using am_piece_positive [OF piece _ room] u(2) by (auto simp: seg_within_def)
  moreover have "am_generate_tx_pdu now buffer e = am_tx_send now buffer e2 x"
    using l room stall a(1) c(1) by (simp add: am_generate_tx_pdu_def Let_def e0_def am_cost_def)
  ultimately show ?thesis using u(1) a(5) c(4) cost by auto
qed

text \<open>Both calls do nothing when they cannot send.\<close>

lemma am_generate_idle:
  "am_retransmit_list e = s # rest \<Longrightarrow> \<not> am_compute_pdu_header_size e s + 1 \<le> int (length buffer) \<Longrightarrow>
     generate_retx_pdu buffer e = Inr (0, buffer, e)"
  "is_window_stalling e \<Longrightarrow> am_generate_tx_pdu now buffer e = Inr (0, buffer, e)"
  "am_tx_list e = [] \<Longrightarrow> am_generate_tx_pdu now buffer e = Inr (0, buffer, e)"
  "am_tx_list e = s # rest \<Longrightarrow> \<not> am_compute_pdu_header_size e s + 1 \<le> int (length buffer) \<Longrightarrow>
     am_generate_tx_pdu now buffer e = Inr (0, buffer, e)"
  by (simp_all add: generate_retx_pdu_def am_generate_tx_pdu_def Let_def)

lemma generate_retx_inv:
  assumes "am_tx_ok lost e" and "am_retransmit_list e \<noteq> []"
  shows "\<exists>ret buffer' e'. generate_retx_pdu buffer e = Inr (ret, buffer', e') \<and> am_tx_ok lost e' \<and>
    length buffer' = length buffer \<and> 0 \<le> ret \<and> ret \<le> int (length buffer) \<and> (ret = 0 \<longrightarrow> buffer' = buffer \<and> e' = e)"
proof -
  obtain s rest where l: "am_retransmit_list e = s # rest" using assms(2) by (cases "am_retransmit_list e") auto
  show ?thesis
  proof (cases "am_compute_pdu_header_size e s + 1 \<le> int (length buffer)")
    case True
    then show ?thesis using generate_retx_ok [OF assms(1) l True] by (metis less_le)
  qed (use am_generate_idle(1) [OF l] assms(1) in simp)
qed

lemma am_generate_tx_inv:
  assumes "am_tx_ok lost e"
  shows "\<exists>ret buffer' e'. am_generate_tx_pdu now buffer e = Inr (ret, buffer', e') \<and> am_tx_ok lost e' \<and>
    length buffer' = length buffer \<and> 0 \<le> ret \<and> ret \<le> int (length buffer)"
proof (cases "is_window_stalling e \<or> am_tx_list e = []")
  case False
  then obtain s rest where l: "am_tx_list e = s # rest" by (cases "am_tx_list e") auto
  show ?thesis
  proof (cases "am_compute_pdu_header_size e s + 1 \<le> int (length buffer)")
    case True
    then show ?thesis using am_generate_tx_ok [OF assms _ l True] False by (metis less_le)
  qed (use am_generate_idle(4) [OF l] assms in simp)
qed (use am_generate_idle(2,3) assms in auto)

end
