(* ===== verification/Rlc_Am_Report.thy ===== *)
theory Rlc_Am_Report
  imports Rlc_Am_Tx
begin

text \<open>
  The status report of the acknowledged mode as it is written: it always succeeds, it stays within the grant, and
  its length is the one that \<open>buffer_status\<close> announces to the MAC, which computes it separately
  (\<open>status_size\<close>).
\<close>

definition st_ok :: "status_state \<Rightarrow> bool" where
  "st_ok s \<longleftrightarrow> enc_ok (st_enc s) \<and> enc_bit (st_enc s) = 0 \<and> fst (st_e1 s) < enc_byte (st_enc s) \<and>
     (\<forall>i. st_so_end s = Some i \<longrightarrow> i + 1 < enc_byte (st_enc s))"

lemma nack_size_bounds: "2 \<le> nack_size e n" "nack_size e n \<le> 8"
  by (auto simp: nack_size_def Let_def)

lemma nack_fields_bits:
  assumes "am_cfg_ok e"
  shows "(\<Sum>(v, c)\<leftarrow>nack_fields e n k. c) = 8 * nat (nack_size e n)" and "\<forall>(v, c) \<in> set (nack_fields e n k). c \<le> 31"
    and "nack_bits e n div 8 = nack_size e n"
  using assms by (auto simp: am_cfg_ok_def nack_fields_def nack_size_def nack_bits_def Let_def)

lemma enc_aligned:
  assumes "enc_ok e" and "enc_pos e = 8 * k"
  shows "enc_bit e = 0" and "enc_byte e = k"
proof -
  have "enc_bit e < 8" "8 * enc_byte e + enc_bit e = 8 * k" using assms by (auto simp: enc_ok_def enc_pos_def)
  then show "enc_bit e = 0" "enc_byte e = k" by presburger+
qed

lemma am_put_nack_ok:
  assumes cfg: "am_cfg_ok e" and ok: "st_ok s" and room: "int (enc_byte (st_enc s)) + nack_size e n \<le> int (enc_size (st_enc s))"
  shows "\<exists>s'. am_put_nack e n k s = Inr s' \<and> st_ok s' \<and> enc_size (st_enc s') = enc_size (st_enc s) \<and>
    int (enc_byte (st_enc s')) = int (enc_byte (st_enc s)) + nack_size e n \<and> st_truncated s' = st_truncated s"
proof -
  let ?enc = "st_enc s"
  note nb = nack_size_bounds [of e n]
  have enc: "enc_ok ?enc" "enc_bit ?enc = 0" "fst (st_e1 s) < length (enc_buffer ?enc)"
    using ok by (auto simp: st_ok_def enc_ok_def)
  then obtain b where b: "set_bit_at (enc_buffer ?enc) (fst (st_e1 s)) (snd (st_e1 s)) = Inr b" "length b = length (enc_buffer ?enc)"
    by (simp add: set_bit_at_def)
  let ?enc1 = "?enc\<lparr>enc_buffer := b\<rparr>"
  have ok1: "enc_ok ?enc1" using enc(1) b(2) by (simp add: enc_ok_def)
  have pos: "enc_pos ?enc1 = 8 * enc_byte ?enc" using enc(2) by (simp add: enc_pos_def)
  have "enc_byte ?enc + nat (nack_size e n) \<le> enc_size ?enc" using room nb by linarith
  then obtain enc' where put: "put_fields (nack_fields e n k) ?enc1 = Inr enc'"
    using put_fields_room [OF ok1 nack_fields_bits(2) [OF cfg, of n k]] nack_fields_bits(1) [OF cfg, of n k] pos by auto
  from put_fields_ok [OF ok1 put] pos nack_fields_bits(1) [OF cfg, of n k]
  have e': "enc_ok enc'" "enc_pos enc' = 8 * (enc_byte ?enc + nat (nack_size e n))" "enc_size enc' = enc_size ?enc" by auto
  then have byte: "enc_bit enc' = 0" "enc_byte enc' = enc_byte ?enc + nat (nack_size e n)"
    using enc_aligned [OF e'(1,2)] by simp_all
  then show ?thesis
    using b(1) put e'(1,3) nb
    by (auto simp: am_put_nack_def Let_def st_ok_def get_e1_position_def nack_size_def)
qed

declare generate_missing.simps [simp del] missing_size.simps [simp del]

lemma generate_missing_ok:
  assumes "am_cfg_ok e" and "st_ok s"
  shows "\<exists>stop s' rc. generate_missing e m sn k s = Inr (stop, s') \<and> st_ok s' \<and> enc_size (st_enc s') = enc_size (st_enc s) \<and>
    missing_size e m sn k rc0 (int (enc_byte (st_enc s))) (int (enc_size (st_enc s))) = (stop, rc, int (enc_byte (st_enc s'))) \<and>
    rc0 \<le> rc \<and> (0 < k \<and> \<not> stop \<longrightarrow> rc0 < rc) \<and> (st_truncated s' \<longrightarrow> stop \<or> st_truncated s)"
  using assms(2)
proof (induction "nat k" arbitrary: sn k s rc0 rule: less_induct)
  case less
  obtain n c where n: "nack_range e m sn k = (n, c)" by fastforce
  show ?case
  proof (cases "k \<le> 0")
    case True
    then show ?thesis
      using less.prems generate_missing.simps [of e m sn k s] missing_size.simps [of e m sn k rc0] by auto
  next
    case pos: False
    then have c: "0 < c" using n by (auto simp: nack_range_def Let_def split: if_splits)
    show ?thesis
    proof (cases "int (enc_byte (st_enc s)) + nack_size e n > int (enc_size (st_enc s))")
      case True
      then show ?thesis
        using less.prems pos n generate_missing.simps [of e m sn k s] missing_size.simps [of e m sn k rc0]
        by (auto simp: st_ok_def)
    next
      case False
      then obtain s1 where s1: "am_put_nack e n c s = Inr s1" "st_ok s1" "enc_size (st_enc s1) = enc_size (st_enc s)"
        "int (enc_byte (st_enc s1)) = int (enc_byte (st_enc s)) + nack_size e n" "st_truncated s1 = st_truncated s"
        using am_put_nack_ok [OF assms(1) less.prems, of n c] by (auto simp: not_less)
      have "nat (k - c) < nat k" using pos c by simp
      from less.hyps [OF this s1(2), of "(sn + c) mod am_sn_modulus e" "rc0 + 1"] obtain stop s' rc where
        r: "generate_missing e m ((sn + c) mod am_sn_modulus e) (k - c) s1 = Inr (stop, s')" "st_ok s'"
          "enc_size (st_enc s') = enc_size (st_enc s1)"
          "missing_size e m ((sn + c) mod am_sn_modulus e) (k - c) (rc0 + 1) (int (enc_byte (st_enc s1))) (int (enc_size (st_enc s1)))
             = (stop, rc, int (enc_byte (st_enc s')))" "rc0 + 1 \<le> rc" "st_truncated s' \<longrightarrow> stop \<or> st_truncated s1" by blast
      have "generate_missing e m sn k s = Inr (stop, s')"
        using pos False n s1(1) r(1) generate_missing.simps [of e m sn k s] by simp
      moreover have "missing_size e m sn k rc0 (int (enc_byte (st_enc s))) (int (enc_size (st_enc s))) =
          (stop, rc, int (enc_byte (st_enc s')))"
        using pos False n s1(3,4) r(4) nack_fields_bits(3) [OF assms(1), of n] missing_size.simps [of e m sn k rc0] by simp
      ultimately show ?thesis using r s1 by auto
    qed
  qed
qed


subsection \<open>The missing parts\<close>

definition am_sn_ok :: "nr_rlc_entity_am_t \<Rightarrow> int \<Rightarrow> bool" where
  "am_sn_ok e sn \<longleftrightarrow> 0 \<le> sn \<and> sn < am_sn_modulus e"

definition am_rx_range :: "nr_rlc_entity_am_t \<Rightarrow> nr_rlc_pdu_t list \<Rightarrow> bool" where
  "am_rx_range e l \<longleftrightarrow> am_sn_ok e (am_rx_next e) \<and> am_sn_ok e (am_rx_highest_status e) \<and> (\<forall>p \<in> set l. am_sn_ok e (pdu_sn p))"

lemma am_sn_ok_step [simp]:
  assumes "am_sn_ok e sn"
  shows "am_sn_ok e ((sn + 1) mod am_sn_modulus e)" "am_sn_ok e (c_rem (sn - 1 + am_sn_modulus e) (am_sn_modulus e))"
  using assms by (auto simp: am_sn_ok_def)

lemma am_set_end_range:
  assumes "am_set_end e sn so cur l = Some m" and "am_sn_ok e sn" and "am_rx_range e (cur # l)"
  shows "am_sn_ok e (m_sn_start m) \<and> am_sn_ok e (m_sn_end m) \<and> set (m_next m) \<subseteq> set l"
  using assms by (auto simp: am_set_end_def am_rx_range_def am_before_status_def Let_def split: if_splits)

lemma next_missing_loop_range:
  assumes "next_missing_loop e cur l max_so lr = Some m" and "am_rx_range e (cur # l)"
  shows "am_sn_ok e (m_sn_start m) \<and> am_sn_ok e (m_sn_end m) \<and> set (m_next m) \<subseteq> set (cur # l)"
  using assms
proof (induction l arbitrary: cur max_so lr)
  case Nil
  then show ?case by (auto simp: am_rx_range_def am_before_status_def Let_def split: if_splits)
next
  case (Cons nxt l)
  have r: "am_rx_range e (nxt # l)" "am_rx_range e (nxt # nxt # l)" "am_sn_ok e (pdu_sn cur)"
    using Cons.prems(2) by (auto simp: am_rx_range_def)
  show ?case
    using Cons.prems(1) Cons.IH [of nxt _ _, OF _ r(1)] am_set_end_range [OF _ _ r(2), of _ _ m] r(3)
    by (fastforce simp: Let_def split: if_splits)
qed

lemma next_missing_range:
  assumes "next_missing e cur l check_head = Some m" and "am_rx_range e (cur # l)"
  shows "0 < missing_count e m" and "am_rx_range e (m_next m)"
proof -
  have "am_sn_ok e (m_sn_start m) \<and> am_sn_ok e (m_sn_end m) \<and> set (m_next m) \<subseteq> set (cur # l)"
  proof (cases "check_head \<and> (pdu_sn cur \<noteq> am_rx_next e \<or> \<not> pdu_is_first cur)")
    case True
    then show ?thesis
      using assms am_set_end_range [of e "am_rx_next e" 0 cur "cur # l" m]
      by (auto simp: next_missing_def am_rx_range_def split: if_splits)
  next
    case False
    then show ?thesis
      using assms next_missing_loop_range [of e cur l 0 False m] by (auto simp: next_missing_def split: if_splits)
  qed
  then show "0 < missing_count e m" "am_rx_range e (m_next m)"
    using assms(2) by (auto simp: missing_count_def am_sn_ok_def am_rx_range_def add_nonneg_pos)
qed


subsection \<open>The report\<close>

lemma am_force_so_end_ok:
  assumes "st_ok s"
  shows "\<exists>s'. am_force_so_end s = Inr s' \<and> st_ok s' \<and> enc_size (st_enc s') = enc_size (st_enc s) \<and>
    enc_byte (st_enc s') = enc_byte (st_enc s)"
  using assms by (fastforce simp: am_force_so_end_def st_ok_def enc_ok_def Let_def split: option.splits)

declare am_status_loop.simps [simp del] status_size_loop.simps [simp del]

lemma am_status_loop_ok:
  assumes "am_cfg_ok e" and "st_ok s" and "0 \<le> nc"
  shows "\<exists>s'. am_status_loop e (nc = 0) l s = Inr s' \<and> st_ok s' \<and> enc_size (st_enc s') = enc_size (st_enc s) \<and>
    (am_rx_range e l \<longrightarrow>
      status_size_loop e nc l (int (enc_byte (st_enc s))) (int (enc_size (st_enc s))) = int (enc_byte (st_enc s')))"
  using assms(2,3)
proof (induction "2 * length l + (if nc = 0 then 1 else 0)" arbitrary: l s nc rule: less_induct)
  case less
  show ?case
  proof (cases l)
    case Nil
    with less.prems show ?thesis by (simp add: am_status_loop.simps status_size_loop.simps)
  next
    case (Cons cur l')
    show ?thesis
    proof (cases "next_missing e cur l' (nc = 0)")
      case None
      with less.prems Cons show ?thesis by (simp add: am_status_loop.simps status_size_loop.simps)
    next
      case (Some m)
      have ok0: "st_ok (s\<lparr>st_truncated := False\<rparr>)" using less.prems(1) by (simp add: st_ok_def)
      obtain stop s1 rc where g: "generate_missing e m (m_sn_start m) (missing_count e m) (s\<lparr>st_truncated := False\<rparr>) = Inr (stop, s1)"
        "st_ok s1" "enc_size (st_enc s1) = enc_size (st_enc s)"
        "missing_size e m (m_sn_start m) (missing_count e m) 0 (int (enc_byte (st_enc s))) (int (enc_size (st_enc s))) =
           (stop, rc, int (enc_byte (st_enc s1)))" "0 \<le> rc" "0 < missing_count e m \<and> \<not> stop \<longrightarrow> 0 < rc"
        using generate_missing_ok [OF assms(1) ok0, of m "m_sn_start m" "missing_count e m" 0] by auto
      obtain s2 where f: "(if st_truncated s1 then am_force_so_end s1 else Inr s1) = Inr s2" "st_ok s2"
        "enc_size (st_enc s2) = enc_size (st_enc s)" "enc_byte (st_enc s2) = enc_byte (st_enc s1)"
        using am_force_so_end_ok [OF g(2)] g(2,3) by (cases "st_truncated s1") auto
      have step: "am_status_loop e (nc = 0) l s = am_status_loop e False (if stop then [] else m_next m) s2"
        using Some Cons g(1) f(1) am_status_loop.simps(2) [of e "nc = 0" cur l' s] by simp
      show ?thesis
      proof (cases stop)
        case True
        then show ?thesis
          using step f g(4) Cons Some by (simp add: am_status_loop.simps status_size_loop.simps)
      next
        case False
        have "2 * length (m_next m) + (if nc + rc + 1 = 0 then 1 else 0) < 2 * length l + (if nc = 0 then 1 else 0)"
          using next_missing_shorter [OF Some] Cons less.prems(2) g(5) by auto
        moreover have "(nc + rc + 1 = 0) = False" using less.prems(2) g(5) by simp
        ultimately obtain s' where r: "am_status_loop e False (m_next m) s2 = Inr s'" "st_ok s'"
          "enc_size (st_enc s') = enc_size (st_enc s)"
          using less.hyps [of "m_next m" "nc + rc + 1" s2] f less.prems(2) g(5) by auto
        have "status_size_loop e nc l (int (enc_byte (st_enc s))) (int (enc_size (st_enc s))) = int (enc_byte (st_enc s'))"
          if range: "am_rx_range e l"
        proof -
          have rc: "0 < rc" and range': "am_rx_range e (m_next m)"
            using next_missing_range [OF Some] range Cons g(6) False by auto
          have "2 * length (m_next m) + (if nc + rc = 0 then 1 else 0) < 2 * length l + (if nc = 0 then 1 else 0)"
            using next_missing_shorter [OF Some] Cons less.prems(2) rc by auto
          from less.hyps [OF this f(2)] less.prems(2) rc range' r(1) f(3,4)
          have "status_size_loop e (nc + rc) (m_next m) (int (enc_byte (st_enc s1))) (int (enc_size (st_enc s))) = int (enc_byte (st_enc s'))"
            by (auto simp: Let_def)
          then show ?thesis
            using Cons Some g(4) False rc by (simp add: status_size_loop.simps)
        qed
        then show ?thesis using step False r by simp
      qed
    qed
  qed
qed

lemma generate_status_ok:
  assumes cfg: "am_cfg_ok e"
  shows "\<exists>ret buffer' e'. generate_status buffer e = Inr (ret, buffer', e') \<and> am_tx_view e' = am_tx_view e \<and>
    length buffer' = length buffer \<and> 0 \<le> ret \<and> ret \<le> int (length buffer) \<and> (ret = 0 \<longrightarrow> buffer' = buffer \<and> e' = e) \<and>
    (am_rx_range e (am_rx_list e) \<longrightarrow> ret = status_size e (int (length buffer)))"
proof (cases "length buffer < 3")
  case True
  then show ?thesis by (simp add: generate_status_def status_size_def)
next
  case False
  have f31: "\<forall>(v, c) \<in> set [(0 :: int, 24 :: nat)]. c \<le> 31" by simp
  obtain enc where enc: "put_fields [(0, 24)] (nr_rlc_pdu_encoder_init buffer) = Inr enc" "enc_byte enc = 3"
    "length (enc_buffer enc) = length buffer"
    using put_header [OF f31, of 3 buffer] False by auto
  have ok: "enc_ok enc" "enc_size enc = length buffer" "enc_bit enc = 0"
    using put_fields_ok [OF encoder_init_ok(1) enc(1)] enc(2) by (auto simp: enc_pos_def nr_rlc_pdu_encoder_init_def)
  let ?s = "\<lparr>st_enc = enc, st_e1 = (2, if am_sn_field_length e = 18 then 1 else 7), st_so_end = None,
    st_last_nack = c_rem (am_rx_next e - 1 + am_sn_modulus e) (am_sn_modulus e), st_truncated = False\<rparr>"
  have "st_ok ?s" using ok enc(2) by (simp add: st_ok_def)
  from am_status_loop_ok [OF cfg this, of 0 "am_rx_list e"] ok(2) enc(2) obtain s' where
    s': "am_status_loop e True (am_rx_list e) ?s = Inr s'" "st_ok s'" "enc_size (st_enc s') = length buffer"
      "am_rx_range e (am_rx_list e) \<longrightarrow> status_size_loop e 0 (am_rx_list e) 3 (int (length buffer)) = int (enc_byte (st_enc s'))"
    by auto
  have put: "nr_rlc_pdu_encoder_put_bits (nr_rlc_pdu_encoder_init buffer) 0 24 = Inr enc"
    using enc(1) by (auto simp: result_simps)
  have len: "length (enc_buffer (st_enc s')) = length buffer" "0 < enc_byte (st_enc s')" "enc_byte (st_enc s') \<le> length buffer"
    using s'(2,3) by (auto simp: st_ok_def enc_ok_def)
  moreover have "length (am_put_ack e k (enc_buffer (st_enc s'))) = length buffer" for k
    using len(1) by (simp add: am_put_ack_def)
  ultimately show ?thesis
    using False s' put by (simp add: generate_status_def am_tx_view_def status_size_def Let_def)
qed

end
