(* ===== verification/Rlc_Am_Ack.thy ===== *)
theory Rlc_Am_Ack
  imports Rlc_Am_Tx
begin

text \<open>
  What a status report does to the transmit side. At every point of the processing the two lists under
  construction make up an entity (\<open>ct_entity\<close>) that satisfies the invariant; the accounting says that each
  segment of the wait list and of the retransmission list is still in one of them, was released with a
  sequence number below \<open>ACK_SN\<close>, or is \<open>lost\<close>. Segments are lost only by a NACK at \<open>ACK_SN\<close> itself.
\<close>

definition ct_entity :: "ctrl_state \<Rightarrow> nr_rlc_entity_am_t" where
  "ct_entity s = (ct_e s)\<lparr>am_wait_list := ct_wdone s @ ct_wrest s, am_retransmit_list := ct_rnew s @ ct_rcur s\<rparr>"

definition am_acked :: "nr_rlc_entity_am_t \<Rightarrow> int \<Rightarrow> nr_rlc_sdu_segment_t \<Rightarrow> bool" where
  "am_acked e ack_sn s \<longleftrightarrow> (\<exists>u. mem_sdu (sdu_mem e) (seg_sdu s) = Some u \<and> am_sn_compare_tx e (sdu_sn u) ack_sn < 0)"

definition am_ctrl_same :: "nr_rlc_entity_am_t \<Rightarrow> nr_rlc_entity_am_t \<Rightarrow> bool" where
  "am_ctrl_same e e' \<longleftrightarrow> am_sn_field_length e' = am_sn_field_length e \<and> am_sn_modulus e' = am_sn_modulus e \<and> am_tx_next e' = am_tx_next e \<and> am_tx_next_ack e' = am_tx_next_ack e \<and>
     am_tx_list e' = am_tx_list e"

text \<open>The SDUs left in memory are SDUs of before, with the same number and owner.\<close>

definition am_sdus_from :: "nr_rlc_entity_am_t \<Rightarrow> nr_rlc_entity_am_t \<Rightarrow> bool" where
  "am_sdus_from e e' \<longleftrightarrow> (\<forall>a u'. mem_sdu (sdu_mem e') a = Some u' \<longrightarrow>
     (\<exists>u. mem_sdu (sdu_mem e) a = Some u \<and> sdu_sn u' = sdu_sn u \<and> sdu_upper_layer_id u' = sdu_upper_layer_id u))"

text \<open>Only SDUs below \<open>ACK_SN\<close> that are released completely are reported as delivered.\<close>

definition am_reported :: "nr_rlc_entity_am_t \<Rightarrow> int \<Rightarrow> nr_rlc_entity_am_t \<Rightarrow> rlc_event list \<Rightarrow> bool" where
  "am_reported e ack_sn e' ev \<longleftrightarrow> (\<forall>i. Sdu_successful_delivery i \<in> set ev \<longrightarrow>
     (\<exists>a u. mem_sdu (sdu_mem e) a = Some u \<and> sdu_upper_layer_id u = i \<and> am_sn_compare_tx e (sdu_sn u) ack_sn < 0 \<and>
        mem_sdu (sdu_mem e') a = None))"

definition am_accounted ::
  "nr_rlc_entity_am_t \<Rightarrow> int \<Rightarrow> nr_rlc_sdu_segment_t list \<Rightarrow> nr_rlc_entity_am_t \<Rightarrow> bool" where
  "am_accounted e ack_sn new e' \<longleftrightarrow> (\<exists>freed. (\<forall>f \<in> set freed. am_acked e ack_sn f) \<and>
     mset (am_wait_list e @ am_retransmit_list e) = mset (am_wait_list e' @ am_retransmit_list e' @ new @ freed))"

definition ctrl_ok ::
  "nr_rlc_entity_am_t \<Rightarrow> nr_rlc_sdu_segment_t list \<Rightarrow> int \<Rightarrow> nr_rlc_sdu_segment_t list \<Rightarrow> ctrl_state \<Rightarrow> bool" where
  "ctrl_ok e lost ack_sn new s \<longleftrightarrow> am_tx_ok (new @ lost) (ct_entity s) \<and> am_ctrl_same e (ct_e s) \<and> am_sdus_from e (ct_e s) \<and>
     am_accounted e ack_sn new (ct_entity s) \<and> am_reported e ack_sn (ct_e s) (ct_ev s)"

lemma am_compare_same: "am_ctrl_same e e' \<Longrightarrow> am_sn_compare_tx e' a b = am_sn_compare_tx e a b"
  by (simp add: am_ctrl_same_def am_sn_compare_tx_def am_modulus_tx_def Let_def)

lemma ct_entity_simps [simp]:
  "sdu_mem (ct_entity s) = sdu_mem (ct_e s)" "am_wait_list (ct_entity s) = ct_wdone s @ ct_wrest s"
  "am_retransmit_list (ct_entity s) = ct_rnew s @ ct_rcur s" "am_tx_list (ct_entity s) = am_tx_list (ct_e s)"
  "bstatus (ct_entity s) = bstatus (ct_e s)" "am_tx_size (ct_entity s) = am_tx_size (ct_e s)"
  "am_tx_maxsize (ct_entity s) = am_tx_maxsize (ct_e s)"
  by (simp_all add: ct_entity_def)

lemma ctrl_live:
  assumes "ctrl_ok e lost ack_sn new s" and "x \<in> set (ct_wdone s @ ct_wrest s @ ct_rnew s @ ct_rcur s)"
  shows "\<exists>u. mem_sdu (sdu_mem (ct_e s)) (seg_sdu x) = Some u \<and> seg_within u x"
  using am_tx_inv_live [of "[]" "new @ lost" "ct_entity s" x] assms by (auto simp: ctrl_ok_def am_segs_def)


subsection \<open>Releasing a segment\<close>

lemma am_free_acked_ok:
  assumes inv: "mem_inv (sdu_mem e) (w # xs)" and segs: "segs_ok (sdu_mem e) xs"
    and u: "mem_sdu (sdu_mem e) (seg_sdu w) = Some u"
  shows "\<exists>m n st ev. am_free_acked e w = Inr (e\<lparr>sdu_mem := m, am_tx_size := n, stats := st\<rparr>, ev) \<and> mem_inv m xs \<and> segs_ok m xs \<and>
    n \<le> am_tx_size e \<and> am_tx_size e - n = mem_bytes (sdu_mem e) - mem_bytes m \<and>
    (\<forall>a u'. mem_sdu m a = Some u' \<longrightarrow> (\<exists>v. mem_sdu (sdu_mem e) a = Some v \<and> sdu_sn u' = sdu_sn v \<and>
       sdu_upper_layer_id u' = sdu_upper_layer_id v)) \<and>
    (ev = [] \<or> ev = [Sdu_successful_delivery (sdu_upper_layer_id u)] \<and> mem_sdu m (seg_sdu w) = None)"
proof -
  obtain freed m where f: "nr_rlc_free_sdu_segment (sdu_mem e) w = Inr (freed, m)" "mem_inv m xs"
    "mem_bytes m = mem_bytes (sdu_mem e) - (if freed then owner_size (sdu_mem e) w else 0)"
    and gone: "freed \<longleftrightarrow> seg_sdu w \<notin> seg_sdu ` set xs"
    using free_segment_inv [OF inv] by blast
  have segs': "segs_ok m xs" by (rule free_segment_segs_ok [OF inv segs f(1)])
  have from_: "\<forall>a u'. mem_sdu m a = Some u' \<longrightarrow> (\<exists>v. mem_sdu (sdu_mem e) a = Some v \<and> sdu_sn u' = sdu_sn v \<and>
      sdu_upper_layer_id u' = sdu_upper_layer_id v)"
    using free_segment_sizes [OF f(1)] by fastforce
  have size: "0 \<le> sdu_size u" using mem_inv_size [OF inv u] by simp
  show ?thesis
  proof (cases freed)
    case True
    have "mem_sdu m (seg_sdu w) = None"
      using f(1) True u by (auto simp: nr_rlc_free_sdu_segment_def sdu_at_def Let_def split: if_splits)
    moreover have "am_free_acked e w = Inr (e\<lparr>sdu_mem := m, am_tx_size := am_tx_size e - sdu_size u,
        stats := (stats e)\<lparr>txsdu_bytes := txsdu_bytes (stats e) + of_int (sdu_size u)\<rparr>\<rparr>, [Sdu_successful_delivery (sdu_upper_layer_id u)])"
      using f(1) True u by (simp add: am_free_acked_def sdu_at_def)
    moreover have "mem_bytes m = mem_bytes (sdu_mem e) - sdu_size u" using f(3) True u by (simp add: owner_size_def)
    ultimately show ?thesis using f(2) segs' from_ size by (intro exI conjI) auto
  next
    case False
    then have "am_free_acked e w = Inr (e\<lparr>sdu_mem := m, am_tx_size := am_tx_size e, stats := stats e\<rparr>, [])"
      using f(1) u by (simp add: am_free_acked_def sdu_at_def)
    then show ?thesis
      using f(2,3) False segs' from_ by (intro exI [of _ m] exI [of _ "am_tx_size e"] exI [of _ "stats e"] exI [of _ "[]"]) simp
  qed
qed

lemma am_reported_append:
  assumes "am_reported e ack_sn e1 ev1" and "\<And>a. mem_sdu (sdu_mem e1) a = None \<Longrightarrow> mem_sdu (sdu_mem e2) a = None"
    and "am_reported e ack_sn e2 ev2"
  shows "am_reported e ack_sn e2 (ev1 @ ev2)"
  using assms by (auto simp: am_reported_def) blast+

lemma am_sdus_from_none: "am_sdus_from e e' \<Longrightarrow> mem_sdu (sdu_mem e) a = None \<Longrightarrow> mem_sdu (sdu_mem e') a = None"
  by (cases "mem_sdu (sdu_mem e') a") (fastforce simp: am_sdus_from_def)+

lemma am_sdus_from_trans: "am_sdus_from e e1 \<Longrightarrow> am_sdus_from e1 e2 \<Longrightarrow> am_sdus_from e e2"
  unfolding am_sdus_from_def by metis

text \<open>The release of an acknowledged segment from either list. \<open>e0\<close> is the entity before, with the buffer status
  already changed; \<open>s'\<close> is the state in which the segment is off its list.\<close>

lemma ctrl_release:
  assumes ok: "ctrl_ok e lost ack_sn new s" and u: "mem_sdu (sdu_mem (ct_e s)) (seg_sdu w) = Some u"
    and ack: "am_sn_compare_tx e (sdu_sn u) ack_sn < 0"
    and b: "e0 = (ct_e s)\<lparr>bstatus := b\<rparr>" "bs_tx_size b = bs_tx_size (bstatus (ct_e s))"
    and m: "mset (ct_wdone s @ ct_wrest s @ ct_rnew s @ ct_rcur s) = add_mset w (mset (W @ R))"
    and retx: "bs_retx_size b = bs_retx_size (bstatus (ct_e s)) - ((\<Sum>x\<leftarrow>ct_rnew s @ ct_rcur s. am_cost e x) - (\<Sum>x\<leftarrow>R. am_cost e x))"
  shows "\<exists>e1 ev. am_free_acked e0 w = Inr (e1, ev) \<and> (\<forall>s'. ct_e s' = e1 \<longrightarrow> ct_wdone s' @ ct_wrest s' = W \<longrightarrow>
    ct_rnew s' @ ct_rcur s' = R \<longrightarrow> ct_ev s' = ct_ev s @ ev \<longrightarrow> ctrl_ok e lost ack_sn new s')"
proof -
  let ?all = "am_tx_list (ct_e s) @ (W @ R) @ new @ lost"
  have inv: "am_tx_ok (new @ lost) (ct_entity s)" and same0: "am_ctrl_same e (ct_e s)" and sf: "am_sdus_from e (ct_e s)"
    using ok by (simp_all add: ctrl_ok_def)
  have set: "set (ct_wdone s @ ct_wrest s @ ct_rnew s @ ct_rcur s) = insert w (set (W @ R))"
    using m by (metis set_mset_add_mset_insert set_mset_mset)
  have mem: "mem_inv (sdu_mem e0) (w # ?all)" "segs_ok (sdu_mem e0) ?all"
    using inv mem_inv_perm [of "sdu_mem (ct_e s)" "am_segs (ct_entity s) @ new @ lost" "w # ?all"] m set b(1)
    by (auto simp: am_tx_inv_def am_segs_def segs_ok_def)
  obtain mm n st ev where f: "am_free_acked e0 w = Inr (e0\<lparr>sdu_mem := mm, am_tx_size := n, stats := st\<rparr>, ev)"
    "mem_inv mm ?all" "segs_ok mm ?all" "n \<le> am_tx_size e0" "am_tx_size e0 - n = mem_bytes (sdu_mem e0) - mem_bytes mm"
    and from_: "\<forall>a u'. mem_sdu mm a = Some u' \<longrightarrow> (\<exists>v. mem_sdu (sdu_mem e0) a = Some v \<and> sdu_sn u' = sdu_sn v \<and>
       sdu_upper_layer_id u' = sdu_upper_layer_id v)"
    and ev: "ev = [] \<or> ev = [Sdu_successful_delivery (sdu_upper_layer_id u)] \<and> mem_sdu mm (seg_sdu w) = None"
    using am_free_acked_ok [OF mem, of u] u b(1) by auto
  let ?e1 = "e0\<lparr>sdu_mem := mm, am_tx_size := n, stats := st\<rparr>"
  have from2: "am_sdus_from (ct_e s) ?e1" using from_ b(1) by (simp add: am_sdus_from_def)
  obtain v where v: "mem_sdu (sdu_mem e) (seg_sdu w) = Some v" "sdu_sn u = sdu_sn v" "sdu_upper_layer_id u = sdu_upper_layer_id v"
    using sf u by (auto simp: am_sdus_from_def)
  have rep: "am_reported e ack_sn ?e1 (ct_ev s @ ev)"
  proof (rule am_reported_append)
    show "am_reported e ack_sn (ct_e s) (ct_ev s)" using ok by (simp add: ctrl_ok_def)
    show "mem_sdu (sdu_mem ?e1) a = None" if "mem_sdu (sdu_mem (ct_e s)) a = None" for a
      using am_sdus_from_none [OF from2 that] .
    show "am_reported e ack_sn ?e1 ev" using ev v ack by (fastforce simp: am_reported_def)
  qed
  have "ctrl_ok e lost ack_sn new s'" if s': "ct_e s' = ?e1" "ct_wdone s' @ ct_wrest s' = W" "ct_rnew s' @ ct_rcur s' = R"
    "ct_ev s' = ct_ev s @ ev" for s'
  proof -
    have cost: "am_cost (ct_entity s) = am_cost e" "am_cost (ct_entity s') = am_cost e"
      using same0 b(1) s'(1) by (auto simp: ct_entity_def am_ctrl_same_def intro!: am_cost_cong)
    have "am_tx_ok (new @ lost) (ct_entity s')"
      using inv f(2-5) b retx cost s' by (auto simp: am_tx_inv_def am_segs_def am_cfg_ok_def ct_entity_def)
    moreover have "am_accounted e ack_sn new (ct_entity s')"
    proof -
      obtain F where F: "\<forall>f \<in> set F. am_acked e ack_sn f"
        "mset (am_wait_list e @ am_retransmit_list e) = mset ((ct_wdone s @ ct_wrest s) @ (ct_rnew s @ ct_rcur s) @ new @ F)"
        using ok by (auto simp: ctrl_ok_def am_accounted_def)
      have "am_acked e ack_sn w" using v ack by (auto simp: am_acked_def)
      then show ?thesis
        unfolding am_accounted_def using F m s' by (intro exI [of _ "w # F"]) (auto simp: union_ac)
    qed
    ultimately show ?thesis
      using s' same0 b(1) rep am_sdus_from_trans [OF sf from2] by (simp add: ctrl_ok_def am_ctrl_same_def)
  qed
  then show ?thesis using f(1) by blast
qed

lemmas ctrl_inv_simps = am_tx_inv_def am_segs_def am_cfg_ok_def

text \<open>The other moves: a NACKed segment goes from the wait list to the new retransmission list, and the rest of the
  retransmission list gets lost.\<close>

lemma ctrl_nack_wait:
  assumes ok: "ctrl_ok e lost ack_sn new s" and w: "ct_wrest s = w # rest" and u: "mem_sdu (sdu_mem (ct_e s)) (seg_sdu w) = Some u"
    and ev: "\<And>i. Sdu_successful_delivery i \<notin> set ev"
  shows "ctrl_ok e lost ack_sn new (s\<lparr>ct_e := (ct_e s)\<lparr>sdu_mem := sdu_put (sdu_mem (ct_e s)) (seg_sdu w) (u\<lparr>sdu_retx_count := k\<rparr>),
      bstatus := (bstatus (ct_e s))\<lparr>bs_retx_size := bs_retx_size (bstatus (ct_e s)) + am_cost (ct_e s) w\<rparr>\<rparr>,
    ct_wrest := rest, ct_rnew := ct_rnew s @ [w], ct_ev := ct_ev s @ ev\<rparr>)" (is "ctrl_ok _ _ _ _ ?s")
proof -
  let ?m = "sdu_put (sdu_mem (ct_e s)) (seg_sdu w) (u\<lparr>sdu_retx_count := k\<rparr>)"
  have inv: "am_tx_ok (new @ lost) (ct_entity s)" and same0: "am_ctrl_same e (ct_e s)" and sf: "am_sdus_from e (ct_e s)"
    using ok by (simp_all add: ctrl_ok_def)
  have mem: "mem_inv (sdu_mem (ct_e s)) (am_segs (ct_entity ?s) @ new @ lost)" "segs_ok (sdu_mem (ct_e s)) (am_segs (ct_entity ?s) @ new @ lost)"
    using inv mem_inv_perm [of "sdu_mem (ct_e s)" "am_segs (ct_entity s) @ new @ lost" "am_segs (ct_entity ?s) @ new @ lost"] w
    by (auto simp: ctrl_inv_simps segs_ok_def)
  have "mem_inv ?m (am_segs (ct_entity ?s) @ new @ lost)" "mem_bytes ?m = mem_bytes (sdu_mem (ct_e s))"
    by (rule put_sdu_inv [OF mem(1) u]; simp)+
  moreover have "segs_ok ?m (am_segs (ct_entity ?s) @ new @ lost)" by (rule put_sdu_segs_ok [OF mem(2) u]) simp
  moreover have cost: "am_cost (ct_entity s) = am_cost e" "am_cost (ct_entity ?s) = am_cost e" "am_cost (ct_e s) = am_cost e"
    using same0 by (auto simp: ct_entity_def am_ctrl_same_def intro!: am_cost_cong)
  ultimately have "am_tx_ok (new @ lost) (ct_entity ?s)"
    using inv unfolding am_tx_inv_def cost by (auto simp: am_cfg_ok_def ct_entity_def)
  moreover have "am_accounted e ack_sn new (ct_entity ?s)"
    using ok w by (simp add: ctrl_ok_def am_accounted_def)
  moreover have "am_sdus_from e (ct_e ?s)" using sf u by (fastforce simp: am_sdus_from_def)
  moreover have "am_reported e ack_sn (ct_e ?s) (ct_ev s @ ev)"
  proof (rule am_reported_append)
    show "am_reported e ack_sn (ct_e s) (ct_ev s)" using ok by (simp add: ctrl_ok_def)
  qed (use ev u in \<open>auto simp: am_reported_def\<close>)
  ultimately show ?thesis using same0 by (simp add: ctrl_ok_def am_ctrl_same_def)
qed

lemma ctrl_lose:
  assumes ok: "ctrl_ok e lost ack_sn new s" and r: "ct_rcur s \<noteq> []"
  shows "ctrl_ok e lost ack_sn (ct_rcur s @ new) (s\<lparr>ct_rcur := []\<rparr>)" (is "ctrl_ok _ _ _ _ ?s")
proof -
  have inv: "am_tx_ok (new @ lost) (ct_entity s)" and same0: "am_ctrl_same e (ct_e s)"
    using ok by (simp_all add: ctrl_ok_def)
  have cost: "am_cost (ct_entity ?s) = am_cost (ct_entity s)" by (rule am_cost_cong) (simp add: ct_entity_def)
  have "am_tx_ok ((ct_rcur s @ new) @ lost) (ct_entity ?s)"
    using inv mem_inv_perm [of "sdu_mem (ct_e s)" "am_segs (ct_entity s) @ new @ lost" "am_segs (ct_entity ?s) @ (ct_rcur s @ new) @ lost"] r
    unfolding am_tx_inv_def cost by (auto simp: am_segs_def am_cfg_ok_def ct_entity_def)
  moreover have "am_accounted e ack_sn (ct_rcur s @ new) (ct_entity ?s)"
    using ok by (auto simp: ctrl_ok_def am_accounted_def union_ac)
  ultimately show ?thesis using ok by (simp add: ctrl_ok_def)
qed

lemma ctrl_ok_moves:
  assumes "ctrl_ok e lost ack_sn new s"
  shows "ctrl_ok e lost ack_sn new (s\<lparr>ct_wover := b\<rparr>)"
    and "ct_wrest s = w # rest \<Longrightarrow> ctrl_ok e lost ack_sn new (s\<lparr>ct_wdone := ct_wdone s @ [w], ct_wrest := rest\<rparr>)"
    and "ct_rcur s = r # rs \<Longrightarrow> ctrl_ok e lost ack_sn new (s\<lparr>ct_rnew := ct_rnew s @ [r], ct_rcur := rs\<rparr>)"
  using assms by (simp_all add: ctrl_ok_def ct_entity_def)


subsection \<open>The loops\<close>

definition ctrl_step_ok ::
  "nr_rlc_entity_am_t \<Rightarrow> nr_rlc_sdu_segment_t list \<Rightarrow> int \<Rightarrow> int \<Rightarrow> nr_rlc_sdu_segment_t list \<Rightarrow> ctrl_step \<Rightarrow> bool" where
  "ctrl_step_ok e lost ack_sn nack_sn new r =
     (case r of Next_pdu s \<Rightarrow> ctrl_ok e lost ack_sn new s | Done_nack s \<Rightarrow> ctrl_ok e lost ack_sn new s
      | Lists_over s \<Rightarrow> \<exists>new'. ctrl_ok e lost ack_sn new' s \<and> (am_sn_compare_tx e nack_sn ack_sn < 0 \<longrightarrow> new' = new))"

lemma process_wait_ok:
  assumes ok: "ctrl_ok e lost ack_sn new s" and w: "ct_wrest s = w # rest"
  shows "\<exists>r. process_wait_list_head (nack_sn, so_start, so_end) ack_sn s w rest = Inr r \<and> ctrl_step_ok e lost ack_sn nack_sn new r"
proof -
  obtain u where u: "mem_sdu (sdu_mem (ct_e s)) (seg_sdu w) = Some u"
    using ctrl_live [OF ok, of w] w by auto
  have same: "am_ctrl_same e (ct_e s)" using ok by (simp add: ctrl_ok_def)
  have rel: "\<exists>e1 ev. am_free_acked (ct_e s) w = Inr (e1, ev) \<and> ctrl_ok e lost ack_sn new (s\<lparr>ct_e := e1, ct_wrest := rest, ct_ev := ct_ev s @ ev\<rparr>)"
    if "am_sn_compare_tx e (sdu_sn u) ack_sn < 0"
    using ctrl_release [OF ok u that, of "ct_e s" "bstatus (ct_e s)" "ct_wdone s @ rest" "ct_rnew s @ ct_rcur s"] w by fastforce
  note nack = ctrl_nack_wait [OF ok w u, unfolded am_cost_def]
  show ?thesis
    unfolding process_wait_list_head_def Let_def prod.case sdu_at_def u option.case bind_r.simps am_compare_same [OF same]
    using rel nack ok ctrl_ok_moves(1) [OF ok, of True] ctrl_ok_moves(2) [OF ok w]
    by (auto simp: ctrl_step_ok_def)
qed

lemma process_retransmit_ok:
  assumes ok: "ctrl_ok e lost ack_sn new s" and r: "ct_rcur s = r # rs"
  shows "\<exists>x. process_retransmit_list_head (nack_sn, so_start, so_end) ack_sn s r rs = Inr x \<and> ctrl_step_ok e lost ack_sn nack_sn new x"
proof -
  obtain u where u: "mem_sdu (sdu_mem (ct_e s)) (seg_sdu r) = Some u"
    using ctrl_live [OF ok, of r] r by auto
  have same: "am_ctrl_same e (ct_e s)" using ok by (simp add: ctrl_ok_def)
  have hs: "am_compute_pdu_header_size (ct_e s) r = am_compute_pdu_header_size e r"
    using same by (simp add: am_ctrl_same_def am_compute_pdu_header_size_def)
  have rel: "\<exists>e1 ev. am_free_acked (am_retx_size_sub (ct_e s) r) r = Inr (e1, ev) \<and>
      ctrl_ok e lost ack_sn new (s\<lparr>ct_e := e1, ct_rcur := rs, ct_ev := ct_ev s @ ev\<rparr>)"
    if "am_sn_compare_tx e (sdu_sn u) ack_sn < 0"
    using ctrl_release [OF ok u that, of "am_retx_size_sub (ct_e s) r" _ "ct_wdone s @ ct_wrest s" "ct_rnew s @ rs"] r
    by (fastforce simp: am_retx_size_sub_def am_cost_def hs)
  have lose: "am_sn_compare_tx e nack_sn ack_sn < 0 \<longrightarrow> am_sn_compare_tx e (sdu_sn u) ack_sn < 0"
    if "\<not> am_sn_compare_tx e (sdu_sn u) nack_sn > 0"
    using that by (simp add: am_sn_compare_tx_def)
  show ?thesis
    unfolding process_retransmit_list_head_def Let_def prod.case sdu_at_def u option.case bind_r.simps am_compare_same [OF same]
    using rel lose ok ctrl_ok_moves(3) [OF ok r] ctrl_lose [OF ok] r
    by (auto simp: ctrl_step_ok_def)
qed

lemma process_next_ok:
  assumes ok: "ctrl_ok e lost ack_sn new s"
  shows "\<exists>r. process_next_pdu (nack_sn, so_start, so_end) ack_sn s = Inr r \<and> ctrl_step_ok e lost ack_sn nack_sn new r"
proof (cases "ct_cur_wait s")
  case None
  then show ?thesis
    using process_retransmit_ok [OF ok] ok by (auto simp: process_next_pdu_def ctrl_step_ok_def split: list.split)
next
  case (Some w)
  then have w: "ct_wrest s = w # tl (ct_wrest s)" using cur_wait_Some by blast
  then obtain u where u: "mem_sdu (sdu_mem (ct_e s)) (seg_sdu w) = Some u"
    using ctrl_live [OF ok, of w] by (metis Un_iff list.set_intros(1) set_append)
  show ?thesis
  proof (cases "ct_rcur s")
    case Nil
    with Some show ?thesis using process_wait_ok [OF ok w] by (simp add: process_next_pdu_def)
  next
    case (Cons r rs)
    then obtain v where "mem_sdu (sdu_mem (ct_e s)) (seg_sdu r) = Some v" using ctrl_live [OF ok, of r] by auto
    with Some Cons u show ?thesis
      using process_wait_ok [OF ok w] process_retransmit_ok [OF ok Cons] by (simp add: process_next_pdu_def sdu_at_def Let_def)
  qed
qed

lemma am_nack_loop_ok:
  assumes "ctrl_ok e lost ack_sn new s"
  shows "\<exists>over s' new'. am_nack_loop (nack_sn, so_start, so_end) ack_sn s = Inr (over, s') \<and> ctrl_ok e lost ack_sn new' s' \<and>
    (am_sn_compare_tx e nack_sn ack_sn < 0 \<longrightarrow> new' = new)"
  using assms
proof (induction "ctrl_left s" arbitrary: s rule: less_induct)
  case less
  obtain r where r: "process_next_pdu (nack_sn, so_start, so_end) ack_sn s = Inr r" "ctrl_step_ok e lost ack_sn nack_sn new r"
    using process_next_ok [OF less.prems] by blast
  show ?case
  proof (cases r)
    case (Next_pdu s1)
    with r have "ctrl_left s1 < ctrl_left s" "ctrl_ok e lost ack_sn new s1"
      using process_next_pdu_left [of "(nack_sn, so_start, so_end)" ack_sn s s1] by (auto simp: ctrl_step_ok_def)
    from less.hyps [OF this] r(1) Next_pdu show ?thesis by (simp add: am_nack_loop.simps [of _ _ s])
  qed (use r in \<open>auto simp: am_nack_loop.simps [of _ _ s] ctrl_step_ok_def\<close>)
qed

lemma am_process_items_ok:
  assumes "ctrl_ok e lost ack_sn new s"
  shows "\<exists>s' new'. am_process_items items ack_sn s = Inr s' \<and> ctrl_ok e lost ack_sn new' s' \<and>
    ((\<forall>i \<in> set items. am_sn_compare_tx e (fst i) ack_sn < 0) \<longrightarrow> new' = new)"
  using assms
proof (induction items arbitrary: s new)
  case (Cons i items)
  obtain a b c where i: "i = (a, b, c)" by (cases i)
  obtain over s1 new1 where r: "am_nack_loop i ack_sn s = Inr (over, s1)" "ctrl_ok e lost ack_sn new1 s1"
    "am_sn_compare_tx e a ack_sn < 0 \<longrightarrow> new1 = new"
    using am_nack_loop_ok [OF Cons.prems, of a b c] i by blast
  from Cons.IH [OF r(2)] r show ?case by (cases over) (auto simp: i)
qed auto

lemma ctrl_ok_poll:
  "ctrl_ok e lost ack_sn new s \<Longrightarrow> ctrl_ok e lost ack_sn new (s\<lparr>ct_e := (ct_e s)\<lparr>am_t_poll_retransmit_start := t\<rparr>\<rparr>)"
  using am_tx_inv_view [of "ct_entity (s\<lparr>ct_e := (ct_e s)\<lparr>am_t_poll_retransmit_start := t\<rparr>\<rparr>)" "ct_entity s"]
  by (simp add: ctrl_ok_def am_tx_view_def am_ctrl_same_def am_sdus_from_def am_accounted_def am_reported_def ct_entity_def)

definition am_nacks_below :: "nr_rlc_entity_am_t \<Rightarrow> int \<Rightarrow> nack_t list \<Rightarrow> bool" where
  "am_nacks_below e ack_sn nacks \<longleftrightarrow> (\<forall>n \<in> set nacks. \<forall>i \<in> set (nack_items e n). am_sn_compare_tx e (fst i) ack_sn < 0)"

lemma am_process_nacks_ok:
  assumes "ctrl_ok e lost ack_sn new s"
  shows "\<exists>s' new'. am_process_nacks nacks ack_sn s = Inr s' \<and> ctrl_ok e lost ack_sn new' s' \<and> (am_nacks_below e ack_sn nacks \<longrightarrow> new' = new)"
  using assms
proof (induction nacks arbitrary: s new)
  case (Cons n nacks)
  have items: "nack_items (ct_e s) n = nack_items e n"
    using Cons.prems by (simp add: nack_items_def ctrl_ok_def am_ctrl_same_def)
  obtain s1 new1 where r: "am_process_items (nack_items e n) ack_sn s = Inr s1" "ctrl_ok e lost ack_sn new1 s1"
    "(\<forall>i \<in> set (nack_items e n). am_sn_compare_tx e (fst i) ack_sn < 0) \<longrightarrow> new1 = new"
    using am_process_items_ok [OF Cons.prems] by blast
  have "ctrl_ok e lost ack_sn new1 (s1\<lparr>ct_e := if P then (ct_e s1)\<lparr>am_t_poll_retransmit_start := 0\<rparr> else ct_e s1\<rparr>)" for P
    using r(2) ctrl_ok_poll [OF r(2)] by simp
  from Cons.IH [OF this] r show ?case by (fastforce simp: items Let_def am_nacks_below_def)
qed (auto simp: am_nacks_below_def)

lemma am_ack_wait_ok:
  assumes "ctrl_ok e lost ack_sn new s"
  shows "\<exists>e' l ev. am_ack_wait (ct_e s) ack_sn (ct_wrest s) = Inr (e', l, ev) \<and>
    ctrl_ok e lost ack_sn new (s\<lparr>ct_e := e', ct_wrest := l, ct_ev := ct_ev s @ ev\<rparr>)"
  using assms
proof (induction "ct_wrest s" arbitrary: s)
  case Nil
  then have "s\<lparr>ct_e := ct_e s, ct_wrest := [], ct_ev := ct_ev s @ []\<rparr> = s" by simp
  with Nil show ?case by (metis am_ack_wait.simps(1))
next
  case (Cons w l)
  note w = Cons.hyps(2) [symmetric]
  obtain u where u: "mem_sdu (sdu_mem (ct_e s)) (seg_sdu w) = Some u"
    using ctrl_live [OF Cons.prems, of w] w by auto
  have same: "am_ctrl_same e (ct_e s)" using Cons.prems by (simp add: ctrl_ok_def)
  show ?case
  proof (cases "am_sn_compare_tx e (sdu_sn u) ack_sn < 0")
    case True
    then obtain e1 ev1 where r: "am_free_acked (ct_e s) w = Inr (e1, ev1)"
      "ctrl_ok e lost ack_sn new (s\<lparr>ct_e := e1, ct_wrest := l, ct_ev := ct_ev s @ ev1\<rparr>)"
      using ctrl_release [OF Cons.prems u True, of "ct_e s" "bstatus (ct_e s)" "ct_wdone s @ l" "ct_rnew s @ ct_rcur s"] w by fastforce
    from Cons.hyps(1) [OF _ r(2)] obtain e2 l2 ev2 where "am_ack_wait e1 ack_sn l = Inr (e2, l2, ev2)"
      "ctrl_ok e lost ack_sn new (s\<lparr>ct_e := e2, ct_wrest := l2, ct_ev := ct_ev s @ ev1 @ ev2\<rparr>)" by auto
    then show ?thesis using w u r(1) True same by (simp add: sdu_at_def am_compare_same)
  next
    case False
    have "s\<lparr>ct_e := ct_e s, ct_wrest := w # l, ct_ev := ct_ev s @ []\<rparr> = s" using w by simp
    moreover have "am_ack_wait (ct_e s) ack_sn (ct_wrest s) = Inr (ct_e s, w # l, [])"
      using w u False same by (simp add: sdu_at_def am_compare_same)
    ultimately show ?thesis using Cons.prems by metis
  qed
qed

lemma am_ack_retransmit_ok:
  assumes "ctrl_ok e lost ack_sn new s"
  shows "\<exists>e' l ev. am_ack_retransmit (ct_e s) ack_sn (ct_rcur s) = Inr (e', l, ev) \<and>
    ctrl_ok e lost ack_sn new (s\<lparr>ct_e := e', ct_rcur := l, ct_ev := ct_ev s @ ev\<rparr>)"
  using assms
proof (induction "ct_rcur s" arbitrary: s)
  case Nil
  then have "s\<lparr>ct_e := ct_e s, ct_rcur := [], ct_ev := ct_ev s @ []\<rparr> = s" by simp
  with Nil show ?case by (metis am_ack_retransmit.simps(1))
next
  case (Cons r l)
  note w = Cons.hyps(2) [symmetric]
  obtain u where u: "mem_sdu (sdu_mem (ct_e s)) (seg_sdu r) = Some u"
    using ctrl_live [OF Cons.prems, of r] w by auto
  have same: "am_ctrl_same e (ct_e s)" using Cons.prems by (simp add: ctrl_ok_def)
  have hs: "am_compute_pdu_header_size (ct_e s) r = am_compute_pdu_header_size e r"
    using same by (simp add: am_ctrl_same_def am_compute_pdu_header_size_def)
  show ?case
  proof (cases "am_sn_compare_tx e (sdu_sn u) ack_sn < 0")
    case True
    then obtain e1 ev1 where r: "am_free_acked (am_retx_size_sub (ct_e s) r) r = Inr (e1, ev1)"
      "ctrl_ok e lost ack_sn new (s\<lparr>ct_e := e1, ct_rcur := l, ct_ev := ct_ev s @ ev1\<rparr>)"
      using ctrl_release [OF Cons.prems u True, of "am_retx_size_sub (ct_e s) r" _ "ct_wdone s @ ct_wrest s" "ct_rnew s @ l"] w
      by (fastforce simp: am_retx_size_sub_def am_cost_def hs)
    from Cons.hyps(1) [OF _ r(2)] obtain e2 l2 ev2 where "am_ack_retransmit e1 ack_sn l = Inr (e2, l2, ev2)"
      "ctrl_ok e lost ack_sn new (s\<lparr>ct_e := e2, ct_rcur := l2, ct_ev := ct_ev s @ ev1 @ ev2\<rparr>)" by auto
    then show ?thesis using w u r(1) True same by (simp add: sdu_at_def am_compare_same)
  next
    case False
    have "s\<lparr>ct_e := ct_e s, ct_rcur := r # l, ct_ev := ct_ev s @ []\<rparr> = s" using w by simp
    moreover have "am_ack_retransmit (ct_e s) ack_sn (ct_rcur s) = Inr (ct_e s, r # l, [])"
      using w u False same by (simp add: sdu_at_def am_compare_same)
    ultimately show ?thesis using Cons.prems by metis
  qed
qed

lemma am_update_tx_next_ack_ok:
  assumes "am_tx_ok lost e"
  shows "\<exists>n. am_update_tx_next_ack e ack_sn = Inr (e\<lparr>am_tx_next_ack := n\<rparr>)"
proof -
  have low: "\<exists>n'. am_lower_to_head e l n = Inr n'" if "set l \<subseteq> set (am_segs e)" for l n
    using am_tx_inv_live [OF assms] that by (cases l) (fastforce simp: am_lower_to_head_def sdu_at_def)+
  have "\<exists>n'. am_lower_to_head e (am_wait_list e) n = Inr n'" "\<exists>n'. am_lower_to_head e (am_retransmit_list e) n = Inr n'" for n
    by (rule low, auto simp: am_segs_def)+
  then show ?thesis unfolding am_update_tx_next_ack_def by (metis bind_r.simps(2))
qed

text \<open>What a status report that passed the validation does.\<close>

definition am_status_effect ::
  "nr_rlc_entity_am_t \<Rightarrow> nr_rlc_sdu_segment_t list \<Rightarrow> int \<Rightarrow> nack_t list \<Rightarrow> nr_rlc_entity_am_t \<Rightarrow> rlc_event list \<Rightarrow> bool" where
  "am_status_effect e lost ack_sn nacks e' ev \<longleftrightarrow> (\<exists>new. am_tx_ok (new @ lost) e' \<and> am_accounted e ack_sn new e' \<and>
     am_reported e ack_sn e' ev \<and> (am_nacks_below e ack_sn nacks \<longrightarrow> new = []) \<and>
     am_tx_next e' = am_tx_next e \<and> am_tx_list e' = am_tx_list e)"

lemma ctrl_ok_start:
  assumes "am_tx_ok lost e" and "e0 = e\<lparr>am_t_poll_retransmit_start := t\<rparr>"
  shows "ctrl_ok e lost ack_sn [] \<lparr>ct_e = e0, ct_wdone = [], ct_wrest = am_wait_list e0, ct_wover = False, ct_rnew = [],
    ct_rcur = am_retransmit_list e0, ct_ev = []\<rparr>" (is "ctrl_ok _ _ _ _ ?s")
proof -
  have "am_tx_view (ct_entity ?s) = am_tx_view e" by (simp add: am_tx_view_def ct_entity_def assms(2))
  then show ?thesis
    using assms am_tx_inv_view [of "ct_entity ?s" e "[]" lost]
    by (auto simp: ctrl_ok_def am_ctrl_same_def am_sdus_from_def am_accounted_def am_reported_def)
qed

lemma am_apply_status_ok:
  assumes "am_tx_ok lost e"
  shows "\<exists>e' ev. am_apply_status e ack_sn nacks = Inr (e', ev) \<and> am_status_effect e lost ack_sn nacks e' ev"
proof -
  define e0 where "e0 = (if am_sn_compare_tx e (am_poll_sn e) ack_sn < 0 then e\<lparr>am_t_poll_retransmit_start := 0\<rparr> else e)"
  let ?s = "\<lparr>ct_e = e0, ct_wdone = [], ct_wrest = am_wait_list e0, ct_wover = False, ct_rnew = [],
    ct_rcur = am_retransmit_list e0, ct_ev = []\<rparr>"
  have "e0 = e\<lparr>am_t_poll_retransmit_start := am_t_poll_retransmit_start e0\<rparr>" by (simp add: e0_def)
  then have "ctrl_ok e lost ack_sn [] ?s" by (rule ctrl_ok_start [OF assms])
  from am_process_nacks_ok [OF this, of nacks] obtain s new where s: "am_process_nacks nacks ack_sn ?s = Inr s"
    "ctrl_ok e lost ack_sn new s" "am_nacks_below e ack_sn nacks \<longrightarrow> new = []" by blast
  obtain e1 w ev1 where w: "(if ct_wover s then Inr (ct_e s, ct_wrest s, []) else am_ack_wait (ct_e s) ack_sn (ct_wrest s)) = Inr (e1, w, ev1)"
    "ctrl_ok e lost ack_sn new (s\<lparr>ct_e := e1, ct_wrest := w, ct_ev := ct_ev s @ ev1\<rparr>)"
    using am_ack_wait_ok [OF s(2)] s(2) by (cases "ct_wover s") auto
  obtain e2 r ev2 where r: "am_ack_retransmit e1 ack_sn (ct_rcur s) = Inr (e2, r, ev2)"
    "ctrl_ok e lost ack_sn new (s\<lparr>ct_wrest := w, ct_e := e2, ct_rcur := r, ct_ev := ct_ev s @ ev1 @ ev2\<rparr>)"
    using am_ack_retransmit_ok [OF w(2)] by auto
  let ?e3 = "e2\<lparr>am_wait_list := ct_wdone s @ w, am_retransmit_list := ct_rnew s @ r\<rparr>"
  have fin: "am_tx_ok (new @ lost) ?e3" "am_accounted e ack_sn new ?e3" "am_reported e ack_sn e2 (ct_ev s @ ev1 @ ev2)" "am_ctrl_same e e2"
    using r(2) by (simp_all add: ctrl_ok_def ct_entity_def)
  obtain n where n: "am_update_tx_next_ack ?e3 ack_sn = Inr (?e3\<lparr>am_tx_next_ack := n\<rparr>)"
    using am_update_tx_next_ack_ok [OF fin(1)] by blast
  have "am_tx_ok (new @ lost) (?e3\<lparr>am_tx_next_ack := n\<rparr>)"
    using fin(1) am_tx_inv_view [of "?e3\<lparr>am_tx_next_ack := n\<rparr>" ?e3] by (simp add: am_tx_view_def)
  moreover have "am_apply_status e ack_sn nacks = Inr (?e3\<lparr>am_tx_next_ack := n\<rparr>, ct_ev s @ ev1 @ ev2)"
    using s(1) w(1) r(1) n by (simp add: am_apply_status_def e0_def [symmetric] Let_def)
  moreover have "am_accounted e ack_sn new (?e3\<lparr>am_tx_next_ack := n\<rparr>)" using fin(2) by (simp add: am_accounted_def)
  moreover have "am_reported e ack_sn (?e3\<lparr>am_tx_next_ack := n\<rparr>) (ct_ev s @ ev1 @ ev2)" using fin(3) by (simp add: am_reported_def)
  moreover have "am_tx_next (?e3\<lparr>am_tx_next_ack := n\<rparr>) = am_tx_next e" "am_tx_list (?e3\<lparr>am_tx_next_ack := n\<rparr>) = am_tx_list e"
    using fin(4) by (simp_all add: am_ctrl_same_def)
  ultimately show ?thesis using s(3) unfolding am_status_effect_def by blast
qed


subsection \<open>Reading the report\<close>

lemma with_bits_ok:
  assumes "dec_ok d" and "c \<le> 31" and "P err"
    and "\<And>v d'. dec_ok d' \<Longrightarrow> dec_pos d' = dec_pos d + c \<Longrightarrow> dec_buffer d' = dec_buffer d \<Longrightarrow> P (k v d')"
  shows "P (with_bits d c err k)"
  using with_bits_cases [OF assms(1,2), of err k] assms(3,4) by metis

lemma result_if: "\<exists>x. a = Inr x \<Longrightarrow> \<exists>x. b = Inr x \<Longrightarrow> \<exists>x. (if c then a else b) = Inr x"
  by simp

text \<open>Each NACK takes at least two bytes, so the fuel is enough.\<close>

lemma am_read_nack_ok:
  assumes "am_cfg_ok e" and "dec_ok d"
  shows "am_read_nack e d = Inr None \<or>
    (\<exists>n e1 d'. am_read_nack e d = Inr (Some (n, e1, d')) \<and> dec_ok d' \<and> dec_pos d + 16 \<le> dec_pos d' \<and> dec_buffer d' = dec_buffer d)"
  unfolding am_read_nack_def Let_def
  by (intro with_bits_ok [where P = "\<lambda>r. r = Inr None \<or>
      (\<exists>n e1 d'. r = Inr (Some (n, e1, d')) \<and> dec_ok d' \<and> dec_pos d + 16 \<le> dec_pos d' \<and> dec_buffer d' = dec_buffer d)"])
    (use assms in \<open>auto simp: am_cfg_ok_def\<close>)

lemma dec_pos_bound: "dec_ok d \<Longrightarrow> dec_pos d \<le> 8 * length (dec_buffer d)"
  by (simp add: dec_ok_def dec_pos_def)

lemma am_validate_nacks_ok:
  assumes "am_cfg_ok e" and "dec_ok d" and "8 * length (dec_buffer d) < 16 * fuel + dec_pos d"
  shows "\<exists>r. am_validate_nacks fuel e ack_sn e1 d = Inr r"
  using assms(2,3)
proof (induction fuel arbitrary: e1 d)
  case 0
  then show ?case using dec_pos_bound [of d] by simp
next
  case (Suc fuel)
  show ?case
  proof (cases "am_read_nack e d = Inr None \<or> \<not> e1")
    case True
    then show ?thesis by (auto simp: am_validate_nacks.simps [of "Suc fuel"])
  next
    case False
    then obtain n e1' d' where r: "am_read_nack e d = Inr (Some (n, e1', d'))" "dec_ok d'" "dec_pos d + 16 \<le> dec_pos d'"
      "dec_buffer d' = dec_buffer d"
      using am_read_nack_ok [OF assms(1) Suc.prems(1)] by blast
    then obtain ns where "am_validate_nacks fuel e ack_sn e1' d' = Inr ns" using Suc.IH [of d' e1'] Suc.prems(2) by auto
    then show ?thesis using r(1) False by (simp add: am_validate_nacks.simps [of "Suc fuel"])
  qed
qed

lemma am_read_status_ok:
  assumes "am_cfg_ok e"
  shows "\<exists>r. am_read_status e buffer = Inr r"
proof -
  have init: "dec_ok (nr_rlc_pdu_decoder_init buffer)" "dec_pos (nr_rlc_pdu_decoder_init buffer) = 0"
    "dec_buffer (nr_rlc_pdu_decoder_init buffer) = buffer"
    by (simp_all add: nr_rlc_pdu_decoder_init_def dec_ok_def dec_pos_def)
  have val: "\<exists>r. bind_r (am_validate_nacks (length buffer) e ack_sn e1 d) (\<lambda>ns.
      Inr (case ns of None \<Rightarrow> None | Some ns \<Rightarrow> Some (ack_sn, ns))) = Inr r"
    if "dec_ok d" "0 < dec_pos d" "dec_buffer d = buffer" for d ack_sn e1
    using am_validate_nacks_ok [OF assms that(1), of "length buffer" ack_sn e1] that(2,3) by auto
  note steps = with_bits_ok [where P = "\<lambda>r. \<exists>x. r = Inr x"] result_if
  have cfg: "nat (am_sn_field_length e) \<le> 31" using assms by (auto simp: am_cfg_ok_def)
  show ?thesis
    unfolding am_read_status_def by (intro steps) (use cfg init val in auto)
qed

end
