(* ===== verification/Rlc_Am_Runs.thy ===== *)
theory Rlc_Am_Runs
  imports Rlc_Um_Tx Rlc_Am_Report Rlc_Am_Ack
begin

text \<open>
  Runs of an acknowledged mode entity: every operation keeps the invariant of the transmit side, whatever bytes arrive and
  whatever grants the MAC gives, and the properties of the acknowledged mode.
\<close>


subsection \<open>Every operation keeps the invariant\<close>

lemma am_accept_ok:
  assumes ok: "am_tx_ok lost e" and new: "nr_rlc_new_sdu (sdu_mem e) buffer sdu_id = (sdu, m)"
    and "buffer \<noteq> []" and "am_tx_size e + int (length buffer) \<le> am_tx_maxsize e"
  shows "am_tx_ok lost (e\<lparr>am_tx_size := am_tx_size e + int (length buffer), sdu_mem := m, stats := st,
    am_tx_list := am_tx_list e @ [sdu], bstatus := (bstatus e)\<lparr>bs_tx_size := bs_tx_size (bstatus e) + am_cost e sdu\<rparr>\<rparr>)"
proof -
  have inv: "mem_inv (sdu_mem e) (am_segs e @ lost)" and segs: "segs_ok (sdu_mem e) (am_segs e @ lost)"
    using ok by (simp_all add: am_tx_inv_def)
  have "mem_inv m ((am_tx_list e @ [sdu]) @ (am_wait_list e @ am_retransmit_list e) @ lost)"
    by (rule mem_inv_perm [OF new_sdu_inv [OF inv new]]) (simp add: am_segs_def)
  moreover have "segs_ok m (sdu # am_segs e @ lost)" by (rule new_sdu_segs_ok [OF new inv segs assms(3)])
  ultimately show ?thesis
    using ok assms(4) new_sdu_bytes [OF inv new] by (auto simp: am_tx_inv_def am_segs_def am_cfg_ok_def)
qed

lemma am_recv_sdu_ok:
  assumes ok: "am_tx_ok lost e" and size: "sdu_size_ok buffer"
  shows "\<exists>e'. nr_rlc_entity_am_recv_sdu now buffer sdu_id e = Inr e' \<and> am_tx_ok lost e'"
proof -
  define e1 where "e1 = (let e = e\<lparr>stats := (stats e)\<lparr>rxsdu_pkts := rxsdu_pkts (stats e) + 1\<rparr>\<rparr> in
    if am_sdu_rejected e \<noteq> 0 \<and> am_t_current e > am_t_log_buffer_full e + 1000
    then e\<lparr>am_sdu_rejected := 0, am_t_log_buffer_full := am_t_current e\<rparr> else e)"
  have "am_tx_view e1 = am_tx_view e" by (simp add: e1_def Let_def am_tx_view_def)
  then have ok1: "am_tx_ok lost e1" using ok am_tx_inv_view by blast
  have big: "\<not> int (length buffer) > NR_SDU_MAX" and ne: "buffer \<noteq> []" using size by (auto simp: sdu_size_ok_def)
  obtain sdu m where new: "nr_rlc_new_sdu (sdu_mem e1) buffer sdu_id = (sdu, m)" by fastforce
  show ?thesis
  proof (cases "am_tx_size e1 + int (length buffer) > am_tx_maxsize e1")
    case True
    have "am_tx_view (e1\<lparr>am_sdu_rejected := am_sdu_rejected e1 + 1\<rparr>) = am_tx_view e1" by (simp add: am_tx_view_def)
    then have "am_tx_ok lost (e1\<lparr>am_sdu_rejected := am_sdu_rejected e1 + 1\<rparr>)" using ok1 am_tx_inv_view by blast
    then show ?thesis
      using big True unfolding nr_rlc_entity_am_recv_sdu_def Let_def e1_def [unfolded Let_def, symmetric] by simp
  next
    case False
    define e2 where "e2 = e1\<lparr>am_tx_size := am_tx_size e1 + int (length buffer), sdu_mem := m,
      stats := (stats e1)\<lparr>rxsdu_bytes := rxsdu_bytes (stats e1) + of_int (int (length buffer))\<rparr>,
      am_tx_list := am_tx_list e1 @ [sdu], bstatus := (bstatus e1)\<lparr>bs_tx_size := bs_tx_size (bstatus e1) + am_cost e1 sdu\<rparr>\<rparr>"
    have ok2: "am_tx_ok lost e2" unfolding e2_def using False by (intro am_accept_ok [OF ok1 new ne]) simp
    have e2: "sdu_mem e2 = m" "sdu \<in> set (am_segs e2)" by (simp_all add: e2_def am_segs_def)
    then obtain u where u: "mem_sdu m (seg_sdu sdu) = Some u" using am_tx_inv_live [OF ok2, of sdu] by auto
    let ?m = "sdu_put m (seg_sdu sdu) (u\<lparr>sdu_time_of_arrival := now\<rparr>)"
    have mem: "mem_inv m (am_segs e2 @ lost)" "segs_ok m (am_segs e2 @ lost)" using ok2 by (simp_all add: am_tx_inv_def e2)
    have "mem_inv ?m (am_segs e2 @ lost)" "mem_bytes ?m = mem_bytes m" "segs_ok ?m (am_segs e2 @ lost)"
      using put_sdu_inv [OF mem(1) u] put_sdu_segs_ok [OF mem(2) u] by simp_all
    then have "am_tx_ok lost (e2\<lparr>sdu_mem := ?m\<rparr>)" using ok2 e2(1) by (simp add: am_tx_inv_def am_segs_def am_cfg_ok_def)
    moreover have "nr_rlc_entity_am_recv_sdu now buffer sdu_id e = (if avg_time_is_on e2 then Inr (e2\<lparr>sdu_mem := ?m\<rparr>) else Inr e2)"
      using big False new u unfolding nr_rlc_entity_am_recv_sdu_def Let_def e1_def [unfolded Let_def, symmetric]
      by (simp add: sdu_at_def e2_def am_cost_def)
    ultimately show ?thesis using ok2 by simp
  qed
qed

lemma am_generate_ok:
  assumes ok: "am_tx_ok lost e"
  shows "\<exists>ret buffer' e'. nr_rlc_entity_am_generate_pdu now buffer e = Inr (ret, buffer', e') \<and> am_tx_ok lost e' \<and>
    length buffer' = length buffer \<and> 0 \<le> ret \<and> ret \<le> int (length buffer)"
proof -
  have cfg: "am_cfg_ok e" using ok by (simp add: am_tx_inv_def)
  obtain ret1 b1 e1 where s: "(if status_to_report e then generate_status buffer e else Inr (0, buffer, e)) = Inr (ret1, b1, e1)"
    "am_tx_ok lost e1" "length b1 = length buffer" "0 \<le> ret1" "ret1 \<le> int (length buffer)"
  proof (cases "status_to_report e")
    case True
    obtain ret1 b1 e1 where "generate_status buffer e = Inr (ret1, b1, e1)" "am_tx_view e1 = am_tx_view e"
      "length b1 = length buffer" "0 \<le> ret1" "ret1 \<le> int (length buffer)"
      using generate_status_ok [OF cfg, of buffer] by blast
    then show ?thesis using that True ok am_tx_inv_view by metis
  qed (use ok that in simp)
  obtain ret2 b2 e2 where r: "(if am_retransmit_list e1 \<noteq> [] then generate_retx_pdu b1 e1 else Inr (0, b1, e1)) = Inr (ret2, b2, e2)"
    "am_tx_ok lost e2" "length b2 = length buffer" "0 \<le> ret2" "ret2 \<le> int (length buffer)"
    using generate_retx_inv [OF s(2), of b1] s(2,3) by (cases "am_retransmit_list e1 = []") auto
  show ?thesis
    unfolding nr_rlc_entity_am_generate_pdu_def s(1) bind_r.simps prod.case r(1)
    using s(2-5) r(2-5) am_generate_tx_inv [OF r(2), of now b2] by simp
qed

lemma am_requeue_ok:
  assumes "am_tx_ok lost (e\<lparr>am_wait_list := l\<rparr>)"
  shows "\<exists>e'. am_requeue_loop e sn l = Inr e' \<and> am_tx_ok lost e'"
  using assms
proof (induction l arbitrary: e)
  case (Cons cur l)
  let ?e0 = "e\<lparr>am_wait_list := cur # l\<rparr>"
  obtain u where u: "mem_sdu (sdu_mem e) (seg_sdu cur) = Some u"
    using am_tx_inv_live [OF Cons.prems, of cur] by (auto simp: am_segs_def)
  let ?e1 = "e\<lparr>bstatus := (bstatus e)\<lparr>bs_retx_size := bs_retx_size (bstatus e) + am_cost e cur\<rparr>\<rparr>"
  have live: "\<forall>s \<in> set (cur # am_retransmit_list e). \<exists>u. mem_sdu (sdu_mem e) (seg_sdu s) = Some u"
    using am_tx_inv_live [OF Cons.prems] by (fastforce simp: am_segs_def)
  then obtain r where r: "nr_rlc_tx_sdu_segment_list_add ?e1 (am_retransmit_list e) cur = Inr r" "mset r = add_mset cur (mset (am_retransmit_list e))"
    using tx_segment_list_add_ok [of cur "am_retransmit_list e" ?e1] by auto
  have set: "set r = insert cur (set (am_retransmit_list e))" using r(2) by (metis set_mset_add_mset_insert set_mset_mset)
  have sum: "(\<Sum>x\<leftarrow>r. am_cost e x) = am_cost e cur + (\<Sum>x\<leftarrow>am_retransmit_list e. am_cost e x)"
    using r(2) by (metis list.simps(9) mset.simps(2) mset_map sum_list.Cons sum_mset_sum_list)
  have "mem_inv (sdu_mem e) ((am_tx_list e @ l @ r) @ lost)"
    using Cons.prems r(2) mem_inv_perm [of "sdu_mem e" "am_segs ?e0 @ lost" "(am_tx_list e @ l @ r) @ lost"]
    by (simp add: am_tx_inv_def am_segs_def)
  then have "am_tx_ok lost ((?e1\<lparr>am_retransmit_list := r\<rparr>)\<lparr>am_wait_list := l\<rparr>)"
    using Cons.prems sum set by (auto simp: am_tx_inv_def am_segs_def am_cfg_ok_def segs_ok_def)
  from Cons.IH [OF this] show ?case
    using Cons.prems u r(1) by (simp add: sdu_at_def Let_def am_cost_def)
qed simp

lemma check_poll_ok:
  assumes ok: "am_tx_ok lost e"
  shows "check_t_poll_retransmit e = Inl Null_deref \<or>
    (\<exists>e' ev. check_t_poll_retransmit e = Inr (e', ev) \<and> am_tx_ok lost e')"
proof -
  let ?e = "e\<lparr>am_t_poll_retransmit_start := 0, am_force_poll := True\<rparr>"
  have ok': "am_tx_ok lost ?e" using ok am_tx_inv_view [of ?e e] by (simp add: am_tx_view_def)
  show ?thesis
  proof (cases "am_wait_list e")
    case Nil
    then show ?thesis using ok ok' by (simp add: check_t_poll_retransmit_def Let_def)
  next
    case (Cons cur l)
    then obtain u where u: "mem_sdu (sdu_mem e) (seg_sdu cur) = Some u"
      using am_tx_inv_live [OF ok, of cur] by (auto simp: am_segs_def)
    let ?m = "sdu_put (sdu_mem e) (seg_sdu cur) (u\<lparr>sdu_retx_count := sdu_retx_count u + 1\<rparr>)"
    have mem: "mem_inv (sdu_mem e) (am_segs e @ lost)" "segs_ok (sdu_mem e) (am_segs e @ lost)" using ok by (simp_all add: am_tx_inv_def)
    have "mem_inv ?m (am_segs e @ lost)" "mem_bytes ?m = mem_bytes (sdu_mem e)" "segs_ok ?m (am_segs e @ lost)"
      using put_sdu_inv [OF mem(1) u] put_sdu_segs_ok [OF mem(2) u] by simp_all
    then have "am_tx_ok lost ((?e\<lparr>sdu_mem := ?m\<rparr>)\<lparr>am_wait_list := am_wait_list e\<rparr>)"
      using ok' by (simp add: am_tx_inv_def am_segs_def am_cfg_ok_def)
    from am_requeue_ok [OF this, of "sdu_sn u"] obtain e' where
      "am_requeue_loop (?e\<lparr>sdu_mem := ?m\<rparr>) (sdu_sn u) (am_wait_list e) = Inr e'" "am_tx_ok lost e'" by blast
    then show ?thesis using ok ok' Cons u by (simp add: check_t_poll_retransmit_def Let_def sdu_at_def)
  qed
qed

lemma free_list_ok:
  assumes "mem_inv m (xs @ ys)" and "segs_ok m (xs @ ys)"
  shows "\<exists>m'. nr_rlc_free_sdu_segment_list xs m = Inr m' \<and> mem_inv m' ys \<and> segs_ok m' ys"
  using assms
proof (induction xs arbitrary: m)
  case (Cons s xs)
  then have inv: "mem_inv m (s # xs @ ys)" and segs: "segs_ok m (xs @ ys)" by simp_all
  obtain freed m1 where f: "nr_rlc_free_sdu_segment m s = Inr (freed, m1)" "mem_inv m1 (xs @ ys)"
    using free_segment_inv [OF inv] by blast
  from Cons.IH [OF f(2) free_segment_segs_ok [OF inv segs f(1)]] f(1) show ?case by simp
qed simp

lemma am_clear_ok:
  assumes ok: "am_tx_ok lost e"
  shows "\<exists>e'. am_clear_entity e = Inr e' \<and> am_tx_ok lost e' \<and> am_segs e' = [] \<and> am_tx_size e' = 0 \<and>
    mem_inv (sdu_mem e') lost"
proof -
  have inv: "mem_inv (sdu_mem e) (am_tx_list e @ am_wait_list e @ am_retransmit_list e @ lost)"
    "segs_ok (sdu_mem e) (am_tx_list e @ am_wait_list e @ am_retransmit_list e @ lost)" and cfg: "am_cfg_ok e"
    using ok by (simp_all add: am_tx_inv_def am_segs_def)
  obtain m1 where m1: "nr_rlc_free_sdu_segment_list (am_tx_list e) (sdu_mem e) = Inr m1"
    "mem_inv m1 (am_wait_list e @ am_retransmit_list e @ lost)" "segs_ok m1 (am_wait_list e @ am_retransmit_list e @ lost)"
    using free_list_ok [OF inv] by blast
  obtain m2 where m2: "nr_rlc_free_sdu_segment_list (am_wait_list e) m1 = Inr m2"
    "mem_inv m2 (am_retransmit_list e @ lost)" "segs_ok m2 (am_retransmit_list e @ lost)"
    using free_list_ok [OF m1(2,3)] by blast
  obtain m3 where m3: "nr_rlc_free_sdu_segment_list (am_retransmit_list e) m2 = Inr m3" "mem_inv m3 lost" "segs_ok m3 lost"
    using free_list_ok [OF m2(2,3)] by blast
  show ?thesis
    unfolding am_clear_entity_def m1(1) bind_r.simps m2(1) m3(1)
    using m3(2,3) cfg mem_bytes_nonneg [OF m3(2)] by (auto simp: am_tx_inv_def am_segs_def am_cfg_ok_def)
qed

lemma am_discard_ok:
  assumes ok: "am_tx_ok lost e"
  shows "\<exists>e'. nr_rlc_entity_am_discard_sdu e sdu_id = Inr e' \<and> am_tx_ok lost e'"
proof -
  have inv: "mem_inv (sdu_mem e) (am_segs e @ lost)" "segs_ok (sdu_mem e) (am_segs e @ lost)" using ok by (simp_all add: am_tx_inv_def)
  have live: "\<exists>u. mem_sdu (sdu_mem e) (seg_sdu s) = Some u" if "s \<in> set (am_tx_list e)" for s
    using am_tx_inv_live [OF ok, of s] that by (auto simp: am_segs_def)
  obtain front rest where find: "find_sdu (sdu_mem e) sdu_id (am_tx_list e) = Inr (front, rest)" "am_tx_list e = front @ rest"
    using find_sdu_ok [of "am_tx_list e" "sdu_mem e" sdu_id, OF live] by blast
  show ?thesis
  proof (cases "rest = [] \<or> \<not> seg_full (hd rest)")
    case True
    then show ?thesis
      using find(1) ok by (cases rest) (auto simp: nr_rlc_entity_am_discard_sdu_def seg_full_def)
  next
    case False
    then obtain cur l where rest: "rest = cur # l" "seg_is_first cur" "seg_is_last cur" by (cases rest) (auto simp: seg_full_def)
    let ?xs = "(front @ l) @ am_wait_list e @ am_retransmit_list e @ lost"
    have mem: "mem_inv (sdu_mem e) (cur # ?xs)" "segs_ok (sdu_mem e) ?xs"
      using inv mem_inv_perm [of "sdu_mem e" "am_segs e @ lost" "cur # ?xs"] find(2) rest by (auto simp: am_segs_def)
    obtain u where u: "mem_sdu (sdu_mem e) (seg_sdu cur) = Some u" "seg_within u cur"
      using am_tx_inv_live [OF ok, of cur] find(2) rest by (auto simp: am_segs_def)
    obtain freed m where f: "nr_rlc_free_sdu_segment (sdu_mem e) cur = Inr (freed, m)" "mem_inv m ?xs"
      "mem_bytes m = mem_bytes (sdu_mem e) - (if freed then owner_size (sdu_mem e) cur else 0)"
      "freed \<longleftrightarrow> seg_sdu cur \<notin> seg_sdu ` set ?xs"
      using free_segment_inv [OF mem(1)] by blast
    have segs': "segs_ok m ?xs" by (rule free_segment_segs_ok [OF mem f(1)])
    have size: "0 \<le> sdu_size u" using mem_inv_size [OF mem(1) u(1)] by simp
    define e' where "e' = e\<lparr>am_tx_list := front @ l, bstatus := (bstatus e)\<lparr>bs_tx_size := bs_tx_size (bstatus e) - am_cost e cur\<rparr>,
      am_tx_size := am_tx_size e - sdu_size u, sdu_mem := m\<rparr>"
    have "nr_rlc_entity_am_discard_sdu e sdu_id = Inr e'"
      using find(1) rest u(1) f(1) by (simp add: nr_rlc_entity_am_discard_sdu_def sdu_at_def e'_def am_cost_def)
    moreover have "bs_tx_size (bstatus e') = (\<Sum>s\<leftarrow>am_tx_list e'. am_cost e' s)"
      using ok find(2) rest(1) by (simp add: am_tx_inv_def e'_def)
    moreover have "am_tx_size e' \<le> mem_bytes m" "am_tx_size e' \<le> am_tx_maxsize e'"
      using ok f(3) size u(1) by (auto simp: am_tx_inv_def e'_def owner_size_def)
    moreover have "am_cfg_ok e'" "sdu_mem e' = m" "am_segs e' @ lost = ?xs" using ok by (simp_all add: am_tx_inv_def am_cfg_ok_def e'_def am_segs_def)
    moreover have "lost = [] \<longrightarrow> bs_retx_size (bstatus e') = (\<Sum>s\<leftarrow>am_retransmit_list e'. am_cost e' s)"
      using ok by (simp add: am_tx_inv_def e'_def)
    ultimately show ?thesis using f(2) segs' by (simp add: am_tx_inv_def)
  qed
qed


subsection \<open>Reception leaves the transmit side alone\<close>

definition am_rx_safe :: "nr_rlc_entity_am_t \<Rightarrow> (nr_rlc_entity_am_t \<times> rlc_event list) result \<Rightarrow> bool" where
  "am_rx_safe e r = (case r of Inl err \<Rightarrow> err \<noteq> Use_after_free \<and> err \<noteq> Fatal_exit | Inr (e', ev) \<Rightarrow> am_tx_view e' = am_tx_view e)"

lemma copy_segment_errors: "copy_segment sdu p bad = Inl err \<Longrightarrow> err = Null_deref \<or> err = Out_of_bounds"
  by (auto simp: copy_segment_def read_at_def Let_def result_simps split: if_splits option.splits)

lemma am_reassemble_loop_errors: "am_reassemble_loop sn l sdu bad = Inl err \<Longrightarrow> err = Null_deref \<or> err = Out_of_bounds"
  by (induction l arbitrary: sdu bad) (auto simp: result_simps dest: copy_segment_errors split: if_splits)

lemma am_reassemble_safe: "am_rx_safe e (am_reassemble_and_deliver e sn)"
  by (auto simp: am_rx_safe_def am_reassemble_and_deliver_def Let_def result_simps am_tx_view_def
      dest: am_reassemble_loop_errors split: sum.split if_splits)

lemma am_skip_errors: "am_skip_delivered e sn = Inl err \<Longrightarrow> err = Diverges"
  by (auto simp: am_skip_delivered_def split: option.splits)

lemma am_reception_full_safe: "am_rx_safe e (am_reception_full e x)"
proof (cases "am_reassemble_and_deliver e x")
  case (Inl err)
  then show ?thesis using am_reassemble_safe [of e x] by (simp add: am_rx_safe_def am_reception_full_def)
next
  case (Inr r)
  obtain e1 ev where r: "r = (e1, ev)" by (cases r)
  have v: "am_tx_view e1 = am_tx_view e" using am_reassemble_safe [of e x] Inr r by (simp add: am_rx_safe_def)
  define post :: "nr_rlc_entity_am_t \<Rightarrow> nr_rlc_entity_am_t" where "post = (\<lambda>e2. if x = am_rx_next e2
    then let (n, l) = am_free_delivered (am_sn_modulus e2) (am_rx_next e2) (am_rx_list e2) in e2\<lparr>am_rx_list := l, am_rx_next := n\<rparr>
    else e2)"
  have free: "am_tx_view (post e2) = am_tx_view e2" for e2 by (simp add: post_def am_tx_view_def split: prod.split)
  have high: "am_tx_view (e1\<lparr>am_rx_highest_status := k\<rparr>) = am_tx_view e1" for k by (simp add: am_tx_view_def)
  have eq: "am_reception_full e x = bind_r (if x = am_rx_highest_status e1
      then bind_r (am_skip_delivered e1 (am_rx_highest_status e1)) (\<lambda>r. Inr (e1\<lparr>am_rx_highest_status := r\<rparr>)) else Inr e1)
      (\<lambda>e. Inr (post e, ev))"
    using Inr r by (simp add: am_reception_full_def post_def)
  show ?thesis
    by (cases "am_skip_delivered e1 (am_rx_highest_status e1)")
      (auto simp: eq am_rx_safe_def free high v dest: am_skip_errors)
qed

lemma am_timers_view [simp]: "am_tx_view (am_stop_timer e) = am_tx_view e" "am_tx_view (am_start_timer e) = am_tx_view e"
  by (simp_all add: am_stop_timer_def am_start_timer_def am_tx_view_def)

lemma am_reception_actions_safe: "am_rx_safe e (am_reception_actions e pdu)"
proof -
  define e1 where "e1 = (if am_sn_compare_rx e (pdu_sn pdu) (am_rx_next_highest e) \<ge> 0
    then e\<lparr>am_rx_next_highest := (pdu_sn pdu + 1) mod am_sn_modulus e\<rparr> else e)"
  have v: "am_tx_view e1 = am_tx_view e" by (simp add: e1_def am_tx_view_def)
  have eq: "am_reception_actions e pdu = bind_r (if am_sdu_full e1 (pdu_sn pdu) then am_reception_full e1 (pdu_sn pdu) else Inr (e1, []))
      (\<lambda>(e, ev). Inr (am_start_timer (am_stop_timer e), ev))"
    unfolding am_reception_actions_def Let_def e1_def ..
  show ?thesis
    using am_reception_full_safe [of e1 "pdu_sn pdu"] v
    by (cases "am_reception_full e1 (pdu_sn pdu)") (auto simp: eq am_rx_safe_def)
qed

lemma am_discard_pdu_safe: "am_tx_view e' = am_tx_view e \<Longrightarrow> am_rx_safe e (am_discard_pdu e' p n)"
  by (simp add: am_rx_safe_def am_discard_pdu_def am_tx_view_def)

lemma am_recv_segment_safe: "am_rx_safe e (am_recv_segment e buffer p sn so f l d)"
proof -
  have put: "am_rx_safe e (bind_r (am_reception_actions (e\<lparr>am_rx_size := i, am_rx_list := r\<rparr>) pdu)
      (\<lambda>(e, ev). Inr (if p then e\<lparr>am_status_triggered := True\<rparr> else e, ev)))" for i r pdu
    using am_reception_actions_safe [of "e\<lparr>am_rx_size := i, am_rx_list := r\<rparr>" pdu]
    by (cases "am_reception_actions (e\<lparr>am_rx_size := i, am_rx_list := r\<rparr>) pdu") (auto simp: am_rx_safe_def am_tx_view_def)
  show ?thesis
    unfolding am_recv_segment_def Let_def by (auto intro!: am_discard_pdu_safe put simp: am_tx_view_def)
qed

lemma am_recv_data_safe:
  assumes "am_cfg_ok e" and "dec_ok d"
  shows "am_rx_safe e (am_recv_data e buffer d)"
proof -
  have cfg: "nat (am_sn_field_length e) \<le> 31" using assms(1) by (auto simp: am_cfg_ok_def)
  have if_safe: "am_rx_safe e x \<Longrightarrow> am_rx_safe e y \<Longrightarrow> am_rx_safe e (if c then x else y)" for x y c by simp
  show ?thesis
    unfolding am_recv_data_def Let_def
    by (intro with_bits_ok [where P = "am_rx_safe e"] if_safe am_recv_segment_safe am_discard_pdu_safe refl)
      (use assms(2) cfg in auto)
qed


subsection \<open>Runs\<close>

datatype am_input =
    Am_sdu u64 "byte list" int
  | Am_grant u64 "byte list"
  | Am_pdu "byte list"
  | Am_time u64
  | Am_discard int
  | Am_reestablish

fun am_step :: "am_input \<Rightarrow> nr_rlc_entity_am_t \<Rightarrow> (nr_rlc_entity_am_t \<times> rlc_event list) result" where
  "am_step (Am_sdu now buffer sdu_id) e = bind_r (nr_rlc_entity_am_recv_sdu now buffer sdu_id e) (\<lambda>e. Inr (e, []))"
| "am_step (Am_grant now buffer) e = bind_r (nr_rlc_entity_am_generate_pdu now buffer e) (\<lambda>(_, _, e). Inr (e, []))"
| "am_step (Am_pdu buffer) e = nr_rlc_entity_am_recv_pdu e buffer"
| "am_step (Am_time now) e = nr_rlc_entity_am_set_time e now"
| "am_step (Am_discard sdu_id) e = bind_r (nr_rlc_entity_am_discard_sdu e sdu_id) (\<lambda>e. Inr (e, []))"
| "am_step Am_reestablish e = bind_r (nr_rlc_entity_am_reestablishment e) (\<lambda>e. Inr (e, []))"

fun am_run :: "am_input list \<Rightarrow> nr_rlc_entity_am_t \<Rightarrow> (nr_rlc_entity_am_t \<times> rlc_event list) result" where
  "am_run [] e = Inr (e, [])"
| "am_run (i # is) e = bind_r (am_step i e) (\<lambda>(e, ev1). bind_r (am_run is e) (\<lambda>(e, ev2). Inr (e, ev1 @ ev2)))"

fun am_input_ok :: "am_input \<Rightarrow> bool" where
  "am_input_ok (Am_sdu now buffer sdu_id) \<longleftrightarrow> sdu_size_ok buffer"
| "am_input_ok _ \<longleftrightarrow> True"

definition am_well_formed :: "nr_rlc_entity_am_t \<Rightarrow> bool" where
  "am_well_formed e \<longleftrightarrow> (\<exists>lost. am_tx_ok lost e)"

definition am_safe :: "(nr_rlc_entity_am_t \<times> rlc_event list) result \<Rightarrow> bool" where
  "am_safe r = (case r of Inl err \<Rightarrow> err \<noteq> Use_after_free \<and> err \<noteq> Fatal_exit | Inr (e, ev) \<Rightarrow> am_well_formed e)"

lemma am_rx_safe_safe: "am_rx_safe e r \<Longrightarrow> am_well_formed e \<Longrightarrow> am_safe r"
  by (auto simp: am_rx_safe_def am_safe_def am_well_formed_def split: sum.splits dest: am_tx_inv_view)

lemma process_control_safe:
  assumes "am_tx_ok lost e"
  shows "(am_read_status e buffer = Inr None \<and> process_control_pdu e buffer = Inr (e, [])) \<or>
    (\<exists>ack_sn nacks e' ev. am_read_status e buffer = Inr (Some (ack_sn, nacks)) \<and> process_control_pdu e buffer = Inr (e', ev) \<and>
      am_status_effect e lost ack_sn nacks e' ev)"
proof -
  have "am_cfg_ok e" using assms by (simp add: am_tx_inv_def)
  then obtain r where r: "am_read_status e buffer = Inr r" using am_read_status_ok [of e buffer] by blast
  show ?thesis
  proof (cases r)
    case (Some x)
    obtain ack_sn nacks where x: "x = (ack_sn, nacks)" by (cases x)
    show ?thesis using am_apply_status_ok [OF assms, of ack_sn nacks] r Some x by (simp add: process_control_pdu_def)
  qed (use r in \<open>simp add: process_control_pdu_def\<close>)
qed

lemma am_recv_pdu_safe:
  assumes "am_well_formed e"
  shows "am_safe (nr_rlc_entity_am_recv_pdu e buffer)"
proof -
  define e1 where "e1 = e\<lparr>stats := (stats e)\<lparr>rxpdu_pkts := rxpdu_pkts (stats e) + 1,
    rxpdu_bytes := rxpdu_bytes (stats e) + of_int (int (length buffer))\<rparr>\<rparr>"
  obtain lost where ok: "am_tx_ok lost e1" using assms by (auto simp: am_well_formed_def e1_def)
  then have cfg: "am_cfg_ok e1" and wf: "am_well_formed e1" by (auto simp: am_tx_inv_def am_well_formed_def)
  have ctrl: "am_safe (process_control_pdu e1 buffer)"
    using process_control_safe [OF ok, of buffer] wf by (auto simp: am_safe_def am_status_effect_def am_well_formed_def)
  have data: "am_safe (am_recv_data e1 buffer d)" if "dec_ok d" for d
    by (rule am_rx_safe_safe [OF am_recv_data_safe [OF cfg that] wf])
  have disc: "am_safe (am_discard_pdu e1 False (int (length buffer)))"
    by (rule am_rx_safe_safe [OF am_discard_pdu_safe [OF refl] wf])
  have "am_safe (with_bits (nr_rlc_pdu_decoder_init buffer) 1 (am_discard_pdu e1 False (int (length buffer))) (\<lambda>dc d.
      if dc = 0 then process_control_pdu e1 buffer else am_recv_data e1 buffer d))"
    by (rule with_bits_ok [where P = am_safe]) (simp_all add: disc ctrl data)
  then show ?thesis unfolding nr_rlc_entity_am_recv_pdu_def Let_def e1_def .
qed

lemma am_check_t_reassembly_view:
  "(case am_check_t_reassembly e of Inl err \<Rightarrow> err = Diverges | Inr e' \<Rightarrow> am_tx_view e' = am_tx_view e)"
  by (cases "am_skip_delivered e (am_rx_next_status_trigger e)")
    (auto simp: am_check_t_reassembly_def Let_def am_tx_view_def dest: am_skip_errors)

lemma am_set_time_safe:
  assumes "am_well_formed e"
  shows "am_safe (nr_rlc_entity_am_set_time e now)"
proof -
  let ?e = "e\<lparr>am_t_current := now\<rparr>"
  obtain lost where ok: "am_tx_ok lost ?e"
    using assms am_tx_inv_view [of ?e e] by (auto simp: am_well_formed_def am_tx_view_def)
  show ?thesis
    using check_poll_ok [OF ok]
  proof (elim disjE exE conjE)
    fix e1 ev
    assume r: "check_t_poll_retransmit ?e = Inr (e1, ev)" "am_tx_ok lost e1"
    show ?thesis
      using am_check_t_reassembly_view [of e1] r
      by (cases "am_check_t_reassembly e1") (auto simp: nr_rlc_entity_am_set_time_def am_safe_def am_well_formed_def dest: am_tx_inv_view)
  qed (simp add: nr_rlc_entity_am_set_time_def am_safe_def)
qed

lemma am_step_safe:
  assumes wf: "am_well_formed e" and "am_input_ok i"
  shows "am_safe (am_step i e)"
proof -
  obtain lost where ok: "am_tx_ok lost e" using wf by (auto simp: am_well_formed_def)
  show ?thesis
  proof (cases i)
    case (Am_sdu now buffer sdu_id)
    with am_recv_sdu_ok [OF ok, of buffer now sdu_id] assms(2) show ?thesis by (auto simp: am_safe_def am_well_formed_def)
  next
    case (Am_grant now buffer)
    with am_generate_ok [OF ok, of now buffer] show ?thesis by (auto simp: am_safe_def am_well_formed_def)
  next
    case (Am_discard sdu_id)
    with am_discard_ok [OF ok, of sdu_id] show ?thesis by (auto simp: am_safe_def am_well_formed_def)
  next
    case Am_reestablish
    with am_clear_ok [OF ok] show ?thesis by (auto simp: am_safe_def am_well_formed_def nr_rlc_entity_am_reestablishment_def)
  qed (use am_recv_pdu_safe [OF wf] am_set_time_safe [OF wf] in auto)
qed

lemma am_run_safe:
  assumes "am_well_formed e" and "list_all am_input_ok is"
  shows "am_safe (am_run is e)"
  using assms
proof (induction "is" arbitrary: e)
  case (Cons i "is")
  have s: "am_safe (am_step i e)" using am_step_safe [of e i] Cons.prems by simp
  show ?case
  proof (cases "am_step i e")
    case (Inr r)
    obtain e1 ev where "r = (e1, ev)" by (cases r)
    with Inr s Cons.IH [of e1] Cons.prems show ?thesis by (cases "am_run is e1") (auto simp: am_safe_def)
  qed (use s in \<open>simp add: am_safe_def\<close>)
qed (simp add: am_safe_def)

lemma am_new_ok:
  assumes "new_nr_rlc_entity_am rx tx a b c d p m sn = Inr e" and "0 \<le> tx"
  shows "am_tx_ok [] e"
  using assms mem_inv_empty
  by (auto simp: new_nr_rlc_entity_am_def Let_def result_simps am_tx_inv_def am_cfg_ok_def am_segs_def bstatus_zero_def mem_empty_def
      split: if_splits)

interpretation am: rlc_tx_entity am_well_formed "\<lambda>_. True" nr_rlc_entity_am_recv_sdu nr_rlc_entity_am_generate_pdu
  nr_rlc_entity_am_reestablishment nr_rlc_entity_am_available_tx_space
proof unfold_locales
  fix e buffer now sdu_id
  assume "am_well_formed e" "sdu_size_ok buffer"
  then show "\<exists>e'. nr_rlc_entity_am_recv_sdu now buffer sdu_id e = Inr e' \<and> am_well_formed e'"
    using am_recv_sdu_ok unfolding am_well_formed_def by blast
next
  fix e and buffer :: "byte list" and now
  assume "am_well_formed e" True
  then show "\<exists>ret buffer' e'. nr_rlc_entity_am_generate_pdu now buffer e = Inr (ret, buffer', e') \<and> am_well_formed e' \<and>
      0 \<le> ret \<and> ret \<le> int (length buffer) \<and> length buffer' = length buffer"
    using am_generate_ok unfolding am_well_formed_def by blast
next
  fix e
  assume "am_well_formed e"
  then show "\<exists>e'. nr_rlc_entity_am_reestablishment e = Inr e' \<and> am_well_formed e'"
    using am_clear_ok unfolding am_well_formed_def nr_rlc_entity_am_reestablishment_def by blast
qed (auto simp: am_well_formed_def am_tx_inv_def nr_rlc_entity_am_available_tx_space_def)

end
