(* ===== verification/Rlc_Am_Faults.thy ===== *)
theory Rlc_Am_Faults
  imports Rlc_Am_Runs
begin

text \<open>
  Two situations in which the transmit side of the acknowledged mode goes wrong, for any well-formed entity. A report that
  acknowledges everything that waits but not the number of the last poll leaves \<open>t_poll_retransmit\<close> running with an empty wait
  list. A report with a NACK at \<open>ACK_SN\<close> itself can cut off the retransmission list.
\<close>

lemma am_frame_id:
  "\<exists>n st. e\<lparr>sdu_mem := m\<rparr> = e\<lparr>sdu_mem := m, am_tx_size := n, stats := st\<rparr>"
  "\<exists>m n st. e = e\<lparr>sdu_mem := m, am_tx_size := n, stats := st\<rparr>"
proof -
  show "\<exists>n st. e\<lparr>sdu_mem := m\<rparr> = e\<lparr>sdu_mem := m, am_tx_size := n, stats := st\<rparr>"
    by (intro exI [of _ "am_tx_size e"] exI [of _ "stats e"]) simp
  show "\<exists>m n st. e = e\<lparr>sdu_mem := m, am_tx_size := n, stats := st\<rparr>"
    by (intro exI [of _ "sdu_mem e"] exI [of _ "am_tx_size e"] exI [of _ "stats e"]) simp
qed

lemma am_free_acked_frame:
  assumes "am_free_acked e w = Inr (e', ev)"
  shows "\<exists>m n st. e' = e\<lparr>sdu_mem := m, am_tx_size := n, stats := st\<rparr>"
  using assms am_frame_id(1) by (auto simp: am_free_acked_def result_simps Let_def split: if_splits) blast+

lemma ctrl_sn:
  assumes "ctrl_ok e lost ack_sn new s" and "x \<in> set (ct_wdone s @ ct_wrest s @ ct_rnew s @ ct_rcur s)"
  shows "\<exists>u v. mem_sdu (sdu_mem (ct_e s)) (seg_sdu x) = Some u \<and> mem_sdu (sdu_mem e) (seg_sdu x) = Some v \<and> sdu_sn u = sdu_sn v"
proof -
  obtain u where "mem_sdu (sdu_mem (ct_e s)) (seg_sdu x) = Some u" using ctrl_live [OF assms] by blast
  with assms(1) show ?thesis unfolding ctrl_ok_def am_sdus_from_def by metis
qed


subsection \<open>A report that acknowledges all but the poll\<close>

lemma am_ack_wait_frame:
  assumes "am_ack_wait e ack_sn l = Inr (e', l', ev)"
  shows "(\<exists>m n st. e' = e\<lparr>sdu_mem := m, am_tx_size := n, stats := st\<rparr>) \<and>
    (l' \<noteq> [] \<longrightarrow> hd l' \<in> set l \<and> (\<exists>u. mem_sdu (sdu_mem e') (seg_sdu (hd l')) = Some u \<and> \<not> am_sn_compare_tx e (sdu_sn u) ack_sn < 0))"
  using assms
proof (induction l arbitrary: e ev)
  case Nil
  then show ?case using am_frame_id(2) by simp
next
  case (Cons w l)
  from Cons.prems obtain u where u: "mem_sdu (sdu_mem e) (seg_sdu w) = Some u"
    by (auto simp: result_simps sdu_at_def split: option.splits)
  show ?case
  proof (cases "am_sn_compare_tx e (sdu_sn u) ack_sn < 0")
    case True
    with Cons.prems u obtain e1 ev1 ev2 where r: "am_free_acked e w = Inr (e1, ev1)" "am_ack_wait e1 ack_sn l = Inr (e', l', ev2)"
      by (auto simp: result_simps sdu_at_def)
    obtain m n st where e1: "e1 = e\<lparr>sdu_mem := m, am_tx_size := n, stats := st\<rparr>" using am_free_acked_frame [OF r(1)] by blast
    then have "am_sn_compare_tx e1 = am_sn_compare_tx e"
      by (simp add: am_sn_compare_tx_def am_modulus_tx_def Let_def fun_eq_iff)
    with Cons.IH [OF r(2)] e1 show ?thesis by auto
  next
    case False
    with Cons.prems u have "e' = e" "l' = w # l" by (simp_all add: sdu_at_def)
    with u False am_frame_id(2) show ?thesis by simp
  qed
qed

lemma am_ack_all:
  assumes ok: "am_tx_ok lost e" and lists: "am_retransmit_list e = []" and acked: "\<forall>w \<in> set (am_wait_list e). am_acked e ack_sn w"
    and t: "t = (if am_sn_compare_tx e (am_poll_sn e) ack_sn < 0 then 0 else am_t_poll_retransmit_start e)"
  shows "\<exists>m n st a ev. am_apply_status e ack_sn [] = Inr (e\<lparr>am_t_poll_retransmit_start := t, sdu_mem := m, am_tx_size := n, stats := st,
    am_wait_list := [], am_retransmit_list := [], am_tx_next_ack := a\<rparr>, ev)"
proof -
  define e0 where "e0 = e\<lparr>am_t_poll_retransmit_start := t\<rparr>"
  have e0: "(if am_sn_compare_tx e (am_poll_sn e) ack_sn < 0 then e\<lparr>am_t_poll_retransmit_start := 0\<rparr> else e) = e0"
    by (simp add: e0_def t)
  have cmp: "am_sn_compare_tx e0 = am_sn_compare_tx e"
    by (simp add: am_sn_compare_tx_def am_modulus_tx_def Let_def fun_eq_iff e0_def)
  let ?s = "\<lparr>ct_e = e0, ct_wdone = [], ct_wrest = am_wait_list e0, ct_wover = False, ct_rnew = [],
    ct_rcur = am_retransmit_list e0, ct_ev = []\<rparr>"
  have "ctrl_ok e lost ack_sn [] ?s" by (rule ctrl_ok_start [OF ok e0_def])
  from am_ack_wait_ok [OF this] obtain e1 l ev where w: "am_ack_wait e0 ack_sn (am_wait_list e0) = Inr (e1, l, ev)"
    and from_e: "am_sdus_from e e1" by (auto simp: ctrl_ok_def)
  note frame = am_ack_wait_frame [OF w]
  have "l = []"
  proof (rule ccontr)
    assume "l \<noteq> []"
    with frame obtain u where u: "hd l \<in> set (am_wait_list e)" "mem_sdu (sdu_mem e1) (seg_sdu (hd l)) = Some u"
      "\<not> am_sn_compare_tx e (sdu_sn u) ack_sn < 0" by (auto simp: e0_def cmp [unfolded e0_def])
    then obtain v where "mem_sdu (sdu_mem e) (seg_sdu (hd l)) = Some v" "sdu_sn u = sdu_sn v"
      using from_e unfolding am_sdus_from_def by blast
    with u acked show False by (auto simp: am_acked_def)
  qed
  moreover obtain m n st where "e1 = e0\<lparr>sdu_mem := m, am_tx_size := n, stats := st\<rparr>" using frame by blast
  ultimately show ?thesis
    using w lists unfolding am_apply_status_def Let_def e0
    by (simp add: am_update_tx_next_ack_def am_lower_to_head_def e0_def) blast
qed

text \<open>After the timer has run out, an empty wait list is dereferenced.\<close>

lemma am_set_time_null_iff:
  assumes "am_tx_list e = []" and "am_retransmit_list e = []" and "am_wait_list e = []"
  shows "nr_rlc_entity_am_set_time e now = Inl Null_deref \<longleftrightarrow>
    am_t_poll_retransmit_start e \<noteq> 0 \<and> am_t_poll_retransmit_start e + of_int (am_t_poll_retransmit e) < now"
proof -
  have "am_check_t_reassembly x \<noteq> Inl Null_deref" for x
    by (auto simp: am_check_t_reassembly_def Let_def am_skip_delivered_def split: option.splits)
  then show ?thesis
    using assms by (auto simp: nr_rlc_entity_am_set_time_def check_t_poll_retransmit_def check_poll_after_pdu_assembly_def Let_def not_le
        bind_r_eq_Inl)
qed


subsection \<open>A report with a NACK at the acknowledged number\<close>

text \<open>The wait list is released, and then the head \<open>r\<close> of the retransmission list ends the processing with the list cut off.\<close>

lemma am_nack_loop_loses:
  assumes "ctrl_ok e lost ack_sn [] s" and "ct_rcur s = r # rs" and "\<not> ct_wover s" and "\<forall>w \<in> set (ct_wrest s). am_acked e ack_sn w"
    and v: "mem_sdu (sdu_mem e) (seg_sdu r) = Some v" "sdu_sn v = ack_sn"
    and apart: "\<not> so_overlap a b (seg_so r) (seg_so r + seg_size r - 1)" "seg_so r \<le> a"
  shows "\<exists>s'. am_nack_loop (ack_sn, a, b) ack_sn s = Inr (True, s') \<and> ctrl_ok e lost ack_sn (r # rs) s' \<and>
    ct_wdone s' = ct_wdone s \<and> ct_wrest s' = [] \<and> ct_rnew s' = ct_rnew s \<and> ct_rcur s' = [] \<and> \<not> ct_wover s' \<and>
    bstatus (ct_e s') = bstatus (ct_e s)"
  using assms(1-4)
proof (induction "ct_wrest s" arbitrary: s)
  case Nil
  obtain u where u: "mem_sdu (sdu_mem (ct_e s)) (seg_sdu r) = Some u" "sdu_sn u = ack_sn"
    using ctrl_sn [OF Nil.prems(1), of r] Nil.prems(2) v by auto
  have "am_nack_loop (ack_sn, a, b) ack_sn s = Inr (True, s\<lparr>ct_rcur := []\<rparr>)"
    using Nil.hyps [symmetric] Nil.prems(2,3) u apart
    by (simp add: am_nack_loop.simps [of _ _ s] process_next_pdu_def ct_cur_wait_def process_retransmit_list_head_def sdu_at_def am_sn_compare_tx_def)
  moreover have "ctrl_ok e lost ack_sn (r # rs) (s\<lparr>ct_rcur := []\<rparr>)"
    using ctrl_lose [OF Nil.prems(1)] Nil.prems(2) by simp
  ultimately show ?case using Nil.hyps Nil.prems(3) by (intro exI [of _ "s\<lparr>ct_rcur := []\<rparr>"]) simp
next
  case (Cons w l)
  note w = Cons.hyps(2) [symmetric]
  have same: "am_ctrl_same e (ct_e s)" using Cons.prems(1) by (simp add: ctrl_ok_def)
  obtain u where u: "mem_sdu (sdu_mem (ct_e s)) (seg_sdu w) = Some u" "am_sn_compare_tx e (sdu_sn u) ack_sn < 0"
    using ctrl_sn [OF Cons.prems(1), of w] Cons.prems(4) w by (auto simp: am_acked_def)
  obtain x where x: "mem_sdu (sdu_mem (ct_e s)) (seg_sdu r) = Some x" "sdu_sn x = ack_sn"
    using ctrl_sn [OF Cons.prems(1), of r] Cons.prems(2) v by auto
  obtain e1 ev where r: "am_free_acked (ct_e s) w = Inr (e1, ev)"
    "ctrl_ok e lost ack_sn [] (s\<lparr>ct_e := e1, ct_wrest := l, ct_ev := ct_ev s @ ev\<rparr>)" (is "ctrl_ok _ _ _ _ ?s1")
    using ctrl_release [OF Cons.prems(1) u, of "ct_e s" "bstatus (ct_e s)" "ct_wdone s @ l" "ct_rnew s @ ct_rcur s"] w by fastforce
  have ne: "sdu_sn u \<noteq> ack_sn" using u(2) by (auto simp: am_sn_compare_tx_def)
  have "process_next_pdu (ack_sn, a, b) ack_sn s = Inr (Next_pdu ?s1)"
    using w Cons.prems(2,3) u x r(1) ne
    by (simp add: process_next_pdu_def ct_cur_wait_def process_wait_list_head_def sdu_at_def am_compare_same [OF same])
  then have step: "am_nack_loop (ack_sn, a, b) ack_sn s = am_nack_loop (ack_sn, a, b) ack_sn ?s1"
    by (simp add: am_nack_loop.simps [of _ _ s])
  have "bstatus e1 = bstatus (ct_e s)" using am_free_acked_frame [OF r(1)] by auto
  with Cons.hyps(1) [of ?s1] r(2) Cons.prems(2-4) w show ?case unfolding step by simp
qed

lemma am_nack_at_ack:
  assumes ok: "am_tx_ok lost e" and acked: "\<forall>w \<in> set (am_wait_list e). am_acked e ack_sn w" and r: "am_retransmit_list e = r # rs"
    and v: "mem_sdu (sdu_mem e) (seg_sdu r) = Some v" "sdu_sn v = ack_sn" and sn: "0 \<le> ack_sn" "ack_sn < am_sn_modulus e"
    and n: "nk_sn n = ack_sn" "nk_range n = 1"
    and apart: "\<not> so_overlap (nk_so_start n) (nk_so_end n) (seg_so r) (seg_so r + seg_size r - 1)" "seg_so r \<le> nk_so_start n"
  shows "\<exists>e' ev. am_apply_status e ack_sn [n] = Inr (e', ev) \<and> am_wait_list e' = [] \<and> am_retransmit_list e' = [] \<and>
    am_tx_ok ((r # rs) @ lost) e' \<and> am_reported e ack_sn e' ev \<and> bstatus e' = bstatus e"
proof -
  define e0 where "e0 = (if am_sn_compare_tx e (am_poll_sn e) ack_sn < 0 then e\<lparr>am_t_poll_retransmit_start := 0\<rparr> else e)"
  define t0 where "t0 = am_t_poll_retransmit_start e0"
  have e0: "e0 = e\<lparr>am_t_poll_retransmit_start := t0\<rparr>" by (simp add: e0_def t0_def)
  let ?s = "\<lparr>ct_e = e0, ct_wdone = [], ct_wrest = am_wait_list e0, ct_wover = False, ct_rnew = [],
    ct_rcur = am_retransmit_list e0, ct_ev = []\<rparr>"
  have items: "nack_items e0 n = [(ack_sn, nk_so_start n, nk_so_end n)]"
    using n sn by (simp add: nack_items_def e0)
  have "ctrl_ok e lost ack_sn [] ?s" by (rule ctrl_ok_start [OF ok e0])
  then obtain s where s: "am_nack_loop (ack_sn, nk_so_start n, nk_so_end n) ack_sn ?s = Inr (True, s)" "ctrl_ok e lost ack_sn (r # rs) s"
      "ct_wdone s = []" "ct_wrest s = []" "ct_rnew s = []" "ct_rcur s = []" "\<not> ct_wover s" "bstatus (ct_e s) = bstatus e"
    using am_nack_loop_loses [of e lost ack_sn ?s r rs v "nk_so_start n" "nk_so_end n"] r acked v apart by (auto simp: e0)
  obtain e1 where e1: "am_process_nacks [n] ack_sn ?s = Inr (s\<lparr>ct_e := e1\<rparr>)" "ctrl_ok e lost ack_sn (r # rs) (s\<lparr>ct_e := e1\<rparr>)" "bstatus e1 = bstatus e"
    using s(1,2,8) items ctrl_ok_poll [OF s(2), of 0] by (auto simp: Let_def)
  let ?e2 = "e1\<lparr>am_wait_list := [], am_retransmit_list := []\<rparr>"
  have fin: "am_tx_ok ((r # rs) @ lost) ?e2" "am_reported e ack_sn e1 (ct_ev s)"
    using e1(2) s(3-6) by (simp_all add: ctrl_ok_def ct_entity_def)
  obtain a where a: "am_update_tx_next_ack ?e2 ack_sn = Inr (?e2\<lparr>am_tx_next_ack := a\<rparr>)"
    using am_update_tx_next_ack_ok [OF fin(1)] by blast
  have "am_apply_status e ack_sn [n] = Inr (?e2\<lparr>am_tx_next_ack := a\<rparr>, ct_ev s)"
    using e1(1) s(3-7) a by (simp add: am_apply_status_def e0_def [symmetric] Let_def del: am_process_nacks.simps)
  moreover have "am_tx_ok ((r # rs) @ lost) (?e2\<lparr>am_tx_next_ack := a\<rparr>)"
    using fin(1) am_tx_inv_view [of "?e2\<lparr>am_tx_next_ack := a\<rparr>" ?e2] by (simp add: am_tx_view_def)
  moreover have "am_reported e ack_sn (?e2\<lparr>am_tx_next_ack := a\<rparr>) (ct_ev s)"
    using fin(2) by (simp add: am_reported_def)
  ultimately show ?thesis using e1(3) by (intro exI [of _ "?e2\<lparr>am_tx_next_ack := a\<rparr>"] exI [of _ "ct_ev s"]) simp
qed

end
