(* ===== verification/Rlc_Am_Props.thy ===== *)
theory Rlc_Am_Props
  imports Rlc_Am_Faults
begin

text \<open>
  The properties of the acknowledged mode. The last two are about reports that do harm: after one the timer dereferences a
  null pointer, the other loses segments; runs from a new entity show that both can happen.
\<close>


subsection \<open>An entity in use\<close>

text \<open>An entity that has sent one SDU of four bytes with sequence number 0 and waits for its acknowledgement.\<close>

definition am_example_seg :: nr_rlc_sdu_segment_t where
  "am_example_seg = \<lparr>seg_sdu = 0, seg_size = 4, seg_so = 0, seg_is_first = True, seg_is_last = True\<rparr>"

definition am_example_sdu :: nr_rlc_sdu_t where
  "am_example_sdu = \<lparr>sdu_sn = 0, sdu_upper_layer_id = 7, sdu_data = [1, 2, 3, 4], sdu_size = 4, sdu_retx_count = - 1,
     sdu_ref_count = 1, sdu_free_count = 0, sdu_time_of_arrival = 0\<rparr>"

definition am_example :: nr_rlc_entity_am_t where
  "am_example =
     \<lparr>bstatus = bstatus_zero, stats = nr_rlc_statistics_zero NR_RLC_AM, txsdu_avg_time_to_tx = idle_average,
      avg_time_is_on = False, sdu_mem = \<lparr>mem_sdu = [0 \<mapsto> am_example_sdu], mem_next = 1\<rparr>,
      am_t_poll_retransmit = 45, am_t_reassembly = 35, am_t_status_prohibit = 0, am_poll_pdu = - 1, am_poll_byte = - 1,
      am_max_retx_threshold = 8, am_sn_field_length = 12, am_sn_modulus = 4096, am_window_size = 2048,
      am_rx_next = 0, am_rx_next_status_trigger = 0, am_rx_highest_status = 0, am_rx_next_highest = 0,
      am_status_triggered = False, am_tx_next = 1, am_tx_next_ack = 0, am_poll_sn = 0,
      am_pdu_without_poll = 0, am_byte_without_poll = 0, am_force_poll = False,
      am_t_current = 1, am_t_log_buffer_full = 0, am_sdu_rejected = 0,
      am_t_poll_retransmit_start = 1, am_t_reassembly_start = 0, am_t_status_prohibit_start = 0,
      am_rx_list = [], am_rx_size = 0, am_rx_maxsize = 1000,
      am_tx_list = [], am_tx_size = 4, am_tx_maxsize = 1000,
      am_wait_list = [am_example_seg], am_retransmit_list = []\<rparr>"

lemma am_example_ok: "am_tx_ok [] am_example"
  by (auto simp: am_tx_inv_def am_cfg_ok_def am_segs_def mem_inv_def sdu_counted_def seg_within_def mem_bytes_def am_example_def
      am_example_seg_def am_example_sdu_def bstatus_zero_def split: if_splits)


subsection \<open>Properties\<close>

text \<open>C3. Well-formedness of the acknowledged mode. Take a new entity and any sequence of SDUs of legal size, grants of any
  length, PDUs with any content, clock values, discards and re-establishments. The entity never touches an SDU
  that was freed and never aborts in an assertion, and after every run that completes it is well formed:
  the SDU memory holds exactly the SDUs that its segments refer to, with the right counts, every
  segment lies within its SDU, and the buffer status counts the segments to send.\<close>

theorem am_run_well_formed:
  assumes "new_nr_rlc_entity_am rx_maxsize tx_maxsize t_poll_retransmit t_reassembly t_status_prohibit poll_pdu poll_byte
      max_retx_threshold sn_field_length = Inr e"
    and "0 \<le> tx_maxsize" and "list_all am_input_ok inputs"
  shows "case am_run inputs e of Inl err \<Rightarrow> err \<noteq> Use_after_free \<and> err \<noteq> Fatal_exit | Inr (e', ev) \<Rightarrow> am_well_formed e'"
  using am_run_safe [of e inputs] am_new_ok [OF assms(1,2)] assms(3) by (auto simp: am_safe_def am_well_formed_def)

theorem am_run_well_formed_witness:
  "\<exists>e. new_nr_rlc_entity_am 1000 1000 45 35 0 (- 1) (- 1) 8 12 = Inr e \<and>
     (case am_run [Am_sdu 0 [1, 2, 3, 4] 7, Am_grant 0 (replicate 10 0), Am_pdu [0, 1, 0], Am_time 100, Am_reestablish] e of
        Inl err \<Rightarrow> err \<noteq> Use_after_free \<and> err \<noteq> Fatal_exit | Inr (e', ev) \<Rightarrow> am_well_formed e')"
proof -
  obtain e where e: "new_nr_rlc_entity_am 1000 1000 45 35 0 (- 1) (- 1) 8 12 = Inr e"
    by (simp add: new_nr_rlc_entity_am_def time_average_new_def)
  show ?thesis
    using am_run_well_formed [OF e, of "[Am_sdu 0 [1, 2, 3, 4] 7, Am_grant 0 (replicate 10 0), Am_pdu [0, 1, 0], Am_time 100, Am_reestablish]"] e
    by (simp add: sdu_size_ok_def NR_SDU_MAX_def)
qed

text \<open>C4. Status reports. Whatever the bytes of a control PDU, the reading ends; a report that fails the
  validation changes nothing. A valid report keeps the entity well formed and accounts for every
  segment that was waiting: it still waits, it is due for retransmission, its sequence number is below \<open>ACK_SN\<close> and it
  was released, or it is lost; nothing is lost when every NACK lies below \<open>ACK_SN\<close>. An SDU is reported to the
  upper layer as delivered only when its number is below \<open>ACK_SN\<close> and all of it was released.\<close>

theorem am_status_report_effect:
  assumes "am_tx_ok lost e"
  shows "(am_read_status e buffer = Inr None \<and> process_control_pdu e buffer = Inr (e, [])) \<or>
    (\<exists>ack_sn nacks e' ev. am_read_status e buffer = Inr (Some (ack_sn, nacks)) \<and> process_control_pdu e buffer = Inr (e', ev) \<and>
      am_status_effect e lost ack_sn nacks e' ev)"
  using process_control_safe [OF assms] .

theorem am_status_report_effect_witness:
  "am_tx_ok [] am_example \<and>
   (\<exists>nacks e' ev. process_control_pdu am_example [0, 1, 0] = Inr (e', ev) \<and> am_status_effect am_example [] 1 nacks e' ev)"
proof -
  have "am_read_status am_example [0, 1, 0] = Inr (Some (1, []))" by code_simp
  then show ?thesis using am_status_report_effect [OF am_example_ok, of "[0, 1, 0]"] am_example_ok by auto
qed

text \<open>C26. The size of a status report. When the numbers of the receive side are in range, the report that is written into a
  grant has exactly the size that \<open>buffer_status\<close> computes for a grant of that length, and it fits.\<close>

theorem am_status_size_exact:
  assumes "am_cfg_ok e" and "am_rx_range e (am_rx_list e)" and "status_to_report e"
  shows "\<exists>buffer' e'. generate_status buffer e =
      Inr (bs_status_size (nr_rlc_entity_am_buffer_status e (int (length buffer))), buffer', e') \<and> length buffer' = length buffer \<and>
    bs_status_size (nr_rlc_entity_am_buffer_status e (int (length buffer))) \<le> int (length buffer)"
  using generate_status_ok [OF assms(1), of buffer] assms(2,3) by (auto simp: nr_rlc_entity_am_buffer_status_def)

definition am_status_example :: nr_rlc_entity_am_t where
  "am_status_example = am_example\<lparr>am_status_triggered := True, am_rx_highest_status := 3, am_rx_next_highest := 3,
     am_rx_list := [nr_rlc_new_pdu 2 0 True True [9]]\<rparr>"

theorem am_status_size_exact_witness:
  "bs_status_size (nr_rlc_entity_am_buffer_status am_status_example 10) = 6 \<and>
   (\<exists>buffer' e'. generate_status (replicate 10 0) am_status_example = Inr (6, buffer', e') \<and> length buffer' = 10)"
proof -
  have size: "bs_status_size (nr_rlc_entity_am_buffer_status am_status_example 10) = 6" by code_simp
  have "am_cfg_ok am_status_example" "am_rx_range am_status_example (am_rx_list am_status_example)" "status_to_report am_status_example"
    by (simp_all add: am_status_example_def am_example_def am_cfg_ok_def am_rx_range_def am_sn_ok_def nr_rlc_new_pdu_def status_to_report_def)
  from am_status_size_exact [OF this, of "replicate 10 0"] size show ?thesis by simp
qed

text \<open>C25. Data PDUs. When no status report is due, a PDU that \<open>generate_pdu\<close> sends carries a front of the first segment
  to retransmit, or of the first new one (with the next sequence number when its SDU has none yet): all of
  it when the grant is big enough and as many bytes as fill the grant otherwise, behind a header with the
  number and the position of the segment.\<close>

theorem am_generate_carries:
  assumes ok: "am_tx_ok lost e" and "\<not> status_to_report e"
    and gen: "nr_rlc_entity_am_generate_pdu now buffer e = Inr (ret, buffer', e')" and "ret \<noteq> 0"
  shows "\<exists>s x u sn. (s \<in> set (take 1 (am_retransmit_list e)) \<and> sn = sdu_sn u \<or>
      s \<in> set (take 1 (am_tx_list e)) \<and> sn = (if sdu_sn u = - 1 then am_tx_next e else sdu_sn u)) \<and>
    mem_sdu (sdu_mem e) (seg_sdu s) = Some u \<and> am_piece e s (int (length buffer)) x \<and> ret = am_cost e x \<and>
    ret \<le> int (length buffer) \<and> am_pdu e x sn (take (nat ret) buffer')"
proof (cases "am_retransmit_list e \<noteq> [] \<and> am_compute_pdu_header_size e (hd (am_retransmit_list e)) + 1 \<le> int (length buffer)")
  case True
  then obtain s rest where l: "am_retransmit_list e = s # rest" "am_compute_pdu_header_size e s + 1 \<le> int (length buffer)"
    by (cases "am_retransmit_list e") auto
  from generate_retx_ok [OF ok l] obtain b1 e1 x u where r: "generate_retx_pdu buffer e = Inr (am_cost e x, b1, e1)"
    "0 < am_cost e x" "am_cost e x \<le> int (length buffer)" "am_piece e s (int (length buffer)) x"
    "mem_sdu (sdu_mem e) (seg_sdu s) = Some u" "am_pdu e x (sdu_sn u) (take (nat (am_cost e x)) b1)" by blast
  then have "ret = am_cost e x" "buffer' = b1"
    using gen assms(2) l(1) by (auto simp: nr_rlc_entity_am_generate_pdu_def)
  with r l(1) show ?thesis by (intro exI [of _ s] exI [of _ x] exI [of _ u] exI [of _ "sdu_sn u"]) simp
next
  case False
  have none: "(if am_retransmit_list e \<noteq> [] then generate_retx_pdu buffer e else Inr (0, buffer, e)) = Inr (0, buffer, e)"
    using False am_generate_idle(1) [of e] by (cases "am_retransmit_list e") auto
  have tx: "am_generate_tx_pdu now buffer e = Inr (ret, buffer', e')"
    using gen assms(2) none by (simp add: nr_rlc_entity_am_generate_pdu_def)
  with assms(4) obtain s rest where l: "am_tx_list e = s # rest" "\<not> is_window_stalling e" "am_compute_pdu_header_size e s + 1 \<le> int (length buffer)"
    using am_generate_idle(2-4) [of e] by (cases "am_tx_list e"; force)
  from am_generate_tx_ok [OF ok l(2,1,3), of now] obtain b1 e1 x u where r: "am_generate_tx_pdu now buffer e = Inr (am_cost e x, b1, e1)"
    "am_cost e x \<le> int (length buffer)" "am_piece e s (int (length buffer)) x" "mem_sdu (sdu_mem e) (seg_sdu s) = Some u"
    "am_pdu e x (if sdu_sn u = - 1 then am_tx_next e else sdu_sn u) (take (nat (am_cost e x)) b1)" by blast
  moreover have "ret = am_cost e x" "buffer' = b1" using tx r(1) by simp_all
  ultimately show ?thesis
    using l(1) by (intro exI [of _ s] exI [of _ x] exI [of _ u] exI [of _ "if sdu_sn u = - 1 then am_tx_next e else sdu_sn u"]) simp
qed

theorem am_generate_carries_witness:
  "\<exists>ret buffer' e' s x u sn. nr_rlc_entity_am_generate_pdu 0 (replicate 9 0) (am_example\<lparr>am_wait_list := [],
       am_retransmit_list := [am_example_seg], bstatus := \<lparr>bs_status_size = 0, bs_tx_size = 0, bs_retx_size = 6\<rparr>\<rparr>) = Inr (ret, buffer', e') \<and>
     sn = sdu_sn u \<and> s = am_example_seg \<and> mem_sdu (sdu_mem am_example) (seg_sdu s) = Some u \<and>
     am_piece am_example s 9 x \<and> ret = am_cost am_example x \<and> am_pdu am_example x sn (take (nat ret) buffer')"
proof -
  let ?e = "am_example\<lparr>am_wait_list := [], am_retransmit_list := [am_example_seg],
    bstatus := \<lparr>bs_status_size = 0, bs_tx_size = 0, bs_retx_size = 6\<rparr>\<rparr>"
  have ok: "am_tx_ok [] ?e"
    using am_example_ok
    by (simp add: am_tx_inv_def am_cfg_ok_def am_segs_def am_example_def am_example_seg_def am_cost_def am_compute_pdu_header_size_def)
  have st: "\<not> status_to_report ?e" by (simp add: status_to_report_def am_example_def)
  have l: "am_retransmit_list ?e = am_example_seg # []" "am_compute_pdu_header_size ?e am_example_seg + 1 \<le> int (length (replicate 9 0 :: byte list))"
    by (simp_all add: am_compute_pdu_header_size_def am_example_def am_example_seg_def)
  obtain b1 e1 x where "generate_retx_pdu (replicate 9 0) ?e = Inr (am_cost ?e x, b1, e1)" "0 < am_cost ?e x"
    using generate_retx_ok [OF ok l] by blast
  then have g: "nr_rlc_entity_am_generate_pdu 0 (replicate 9 0) ?e = Inr (am_cost ?e x, b1, e1)" "am_cost ?e x \<noteq> 0"
    using st by (simp_all add: nr_rlc_entity_am_generate_pdu_def)
  have same: "am_same_sdus am_example ?e" by (simp add: am_same_sdus_def)
  have cong: "am_piece ?e = am_piece am_example" "am_pdu ?e = am_pdu am_example" "am_cost ?e = am_cost am_example"
    using am_piece_cong [OF same] am_pdu_cong [OF same] by simp_all
  have tx: "am_tx_list ?e = []" "sdu_mem ?e = sdu_mem am_example" by (simp_all add: am_example_def)
  from am_generate_carries [OF ok st g, unfolded cong tx l(1)] obtain s x' u sn where
    "s \<in> set (take 1 [am_example_seg]) \<and> sn = sdu_sn u \<or> s \<in> set (take 1 []) \<and> sn = (if sdu_sn u = - 1 then am_tx_next ?e else sdu_sn u)"
    and r: "mem_sdu (sdu_mem am_example) (seg_sdu s) = Some u" "am_piece am_example s (int (length (replicate 9 0 :: byte list))) x'"
      "am_cost am_example x = am_cost am_example x'" "am_pdu am_example x' sn (take (nat (am_cost am_example x)) b1)"
    by blast
  then have "s = am_example_seg" "sn = sdu_sn u" by auto
  with g(1) r show ?thesis
    unfolding cong
    by (intro exI [of _ "am_cost am_example x"] exI [of _ b1] exI [of _ e1] exI [of _ s] exI [of _ x'] exI [of _ u] exI [of _ sn]) simp
qed

definition am_fresh :: "nr_rlc_entity_am_t result" where
  "am_fresh = new_nr_rlc_entity_am 1000 1000 45 35 0 (- 1) (- 1) 8 12"

text \<open>From a new entity: two SDUs are sent; the peer acknowledges both but the first (\<open>ACK_SN\<close> 2, NACK 0), the first is sent
  again with a poll, which \<open>poll_sn\<close> records as number 1, and the peer answers with \<open>ACK_SN\<close> 1.\<close>

lemma am_poll_expiry_reachable:
  "case bind_r am_fresh (am_run
      [Am_time 1, Am_sdu 0 [1] 1, Am_sdu 0 [2] 2, Am_grant 0 (replicate 10 0), Am_grant 0 (replicate 10 0),
       Am_pdu [0, 2, 0x80, 0, 0], Am_grant 0 (replicate 10 0), Am_pdu [0, 1, 0], Am_time 1000]) of
     Inl err \<Rightarrow> err = Null_deref | Inr _ \<Rightarrow> False"
  by code_simp

text \<open>C27. Expiry of the poll timer after an acknowledgement. Take a well-formed entity with nothing to send, \<open>t_poll_retransmit\<close>
  running, and a report without NACKs that acknowledges every segment that waits. The report empties the wait
  list; when the clock is later set to a time after the timer's expiry, \<open>check_t_poll_retransmit\<close> dereferences the head
  of the empty list exactly when \<open>ACK_SN\<close> is not above \<open>poll_sn\<close>, that is, when the report did not stop the timer.\<close>

theorem am_poll_expiry_null:
  assumes "am_tx_ok lost e" and "am_tx_list e = []" and "am_retransmit_list e = []" and "am_t_poll_retransmit_start e \<noteq> 0"
    and "am_read_status e buffer = Inr (Some (ack_sn, []))" and "\<forall>w \<in> set (am_wait_list e). am_acked e ack_sn w"
    and "am_t_poll_retransmit_start e + of_int (am_t_poll_retransmit e) < now"
  shows "\<exists>e' ev. process_control_pdu e buffer = Inr (e', ev) \<and> am_wait_list e' = [] \<and>
    (nr_rlc_entity_am_set_time e' now = Inl Null_deref \<longleftrightarrow> am_sn_compare_tx e ack_sn (am_poll_sn e) \<le> 0)"
proof -
  define t where "t = (if am_sn_compare_tx e (am_poll_sn e) ack_sn < 0 then 0 else am_t_poll_retransmit_start e)"
  obtain e' ev where r: "process_control_pdu e buffer = Inr (e', ev)" "am_tx_list e' = []" "am_retransmit_list e' = []" "am_wait_list e' = []"
    "am_t_poll_retransmit_start e' = t" "am_t_poll_retransmit e' = am_t_poll_retransmit e"
    using am_ack_all [OF assms(1,3,6) t_def] assms(2,5) by (auto simp: process_control_pdu_def)
  have "am_sn_compare_tx e ack_sn (am_poll_sn e) \<le> 0 \<longleftrightarrow> \<not> am_sn_compare_tx e (am_poll_sn e) ack_sn < 0"
    by (auto simp: am_sn_compare_tx_def)
  with am_set_time_null_iff [OF r(2-4), of now] r assms(4,7) show ?thesis
    by (intro exI [of _ e'] exI [of _ ev]) (simp add: t_def)
qed

theorem am_poll_expiry_null_witness:
  "\<exists>e' ev. process_control_pdu (am_example\<lparr>am_tx_next := 2, am_poll_sn := 1\<rparr>) [0, 1, 0] = Inr (e', ev) \<and>
     nr_rlc_entity_am_set_time e' 1000 = Inl Null_deref"
proof -
  let ?e = "am_example\<lparr>am_tx_next := 2, am_poll_sn := 1\<rparr>"
  have "am_tx_ok [] ?e"
    using am_example_ok am_tx_inv_view [of ?e am_example] by (simp add: am_tx_view_def)
  moreover have "am_read_status ?e [0, 1, 0] = Inr (Some (1, []))" by code_simp
  moreover have "\<forall>w \<in> set (am_wait_list ?e). am_acked ?e 1 w" "am_sn_compare_tx ?e 1 (am_poll_sn ?e) \<le> 0"
    "am_tx_list ?e = []" "am_retransmit_list ?e = []" "am_t_poll_retransmit_start ?e \<noteq> 0"
    "am_t_poll_retransmit_start ?e + of_int (am_t_poll_retransmit ?e) < 1000"
    by (simp_all add: am_acked_def am_example_def am_example_seg_def am_example_sdu_def am_sn_compare_tx_def am_modulus_tx_def)
  ultimately show ?thesis
    using am_poll_expiry_null [of "[]" ?e "[0, 1, 0]" 1 1000] by blast
qed

text \<open>From a new entity: an SDU of ten bytes is sent in two segments and both are NACKed; a second report has \<open>ACK_SN\<close> 0
  and a NACK of the bytes 7 to 9 of SDU 0.\<close>

lemma am_nack_at_ack_reachable:
  "case bind_r am_fresh (am_run
      [Am_time 1, Am_sdu 0 [0, 1, 2, 3, 4, 5, 6, 7, 8, 9] 1, Am_grant 0 (replicate 7 0), Am_grant 0 (replicate 9 0),
       Am_pdu [0, 1, 0x80, 0, 0], Am_pdu [0, 0, 0x80, 0, 4, 0, 7, 0, 9]]) of
     Inl _ \<Rightarrow> False
   | Inr (e, ev) \<Rightarrow> am_segs e = [] \<and> ev = [] \<and> am_tx_size e = 10 \<and> bs_retx_size (bstatus e) = 16"
  by code_simp

text \<open>C28. A report with a NACK at \<open>ACK_SN\<close> loses data. Take a well-formed entity whose waiting segments are all acknowledged by
  the report, and whose retransmission list starts with a segment of the SDU numbered \<open>ACK_SN\<close> that ends before the NACKed bytes of
  that same SDU. The report empties the retransmission list: none of its segments is in a list any more, while
  their SDUs stay in memory, are not reported as delivered (only SDUs below \<open>ACK_SN\<close> are), and still count in the buffer
  status.\<close>

theorem am_nack_at_ack_loses:
  assumes "am_tx_ok lost e" and "\<forall>w \<in> set (am_wait_list e). am_acked e ack_sn w" and "am_retransmit_list e = r # rs"
    and "mem_sdu (sdu_mem e) (seg_sdu r) = Some v" and "sdu_sn v = ack_sn" and "0 \<le> ack_sn" and "ack_sn < am_sn_modulus e"
    and "am_read_status e buffer = Inr (Some (ack_sn, [n]))" and "nk_sn n = ack_sn" and "nk_range n = 1"
    and "seg_so r + seg_size r \<le> nk_so_start n"
  shows "\<exists>e' ev. process_control_pdu e buffer = Inr (e', ev) \<and> am_wait_list e' = [] \<and> am_retransmit_list e' = [] \<and>
    am_tx_ok ((r # rs) @ lost) e' \<and> (\<forall>s \<in> set (r # rs). \<exists>u. mem_sdu (sdu_mem e') (seg_sdu s) = Some u) \<and>
    am_reported e ack_sn e' ev \<and> bstatus e' = bstatus e"
proof -
  have "\<not> so_overlap (nk_so_start n) (nk_so_end n) (seg_so r) (seg_so r + seg_size r - 1)" "seg_so r \<le> nk_so_start n"
    using assms(11) am_tx_inv_live [OF assms(1), of r] assms(3) by (auto simp: so_overlap_def am_segs_def seg_within_def)
  from am_nack_at_ack [OF assms(1-7,9,10) this] obtain e' ev where r: "am_apply_status e ack_sn [n] = Inr (e', ev)"
    "am_wait_list e' = []" "am_retransmit_list e' = []" "am_tx_ok ((r # rs) @ lost) e'" "am_reported e ack_sn e' ev" "bstatus e' = bstatus e"
    by blast
  have "\<forall>s \<in> set (r # rs). \<exists>u. mem_sdu (sdu_mem e') (seg_sdu s) = Some u"
    using am_tx_inv_live [OF r(4)] by fastforce
  with r assms(8) show ?thesis by (intro exI [of _ e'] exI [of _ ev]) (simp add: process_control_pdu_def)
qed

definition am_split_example :: nr_rlc_entity_am_t where
  "am_split_example = am_example\<lparr>sdu_mem := \<lparr>mem_sdu = [0 \<mapsto> am_example_sdu\<lparr>sdu_ref_count := 2\<rparr>], mem_next = 1\<rparr>, am_wait_list := [],
     am_retransmit_list := [am_example_seg\<lparr>seg_size := 2, seg_is_last := False\<rparr>, am_example_seg\<lparr>seg_size := 2, seg_so := 2, seg_is_first := False\<rparr>],
     bstatus := \<lparr>bs_status_size = 0, bs_tx_size = 0, bs_retx_size = 10\<rparr>\<rparr>"

theorem am_nack_at_ack_loses_witness:
  "\<exists>e' ev. process_control_pdu am_split_example [0, 0, 0x80, 0, 4, 0, 2, 0, 3] = Inr (e', ev) \<and> am_retransmit_list e' = [] \<and>
     (\<exists>u. mem_sdu (sdu_mem e') 0 = Some u) \<and> bs_retx_size (bstatus e') = 10"
proof -
  let ?e = am_split_example and ?n = "\<lparr>nk_sn = 0, nk_so_start = 2, nk_so_end = 3, nk_range = 1\<rparr>"
  have ok: "am_tx_ok [] ?e"
    by (auto simp: am_tx_inv_def am_cfg_ok_def am_segs_def mem_inv_def sdu_counted_def seg_within_def mem_bytes_def am_split_example_def
        am_example_def am_example_seg_def am_example_sdu_def am_cost_def am_compute_pdu_header_size_def split: if_splits)
  have rd: "am_read_status ?e [0, 0, 0x80, 0, 4, 0, 2, 0, 3] = Inr (Some (0, [?n]))" by code_simp
  let ?r = "am_example_seg\<lparr>seg_size := 2, seg_is_last := False\<rparr>"
    and ?rs = "[am_example_seg\<lparr>seg_size := 2, seg_so := 2, seg_is_first := False\<rparr>]"
  have "\<forall>w \<in> set (am_wait_list ?e). am_acked ?e 0 w" "am_retransmit_list ?e = ?r # ?rs"
    "mem_sdu (sdu_mem ?e) (seg_sdu ?r) = Some (am_example_sdu\<lparr>sdu_ref_count := 2\<rparr>)" "sdu_sn (am_example_sdu\<lparr>sdu_ref_count := 2\<rparr>) = 0"
    "(0 :: int) \<le> 0" "0 < am_sn_modulus ?e" "seg_so ?r + seg_size ?r \<le> nk_so_start ?n" "bs_retx_size (bstatus ?e) = 10" "seg_sdu ?r = 0"
    by (simp_all add: am_split_example_def am_example_def am_example_seg_def am_example_sdu_def)
  with am_nack_at_ack_loses [OF ok this(1-6) rd] show ?thesis by auto
qed

end
