(* ===== verification/Snow3g.thy ===== *)
theory Snow3g
  imports Snow3g_Tables
begin

text \<open>
  The stream cipher SNOW 3G of \<open>openair3/SECU/snow3g.c\<close>, used by the ciphering algorithm NEA1 and
  the integrity algorithm NIA1.

  \<^item> The shift register of 16 words lives in an array of 32 words (\<open>snow_mem\<close>), of which the window
    starting at \<open>snow_pos\<close> is current; a clock writes the new word at both ends of the window and
    moves it by one, so that no word is moved. The reference machine \<open>snow_spec\<close> is the one that
    the comments of the source quote from the specification, which shifts all 16 words.
  \<^item> A local variable of type \<open>snow3g_t\<close>, uninitialised in C, is an argument of the functions that
    declare one; the lemmas show that the results do not depend on it.
  \<^item> The integrity function multiplies by a table of 8 rows of 256 words (\<open>pm\<close>), filled by three
    loops, where the specification multiplies bit by bit (\<open>MUL64\<close>).
\<close>


subsection \<open>The state and its clocks\<close>

record snow3g_t =
  snow_mem :: "u32 list"
  snow_pos :: nat
  snow_r1 :: u32
  snow_r2 :: u32
  snow_r3 :: u32

definition snow_reg :: "snow3g_t \<Rightarrow> nat \<Rightarrow> u32" where
  "snow_reg s i = snow_mem s ! (snow_pos s + i)"

definition byte_of :: "nat \<Rightarrow> u32 \<Rightarrow> nat" where
  "byte_of sh w = unat (drop_bit sh w AND 0xff)"

definition s1 :: "u32 \<Rightarrow> u32" where
  "s1 w = s1_t0 ! byte_of 0 w XOR s1_t1 ! byte_of 8 w XOR s1_t2 ! byte_of 16 w XOR s1_t3 ! byte_of 24 w"

definition s2 :: "u32 \<Rightarrow> u32" where
  "s2 w = s2_t0 ! byte_of 0 w XOR s2_t1 ! byte_of 8 w XOR s2_t2 ! byte_of 16 w XOR s2_t3 ! byte_of 24 w"

definition MULa :: "nat \<Rightarrow> u32" where
  "MULa c = mula ! c"

definition DIVa :: "nat \<Rightarrow> u32" where
  "DIVa c = diva ! c"

definition lfsr_feedback :: "u32 \<Rightarrow> u32 \<Rightarrow> u32 \<Rightarrow> u32" where
  "lfsr_feedback r0 r2 r11 =
     (let v0 = push_bit 24 (of_nat (byte_of 16 r0)) OR push_bit 16 (of_nat (byte_of 8 r0)) OR
               push_bit 8 (of_nat (byte_of 0 r0));
          v11 = push_bit 16 (of_nat (byte_of 24 r11)) OR push_bit 8 (of_nat (byte_of 16 r11)) OR
               of_nat (byte_of 8 r11)
      in v0 XOR MULa (byte_of 24 r0) XOR r2 XOR v11 XOR DIVa (byte_of 0 r11))"

definition lfsr_shift :: "snow3g_t \<Rightarrow> u32 \<Rightarrow> snow3g_t" where
  "lfsr_shift s v =
     (let mem = (snow_mem s)[snow_pos s := v, snow_pos s + 16 := v]; pos = snow_pos s + 1
      in s\<lparr>snow_mem := mem, snow_pos := if pos = 16 then 0 else pos\<rparr>)"

definition lfsr_init :: "snow3g_t \<Rightarrow> u32 \<Rightarrow> snow3g_t" where
  "lfsr_init s f = lfsr_shift s (lfsr_feedback (snow_reg s 0) (snow_reg s 2) (snow_reg s 11) XOR f)"

definition lfsr_keystream :: "snow3g_t \<Rightarrow> snow3g_t" where
  "lfsr_keystream s = lfsr_shift s (lfsr_feedback (snow_reg s 0) (snow_reg s 2) (snow_reg s 11))"

definition clock_fsm :: "snow3g_t \<Rightarrow> u32 \<times> snow3g_t" where
  "clock_fsm s =
     (let f = (snow_reg s 15 + snow_r1 s) XOR snow_r2 s;
          r = snow_r2 s + (snow_r3 s XOR snow_reg s 5)
      in (f, s\<lparr>snow_r3 := s2 (snow_r2 s), snow_r2 := s1 (snow_r1 s), snow_r1 := r\<rparr>))"

definition GET32 :: "byte list \<Rightarrow> u32" where
  "GET32 b = push_bit 24 (ucast (b ! 0)) OR push_bit 16 (ucast (b ! 1)) OR
     push_bit 8 (ucast (b ! 2)) OR ucast (b ! 3)"

primrec init_rounds :: "nat \<Rightarrow> snow3g_t \<Rightarrow> snow3g_t" where
  "init_rounds 0 s = s"
| "init_rounds (Suc n) s = (let (f, s') = clock_fsm s in init_rounds n (lfsr_init s' f))"

definition snow3g_load :: "snow3g_t \<Rightarrow> byte list \<Rightarrow> byte list \<Rightarrow> snow3g_t" where
  "snow3g_load s key ivb =
     (let k = (\<lambda>i. GET32 (drop (4 * i) key)); iv = (\<lambda>i. GET32 (drop (4 * i) ivb))
      in s\<lparr>snow_pos := 0,
           snow_mem := (snow_mem s)[15 := k 3 XOR iv 0, 14 := k 2, 13 := k 1, 12 := k 0 XOR iv 1,
             11 := k 3 XOR 0xffffffff, 10 := k 2 XOR 0xffffffff XOR iv 2,
             9 := k 1 XOR 0xffffffff XOR iv 3, 8 := k 0 XOR 0xffffffff,
             7 := k 3, 6 := k 2, 5 := k 1, 4 := k 0,
             3 := k 3 XOR 0xffffffff, 2 := k 2 XOR 0xffffffff, 1 := k 1 XOR 0xffffffff,
             0 := k 0 XOR 0xffffffff],
           snow_r1 := 0, snow_r2 := 0, snow_r3 := 0\<rparr>)"

definition snow3g_init :: "snow3g_t \<Rightarrow> byte list \<Rightarrow> byte list \<Rightarrow> snow3g_t" where
  "snow3g_init s k iv = lfsr_keystream (snd (clock_fsm (init_rounds 32 (snow3g_load s k iv))))"

definition generate_keystream_step :: "snow3g_t \<Rightarrow> u32 \<times> snow3g_t" where
  "generate_keystream_step s =
     (let (f, s') = clock_fsm s in (f XOR snow_reg s' 0, lfsr_keystream s'))"

primrec keystream_words :: "nat \<Rightarrow> snow3g_t \<Rightarrow> u32 list" where
  "keystream_words 0 s = []"
| "keystream_words (Suc n) s = (let (w, s') = generate_keystream_step s in w # keystream_words n s')"


subsection \<open>Ciphering\<close>

text \<open>The bytes of \<open>htonl(w)\<close> in memory: the most significant one first.\<close>

definition htonl_bytes :: "u32 \<Rightarrow> byte list" where
  "htonl_bytes w = [ucast (drop_bit 24 w), ucast (drop_bit 16 w), ucast (drop_bit 8 w), ucast w]"

definition snow_key :: "byte list \<Rightarrow> byte list" where
  "snow_key key = map (\<lambda>i. key ! i) [12, 13, 14, 15, 8, 9, 10, 11, 4, 5, 6, 7, 0, 1, 2, 3]"

definition cipher_iv :: "u32 \<Rightarrow> int \<Rightarrow> int \<Rightarrow> byte list" where
  "cipher_iv cnt bearer direction =
     (let b = word_of_int (push_bit 3 bearer OR push_bit 2 direction); c = htonl_bytes cnt
      in [b, 0, 0, 0] @ c @ [b, 0, 0, 0] @ c)"

definition keystream_bytes :: "nat \<Rightarrow> snow3g_t \<Rightarrow> byte list" where
  "keystream_bytes len s = concat (map htonl_bytes (keystream_words ((len + 3) div 4) s))"

definition snow3g_ciphering ::
  "snow3g_t \<Rightarrow> u32 \<Rightarrow> int \<Rightarrow> int \<Rightarrow> byte list \<Rightarrow> byte list \<Rightarrow> byte list" where
  "snow3g_ciphering s cnt bearer direction key inp =
     (let ks = keystream_bytes (length inp) (snow3g_init s (snow_key key) (cipher_iv cnt bearer direction))
      in map (\<lambda>i. inp ! i XOR ks ! i) [0..<length inp])"


subsection \<open>Integrity\<close>

definition byte_or_0 :: "byte list \<Rightarrow> int \<Rightarrow> nat \<Rightarrow> u64" where
  "byte_or_0 p available i = (if 1 \<le> available \<and> available \<le> 8 \<and> int i < available then ucast (p ! i) else 0)"

definition GET64 :: "byte list \<Rightarrow> int \<Rightarrow> u64" where
  "GET64 p available =
     push_bit 56 (byte_or_0 p available 0) OR push_bit 48 (byte_or_0 p available 1) OR
     push_bit 40 (byte_or_0 p available 2) OR push_bit 32 (byte_or_0 p available 3) OR
     push_bit 24 (byte_or_0 p available 4) OR push_bit 16 (byte_or_0 p available 5) OR
     push_bit 8 (byte_or_0 p available 6) OR byte_or_0 p available 7"

text \<open>A read of \<open>available\<close> bytes at an offset of a message, which must hold them.\<close>

definition GET64_at :: "byte list \<Rightarrow> int \<Rightarrow> int \<Rightarrow> u64 result" where
  "GET64_at inp off available =
     (if off < 0 \<or> off + available > int (length inp) then Inl Out_of_bounds
      else Inr (GET64 (drop (nat off) inp) available))"

definition MULx64 :: "u64 \<Rightarrow> u64 \<Rightarrow> u64" where
  "MULx64 v c = (if v AND push_bit 63 1 \<noteq> 0 then push_bit 1 v XOR c else push_bit 1 v)"

primrec MULxPOW64 :: "u64 \<Rightarrow> nat \<Rightarrow> u64 \<Rightarrow> u64" where
  "MULxPOW64 v 0 c = v"
| "MULxPOW64 v (Suc i) c = MULx64 (MULxPOW64 v i c) c"

definition MUL64 :: "u64 \<Rightarrow> u64 \<Rightarrow> u64 \<Rightarrow> u64" where
  "MUL64 v p c =
     fold (\<lambda>i result. if drop_bit i p AND 1 \<noteq> 0 then result XOR MULxPOW64 v i c else result) [0..<64] 0"

type_synonym pm_table = "nat \<Rightarrow> nat \<Rightarrow> u64"

definition mul_p :: "pm_table \<Rightarrow> u64 \<Rightarrow> u64" where
  "mul_p pm x =
     (let b = (\<lambda>sh. unat (drop_bit sh x AND 255))
      in pm 0 (b 0) XOR pm 1 (b 8) XOR pm 2 (b 16) XOR pm 3 (b 24) XOR pm 4 (b 32) XOR pm 5 (b 40) XOR
         pm 6 (b 48) XOR pm 7 (b 56))"

definition pm_set :: "pm_table \<Rightarrow> nat \<Rightarrow> nat \<Rightarrow> u64 \<Rightarrow> pm_table" where
  "pm_set pm i j v = pm(i := (pm i)(j := v))"

definition pm_first :: "pm_table \<Rightarrow> u64 \<Rightarrow> pm_table" where
  "pm_first pm p = pm_set (fold (\<lambda>i pm. pm_set pm i 0 0) [0..<8] pm) 0 1 p"

definition pm_power :: "nat \<Rightarrow> pm_table \<Rightarrow> pm_table" where
  "pm_power i pm =
     (let a = pm ((i - 1) div 8) (2 ^ ((i - 1) mod 8));
          pm' = pm_set pm (i div 8) (2 ^ (i mod 8)) (push_bit 1 a)
      in if a AND 0x8000000000000000 \<noteq> 0
         then pm_set pm' (i div 8) (2 ^ (i mod 8)) (pm' (i div 8) (2 ^ (i mod 8)) XOR 0x1b)
         else pm')"

definition pm_row :: "(nat \<Rightarrow> u64) \<Rightarrow> nat \<Rightarrow> u64" where
  "pm_row r = fold (\<lambda>j r. fold (\<lambda>k r. r(2 ^ j + k := r (2 ^ j) XOR r k)) [1..<2 ^ j] r) [1..<8] r"

definition pm_fill :: "pm_table \<Rightarrow> u64 \<Rightarrow> pm_table" where
  "pm_fill pm p = fold (\<lambda>i pm. pm(i := pm_row (pm i))) [0..<8] (fold pm_power [1..<64] (pm_first pm p))"

fun eval_blocks :: "pm_table \<Rightarrow> byte list \<Rightarrow> int list \<Rightarrow> u64 \<Rightarrow> u64 result" where
  "eval_blocks pm inp [] eval = Inr eval"
| "eval_blocks pm inp (i # is) eval =
     bind_r (GET64_at inp (i * 8) 8) (\<lambda>m. eval_blocks pm inp is (mul_p pm (eval XOR m)))"

definition integrity_iv :: "u32 \<Rightarrow> u32 \<Rightarrow> int \<Rightarrow> byte list" where
  "integrity_iv cnt fresh direction =
     (let c = htonl_bytes cnt; f = htonl_bytes fresh; d = word_of_int (push_bit 7 (direction AND 1))
      in [f ! 0, f ! 1, f ! 2 XOR d, f ! 3, c ! 0 XOR d, c ! 1, c ! 2, c ! 3] @ f @ c)"

definition integrity_mac :: "pm_table \<Rightarrow> u32 list \<Rightarrow> byte list \<Rightarrow> byte list result" where
  "integrity_mac pm z inp =
     (let len = int (length inp);
          d = (len * 8 + 63) div 64 + 1;
          p = push_bit 32 (ucast (z ! 0)) OR ucast (z ! 1);
          q = push_bit 32 (ucast (z ! 2)) OR ucast (z ! 3);
          pm = pm_fill pm p
      in bind_r (eval_blocks pm inp [0..d - 3] 0) (\<lambda>eval.
         bind_r (GET64_at inp ((d - 2) * 8) (min 8 (len - (d - 2) * 8))) (\<lambda>m.
         let eval = MUL64 (mul_p pm (eval XOR m) XOR word_of_int (len * 8)) q 0x1b;
             eval = drop_bit 32 eval XOR ucast (z ! 4)
         in Inr (htonl_bytes (ucast eval)))))"

definition snow3g_integrity ::
  "snow3g_t \<Rightarrow> pm_table \<Rightarrow> u32 \<Rightarrow> int \<Rightarrow> int \<Rightarrow> byte list \<Rightarrow> byte list \<Rightarrow> byte list result" where
  "snow3g_integrity s pm cnt bearer direction key inp =
     (let fresh = push_bit 27 (word_of_int bearer);
          s = snow3g_init s (snow_key key) (integrity_iv cnt fresh direction)
      in integrity_mac pm (keystream_words 5 s) inp)"

end
