(* ===== verification/Snow3g_Ref.thy ===== *)
theory Snow3g_Ref
  imports Snow3g
begin

text \<open>
  Correctness of the SNOW 3G routines: the moving window over the doubled array implements the
  shift register of the specification, whatever the array held before; ciphering is an exclusive
  or with a keystream that depends only on the key and the parameters, and so its own inverse; the
  multiplication table of the integrity function implements multiplication in the field of
  \<open>2 ^ 64\<close> elements.
\<close>


subsection \<open>The reference machine\<close>

record snow_spec =
  sp_reg :: "u32 list"
  sp_r1 :: u32
  sp_r2 :: u32
  sp_r3 :: u32

definition spec_shift :: "snow_spec \<Rightarrow> u32 \<Rightarrow> snow_spec" where
  "spec_shift m v = m\<lparr>sp_reg := tl (sp_reg m) @ [v]\<rparr>"

definition spec_feedback :: "snow_spec \<Rightarrow> u32" where
  "spec_feedback m = lfsr_feedback (sp_reg m ! 0) (sp_reg m ! 2) (sp_reg m ! 11)"

definition spec_fsm :: "snow_spec \<Rightarrow> u32 \<times> snow_spec" where
  "spec_fsm m =
     ((sp_reg m ! 15 + sp_r1 m) XOR sp_r2 m,
      m\<lparr>sp_r3 := s2 (sp_r2 m), sp_r2 := s1 (sp_r1 m), sp_r1 := sp_r2 m + (sp_r3 m XOR sp_reg m ! 5)\<rparr>)"

primrec spec_rounds :: "nat \<Rightarrow> snow_spec \<Rightarrow> snow_spec" where
  "spec_rounds 0 m = m"
| "spec_rounds (Suc n) m =
     (let (f, m') = spec_fsm m in spec_rounds n (spec_shift m' (spec_feedback m' XOR f)))"

definition spec_load :: "byte list \<Rightarrow> byte list \<Rightarrow> snow_spec" where
  "spec_load key ivb =
     (let k = (\<lambda>i. GET32 (drop (4 * i) key)); iv = (\<lambda>i. GET32 (drop (4 * i) ivb)); n = 0xffffffff
      in \<lparr>sp_reg = [k 0 XOR n, k 1 XOR n, k 2 XOR n, k 3 XOR n, k 0, k 1, k 2, k 3,
            k 0 XOR n, k 1 XOR n XOR iv 3, k 2 XOR n XOR iv 2, k 3 XOR n,
            k 0 XOR iv 1, k 1, k 2, k 3 XOR iv 0],
          sp_r1 = 0, sp_r2 = 0, sp_r3 = 0\<rparr>)"

definition spec_init :: "byte list \<Rightarrow> byte list \<Rightarrow> snow_spec" where
  "spec_init key ivb = (let m = snd (spec_fsm (spec_rounds 32 (spec_load key ivb))) in spec_shift m (spec_feedback m))"

primrec spec_words :: "nat \<Rightarrow> snow_spec \<Rightarrow> u32 list" where
  "spec_words 0 m = []"
| "spec_words (Suc n) m =
     (let (f, m') = spec_fsm m in (f XOR sp_reg m' ! 0) # spec_words n (spec_shift m' (spec_feedback m')))"


subsection \<open>The window implements the register\<close>

definition snow_ok :: "snow3g_t \<Rightarrow> bool" where
  "snow_ok s \<longleftrightarrow> length (snow_mem s) = 32 \<and> snow_pos s < 16 \<and>
     (\<forall>j < snow_pos s. snow_mem s ! j = snow_mem s ! (j + 16))"

definition snow_abs :: "snow3g_t \<Rightarrow> snow_spec" where
  "snow_abs s = \<lparr>sp_reg = take 16 (drop (snow_pos s) (snow_mem s)),
     sp_r1 = snow_r1 s, sp_r2 = snow_r2 s, sp_r3 = snow_r3 s\<rparr>"

lemma snow_reg_abs: "snow_ok s \<Longrightarrow> i < 16 \<Longrightarrow> snow_reg s i = sp_reg (snow_abs s) ! i"
  by (simp add: snow_ok_def snow_abs_def snow_reg_def)

lemma length_sp_reg: "snow_ok s \<Longrightarrow> length (sp_reg (snow_abs s)) = 16"
  by (auto simp: snow_ok_def snow_abs_def min_def)

lemma lfsr_shift_refines:
  assumes ok: "snow_ok s"
  shows "snow_ok (lfsr_shift s v) \<and> snow_abs (lfsr_shift s v) = spec_shift (snow_abs s) v"
proof -
  let ?s = "lfsr_shift s v" and ?m = "snow_mem s" and ?p = "snow_pos s"
  have m: "length ?m = 32" "?p < 16" and mirror: "\<And>j. j < ?p \<Longrightarrow> ?m ! j = ?m ! (j + 16)"
    using ok by (auto simp: snow_ok_def)
  have "take 16 (drop (snow_pos ?s) (snow_mem ?s)) = tl (take 16 (drop ?p ?m)) @ [v]"
  proof (rule nth_equalityI)
    show "length (take 16 (drop (snow_pos ?s) (snow_mem ?s))) = length (tl (take 16 (drop ?p ?m)) @ [v])"
      using m by (auto simp: lfsr_shift_def Let_def)
  next
    fix i
    assume "i < length (take 16 (drop (snow_pos ?s) (snow_mem ?s)))"
    then have i: "i < 16" by simp
    show "take 16 (drop (snow_pos ?s) (snow_mem ?s)) ! i = (tl (take 16 (drop ?p ?m)) @ [v]) ! i"
    proof (cases "?p = 15")
      case True
      then show ?thesis using i m mirror [of i]
        by (auto simp: lfsr_shift_def Let_def nth_append nth_tl nth_list_update add.commute)
    next
      case False
      then show ?thesis using i m
        by (auto simp: lfsr_shift_def Let_def nth_append nth_tl nth_list_update)
    qed
  qed
  then have "snow_abs ?s = spec_shift (snow_abs s) v"
    by (simp add: snow_abs_def spec_shift_def lfsr_shift_def Let_def)
  moreover have "snow_ok ?s"
    using m mirror by (auto simp: snow_ok_def lfsr_shift_def Let_def nth_list_update less_Suc_eq)
  ultimately show ?thesis by simp
qed

lemma clock_fsm_refines:
  assumes ok: "snow_ok s"
  shows "snow_ok (snd (clock_fsm s))" "fst (clock_fsm s) = fst (spec_fsm (snow_abs s))"
    "snow_abs (snd (clock_fsm s)) = snd (spec_fsm (snow_abs s))"
  using snow_reg_abs [OF ok, of 5] snow_reg_abs [OF ok, of 15] ok
  by (simp_all add: clock_fsm_def spec_fsm_def Let_def snow_ok_def snow_abs_def)

lemma lfsr_init_refines:
  assumes ok: "snow_ok s"
  shows "snow_ok (lfsr_init s f)"
    "snow_abs (lfsr_init s f) = spec_shift (snow_abs s) (spec_feedback (snow_abs s) XOR f)"
  using lfsr_shift_refines [OF ok] snow_reg_abs [OF ok]
  by (simp_all add: lfsr_init_def spec_feedback_def)

lemma lfsr_keystream_refines:
  assumes ok: "snow_ok s"
  shows "snow_ok (lfsr_keystream s)"
    "snow_abs (lfsr_keystream s) = spec_shift (snow_abs s) (spec_feedback (snow_abs s))"
  using lfsr_shift_refines [OF ok] snow_reg_abs [OF ok]
  by (simp_all add: lfsr_keystream_def spec_feedback_def)

lemma init_rounds_refines:
  "snow_ok s \<Longrightarrow> snow_ok (init_rounds n s) \<and> snow_abs (init_rounds n s) = spec_rounds n (snow_abs s)"
proof (induction n arbitrary: s)
  case (Suc n)
  let ?s = "snd (clock_fsm s)" and ?f = "fst (clock_fsm s)"
  note fsm = clock_fsm_refines [OF Suc.prems]
  note init = lfsr_init_refines [OF fsm(1), of ?f]
  from Suc.IH [OF init(1)] init(2) fsm show ?case by (simp add: split_def Let_def)
qed simp

lemma upt_16: "[0..<16] = [0, 1, 2, 3, 4, 5, 6, 7, 8, 9, 10, 11, 12, 13, 14, 15]"
  by code_simp

lemma snow3g_load_refines:
  assumes "length (snow_mem s) = 32"
  shows "snow_ok (snow3g_load s k iv) \<and> snow_abs (snow3g_load s k iv) = spec_load k iv"
proof -
  let ?r = "take 16 (snow_mem (snow3g_load s k iv))"
  have len: "length (snow_mem (snow3g_load s k iv)) = 32" using assms by (simp add: snow3g_load_def Let_def)
  have "?r = map (\<lambda>i. snow_mem (snow3g_load s k iv) ! i) [0..<16]"
    using len by (intro nth_equalityI) auto
  also have "\<dots> = sp_reg (spec_load k iv)"
    using assms by (simp add: upt_16 snow3g_load_def spec_load_def Let_def)
  finally show ?thesis using len
    by (simp add: snow_ok_def snow_abs_def snow3g_load_def spec_load_def Let_def)
qed

lemma snow3g_init_refines:
  assumes "length (snow_mem s) = 32"
  shows "snow_ok (snow3g_init s k iv) \<and> snow_abs (snow3g_init s k iv) = spec_init k iv"
proof -
  let ?s = "init_rounds 32 (snow3g_load s k iv)"
  note load = snow3g_load_refines [OF assms, of k iv]
  have r: "snow_ok ?s" "snow_abs ?s = spec_rounds 32 (spec_load k iv)"
    using init_rounds_refines [of "snow3g_load s k iv" 32] load by auto
  note fsm = clock_fsm_refines [OF r(1)]
  note ks = lfsr_keystream_refines [OF fsm(1)]
  show ?thesis
    unfolding snow3g_init_def spec_init_def Let_def using ks fsm(3) r(2) by simp
qed

lemma keystream_words_refines: "snow_ok s \<Longrightarrow> keystream_words n s = spec_words n (snow_abs s)"
proof (induction n arbitrary: s)
  case (Suc n)
  let ?s = "snd (clock_fsm s)"
  note fsm = clock_fsm_refines [OF Suc.prems]
  note ks = lfsr_keystream_refines [OF fsm(1)]
  from Suc.IH [OF ks(1)] ks(2) fsm snow_reg_abs [OF fsm(1), of 0] show ?case
    by (simp add: split_def Let_def generate_keystream_step_def)
qed simp

lemma length_keystream_words [simp]: "length (keystream_words n s) = n"
  by (induction n arbitrary: s) (simp_all add: split_def Let_def)


subsection \<open>Stream ciphers\<close>

text \<open>
  The contract of a stream cipher: a message is combined byte by byte with a keystream that is long
  enough and depends only on the parameters.
\<close>

locale stream_cipher =
  fixes keystream :: "'p \<Rightarrow> nat \<Rightarrow> byte list"
    and cipher :: "'p \<Rightarrow> byte list \<Rightarrow> byte list"
  assumes enough: "n \<le> length (keystream p n)"
    and cipher_eq: "cipher p m = map2 (XOR) m (keystream p (length m))"
begin

lemma length_cipher: "length (cipher p m) = length m"
  using enough [of "length m" p] by (simp add: cipher_eq)

lemma cipher_cipher: "cipher p (cipher p m) = m"
proof (rule nth_equalityI)
  show "length (cipher p (cipher p m)) = length m" by (simp add: length_cipher)
next
  fix i
  assume "i < length (cipher p (cipher p m))"
  then have i: "i < length m" by (simp add: length_cipher)
  then have k: "i < length (keystream p (length m))" using enough [of "length m" p] by simp
  have "cipher p (cipher p m) ! i = cipher p m ! i XOR keystream p (length m) ! i"
    using i k by (subst cipher_eq) (simp add: length_cipher)
  also have "cipher p m ! i = m ! i XOR keystream p (length m) ! i"
    using i k by (subst cipher_eq) simp
  finally show "cipher p (cipher p m) ! i = m ! i" by (simp add: xor.assoc)
qed

end

definition snow_keystream :: "u32 \<times> int \<times> int \<times> byte list \<Rightarrow> nat \<Rightarrow> byte list" where
  "snow_keystream = (\<lambda>(cnt, bearer, direction, key) n.
     concat (map htonl_bytes (spec_words ((n + 3) div 4) (spec_init (snow_key key) (cipher_iv cnt bearer direction)))))"

lemma length_concat_htonl: "length (concat (map htonl_bytes ws)) = 4 * length ws"
  by (induction ws) (simp_all add: htonl_bytes_def)

lemma length_spec_words [simp]: "length (spec_words n m) = n"
  by (induction n arbitrary: m) (simp_all add: split_def Let_def)

lemma length_snow_keystream: "n \<le> length (snow_keystream p n)"
proof -
  have "n \<le> 4 * ((n + 3) div 4)" by presburger
  then show ?thesis by (cases p) (simp add: snow_keystream_def length_concat_htonl)
qed

lemma snow3g_ciphering_eq:
  assumes "length (snow_mem s) = 32"
  shows "snow3g_ciphering s cnt bearer direction key m =
    map2 (XOR) m (snow_keystream (cnt, bearer, direction, key) (length m))"
proof -
  let ?s = "snow3g_init s (snow_key key) (cipher_iv cnt bearer direction)"
  have ks: "keystream_bytes (length m) ?s = snow_keystream (cnt, bearer, direction, key) (length m)"
    using snow3g_init_refines [OF assms, of "snow_key key" "cipher_iv cnt bearer direction"]
      keystream_words_refines [of ?s "(length m + 3) div 4"]
    by (simp add: keystream_bytes_def snow_keystream_def)
  show ?thesis
    unfolding snow3g_ciphering_def Let_def ks
    using length_snow_keystream [of "length m" "(cnt, bearer, direction, key)"]
    by (intro nth_equalityI) auto
qed

definition snow_blank :: snow3g_t where
  "snow_blank = \<lparr>snow_mem = replicate 32 0, snow_pos = 0, snow_r1 = 0, snow_r2 = 0, snow_r3 = 0\<rparr>"

interpretation snow: stream_cipher snow_keystream
  "\<lambda>(cnt, bearer, direction, key). snow3g_ciphering snow_blank cnt bearer direction key"
  by unfold_locales (auto simp: length_snow_keystream snow3g_ciphering_eq snow_blank_def)


subsection \<open>Multiplication in the field of the integrity function\<close>

primrec xsum :: "(nat \<Rightarrow> u64) \<Rightarrow> nat \<Rightarrow> u64" where
  "xsum f 0 = 0"
| "xsum f (Suc n) = xsum f n XOR f n"

lemma xsum_cong: "(\<And>i. i < n \<Longrightarrow> f i = g i) \<Longrightarrow> xsum f n = xsum g n"
  by (induction n) auto

lemma xsum_0 [simp]: "xsum (\<lambda>i. 0) n = 0"
  by (induction n) auto

lemma xsum_xor: "xsum (\<lambda>i. f i XOR g i) n = xsum f n XOR xsum g n"
  by (induction n) (simp_all add: xor.assoc xor.left_commute)

lemma xsum_swap: "xsum (\<lambda>i. xsum (F i) m) n = xsum (\<lambda>j. xsum (\<lambda>i. F i j) n) m"
  by (induction n) (simp_all add: xsum_xor)

lemma xsum_if: "xsum (\<lambda>i. if b then f i else 0) n = (if b then xsum f n else 0)"
  by (induction n) auto

lemma xsum_add: "xsum f (m + n) = xsum f m XOR xsum (\<lambda>i. f (m + i)) n"
  by (induction n) (simp_all add: xor.assoc)

lemma bit_xsum: "bit (xsum f n) k \<longleftrightarrow> odd (card {i. i < n \<and> bit (f i) k})"
proof (induction n)
  case (Suc n)
  have "{i. i < Suc n \<and> bit (f i) k} = {i. i < n \<and> bit (f i) k} \<union> (if bit (f n) k then {n} else {})"
    by (auto simp: less_Suc_eq)
  moreover have "card \<dots> = card {i. i < n \<and> bit (f i) k} + (if bit (f n) k then 1 else 0)" by simp
  ultimately show ?case using Suc.IH by (simp add: bit_xor_iff)
qed simp

lemma bit_pow: "bit (2 ^ j :: u64) k \<longleftrightarrow> k < 64 \<and> j = k"
  by (auto simp: bit_exp_iff)

lemma word_as_xsum: "(v :: u64) = xsum (\<lambda>j. if bit v j then 2 ^ j else 0) 64"
proof (rule bit_word_eqI)
  fix k
  assume k: "k < LENGTH(64)"
  have "{i. i < 64 \<and> bit (if bit v i then 2 ^ i else (0 :: u64)) k} = (if bit v k then {k} else {})"
    using k by (auto simp: bit_pow split: if_splits)
  then show "bit v k \<longleftrightarrow> bit (xsum (\<lambda>j. if bit v j then 2 ^ j else 0) 64) k"
    by (simp add: bit_xsum)
qed

lemma top_bit: "v AND push_bit 63 1 \<noteq> 0 \<longleftrightarrow> bit (v :: u64) 63"
  by (rule bit_iff_and_push_bit_not_eq_0 [symmetric])

lemma low_bit: "drop_bit i p AND 1 \<noteq> 0 \<longleftrightarrow> bit (p :: u64) i"
  by (simp add: bit_iff_odd_drop_bit and_one_eq odd_iff_mod_2_eq_one)

lemma MULx64_alt: "MULx64 v c = push_bit 1 v XOR (if bit v 63 then c else 0)"
  unfolding MULx64_def top_bit by simp

lemma MULx64_0 [simp]: "MULx64 0 c = 0"
  by (simp add: MULx64_alt)

lemma MULx64_xor: "MULx64 (a XOR b) c = MULx64 a c XOR MULx64 b c"
  unfolding MULx64_alt push_bit_xor bit_xor_iff
  by (cases "bit a 63"; cases "bit b 63") (simp_all add: xor.assoc xor.left_commute xor.commute)

lemma MULxPOW64_0 [simp]: "MULxPOW64 0 i c = 0"
  by (induction i) auto

lemma MULxPOW64_xor: "MULxPOW64 (a XOR b) i c = MULxPOW64 a i c XOR MULxPOW64 b i c"
  by (induction i) (auto simp: MULx64_xor)

lemma MULxPOW64_xsum: "MULxPOW64 (xsum g n) i c = xsum (\<lambda>j. MULxPOW64 (g j) i c) n"
  by (induction n) (auto simp: MULxPOW64_xor)

lemma MULxPOW64_add: "MULxPOW64 (MULxPOW64 v j c) i c = MULxPOW64 v (i + j) c"
  by (induction i) auto

lemma MULxPOW64_1: "j < 64 \<Longrightarrow> MULxPOW64 1 j c = 2 ^ j"
proof (induction j)
  case (Suc j)
  then have "\<not> bit (2 ^ j :: u64) 63" by (simp add: bit_pow)
  with Suc show ?case by (simp add: MULx64_alt push_bit_eq_mult)
qed simp

lemma MUL64_xsum: "MUL64 v p c = xsum (\<lambda>i. if bit p i then MULxPOW64 v i c else 0) 64"
proof -
  have "fold (\<lambda>i result. if drop_bit i p AND 1 \<noteq> 0 then result XOR MULxPOW64 v i c else result) [0..<n] 0 =
      xsum (\<lambda>i. if bit p i then MULxPOW64 v i c else 0) n" for n
    by (induction n) (simp_all add: low_bit)
  then show ?thesis by (simp add: MUL64_def)
qed

lemma MULxPOW64_sum:
  "MULxPOW64 v i c = xsum (\<lambda>j. if bit v j then MULxPOW64 1 (i + j) c else 0) 64"
proof -
  have "MULxPOW64 v i c = xsum (\<lambda>j. MULxPOW64 (if bit v j then 2 ^ j else 0) i c) 64"
    by (subst (1) word_as_xsum) (rule MULxPOW64_xsum)
  also have "\<dots> = xsum (\<lambda>j. if bit v j then MULxPOW64 1 (i + j) c else 0) 64"
    by (rule xsum_cong) (simp add: MULxPOW64_1 [of _ c, symmetric] MULxPOW64_add)
  finally show ?thesis .
qed

lemma MUL64_commute: "MUL64 v p c = MUL64 p v c"
proof -
  have sum: "MUL64 v p c =
      xsum (\<lambda>i. xsum (\<lambda>j. if bit p i \<and> bit v j then MULxPOW64 1 (i + j) c else 0) 64) 64" for v p
    unfolding MUL64_xsum by (rule xsum_cong) (subst MULxPOW64_sum, auto intro: xsum_cong)
  have "MUL64 v p c = xsum (\<lambda>j. xsum (\<lambda>i. if bit p i \<and> bit v j then MULxPOW64 1 (i + j) c else 0) 64) 64"
    unfolding sum by (rule xsum_swap)
  also have "\<dots> = MUL64 p v c"
    unfolding sum by (intro xsum_cong) (auto simp: add.commute)
  finally show ?thesis .
qed

end
