(* ===== verification/Snow3g_Mac.thy ===== *)
theory Snow3g_Mac
  imports Snow3g_Ref
begin

text \<open>
  Correctness of the integrity function of SNOW 3G: the multiplication table holds the multiples of
  the key word, a look-up of its eight rows is a product of the field, and the whole function
  returns the authentication code of the message, read in blocks of eight bytes.
\<close>


subsection \<open>The table\<close>

lemma pm_power_eq:
  "pm_power i pm = pm_set pm (i div 8) (2 ^ (i mod 8)) (MULx64 (pm ((i - 1) div 8) (2 ^ ((i - 1) mod 8))) 0x1b)"
proof -
  have "0x8000000000000000 = (push_bit 63 1 :: u64)" by simp
  then show ?thesis unfolding pm_power_def Let_def MULx64_def pm_set_def by (auto simp del: push_bit_of_1)
qed

definition pm_powers :: "nat \<Rightarrow> u64 \<Rightarrow> pm_table \<Rightarrow> bool" where
  "pm_powers n p pm \<longleftrightarrow> (\<forall>i < 8. pm i 0 = 0) \<and> (\<forall>t < n. pm (t div 8) (2 ^ (t mod 8)) = MULxPOW64 p t 0x1b)"

lemma pm_first_powers: "pm_powers 1 p (pm_first pm p)"
proof -
  have "fold (\<lambda>i pm. pm_set pm i 0 0) [0..<n] pm = (\<lambda>i j. if i < n \<and> j = 0 then 0 else pm i j)" for n
    by (induction n) (auto simp: pm_set_def fun_eq_iff)
  then show ?thesis by (auto simp: pm_powers_def pm_first_def pm_set_def)
qed

lemma cell_inj:
  assumes "t div 8 = i div 8" and "(2 :: nat) ^ (t mod 8) = 2 ^ (i mod 8)"
  shows "t = i"
proof -
  have "t mod 8 = i mod 8" using assms(2) power_inject_exp [of "2 :: nat" "t mod 8" "i mod 8"] by simp
  with assms(1) show ?thesis by (metis div_mult_mod_eq)
qed

lemma pm_power_powers:
  assumes "pm_powers i p pm" and "1 \<le> i"
  shows "pm_powers (Suc i) p (pm_power i pm)"
proof -
  have prev: "pm ((i - 1) div 8) (2 ^ ((i - 1) mod 8)) = MULxPOW64 p (i - 1) 0x1b"
    using assms by (simp add: pm_powers_def)
  have new: "MULx64 (MULxPOW64 p (i - 1) 0x1b) 0x1b = MULxPOW64 p i 0x1b"
    using assms(2) by (cases i) simp_all
  show ?thesis
    unfolding pm_powers_def
  proof (intro conjI allI impI)
    fix k :: nat
    assume "k < 8"
    then show "pm_power i pm k 0 = 0" using assms(1) by (auto simp: pm_power_eq pm_set_def pm_powers_def)
  next
    fix t
    assume t: "t < Suc i"
    show "pm_power i pm (t div 8) (2 ^ (t mod 8)) = MULxPOW64 p t 0x1b"
    proof (cases "t = i")
      case True
      then show ?thesis using prev new by (simp add: pm_power_eq pm_set_def)
    next
      case False
      with t have "pm (t div 8) (2 ^ (t mod 8)) = MULxPOW64 p t 0x1b"
        using assms(1) by (simp add: pm_powers_def)
      with False cell_inj [of t i] show ?thesis
        by (cases "t div 8 = i div 8") (auto simp: pm_power_eq pm_set_def)
    qed
  qed
qed

lemma pm_powers_all: "pm_powers 64 p (fold pm_power [1..<64] (pm_first pm p))"
proof -
  have "pm_powers (Suc n) p (fold pm_power [1..<Suc n] (pm_first pm p))" for n
  proof (induction n)
    case 0
    then show ?case using pm_first_powers by simp
  next
    case (Suc n)
    then show ?case using pm_power_powers [OF Suc.IH] by simp
  qed
  from this [of 63] show ?thesis by simp
qed

definition row_sum :: "(nat \<Rightarrow> u64) \<Rightarrow> nat \<Rightarrow> u64" where
  "row_sum r x = xsum (\<lambda>b. if bit x b then r (2 ^ b) else 0) 8"

lemma bit_pow_add:
  assumes "k < 2 ^ j"
  shows "bit (2 ^ j + k :: nat) b \<longleftrightarrow> b = j \<or> bit k b"
proof -
  have "\<not> bit k j" using assms by (simp add: bit_iff_odd)
  then have "2 ^ j + k = 2 ^ j OR k"
    by (intro disjunctive_add_eq_or bit_eqI) (auto simp: bit_and_iff bit_exp_iff)
  then show ?thesis by (auto simp: bit_or_iff bit_exp_iff)
qed

lemma xsum_single: "xsum (\<lambda>b. if b = j then f b else 0) n = (if j < n then f j else 0)"
  by (induction n) auto

lemma row_sum_pow: "j < 8 \<Longrightarrow> row_sum r (2 ^ j) = r (2 ^ j)"
proof -
  assume "j < 8"
  have "row_sum r (2 ^ j) = xsum (\<lambda>b. if b = j then r (2 ^ b) else 0) 8"
    unfolding row_sum_def by (rule xsum_cong) (auto simp: bit_exp_iff)
  with \<open>j < 8\<close> show ?thesis by (simp add: xsum_single)
qed

lemma row_sum_add:
  assumes "k < 2 ^ j" "j < 8"
  shows "row_sum r (2 ^ j + k) = r (2 ^ j) XOR row_sum r k"
proof -
  have "\<not> bit k j" using assms(1) by (simp add: bit_iff_odd)
  then have "row_sum r (2 ^ j + k) =
      xsum (\<lambda>b. (if bit (2 ^ j :: nat) b then r (2 ^ b) else 0) XOR (if bit k b then r (2 ^ b) else 0)) 8"
    unfolding row_sum_def by (intro xsum_cong) (auto simp: bit_pow_add [OF assms(1)] bit_exp_iff)
  also have "\<dots> = row_sum r (2 ^ j) XOR row_sum r k" by (simp add: xsum_xor row_sum_def)
  finally show ?thesis by (simp add: row_sum_pow assms(2))
qed

lemma row_inner:
  fixes r :: "nat \<Rightarrow> u64"
  shows "Suc m \<le> 2 ^ j \<Longrightarrow> fold (\<lambda>k r. r(2 ^ j + k := r (2 ^ j) XOR r k)) [1..<Suc m] r =
     (\<lambda>x. if 2 ^ j < x \<and> x \<le> 2 ^ j + m then r (2 ^ j) XOR r (x - 2 ^ j) else r x)"
proof (induction m)
  case (Suc m)
  let ?f = "\<lambda>m x. if 2 ^ j < x \<and> x \<le> 2 ^ j + m then r (2 ^ j) XOR r (x - 2 ^ j) else r x"
  define G :: "nat \<Rightarrow> (nat \<Rightarrow> u64) \<Rightarrow> nat \<Rightarrow> u64" where "G = (\<lambda>k r. r(2 ^ j + k := r (2 ^ j) XOR r k))"
  have "fold G [1..<Suc m] r = ?f m" unfolding G_def by (rule Suc.IH) (use Suc.prems in simp)
  then have "fold G [1..<Suc (Suc m)] r = G (Suc m) (?f m)" by simp
  then have "fold (\<lambda>k r. r(2 ^ j + k := r (2 ^ j) XOR r k)) [1..<Suc (Suc m)] r =
      (?f m)(2 ^ j + Suc m := ?f m (2 ^ j) XOR ?f m (Suc m))" unfolding G_def .
  also have "\<dots> = ?f (Suc m)" using Suc.prems by (intro ext) (auto simp: le_Suc_eq)
  finally show ?case .
next
  case 0
  show ?case by (intro ext) auto
qed

lemma row_outer:
  assumes "r 0 = 0" and "J < 8"
  shows "fold (\<lambda>j r. fold (\<lambda>k r. r(2 ^ j + k := r (2 ^ j) XOR r k)) [1..<2 ^ j] r) [1..<Suc J] r =
    (\<lambda>x. if x < 2 ^ Suc J then row_sum r x else r x)"
  using assms(2)
proof (induction J)
  case 0
  have "row_sum r 0 = 0" by (simp add: row_sum_def)
  moreover have "row_sum r 1 = r 1" using row_sum_pow [of 0 r] by simp
  ultimately show ?case using assms(1) by (intro ext) (auto simp: less_2_cases_iff)
next
  case (Suc J)
  let ?j = "Suc J"
  define F :: "nat \<Rightarrow> (nat \<Rightarrow> u64) \<Rightarrow> nat \<Rightarrow> u64"
    where "F = (\<lambda>j r. fold (\<lambda>k r. r(2 ^ j + k := r (2 ^ j) XOR r k)) [1..<2 ^ j] r)"
  let ?r = "\<lambda>x. if x < 2 ^ ?j then row_sum r x else r x"
  have IH: "fold F [1..<?j] r = ?r" unfolding F_def by (rule Suc.IH) (use Suc.prems in simp)
  have up: "[1..<2 ^ ?j] = [1..<Suc (2 ^ ?j - 1)]" by simp
  have "F ?j ?r = (\<lambda>x. if x < 2 ^ Suc ?j then row_sum r x else r x)"
  proof
    fix x :: nat
    have F: "F ?j ?r x = (if 2 ^ ?j < x \<and> x \<le> 2 ^ ?j + (2 ^ ?j - 1) then ?r (2 ^ ?j) XOR ?r (x - 2 ^ ?j) else ?r x)"
      unfolding F_def up by (subst row_inner) simp_all
    show "F ?j ?r x = (if x < 2 ^ Suc ?j then row_sum r x else r x)"
    proof (cases "2 ^ ?j < x \<and> x < 2 ^ Suc ?j")
      case True
      then have k: "x - 2 ^ ?j < 2 ^ ?j" "x = 2 ^ ?j + (x - 2 ^ ?j)" by auto
      then have "row_sum r x = r (2 ^ ?j) XOR row_sum r (x - 2 ^ ?j)"
        using row_sum_add [of "x - 2 ^ ?j" ?j r] Suc.prems by simp
      moreover from True have "x \<le> 2 ^ ?j + (2 ^ ?j - 1)" by auto
      ultimately show ?thesis using F True k(1) by simp
    next
      case False
      then have "F ?j ?r x = ?r x" using F by auto
      moreover have "row_sum r (2 ^ ?j) = r (2 ^ ?j)" by (rule row_sum_pow) (use Suc.prems in simp)
      ultimately show ?thesis using False by (cases "x = 2 ^ ?j") auto
    qed
  qed
  moreover have "[1..<Suc ?j] = [1..<?j] @ [?j]" by simp
  ultimately show ?case using IH unfolding F_def [symmetric] by (simp del: upt_Suc)
qed

lemma pm_row_correct: "r 0 = 0 \<Longrightarrow> x < 256 \<Longrightarrow> pm_row r x = row_sum r x"
proof -
  assume r: "r 0 = 0" and x: "x < 256"
  have up: "[1..<8] = [1..<Suc 7]" by simp
  show ?thesis unfolding pm_row_def up by (subst row_outer [of r, OF r]) (use x in simp_all)
qed

lemma pm_fill_correct:
  assumes "i < 8" and "x < 256"
  shows "pm_fill pm p i x = xsum (\<lambda>b. if bit x b then MULxPOW64 p (8 * i + b) 0x1b else 0) 8"
proof -
  let ?pm = "fold pm_power [1..<64] (pm_first pm p)"
  have rows: "fold (\<lambda>i pm. pm(i := pm_row (pm i))) [0..<n] q = (\<lambda>i. if i < n then pm_row (q i) else q i)" for n q
  proof (induction n)
    case (Suc n)
    define G :: "nat \<Rightarrow> pm_table \<Rightarrow> pm_table" where "G = (\<lambda>i pm. pm(i := pm_row (pm i)))"
    have "fold G [0..<Suc n] q = G n (\<lambda>i. if i < n then pm_row (q i) else q i)"
      using Suc.IH unfolding G_def [symmetric] by simp
    also have "\<dots> = (\<lambda>i. if i < Suc n then pm_row (q i) else q i)" by (auto simp: G_def)
    finally show ?case unfolding G_def .
  qed simp
  note powers = pm_powers_all [of p pm, unfolded pm_powers_def]
  have cell: "?pm i (2 ^ b) = MULxPOW64 p (8 * i + b) 0x1b" if "b < 8" for b
    using powers that assms(1) by (auto dest!: spec [of _ "8 * i + b"])
  have "pm_fill pm p i x = row_sum (?pm i) x"
    unfolding pm_fill_def rows using assms powers by (simp add: pm_row_correct)
  also have "\<dots> = xsum (\<lambda>b. if bit x b then MULxPOW64 p (8 * i + b) 0x1b else 0) 8"
    unfolding row_sum_def by (rule xsum_cong) (use cell in simp)
  finally show ?thesis .
qed

lemma and_255: "x AND 255 = take_bit 8 (x :: u64)"
  by (simp add: take_bit_eq_mask mask_eq_exp_minus_1)

lemma byte_index: "unat (drop_bit n (x :: u64) AND 255) < 256"
  unfolding and_255 unsigned_take_bit_eq using take_bit_nat_less_exp [of 8] by simp

lemma bit_byte_index: "b < 8 \<Longrightarrow> bit (unat (drop_bit n (x :: u64) AND 255)) b \<longleftrightarrow> bit x (n + b)"
  unfolding and_255 unsigned_take_bit_eq
  by (auto simp: bit_take_bit_iff bit_unsigned_iff bit_drop_bit_eq dest: bit_imp_le_length)

definition mul_bit :: "u64 \<Rightarrow> u64 \<Rightarrow> nat \<Rightarrow> u64" where
  "mul_bit p x i = (if bit x i then MULxPOW64 p i 0x1b else 0)"

lemma pm_fill_byte:
  assumes "i < 8" and "n = 8 * i"
  shows "pm_fill pm p i (unat (drop_bit n x AND 255)) = xsum (\<lambda>b. mul_bit p x (n + b)) 8"
  unfolding pm_fill_correct [OF assms(1) byte_index]
  by (rule xsum_cong) (simp add: bit_byte_index mul_bit_def assms(2))

lemma mul_p_correct: "mul_p (pm_fill pm p) x = MUL64 x p 0x1b"
proof -
  have "xsum (mul_bit p x) 64 = xsum (mul_bit p x) (8 + 8 + 8 + 8 + 8 + 8 + 8 + 8)" by simp
  also have "\<dots> = mul_p (pm_fill pm p) x"
    unfolding xsum_add mul_p_def Let_def by (simp add: pm_fill_byte xor.assoc del: drop_bit_0)
  also have "xsum (mul_bit p x) 64 = MUL64 p x 0x1b" by (simp only: MUL64_xsum mul_bit_def [abs_def])
  finally show ?thesis by (simp only: MUL64_commute [of x p])
qed


subsection \<open>The authentication code\<close>

function mac_blocks :: "u64 \<Rightarrow> u64 \<Rightarrow> byte list \<Rightarrow> u64" where
  "mac_blocks p eval m =
     (if m = [] then eval
      else mac_blocks p (MUL64 (eval XOR GET64 (take 8 m) (int (length (take 8 m)))) p 0x1b) (drop 8 m))"
  by pat_completeness auto
termination by (relation "measure (\<lambda>(p, eval, m). length m)") auto

declare mac_blocks.simps [simp del]

definition spec_mac :: "u32 list \<Rightarrow> byte list \<Rightarrow> byte list" where
  "spec_mac z m =
     (let p = push_bit 32 (ucast (z ! 0)) OR ucast (z ! 1); q = push_bit 32 (ucast (z ! 2)) OR ucast (z ! 3)
      in htonl_bytes (ucast (drop_bit 32
           (MUL64 (mac_blocks p 0 m XOR word_of_int (int (length m) * 8)) q 0x1b) XOR ucast (z ! 4))))"

lemma GET64_take: "available \<le> 8 \<Longrightarrow> GET64 p available = GET64 (take 8 p) available"
  by (simp add: GET64_def byte_or_0_def)

lemma GET64_at_block:
  assumes "0 \<le> i" and "i * 8 < int (length m)"
  shows "GET64_at m (i * 8) (min 8 (int (length m) - i * 8)) =
    Inr (GET64 (take 8 (drop (nat (i * 8)) m)) (int (length (take 8 (drop (nat (i * 8)) m)))))"
proof -
  have "min 8 (int (length m) - i * 8) = int (length (take 8 (drop (nat (i * 8)) m)))" using assms by auto
  then show ?thesis using assms by (auto simp: GET64_at_def GET64_take [symmetric])
qed

lemma block_count:
  fixes n d :: int
  assumes "d = (n * 8 + 63) div 64 + 1"
  shows "(d - 2) * 8 < n \<and> n \<le> (d - 1) * 8"
proof -
  define r where "r = (n * 8 + 63) mod 64"
  have "n * 8 + 63 = 64 * (d - 1) + r" using assms div_mult_mod_eq [of "n * 8 + 63" 64] by (simp add: r_def)
  moreover have "0 \<le> r" "r < 64" by (simp_all add: r_def)
  ultimately show ?thesis by auto
qed

lemma eval_blocks_mac:
  assumes "0 \<le> i" and "i * 8 < int (length m)" and "(d - 2) * 8 < int (length m) \<and> int (length m) \<le> (d - 1) * 8"
  shows "bind_r (eval_blocks (pm_fill pm p) m [i..d - 3] e) (\<lambda>e.
      bind_r (GET64_at m ((d - 2) * 8) (min 8 (int (length m) - (d - 2) * 8))) (\<lambda>b.
      f (mul_p (pm_fill pm p) (e XOR b)))) = f (mac_blocks p e (drop (nat (i * 8)) m))"
  using assms
proof (induction "nat (d - 2 - i)" arbitrary: i e)
  case 0
  then have d: "d - 2 = i" by simp
  then have last: "drop 8 (drop (nat (i * 8)) m) = []" using 0 by auto
  have ne: "drop (nat (i * 8)) m \<noteq> []" using 0 by simp
  have "mac_blocks p e (drop (nat (i * 8)) m) =
      MUL64 (e XOR GET64 (take 8 (drop (nat (i * 8)) m)) (int (length (take 8 (drop (nat (i * 8)) m))))) p 0x1b"
    by (subst mac_blocks.simps) (simp only: ne last if_False mac_blocks.simps [of p _ "[]"] simp_thms if_True)
  moreover have "[i..d - 3] = []" using d by simp
  ultimately show ?case using 0 d GET64_at_block [of i m] by (simp add: mul_p_correct)
next
  case (Suc n)
  then have i: "i \<le> d - 3" by linarith
  with Suc.prems have next_block: "(i + 1) * 8 < int (length m)" by auto
  have full: "min 8 (int (length m) - i * 8) = 8" using next_block by simp
  have len: "int (length (take 8 (drop (nat (i * 8)) m))) = 8" using Suc.prems next_block by simp
  have ne: "drop (nat (i * 8)) m \<noteq> []" using Suc.prems by simp
  have "nat ((i + 1) * 8) = 8 + nat (i * 8)" using Suc.prems by simp
  then have rest: "drop 8 (drop (nat (i * 8)) m) = drop (nat ((i + 1) * 8)) m" by simp
  have step: "mac_blocks p e (drop (nat (i * 8)) m) =
      mac_blocks p (MUL64 (e XOR GET64 (take 8 (drop (nat (i * 8)) m)) 8) p 0x1b) (drop (nat ((i + 1) * 8)) m)"
    by (subst mac_blocks.simps) (simp only: ne len rest if_False)
  have IH: "bind_r (eval_blocks (pm_fill pm p) m [i + 1..d - 3] e') (\<lambda>e.
      bind_r (GET64_at m ((d - 2) * 8) (min 8 (int (length m) - (d - 2) * 8))) (\<lambda>b.
      f (mul_p (pm_fill pm p) (e XOR b)))) = f (mac_blocks p e' (drop (nat ((i + 1) * 8)) m))" for e'
    by (rule Suc.hyps(1)) (use Suc.hyps(2) Suc.prems next_block in auto)
  have "[i..d - 3] = i # [i + 1..d - 3]" using i by (simp add: upto_rec1)
  then show ?case using GET64_at_block [of i m] Suc.prems full len IH step by (simp add: mul_p_correct)
qed

lemma integrity_mac_correct:
  "integrity_mac pm z m = (if m = [] then Inl Out_of_bounds else Inr (spec_mac z m))"
proof (cases "m = []")
  case True
  then show ?thesis by (simp add: integrity_mac_def GET64_at_def)
next
  case False
  let ?p = "push_bit 32 (ucast (z ! 0)) OR ucast (z ! 1) :: u64"
  let ?q = "push_bit 32 (ucast (z ! 2)) OR ucast (z ! 3) :: u64"
  show ?thesis
    using False eval_blocks_mac [of 0 m _ pm ?p 0 "\<lambda>e. Inr (htonl_bytes (ucast (drop_bit 32
         (MUL64 (e XOR word_of_int (int (length m) * 8)) ?q 0x1b) XOR ucast (z ! 4))))", OF _ _ block_count, OF _ _ refl]
    by (simp add: integrity_mac_def spec_mac_def Let_def)
qed


subsection \<open>Properties\<close>

text \<open>
  C32. The keystream is that of the specification. The register kept as a moving window of a
  doubled array produces the words of the machine that shifts its 16 words at each clock, for any
  key, any initial vector and any contents of the uninitialised array.
\<close>

theorem snow3g_keystream_refines:
  assumes "length (snow_mem s) = 32"
  shows "keystream_words n (snow3g_init s k iv) = spec_words n (spec_init k iv)"
  using snow3g_init_refines [OF assms, of k iv] keystream_words_refines by simp

theorem snow3g_keystream_refines_witness:
  "keystream_words 2 (snow3g_init snow_blank (replicate 16 0) (replicate 16 1)) =
   spec_words 2 (spec_init (replicate 16 0) (replicate 16 1))"
  by (rule snow3g_keystream_refines) (simp add: snow_blank_def)

text \<open>
  C31. Deciphering inverts ciphering. With the same count, bearer, direction and key, ciphering twice
  gives the message back and every message keeps its length, whatever the uninitialised state of
  either call.
\<close>

theorem snow3g_ciphering_inverse:
  assumes "length (snow_mem s) = 32" and "length (snow_mem s') = 32"
  shows "snow3g_ciphering s' cnt bearer direction key (snow3g_ciphering s cnt bearer direction key m) = m \<and>
    length (snow3g_ciphering s cnt bearer direction key m) = length m"
proof -
  have eq: "snow3g_ciphering s cnt bearer direction key m = snow3g_ciphering snow_blank cnt bearer direction key m"
    if "length (snow_mem s) = 32" for s m
    using snow3g_ciphering_eq [OF that] snow3g_ciphering_eq [of snow_blank] by (simp add: snow_blank_def)
  show ?thesis
    using snow.cipher_cipher [of "(cnt, bearer, direction, key)" m] snow.length_cipher [of "(cnt, bearer, direction, key)" m]
    by (simp add: eq [OF assms(1)] eq [OF assms(2)])
qed

theorem snow3g_ciphering_inverse_witness:
  "snow3g_ciphering snow_blank 7 2 1 (replicate 16 3) (snow3g_ciphering snow_blank 7 2 1 (replicate 16 3) [10, 20]) = [10, 20]"
  using snow3g_ciphering_inverse [of snow_blank snow_blank 7 2 1 "replicate 16 3" "[10, 20]"] by (simp add: snow_blank_def)

text \<open>
  C33. The precomputed table multiplies in the field. The exclusive or of one entry of each of the
  eight rows, as filled by the three loops, is the bit-by-bit product \<open>MUL64\<close> of the specification.
\<close>

theorem mul_p_table: "mul_p (pm_fill pm p) x = MUL64 x p 0x1b"
  by (rule mul_p_correct)

text \<open>
  C34. The integrity function returns the authentication code of the specification for every
  message of at least one byte, reading only the message; for an empty message it reads outside
  the buffer.
\<close>

theorem snow3g_integrity_mac:
  assumes "length (snow_mem s) = 32"
  shows "snow3g_integrity s pm cnt bearer direction key m =
    (if m = [] then Inl Out_of_bounds
     else Inr (spec_mac (spec_words 5 (spec_init (snow_key key)
       (integrity_iv cnt (push_bit 27 (word_of_int bearer)) direction))) m))"
  using snow3g_init_refines [OF assms] keystream_words_refines
  by (simp add: snow3g_integrity_def Let_def integrity_mac_correct)

theorem snow3g_integrity_mac_witness:
  "snow3g_integrity snow_blank (\<lambda>i j. 0) 7 2 1 (replicate 16 3) [] = Inl Out_of_bounds \<and>
   (\<exists>mac. snow3g_integrity snow_blank (\<lambda>i j. 0) 7 2 1 (replicate 16 3) [10] = Inr mac)"
  using snow3g_integrity_mac [of snow_blank "\<lambda>i j. 0" 7 2 1 "replicate 16 3" "[]"]
    snow3g_integrity_mac [of snow_blank "\<lambda>i j. 0" 7 2 1 "replicate 16 3" "[10]"] by (simp add: snow_blank_def)

end
