(* ===== verification/Pdcp_Security.thy ===== *)
theory Pdcp_Security
  imports Snow3g_Mac
begin

text \<open>
  The ciphering and integrity algorithms of PDCP (\<open>nr_pdcp_security_nea1.c\<close>, \<open>nr_pdcp_security_nea2.c\<close>,
  \<open>nr_pdcp_integrity_nia1.c\<close>, \<open>nr_pdcp_integrity_nia2.c\<close>): the wrappers that turn a bearer, a COUNT and
  a direction into the parameters of SNOW 3G or of AES, with their assertions.

  The record \<open>crypto_env\<close> holds what the model does not define: the two AES primitives of OpenSSL
  (\<open>EVP_aes_128_ctr\<close> and CMAC) and the contents of the uninitialised locals of SNOW 3G. The hypotheses
  on it are in \<open>crypto_ok\<close>: AES in counter mode, with the same key and initial counter, inverts
  itself and keeps lengths, a CMAC has 16 bytes, and the locals have the size of their C types.
\<close>

record crypto_env =
  aes_ctr :: "byte list \<Rightarrow> byte list \<Rightarrow> byte list \<Rightarrow> byte list"
  aes_cmac :: "byte list \<Rightarrow> byte list \<Rightarrow> byte list"
  stack_snow :: snow3g_t
  stack_pm :: pm_table

definition crypto_ok :: "crypto_env \<Rightarrow> bool" where
  "crypto_ok cr \<longleftrightarrow> (\<forall>k iv m. aes_ctr cr k iv (aes_ctr cr k iv m) = m \<and> length (aes_ctr cr k iv m) = length m) \<and>
     (\<forall>k m. length (aes_cmac cr k m) = 16) \<and> length (snow_mem (stack_snow cr)) = 32"

text \<open>The byte of the initial vectors that holds a bearer of 5 bits and a direction of 1 bit.\<close>

definition iv_bearer :: "int \<Rightarrow> int \<Rightarrow> byte" where
  "iv_bearer bearer direction = word_of_int (push_bit 3 (bearer mod 32) OR push_bit 2 (direction mod 2))"

definition nr_pdcp_security_nea1_cipher ::
  "crypto_env \<Rightarrow> byte list \<Rightarrow> byte list \<Rightarrow> int \<Rightarrow> u32 \<Rightarrow> int \<Rightarrow> byte list result" where
  "nr_pdcp_security_nea1_cipher cr key buffer bearer cnt direction =
     Inr (snow3g_ciphering (stack_snow cr) cnt ((bearer - 1) mod 256) (direction mod 256) key buffer)"

definition nr_pdcp_security_nea2_cipher ::
  "crypto_env \<Rightarrow> byte list \<Rightarrow> byte list \<Rightarrow> int \<Rightarrow> u32 \<Rightarrow> int \<Rightarrow> byte list result" where
  "nr_pdcp_security_nea2_cipher cr key buffer bearer cnt direction =
     (if \<not> (0 < length buffer) \<or> \<not> (- 1 < bearer \<and> bearer < 32) \<or> \<not> (- 1 < direction \<and> direction < 2) \<or>
         \<not> (- 1 < sint cnt)
      then Inl Fatal_exit
      else Inr (aes_ctr cr key (htonl_bytes cnt @ iv_bearer (bearer - 1) direction # replicate 11 0) buffer))"

definition nr_pdcp_integrity_nia1_integrity ::
  "crypto_env \<Rightarrow> byte list \<Rightarrow> byte list \<Rightarrow> int \<Rightarrow> u32 \<Rightarrow> int \<Rightarrow> byte list result" where
  "nr_pdcp_integrity_nia1_integrity cr key buffer bearer cnt direction =
     snow3g_integrity (stack_snow cr) (stack_pm cr) cnt ((bearer - 1) mod 256) (direction mod 256) key buffer"

definition nr_pdcp_integrity_nia2_integrity ::
  "crypto_env \<Rightarrow> byte list \<Rightarrow> byte list \<Rightarrow> int \<Rightarrow> u32 \<Rightarrow> int \<Rightarrow> byte list result" where
  "nr_pdcp_integrity_nia2_integrity cr key buffer bearer cnt direction =
     (if \<not> (0 < bearer \<and> bearer < 33) \<or> \<not> (- 1 < sint cnt) then Inl Fatal_exit
      else Inr (take 4 (aes_cmac cr key
             ((htonl_bytes cnt @ iv_bearer (bearer - 1) direction # replicate 3 0) @ buffer))))"


subsection \<open>The contract of the algorithms\<close>

text \<open>
  What PDCP relies on: a ciphering function that succeeds is undone by the same call and keeps the
  length, an integrity function that succeeds returns four bytes.
\<close>

locale pdcp_cipher =
  fixes cipher :: "crypto_env \<Rightarrow> byte list \<Rightarrow> byte list \<Rightarrow> int \<Rightarrow> u32 \<Rightarrow> int \<Rightarrow> byte list result"
  assumes cipher_inverse: "crypto_ok cr \<Longrightarrow> cipher cr key m bearer cnt direction = Inr c \<Longrightarrow>
      cipher cr key c bearer cnt direction = Inr m \<and> length c = length m"
begin

lemma cipher_length: "crypto_ok cr \<Longrightarrow> cipher cr key m bearer cnt direction = Inr c \<Longrightarrow> length c = length m"
  using cipher_inverse by blast

lemma cipher_inj:
  assumes "crypto_ok cr" "cipher cr key m bearer cnt direction = Inr c" "cipher cr key m' bearer cnt direction = Inr c"
  shows "m = m'"
  using cipher_inverse [OF assms(1,2)] cipher_inverse [OF assms(1,3)] by simp

end

locale pdcp_integrity =
  fixes integrity :: "crypto_env \<Rightarrow> byte list \<Rightarrow> byte list \<Rightarrow> int \<Rightarrow> u32 \<Rightarrow> int \<Rightarrow> byte list result"
  assumes mac_length: "crypto_ok cr \<Longrightarrow> integrity cr key m bearer cnt direction = Inr mac \<Longrightarrow> length mac = 4"

lemma snow3g_ciphering_inverse_aux:
  assumes "length (snow_mem s) = 32"
  shows "snow3g_ciphering s cnt bearer direction key (snow3g_ciphering s cnt bearer direction key m) = m"
    "length (snow3g_ciphering s cnt bearer direction key m) = length m"
proof -
  have eq: "snow3g_ciphering s cnt bearer direction key m = snow3g_ciphering snow_blank cnt bearer direction key m" for m
    using snow3g_ciphering_eq [OF assms] snow3g_ciphering_eq [of snow_blank] by (simp add: snow_blank_def)
  show "snow3g_ciphering s cnt bearer direction key (snow3g_ciphering s cnt bearer direction key m) = m"
    using snow.cipher_cipher [of "(cnt, bearer, direction, key)" m] by (simp add: eq)
  show "length (snow3g_ciphering s cnt bearer direction key m) = length m"
    using snow.length_cipher [of "(cnt, bearer, direction, key)" m] by (simp add: eq)
qed

interpretation nea1: pdcp_cipher nr_pdcp_security_nea1_cipher
  by unfold_locales (auto simp: nr_pdcp_security_nea1_cipher_def crypto_ok_def snow3g_ciphering_inverse_aux)

interpretation nea2: pdcp_cipher nr_pdcp_security_nea2_cipher
proof unfold_locales
  fix cr key m bearer cnt direction c
  assume ok: "crypto_ok cr" and c: "nr_pdcp_security_nea2_cipher cr key m bearer cnt direction = Inr c"
  then have "length c = length m" by (auto simp: nr_pdcp_security_nea2_cipher_def crypto_ok_def split: if_splits)
  moreover from this have "m = [] \<longleftrightarrow> c = []" by auto
  ultimately show "nr_pdcp_security_nea2_cipher cr key c bearer cnt direction = Inr m \<and> length c = length m"
    using ok c by (auto simp: nr_pdcp_security_nea2_cipher_def crypto_ok_def split: if_splits)
qed

lemma length_htonl_bytes [simp]: "length (htonl_bytes w) = 4"
  by (simp add: htonl_bytes_def)

interpretation nia1: pdcp_integrity nr_pdcp_integrity_nia1_integrity
proof unfold_locales
  fix cr key m bearer cnt direction mac
  assume "nr_pdcp_integrity_nia1_integrity cr key m bearer cnt direction = Inr mac"
  then show "length mac = 4"
    by (auto simp: nr_pdcp_integrity_nia1_integrity_def snow3g_integrity_def Let_def integrity_mac_correct
        spec_mac_def split: if_splits)
qed

interpretation nia2: pdcp_integrity nr_pdcp_integrity_nia2_integrity
  by unfold_locales (auto simp: nr_pdcp_integrity_nia2_integrity_def crypto_ok_def split: if_splits)

end
