(* ===== verification/Pdcp_Entity.thy ===== *)
theory Pdcp_Entity
  imports Pdcp_Security
begin

text \<open>
  The PDCP entity of \<open>openair2/LAYER2/nr_pdcp/nr_pdcp_entity.c\<close> and its list of received SDUs
  (\<open>nr_pdcp_sdu.c\<close>), every operation of the entity's function table.

  \<^item> An operation takes the entity and returns it updated, with the calls of \<open>deliver_sdu\<close> it makes
    as a list of events. A call that can stop the program is a \<open>result\<close>.
  \<^item> \<open>cipher\<close> and \<open>integrity\<close>, function pointers set by \<open>set_security\<close>, are algorithm tags; the key
    of a context is either a copy of its own or, as for NEA2, a pointer into the entity.
  \<^item> \<open>uint32_t\<close> state variables are words; \<open>sn_max\<close>, \<open>window_size\<close> and sequence numbers are C ints.
\<close>

datatype nr_pdcp_entity_type_t = NR_PDCP_DRB_AM | NR_PDCP_DRB_UM | NR_PDCP_SRB

record nr_pdcp_integrity_data_t =
  mi_count :: u32
  mi_mac :: "byte list"
  mi_header_size :: nat
  mi_header :: "byte list"

record nr_pdcp_sdu_t =
  psdu_count :: u32
  psdu_buffer :: "byte list"
  psdu_size :: int
  psdu_integrity :: nr_pdcp_integrity_data_t

record nr_pdcp_statistics_t =
  pst_txpdu_pkts :: u32
  pst_txpdu_bytes :: u32
  pst_txpdu_sn :: u32
  pst_rxpdu_pkts :: u32
  pst_rxpdu_bytes :: u32
  pst_rxpdu_sn :: u32
  pst_rxpdu_dd_pkts :: u32
  pst_rxpdu_dd_bytes :: u32
  pst_txsdu_pkts :: u32
  pst_txsdu_bytes :: u32
  pst_rxsdu_pkts :: u32
  pst_rxsdu_bytes :: u32

record nr_pdcp_entity_security_keys_and_algos_t =
  integrity_algorithm :: int
  ciphering_algorithm :: int
  integrity_key :: "byte list"
  ciphering_key :: "byte list"

datatype sec_alg = Alg_1 | Alg_2

datatype sec_context = Own_key "byte list" | Entity_ciphering_key

record nr_pdcp_entity_t =
  pd_type :: nr_pdcp_entity_type_t
  pd_rb_id :: int
  pd_pdusession_id :: int
  pd_has_sdap_rx :: bool
  pd_has_sdap_tx :: bool
  pd_sn_size :: nat
  pd_t_reordering :: int
  pd_discard_timer :: int
  pd_sn_max :: int
  pd_window_size :: int
  pd_tx_next :: u32
  pd_rx_next :: u32
  pd_rx_deliv :: u32
  pd_rx_reord :: u32
  pd_t_current :: u64
  pd_t_reordering_start :: u64
  pd_has_ciphering :: bool
  pd_has_integrity :: bool
  pd_keys :: nr_pdcp_entity_security_keys_and_algos_t
  pd_security_context :: "sec_context option"
  pd_cipher :: "sec_alg option"
  pd_free_security :: bool
  pd_integrity_context :: "sec_context option"
  pd_integrity :: "sec_alg option"
  pd_free_integrity :: bool
  pd_is_gnb :: bool
  pd_rx_list :: "nr_pdcp_sdu_t list"
  pd_rx_size :: int
  pd_stats :: nr_pdcp_statistics_t
  pd_entity_suspended :: bool

datatype pdcp_event = Deliver_pdcp_sdu "byte list" nr_pdcp_integrity_data_t

abbreviation SHORT_SN_SIZE :: nat where "SHORT_SN_SIZE \<equiv> 12"
abbreviation LONG_SN_SIZE :: nat where "LONG_SN_SIZE \<equiv> 18"
abbreviation SHORT_PDCP_HEADER_SIZE :: nat where "SHORT_PDCP_HEADER_SIZE \<equiv> 2"
abbreviation LONG_PDCP_HEADER_SIZE :: nat where "LONG_PDCP_HEADER_SIZE \<equiv> 3"
abbreviation PDCP_INTEGRITY_SIZE :: nat where "PDCP_INTEGRITY_SIZE \<equiv> 4"


subsection \<open>The list of received SDUs\<close>

definition nr_pdcp_new_sdu :: "u32 \<Rightarrow> byte list \<Rightarrow> nr_pdcp_integrity_data_t \<Rightarrow> nr_pdcp_sdu_t" where
  "nr_pdcp_new_sdu cnt buffer mi =
     \<lparr>psdu_count = cnt, psdu_buffer = buffer, psdu_size = int (length buffer), psdu_integrity = mi\<rparr>"

fun nr_pdcp_sdu_list_add :: "nr_pdcp_sdu_t list \<Rightarrow> nr_pdcp_sdu_t \<Rightarrow> nr_pdcp_sdu_t list" where
  "nr_pdcp_sdu_list_add [] sdu = [sdu]"
| "nr_pdcp_sdu_list_add (cur # l) sdu =
     (if psdu_count sdu < psdu_count cur then sdu # cur # l else cur # nr_pdcp_sdu_list_add l sdu)"

fun nr_pdcp_sdu_in_list :: "nr_pdcp_sdu_t list \<Rightarrow> u32 \<Rightarrow> bool" where
  "nr_pdcp_sdu_in_list [] cnt \<longleftrightarrow> False"
| "nr_pdcp_sdu_in_list (s # l) cnt \<longleftrightarrow> (if psdu_count s = cnt then True else nr_pdcp_sdu_in_list l cnt)"


subsection \<open>Security\<close>

definition context_key :: "nr_pdcp_entity_t \<Rightarrow> sec_context \<Rightarrow> byte list" where
  "context_key e ctx = (case ctx of Own_key k \<Rightarrow> k | Entity_ciphering_key \<Rightarrow> ciphering_key (pd_keys e))"

definition pdcp_cipher_call ::
  "crypto_env \<Rightarrow> nr_pdcp_entity_t \<Rightarrow> byte list \<Rightarrow> u32 \<Rightarrow> int \<Rightarrow> byte list result" where
  "pdcp_cipher_call cr e buffer cnt direction =
     (case (pd_cipher e, pd_security_context e) of
        (Some Alg_1, Some ctx) \<Rightarrow> nr_pdcp_security_nea1_cipher cr (context_key e ctx) buffer (pd_rb_id e) cnt direction
      | (Some Alg_2, Some ctx) \<Rightarrow> nr_pdcp_security_nea2_cipher cr (context_key e ctx) buffer (pd_rb_id e) cnt direction
      | _ \<Rightarrow> Inl Null_deref)"

definition pdcp_integrity_call ::
  "crypto_env \<Rightarrow> nr_pdcp_entity_t \<Rightarrow> byte list \<Rightarrow> u32 \<Rightarrow> int \<Rightarrow> byte list result" where
  "pdcp_integrity_call cr e buffer cnt direction =
     (case (pd_integrity e, pd_integrity_context e) of
        (Some Alg_1, Some ctx) \<Rightarrow> nr_pdcp_integrity_nia1_integrity cr (context_key e ctx) buffer (pd_rb_id e) cnt direction
      | (Some Alg_2, Some ctx) \<Rightarrow> nr_pdcp_integrity_nia2_integrity cr (context_key e ctx) buffer (pd_rb_id e) cnt direction
      | _ \<Rightarrow> Inl Null_deref)"

definition set_integrity :: "nr_pdcp_entity_t \<Rightarrow> int \<Rightarrow> nr_pdcp_entity_t result" where
  "set_integrity e alg =
     (if alg = 0 then Inr (e\<lparr>pd_has_integrity := False, pd_free_integrity := False\<rparr>)
      else if alg = - 1 then Inr e
      else if alg = 2 then
        Inr (e\<lparr>pd_has_integrity := True, pd_integrity_context := Some (Own_key (integrity_key (pd_keys e))),
               pd_integrity := Some Alg_2, pd_free_integrity := True\<rparr>)
      else if alg = 1 then
        Inr (e\<lparr>pd_has_integrity := True, pd_integrity_context := Some (Own_key (integrity_key (pd_keys e))),
               pd_integrity := Some Alg_1, pd_free_integrity := True\<rparr>)
      else Inl Fatal_exit)"

definition set_ciphering :: "nr_pdcp_entity_t \<Rightarrow> int \<Rightarrow> nr_pdcp_entity_t result" where
  "set_ciphering e alg =
     (if alg = 0 then Inr (e\<lparr>pd_has_ciphering := False, pd_free_security := False\<rparr>)
      else if alg = - 1 then Inr e
      else if alg = 2 then
        Inr (e\<lparr>pd_has_ciphering := True, pd_security_context := Some Entity_ciphering_key,
               pd_cipher := Some Alg_2, pd_free_security := True\<rparr>)
      else if alg = 1 then
        Inr (e\<lparr>pd_has_ciphering := True, pd_security_context := Some (Own_key (ciphering_key (pd_keys e))),
               pd_cipher := Some Alg_1, pd_free_security := True\<rparr>)
      else Inl Fatal_exit)"

definition nr_pdcp_entity_set_security ::
  "nr_pdcp_entity_t \<Rightarrow> nr_pdcp_entity_security_keys_and_algos_t \<Rightarrow> nr_pdcp_entity_t result" where
  "nr_pdcp_entity_set_security e par =
     (let e = if integrity_algorithm par \<noteq> - 1
              then e\<lparr>pd_keys := (pd_keys e)\<lparr>integrity_algorithm := integrity_algorithm par,
                                         integrity_key := integrity_key par\<rparr>\<rparr>
              else e;
          e = if ciphering_algorithm par \<noteq> - 1
              then e\<lparr>pd_keys := (pd_keys e)\<lparr>ciphering_algorithm := ciphering_algorithm par,
                                         ciphering_key := ciphering_key par\<rparr>\<rparr>
              else e
      in bind_r (set_integrity e (integrity_algorithm par)) (\<lambda>e. set_ciphering e (ciphering_algorithm par)))"


subsection \<open>Reception\<close>

definition pdcp_header_size :: "nr_pdcp_entity_t \<Rightarrow> nat" where
  "pdcp_header_size e = (if pd_sn_size e = SHORT_SN_SIZE then SHORT_PDCP_HEADER_SIZE else LONG_PDCP_HEADER_SIZE)"

definition pdcp_integrity_size :: "nr_pdcp_entity_t \<Rightarrow> nat" where
  "pdcp_integrity_size e = (if pd_has_integrity e \<or> pd_type e = NR_PDCP_SRB then PDCP_INTEGRITY_SIZE else 0)"

definition byte_at :: "byte list \<Rightarrow> nat \<Rightarrow> int result" where
  "byte_at buffer i = (if i < length buffer then Inr (uint (buffer ! i)) else Inl Out_of_bounds)"

definition pdcp_read_sn :: "nr_pdcp_entity_t \<Rightarrow> byte list \<Rightarrow> int result" where
  "pdcp_read_sn e buffer =
     (if pd_sn_size e = SHORT_SN_SIZE
      then bind_r (byte_at buffer 0) (\<lambda>b0. bind_r (byte_at buffer 1) (\<lambda>b1.
             Inr (push_bit 8 (b0 AND 0xf) OR b1)))
      else bind_r (byte_at buffer 0) (\<lambda>b0. bind_r (byte_at buffer 1) (\<lambda>b1. bind_r (byte_at buffer 2) (\<lambda>b2.
             Inr (push_bit 16 (b0 AND 0x3) OR push_bit 8 b1 OR b2)))))"

definition pdcp_rcvd_count :: "nr_pdcp_entity_t \<Rightarrow> int \<Rightarrow> u32" where
  "pdcp_rcvd_count e rcvd_sn =
     (let rx_deliv_sn = sint (pd_rx_deliv e AND word_of_int (pd_sn_max e));
          rx_deliv_hfn = drop_bit (pd_sn_size e) (pd_rx_deliv e);
          rcvd_hfn = (if rcvd_sn < rx_deliv_sn - pd_window_size e then rx_deliv_hfn + 1
                      else if rcvd_sn \<ge> rx_deliv_sn + pd_window_size e then rx_deliv_hfn - 1
                      else rx_deliv_hfn)
      in push_bit (pd_sn_size e) rcvd_hfn OR word_of_int rcvd_sn)"

definition pdcp_discard :: "nr_pdcp_entity_t \<Rightarrow> int \<Rightarrow> nr_pdcp_entity_t" where
  "pdcp_discard e sz =
     e\<lparr>pd_stats := (pd_stats e)\<lparr>pst_rxpdu_dd_pkts := pst_rxpdu_dd_pkts (pd_stats e) + 1,
        pst_rxpdu_dd_bytes := pst_rxpdu_dd_bytes (pd_stats e) + word_of_int sz\<rparr>\<rparr>"

definition pdcp_event_of :: "nr_pdcp_sdu_t \<Rightarrow> pdcp_event" where
  "pdcp_event_of s = Deliver_pdcp_sdu (psdu_buffer s) (psdu_integrity s)"

text \<open>The head of the list is handed over and freed; the rest becomes the list.\<close>

definition pdcp_deliver_head :: "nr_pdcp_entity_t \<Rightarrow> nr_pdcp_sdu_t \<Rightarrow> nr_pdcp_sdu_t list \<Rightarrow> nr_pdcp_entity_t" where
  "pdcp_deliver_head e cur l =
     e\<lparr>pd_rx_list := l, pd_rx_size := pd_rx_size e - psdu_size cur,
       pd_stats := (pd_stats e)\<lparr>pst_txsdu_pkts := pst_txsdu_pkts (pd_stats e) + 1,
         pst_txsdu_bytes := pst_txsdu_bytes (pd_stats e) + word_of_int (psdu_size cur)\<rparr>\<rparr>"

fun deliver_from :: "nr_pdcp_entity_t \<Rightarrow> u32 \<Rightarrow> nr_pdcp_sdu_t list \<Rightarrow> nr_pdcp_entity_t \<times> u32 \<times> pdcp_event list" where
  "deliver_from e cnt [] = (e, cnt, [])"
| "deliver_from e cnt (cur # l) =
     (if cnt = psdu_count cur
      then let (e', cnt', ev) = deliver_from (pdcp_deliver_head e cur l) (cnt + 1) l
           in (e', cnt', pdcp_event_of cur # ev)
      else (e, cnt, []))"

definition pdcp_timers :: "nr_pdcp_entity_t \<Rightarrow> nr_pdcp_entity_t" where
  "pdcp_timers e =
     (let e = if pd_t_reordering_start e \<noteq> 0 \<and> pd_rx_deliv e \<ge> pd_rx_reord e
              then e\<lparr>pd_t_reordering_start := 0\<rparr> else e
      in if pd_t_reordering_start e = 0 \<and> pd_rx_deliv e < pd_rx_next e
         then e\<lparr>pd_rx_reord := pd_rx_next e, pd_t_reordering_start := pd_t_current e\<rparr> else e)"

text \<open>The part of \<open>recv_pdu\<close> that follows deciphering and the integrity check, for a PDU of \<open>sz\<close> bytes.\<close>

definition pdcp_accept ::
  "nr_pdcp_entity_t \<Rightarrow> int \<Rightarrow> u32 \<Rightarrow> byte list \<Rightarrow> nr_pdcp_integrity_data_t \<Rightarrow> nr_pdcp_entity_t \<times> pdcp_event list" where
  "pdcp_accept e sz rcvd_count sdu_bytes mi =
     (if rcvd_count < pd_rx_deliv e \<or> nr_pdcp_sdu_in_list (pd_rx_list e) rcvd_count then (pdcp_discard e sz, [])
      else
        let sdu = nr_pdcp_new_sdu rcvd_count sdu_bytes mi;
            e = e\<lparr>pd_rx_list := nr_pdcp_sdu_list_add (pd_rx_list e) sdu,
                  pd_rx_size := pd_rx_size e + (sz - int (pdcp_header_size e))\<rparr>;
            e = (if rcvd_count \<ge> pd_rx_next e then e\<lparr>pd_rx_next := rcvd_count + 1\<rparr> else e);
            (e, ev) = (if rcvd_count = pd_rx_deliv e
                       then let (e', cnt, ev) = deliver_from e (pd_rx_deliv e) (pd_rx_list e)
                            in (e'\<lparr>pd_rx_deliv := cnt\<rparr>, ev)
                       else (e, []))
        in (pdcp_timers e, ev))"

definition pdcp_msg_integrity :: "nr_pdcp_entity_t \<Rightarrow> byte list \<Rightarrow> u32 \<Rightarrow> nr_pdcp_integrity_data_t" where
  "pdcp_msg_integrity e buffer rcvd_count =
     (if pd_has_integrity e \<or> pd_type e = NR_PDCP_SRB
      then \<lparr>mi_count = rcvd_count, mi_mac = drop (length buffer - 4) buffer, mi_header_size = pdcp_header_size e,
            mi_header = take (pdcp_header_size e) buffer @ replicate (3 - pdcp_header_size e) 0\<rparr>
      else \<lparr>mi_count = 0, mi_mac = replicate 4 0, mi_header_size = 0, mi_header = replicate 3 0\<rparr>)"

definition pdcp_rx_direction :: "nr_pdcp_entity_t \<Rightarrow> int" where
  "pdcp_rx_direction e = (if pd_is_gnb e then 0 else 1)"

definition pdcp_tx_direction :: "nr_pdcp_entity_t \<Rightarrow> int" where
  "pdcp_tx_direction e = (if pd_is_gnb e then 1 else 0)"

definition pdcp_decipher :: "crypto_env \<Rightarrow> nr_pdcp_entity_t \<Rightarrow> byte list \<Rightarrow> u32 \<Rightarrow> byte list result" where
  "pdcp_decipher cr e buffer rcvd_count =
     (if pd_has_ciphering e then
        let n = pdcp_header_size e + (if pd_has_sdap_rx e then 1 else 0)
        in bind_r (pdcp_cipher_call cr e (drop n buffer) rcvd_count (pdcp_rx_direction e)) (\<lambda>c.
           Inr (take n buffer @ c))
      else Inr buffer)"

definition pdcp_check_mac :: "crypto_env \<Rightarrow> nr_pdcp_entity_t \<Rightarrow> byte list \<Rightarrow> u32 \<Rightarrow> bool result" where
  "pdcp_check_mac cr e buffer rcvd_count =
     (if pd_has_integrity e then
        let n = length buffer - pdcp_integrity_size e
        in bind_r (pdcp_integrity_call cr e (take n buffer) rcvd_count (pdcp_rx_direction e)) (\<lambda>mac.
           Inr (mac = drop n buffer))
      else Inr True)"

definition pdcp_recv_data ::
  "crypto_env \<Rightarrow> nr_pdcp_entity_t \<Rightarrow> byte list \<Rightarrow> (nr_pdcp_entity_t \<times> pdcp_event list) result" where
  "pdcp_recv_data cr e buffer =
     (let size = int (length buffer);
          e = e\<lparr>pd_stats := (pd_stats e)\<lparr>pst_rxpdu_pkts := pst_rxpdu_pkts (pd_stats e) + 1,
                 pst_rxpdu_bytes := pst_rxpdu_bytes (pd_stats e) + word_of_int size\<rparr>\<rparr>
      in bind_r (pdcp_read_sn e buffer) (\<lambda>rcvd_sn.
         let e = e\<lparr>pd_stats := (pd_stats e)\<lparr>pst_rxpdu_sn := word_of_int rcvd_sn\<rparr>\<rparr>;
             header_size = pdcp_header_size e; integrity_size = pdcp_integrity_size e;
             sdap_header_size = (if pd_has_sdap_rx e then 1 else 0)
         in if length buffer < header_size + sdap_header_size + integrity_size + 1 then Inr (pdcp_discard e size, [])
            else
              let rcvd_count = pdcp_rcvd_count e rcvd_sn; mi = pdcp_msg_integrity e buffer rcvd_count
              in bind_r (pdcp_decipher cr e buffer rcvd_count) (\<lambda>buffer.
                 bind_r (pdcp_check_mac cr e buffer rcvd_count) (\<lambda>good.
                 if \<not> good then Inr (pdcp_discard e size, [])
                 else Inr (pdcp_accept e size rcvd_count
                        (take (length buffer - header_size - integrity_size) (drop header_size buffer)) mi)))))"

definition nr_pdcp_entity_recv_pdu ::
  "crypto_env \<Rightarrow> nr_pdcp_entity_t \<Rightarrow> byte list \<Rightarrow> (nr_pdcp_entity_t \<times> pdcp_event list) result" where
  "nr_pdcp_entity_recv_pdu cr e buffer =
     (if pd_entity_suspended e then Inr (e, [])
      else if length buffer < 1 then Inr (e, [])
      else if pd_type e \<noteq> NR_PDCP_SRB \<and> (buffer ! 0) AND 0x80 = 0
           then pdcp_recv_data cr e (buffer[0 := (buffer ! 0) OR 128])
           else pdcp_recv_data cr e buffer)"


subsection \<open>Transmission\<close>

definition nr_max_pdcp_pdu_size :: "int \<Rightarrow> int" where
  "nr_max_pdcp_pdu_size sdu_size = sdu_size + int LONG_PDCP_HEADER_SIZE + int PDCP_INTEGRITY_SIZE"

definition pdcp_header :: "nr_pdcp_entity_t \<Rightarrow> int \<Rightarrow> byte list" where
  "pdcp_header e sn =
     (let dc_bit = (if pd_type e = NR_PDCP_DRB_AM \<or> pd_type e = NR_PDCP_DRB_UM then 0x80 else 0)
      in if pd_sn_size e = SHORT_SN_SIZE
         then [word_of_int (dc_bit OR (drop_bit 8 sn AND 0xf)), word_of_int (sn AND 0xff)]
         else [word_of_int (dc_bit OR (drop_bit 16 sn AND 0x3)), word_of_int (drop_bit 8 sn AND 0xff),
               word_of_int (sn AND 0xff)])"

definition pdcp_protect :: "crypto_env \<Rightarrow> nr_pdcp_entity_t \<Rightarrow> byte list \<Rightarrow> u32 \<Rightarrow> byte list result" where
  "pdcp_protect cr e buf cnt =
     (if pd_has_integrity e
      then bind_r (pdcp_integrity_call cr e buf cnt (pdcp_tx_direction e)) (\<lambda>mac. Inr (buf @ mac))
      else if pdcp_integrity_size e = PDCP_INTEGRITY_SIZE then Inr (buf @ replicate 4 0)
      else Inr buf)"

definition pdcp_encipher :: "crypto_env \<Rightarrow> nr_pdcp_entity_t \<Rightarrow> byte list \<Rightarrow> u32 \<Rightarrow> byte list result" where
  "pdcp_encipher cr e buf cnt =
     (if pd_has_ciphering e then
        let n = pdcp_header_size e + (if pd_has_sdap_tx e then 1 else 0)
        in if length buf < n then Inl Out_of_bounds
           else bind_r (pdcp_cipher_call cr e (drop n buf) cnt (pdcp_tx_direction e)) (\<lambda>c. Inr (take n buf @ c))
      else Inr buf)"

text \<open>The return value, the bytes written to the PDU buffer and the entity.\<close>

definition nr_pdcp_entity_process_sdu ::
  "crypto_env \<Rightarrow> nr_pdcp_entity_t \<Rightarrow> byte list \<Rightarrow> int \<Rightarrow> (int \<times> byte list \<times> nr_pdcp_entity_t) result" where
  "nr_pdcp_entity_process_sdu cr e buffer pdu_max_size =
     (if \<not> nr_max_pdcp_pdu_size (int (length buffer)) \<le> pdu_max_size then Inl Fatal_exit
      else if pd_entity_suspended e then Inr (- 1, [], e)
      else
        let size = int (length buffer);
            e = e\<lparr>pd_stats := (pd_stats e)\<lparr>pst_rxsdu_pkts := pst_rxsdu_pkts (pd_stats e) + 1,
                   pst_rxsdu_bytes := pst_rxsdu_bytes (pd_stats e) + word_of_int size\<rparr>\<rparr>;
            cnt = pd_tx_next e; sn = sint (pd_tx_next e AND word_of_int (pd_sn_max e));
            ret = int (pdcp_header_size e) + size + int (pdcp_integrity_size e)
        in bind_r (pdcp_protect cr e (pdcp_header e sn @ buffer) cnt) (\<lambda>buf.
           bind_r (pdcp_encipher cr e buf cnt) (\<lambda>buf.
           Inr (ret, buf,
             e\<lparr>pd_tx_next := pd_tx_next e + 1,
               pd_stats := (pd_stats e)\<lparr>pst_txpdu_pkts := pst_txpdu_pkts (pd_stats e) + 1,
                 pst_txpdu_bytes := pst_txpdu_bytes (pd_stats e) + word_of_int ret,
                 pst_txpdu_sn := word_of_int sn\<rparr>\<rparr>))))"

definition nr_pdcp_entity_check_integrity ::
  "crypto_env \<Rightarrow> nr_pdcp_entity_t \<Rightarrow> byte list \<Rightarrow> nr_pdcp_integrity_data_t \<Rightarrow> bool result" where
  "nr_pdcp_entity_check_integrity cr e buffer mi =
     (if \<not> pd_has_integrity e then Inr False
      else if length (mi_header mi) < mi_header_size mi then Inl Out_of_bounds
      else bind_r (pdcp_integrity_call cr e (take (mi_header_size mi) (mi_header mi) @ buffer) (mi_count mi)
                     (pdcp_rx_direction e)) (\<lambda>mac. Inr (mac = mi_mac mi)))"


subsection \<open>Timers and re-establishment\<close>

fun deliver_before :: "nr_pdcp_entity_t \<Rightarrow> u32 \<Rightarrow> nr_pdcp_sdu_t list \<Rightarrow> nr_pdcp_entity_t \<times> pdcp_event list" where
  "deliver_before e reord [] = (e, [])"
| "deliver_before e reord (cur # l) =
     (if psdu_count cur < reord
      then let (e', ev) = deliver_before (pdcp_deliver_head e cur l) reord l in (e', pdcp_event_of cur # ev)
      else (e, []))"

definition check_t_reordering :: "nr_pdcp_entity_t \<Rightarrow> nr_pdcp_entity_t \<times> pdcp_event list" where
  "check_t_reordering e =
     (if pd_t_reordering e = - 1 then (e, [])
      else if pd_t_reordering_start e = 0 \<or>
              pd_t_current e \<le> pd_t_reordering_start e + word_of_int (pd_t_reordering e) then (e, [])
      else
        let e = e\<lparr>pd_t_reordering_start := 0\<rparr>;
            (e, ev) = deliver_before e (pd_rx_reord e) (pd_rx_list e);
            (e, cnt, ev') = deliver_from e (pd_rx_reord e) (pd_rx_list e);
            e = e\<lparr>pd_rx_deliv := cnt\<rparr>
        in (if pd_rx_deliv e < pd_rx_next e
            then e\<lparr>pd_rx_reord := pd_rx_next e, pd_t_reordering_start := pd_t_current e\<rparr> else e,
            ev @ ev'))"

definition nr_pdcp_entity_set_time :: "nr_pdcp_entity_t \<Rightarrow> u64 \<Rightarrow> nr_pdcp_entity_t \<times> pdcp_event list" where
  "nr_pdcp_entity_set_time e now = check_t_reordering (e\<lparr>pd_t_current := now\<rparr>)"

fun deliver_all :: "nr_pdcp_entity_t \<Rightarrow> nr_pdcp_sdu_t list \<Rightarrow> nr_pdcp_entity_t \<times> pdcp_event list" where
  "deliver_all e [] = (e, [])"
| "deliver_all e (cur # l) =
     (let (e', ev) = deliver_all (pdcp_deliver_head e cur l) l in (e', pdcp_event_of cur # ev))"

definition deliver_all_sdus :: "nr_pdcp_entity_t \<Rightarrow> nr_pdcp_entity_t \<times> pdcp_event list" where
  "deliver_all_sdus e = deliver_all e (pd_rx_list e)"

definition nr_pdcp_entity_suspend :: "nr_pdcp_entity_t \<Rightarrow> nr_pdcp_entity_t \<times> pdcp_event list" where
  "nr_pdcp_entity_suspend e =
     (let e = e\<lparr>pd_tx_next := 0\<rparr>;
          (e, ev) = (if pd_t_reordering_start e \<noteq> 0 then deliver_all_sdus (e\<lparr>pd_t_reordering_start := 0\<rparr>)
                     else (e, []))
      in (e\<lparr>pd_rx_next := 0, pd_rx_deliv := 0, pd_entity_suspended := True\<rparr>, ev))"

definition free_rx_list :: "nr_pdcp_entity_t \<Rightarrow> nr_pdcp_entity_t" where
  "free_rx_list e =
     (let st = fold (\<lambda>cur st. st\<lparr>pst_rxpdu_dd_pkts := pst_rxpdu_dd_pkts st + 1,
                              pst_rxpdu_dd_bytes := pst_rxpdu_dd_bytes st + word_of_int (psdu_size cur)\<rparr>)
                (pd_rx_list e) (pd_stats e)
      in e\<lparr>pd_stats := st, pd_rx_list := [], pd_rx_size := 0\<rparr>)"

definition nr_pdcp_entity_reestablish_drb_am ::
  "nr_pdcp_entity_t \<Rightarrow> nr_pdcp_entity_security_keys_and_algos_t \<Rightarrow> nr_pdcp_entity_t result" where
  "nr_pdcp_entity_reestablish_drb_am e par =
     bind_r (nr_pdcp_entity_set_security e par) (\<lambda>e. Inr (e\<lparr>pd_entity_suspended := False\<rparr>))"

definition nr_pdcp_entity_reestablish_drb_um ::
  "nr_pdcp_entity_t \<Rightarrow> nr_pdcp_entity_security_keys_and_algos_t \<Rightarrow> (nr_pdcp_entity_t \<times> pdcp_event list) result" where
  "nr_pdcp_entity_reestablish_drb_um e par =
     (let e = e\<lparr>pd_tx_next := 0\<rparr>;
          (e, ev) = (if pd_t_reordering_start e \<noteq> 0 then deliver_all_sdus e else (e, []));
          e = e\<lparr>pd_t_reordering_start := 0, pd_rx_next := 0, pd_rx_deliv := 0\<rparr>
      in bind_r (nr_pdcp_entity_set_security e par) (\<lambda>e. Inr (e\<lparr>pd_entity_suspended := False\<rparr>, ev)))"

definition nr_pdcp_entity_reestablish_srb ::
  "nr_pdcp_entity_t \<Rightarrow> nr_pdcp_entity_security_keys_and_algos_t \<Rightarrow> nr_pdcp_entity_t result" where
  "nr_pdcp_entity_reestablish_srb e par =
     (let e = free_rx_list (e\<lparr>pd_tx_next := 0\<rparr>);
          e = e\<lparr>pd_t_reordering_start := 0, pd_rx_next := 0, pd_rx_deliv := 0\<rparr>
      in bind_r (nr_pdcp_entity_set_security e par) (\<lambda>e. Inr (e\<lparr>pd_entity_suspended := False\<rparr>)))"

definition nr_pdcp_entity_release :: "nr_pdcp_entity_t \<Rightarrow> nr_pdcp_entity_t \<times> pdcp_event list" where
  "nr_pdcp_entity_release e = deliver_all_sdus e"

definition nr_pdcp_entity_delete :: "nr_pdcp_entity_t \<Rightarrow> nr_pdcp_entity_t" where
  "nr_pdcp_entity_delete e = free_rx_list e"

definition nr_pdcp_entity_get_stats :: "nr_pdcp_entity_t \<Rightarrow> nr_pdcp_statistics_t" where
  "nr_pdcp_entity_get_stats e = pd_stats e"

definition pdcp_stats_zero :: nr_pdcp_statistics_t where
  "pdcp_stats_zero = \<lparr>pst_txpdu_pkts = 0, pst_txpdu_bytes = 0, pst_txpdu_sn = 0, pst_rxpdu_pkts = 0,
     pst_rxpdu_bytes = 0, pst_rxpdu_sn = 0, pst_rxpdu_dd_pkts = 0, pst_rxpdu_dd_bytes = 0,
     pst_txsdu_pkts = 0, pst_txsdu_bytes = 0, pst_rxsdu_pkts = 0, pst_rxsdu_bytes = 0\<rparr>"

definition new_nr_pdcp_entity ::
  "nr_pdcp_entity_type_t \<Rightarrow> bool \<Rightarrow> int \<Rightarrow> int \<Rightarrow> bool \<Rightarrow> bool \<Rightarrow> nat \<Rightarrow> int \<Rightarrow> int \<Rightarrow>
   nr_pdcp_entity_security_keys_and_algos_t \<Rightarrow> nr_pdcp_entity_t result" where
  "new_nr_pdcp_entity type is_gnb rb_id pdusession_id has_sdap_rx has_sdap_tx sn_size t_reordering discard_timer par =
     nr_pdcp_entity_set_security
       \<lparr>pd_type = type, pd_rb_id = rb_id, pd_pdusession_id = pdusession_id, pd_has_sdap_rx = has_sdap_rx,
        pd_has_sdap_tx = has_sdap_tx, pd_sn_size = sn_size, pd_t_reordering = t_reordering,
        pd_discard_timer = discard_timer, pd_sn_max = 2 ^ sn_size - 1, pd_window_size = 2 ^ (sn_size - 1),
        pd_tx_next = 0, pd_rx_next = 0, pd_rx_deliv = 0, pd_rx_reord = 0, pd_t_current = 0,
        pd_t_reordering_start = 0, pd_has_ciphering = False, pd_has_integrity = False,
        pd_keys = \<lparr>integrity_algorithm = 0, ciphering_algorithm = 0, integrity_key = replicate 16 0,
                   ciphering_key = replicate 16 0\<rparr>,
        pd_security_context = None, pd_cipher = None, pd_free_security = False,
        pd_integrity_context = None, pd_integrity = None, pd_free_integrity = False,
        pd_is_gnb = is_gnb, pd_rx_list = [], pd_rx_size = 0, pd_stats = pdcp_stats_zero,
        pd_entity_suspended = False\<rparr> par"

end
