(* ===== verification/Pdcp_Rx.thy ===== *)
theory Pdcp_Rx
  imports Pdcp_Entity "HOL-Library.Multiset"
begin

text \<open>
  The receiving side of PDCP: the list of stored SDUs is sorted by COUNT without repetition, above
  \<open>rx_deliv\<close> and below \<open>rx_next\<close>; every call hands over SDUs with increasing COUNTs, and over a run
  no COUNT is delivered twice.
\<close>

abbreviation counts_of :: "nr_pdcp_sdu_t list \<Rightarrow> nat list" where
  "counts_of l \<equiv> map (\<lambda>s. unat (psdu_count s)) l"

abbreviation count_sorted :: "nr_pdcp_sdu_t list \<Rightarrow> bool" where
  "count_sorted l \<equiv> sorted_wrt (\<lambda>a b. psdu_count a < psdu_count b) l"

definition pdcp_rx_ok :: "nr_pdcp_entity_t \<Rightarrow> bool" where
  "pdcp_rx_ok e \<longleftrightarrow> count_sorted (pd_rx_list e) \<and> pd_rx_deliv e \<le> pd_rx_next e \<and>
     (\<forall>s \<in> set (pd_rx_list e). pd_rx_deliv e < psdu_count s \<and> psdu_count s < pd_rx_next e) \<and>
     (pd_t_reordering_start e \<noteq> 0 \<longrightarrow> pd_rx_deliv e < pd_rx_reord e \<and> pd_rx_reord e \<le> pd_rx_next e)"


subsection \<open>Insertion\<close>

interpretation sdu_list: ordered_insertion "\<lambda>a b. psdu_count a < psdu_count b" nr_pdcp_sdu_list_add
  by unfold_locales auto

lemma in_list_iff: "nr_pdcp_sdu_in_list l c \<longleftrightarrow> c \<in> psdu_count ` set l"
  by (induction l) auto

lemma count_sorted_add:
  assumes "count_sorted l" and "psdu_count sdu \<notin> psdu_count ` set l"
  shows "count_sorted (nr_pdcp_sdu_list_add l sdu)"
  using assms
proof (induction l)
  case (Cons s l)
  then have "psdu_count s < psdu_count sdu" if "\<not> psdu_count sdu < psdu_count s" using that by auto
  moreover have "psdu_count sdu < psdu_count x" if "psdu_count sdu < psdu_count s" "x \<in> set l" for x
    using that Cons.prems by auto
  ultimately show ?case using Cons by (auto simp: sdu_list.set_ins)
qed simp


subsection \<open>Delivery loops\<close>

lemma word_step:
  fixes c n :: u32
  assumes "c < n"
  shows "c + 1 \<le> n" "unat (c + 1) = Suc (unat c)"
proof -
  show "c + 1 \<le> n" using assms by (rule inc_le)
  have "c \<noteq> - 1" using assms word_order.extremum_strict by auto
  then have "1 + c \<noteq> 0" by (metis add.commute eq_neg_iff_add_eq_0)
  then show "unat (c + 1) = Suc (unat c)" using unatSuc [of c] by (simp add: add.commute)
qed

abbreviation pdcp_handed :: "nr_pdcp_entity_t \<Rightarrow> nr_pdcp_sdu_t list \<Rightarrow> nr_pdcp_sdu_t list \<Rightarrow> nr_pdcp_statistics_t \<Rightarrow> nr_pdcp_entity_t" where
  "pdcp_handed e front rest st \<equiv> e\<lparr>pd_rx_list := rest, pd_rx_size := pd_rx_size e - (\<Sum>s\<leftarrow>front. psdu_size s), pd_stats := st\<rparr>"

lemma deliver_from_ok:
  assumes "pd_rx_list e = l" and "count_sorted l" and "\<forall>s \<in> set l. c \<le> psdu_count s \<and> psdu_count s < n" and "c \<le> n"
  shows "\<exists>front rest st c'. l = front @ rest \<and> deliver_from e c l = (pdcp_handed e front rest st, c', map pdcp_event_of front) \<and>
    c \<le> c' \<and> c' \<le> n \<and> (\<forall>s \<in> set rest. c' < psdu_count s) \<and> counts_of front = [unat c..<unat c']"
  using assms
proof (induction l arbitrary: e c)
  case Nil
  then show ?case by (intro exI [of _ "[]"] exI [of _ "pd_stats e"] exI [of _ c]) simp
next
  case (Cons s l)
  show ?case
  proof (cases "c = psdu_count s")
    case False
    then have "\<forall>x \<in> set (s # l). c < psdu_count x" using Cons.prems by fastforce
    then show ?thesis
      using False Cons.prems by (intro exI [of _ "[]"] exI [of _ "s # l"] exI [of _ "pd_stats e"] exI [of _ c]) simp
  next
    case True
    let ?e = "pdcp_deliver_head e s l"
    have "c < n" using True Cons.prems by simp
    note step = word_step [OF this]
    have "\<forall>x \<in> set l. c + 1 \<le> psdu_count x \<and> psdu_count x < n"
      using Cons.prems True by (auto intro: inc_le)
    from Cons.IH [OF _ _ this step(1), of ?e] Cons.prems obtain front rest st c' where
      IH: "l = front @ rest" "deliver_from ?e (c + 1) l = (pdcp_handed ?e front rest st, c', map pdcp_event_of front)"
        "c + 1 \<le> c'" "c' \<le> n" "\<forall>s \<in> set rest. c' < psdu_count s" "counts_of front = [unat (c + 1)..<unat c']"
      by (auto simp: pdcp_deliver_head_def)
    have "unat c < unat c'" using IH(3) step(2) by (simp add: word_le_nat_alt)
    then have "counts_of (s # front) = [unat c..<unat c']" using IH(6) step(2) True by (simp add: upt_conv_Cons)
    moreover have "pdcp_handed ?e front rest st = pdcp_handed e (s # front) rest st" by (simp add: pdcp_deliver_head_def)
    moreover have "c \<le> c'" using \<open>unat c < unat c'\<close> by (simp add: word_le_nat_alt)
    ultimately show ?thesis
      using True IH by (intro exI [of _ "s # front"] exI [of _ rest] exI [of _ st] exI [of _ c']) simp
  qed
qed

lemma deliver_before_ok:
  assumes "pd_rx_list e = l" and "count_sorted l"
  shows "\<exists>front rest st. l = front @ rest \<and> deliver_before e r l = (pdcp_handed e front rest st, map pdcp_event_of front) \<and>
    (\<forall>s \<in> set front. psdu_count s < r) \<and> (\<forall>s \<in> set rest. r \<le> psdu_count s)"
  using assms
proof (induction l arbitrary: e)
  case Nil
  then show ?case by (intro exI [of _ "[]"] exI [of _ "pd_stats e"]) simp
next
  case (Cons s l)
  show ?case
  proof (cases "psdu_count s < r")
    case False
    then have "\<forall>x \<in> set (s # l). r \<le> psdu_count x" using Cons.prems by fastforce
    then show ?thesis
      using False Cons.prems by (intro exI [of _ "[]"] exI [of _ "s # l"] exI [of _ "pd_stats e"]) simp
  next
    case True
    let ?e = "pdcp_deliver_head e s l"
    from Cons.IH [of ?e] Cons.prems obtain front rest st where
      IH: "l = front @ rest" "deliver_before ?e r l = (pdcp_handed ?e front rest st, map pdcp_event_of front)"
        "\<forall>s \<in> set front. psdu_count s < r" "\<forall>s \<in> set rest. r \<le> psdu_count s"
      by (auto simp: pdcp_deliver_head_def)
    have "pdcp_handed ?e front rest st = pdcp_handed e (s # front) rest st" by (simp add: pdcp_deliver_head_def)
    with True IH show ?thesis by (intro exI [of _ "s # front"] exI [of _ rest] exI [of _ st]) simp
  qed
qed

lemma deliver_all_eq:
  "\<exists>st. deliver_all e l = (e\<lparr>pd_rx_list := if l = [] then pd_rx_list e else [],
     pd_rx_size := pd_rx_size e - (\<Sum>s\<leftarrow>l. psdu_size s), pd_stats := st\<rparr>, map pdcp_event_of l)"
proof (induction l arbitrary: e)
  case Nil
  show ?case by (intro exI [of _ "pd_stats e"]) simp
next
  case (Cons s l)
  let ?e = "pdcp_deliver_head e s l"
  from Cons.IH [of ?e] obtain st where
    "deliver_all ?e l = (?e\<lparr>pd_rx_list := if l = [] then pd_rx_list ?e else [],
       pd_rx_size := pd_rx_size ?e - (\<Sum>s\<leftarrow>l. psdu_size s), pd_stats := st\<rparr>, map pdcp_event_of l)" by blast
  then show ?case
    by (intro exI [of _ st]) (cases "l = []"; simp add: pdcp_deliver_head_def algebra_simps)
qed


subsection \<open>Storing a PDU\<close>

lemma pdcp_timers_keep [simp]:
  "pd_rx_list (pdcp_timers e) = pd_rx_list e" "pd_rx_deliv (pdcp_timers e) = pd_rx_deliv e"
  "pd_rx_next (pdcp_timers e) = pd_rx_next e" "pd_rx_size (pdcp_timers e) = pd_rx_size e"
  by (auto simp: pdcp_timers_def Let_def)

lemma pdcp_timers_ok:
  assumes "count_sorted (pd_rx_list e)" and "pd_rx_deliv e \<le> pd_rx_next e"
    and "\<forall>s \<in> set (pd_rx_list e). pd_rx_deliv e < psdu_count s \<and> psdu_count s < pd_rx_next e"
    and "pd_t_reordering_start e \<noteq> 0 \<longrightarrow> pd_rx_reord e \<le> pd_rx_next e"
  shows "pdcp_rx_ok (pdcp_timers e)"
  using assms by (auto simp: pdcp_rx_ok_def pdcp_timers_def Let_def)

text \<open>
  What the entity does with the SDU of a PDU: \<open>front\<close> is what it hands over, the rest is kept.
\<close>

definition pdcp_stored ::
  "nr_pdcp_entity_t \<Rightarrow> nr_pdcp_sdu_t \<Rightarrow> nr_pdcp_sdu_t list \<Rightarrow> nr_pdcp_entity_t \<Rightarrow> bool" where
  "pdcp_stored e sdu front e' \<longleftrightarrow>
     mset (front @ pd_rx_list e') = add_mset sdu (mset (pd_rx_list e)) \<and> pd_rx_deliv e \<le> pd_rx_deliv e' \<and>
     counts_of front = [unat (pd_rx_deliv e)..<unat (pd_rx_deliv e')]"

lemma pdcp_accept_ok:
  assumes ok: "pdcp_rx_ok e" and c: "c \<noteq> - 1" and r: "pdcp_accept e sz c bytes mi = (e', ev)"
  shows "pdcp_rx_ok e' \<and>
    (if c < pd_rx_deliv e \<or> nr_pdcp_sdu_in_list (pd_rx_list e) c then ev = [] \<and> e' = pdcp_discard e sz
     else \<exists>front. ev = map pdcp_event_of front \<and> pdcp_stored e (nr_pdcp_new_sdu c bytes mi) front e')"
proof (cases "c < pd_rx_deliv e \<or> nr_pdcp_sdu_in_list (pd_rx_list e) c")
  case True
  then show ?thesis using r ok by (auto simp: pdcp_accept_def pdcp_rx_ok_def pdcp_discard_def)
next
  case new: False
  define sdu where "sdu = nr_pdcp_new_sdu c bytes mi"
  define e1 where "e1 = e\<lparr>pd_rx_list := nr_pdcp_sdu_list_add (pd_rx_list e) sdu,
    pd_rx_size := pd_rx_size e + (sz - int (pdcp_header_size e)), pd_rx_next := if c \<ge> pd_rx_next e then c + 1 else pd_rx_next e\<rparr>"
  have sdu: "psdu_count sdu = c" by (simp add: sdu_def nr_pdcp_new_sdu_def)
  have deliv: "pd_rx_deliv e \<le> c" using new by (auto simp: not_less)
  have "c < - 1" using c by (simp add: word_order.not_eq_extremum)
  from word_step(2) [OF this] have "c < c + 1" by (simp add: word_less_nat_alt)
  then have c1: "c < pd_rx_next e1" "pd_rx_next e \<le> pd_rx_next e1" using deliv by (auto simp: e1_def)
  have sorted: "count_sorted (pd_rx_list e1)"
    using ok new sdu by (auto simp: e1_def pdcp_rx_ok_def in_list_iff intro!: count_sorted_add)
  have members: "\<forall>s \<in> set (pd_rx_list e1). pd_rx_deliv e \<le> psdu_count s \<and> psdu_count s < pd_rx_next e1"
    using ok c1 sdu deliv by (auto simp: e1_def pdcp_rx_ok_def sdu_list.set_ins)
  have mset: "mset (pd_rx_list e1) = add_mset sdu (mset (pd_rx_list e))" by (simp add: e1_def sdu_list.mset_ins)
  have next1: "pd_rx_deliv e \<le> pd_rx_next e1" using c1 deliv by simp
  have timer: "pd_t_reordering_start e1 \<noteq> 0 \<longrightarrow> pd_rx_reord e1 \<le> pd_rx_next e1"
    using ok c1 by (auto simp: pdcp_rx_ok_def e1_def)
  have keep: "pd_rx_deliv e1 = pd_rx_deliv e" by (simp add: e1_def)
  have acc: "pdcp_accept e sz c bytes mi =
      (let (e2, ev) = (if c = pd_rx_deliv e
                       then let (e', cnt, ev) = deliver_from e1 (pd_rx_deliv e) (pd_rx_list e1)
                            in (e'\<lparr>pd_rx_deliv := cnt\<rparr>, ev)
                       else (e1, []))
       in (pdcp_timers e2, ev))"
    using new by (simp add: pdcp_accept_def Let_def sdu_def [symmetric] e1_def)
  show ?thesis
  proof (cases "c = pd_rx_deliv e")
    case True
    from deliver_from_ok [OF refl sorted members next1] obtain front rest st c' where
      d: "pd_rx_list e1 = front @ rest"
        "deliver_from e1 (pd_rx_deliv e) (pd_rx_list e1) = (pdcp_handed e1 front rest st, c', map pdcp_event_of front)"
        "pd_rx_deliv e \<le> c'" "c' \<le> pd_rx_next e1" "\<forall>s \<in> set rest. c' < psdu_count s"
        "counts_of front = [unat (pd_rx_deliv e)..<unat c']" by blast
    let ?e2 = "(pdcp_handed e1 front rest st)\<lparr>pd_rx_deliv := c'\<rparr>"
    have eq: "e' = pdcp_timers ?e2" "ev = map pdcp_event_of front" using r [unfolded acc] True d(2) by simp_all
    have "pdcp_rx_ok (pdcp_timers ?e2)"
      by (rule pdcp_timers_ok) (use d sorted members timer in \<open>auto simp: sorted_wrt_append\<close>)
    moreover have "pdcp_stored e sdu front (pdcp_timers ?e2)" using d mset by (simp add: pdcp_stored_def)
    ultimately show ?thesis using new eq by (auto simp: sdu_def)
  next
    case False
    then have eq: "e' = pdcp_timers e1" "ev = []" using r [unfolded acc] by simp_all
    have "pdcp_rx_ok (pdcp_timers e1)"
      by (rule pdcp_timers_ok)
        (use sorted members timer next1 keep False deliv ok sdu in
          \<open>auto simp: e1_def pdcp_rx_ok_def sdu_list.set_ins\<close>)
    moreover have "pdcp_stored e sdu [] (pdcp_timers e1)" using mset keep by (simp add: pdcp_stored_def)
    ultimately show ?thesis using new eq by (auto simp: sdu_def)
  qed
qed


subsection \<open>Reception of bytes\<close>

text \<open>The buffer after the D/C bit of a data radio bearer was forced, and the COUNT it stands for.\<close>

definition pdcp_fixed :: "nr_pdcp_entity_t \<Rightarrow> byte list \<Rightarrow> byte list" where
  "pdcp_fixed e buffer =
     (if pd_type e \<noteq> NR_PDCP_SRB \<and> (buffer ! 0) AND 0x80 = 0 then buffer[0 := (buffer ! 0) OR 128] else buffer)"

definition pdcp_pdu_count :: "nr_pdcp_entity_t \<Rightarrow> byte list \<Rightarrow> u32" where
  "pdcp_pdu_count e buffer =
     (case pdcp_read_sn e (pdcp_fixed e buffer) of Inl _ \<Rightarrow> 0 | Inr sn \<Rightarrow> pdcp_rcvd_count e sn)"

lemma context_key_stats [simp]: "context_key (e\<lparr>pd_stats := st\<rparr>) = context_key e"
  by (rule ext) (simp add: context_key_def split: sec_context.split)

lemma security_call_stats [simp]:
  "pdcp_cipher_call cr (e\<lparr>pd_stats := st\<rparr>) b c d = pdcp_cipher_call cr e b c d"
  "pdcp_integrity_call cr (e\<lparr>pd_stats := st\<rparr>) b c d = pdcp_integrity_call cr e b c d"
  by (simp_all add: pdcp_cipher_call_def pdcp_integrity_call_def split: option.split sec_alg.split)

lemma stats_upd [simp]:
  "pdcp_read_sn (e\<lparr>pd_stats := st\<rparr>) buffer = pdcp_read_sn e buffer"
  "pdcp_rcvd_count (e\<lparr>pd_stats := st\<rparr>) sn = pdcp_rcvd_count e sn"
  "pdcp_header_size (e\<lparr>pd_stats := st\<rparr>) = pdcp_header_size e"
  "pdcp_integrity_size (e\<lparr>pd_stats := st\<rparr>) = pdcp_integrity_size e"
  "pdcp_rx_ok (e\<lparr>pd_stats := st\<rparr>) = pdcp_rx_ok e"
  "pdcp_decipher cr (e\<lparr>pd_stats := st\<rparr>) buffer c = pdcp_decipher cr e buffer c"
  "pdcp_check_mac cr (e\<lparr>pd_stats := st\<rparr>) buffer c = pdcp_check_mac cr e buffer c"
  "pdcp_msg_integrity (e\<lparr>pd_stats := st\<rparr>) buffer c = pdcp_msg_integrity e buffer c"
  by (simp_all add: pdcp_read_sn_def pdcp_rcvd_count_def pdcp_header_size_def pdcp_integrity_size_def pdcp_rx_ok_def
      pdcp_decipher_def pdcp_check_mac_def pdcp_msg_integrity_def
      pdcp_rx_direction_def Let_def)

lemma pdcp_discard_stats: "\<exists>st'. pdcp_discard (e\<lparr>pd_stats := st\<rparr>) sz = e\<lparr>pd_stats := st'\<rparr>"
  by (auto simp: pdcp_discard_def)

lemma pdcp_recv_data_cases:
  assumes "pdcp_recv_data cr e buffer = Inr (e', ev)"
  shows "(\<exists>st. e' = e\<lparr>pd_stats := st\<rparr> \<and> ev = []) \<or>
    (\<exists>sn st bytes mi. pdcp_read_sn e buffer = Inr sn \<and>
       pdcp_accept (e\<lparr>pd_stats := st\<rparr>) (int (length buffer)) (pdcp_rcvd_count e sn) bytes mi = (e', ev))"
  using assms
  by (auto simp: pdcp_recv_data_def Let_def pdcp_discard_def result_simps split: if_splits)

lemma pdcp_recv_pdu_cases:
  assumes "nr_pdcp_entity_recv_pdu cr e buffer = Inr (e', ev)"
  shows "(\<exists>st. e' = e\<lparr>pd_stats := st\<rparr> \<and> ev = []) \<or>
    (\<exists>st sz bytes mi. pdcp_accept (e\<lparr>pd_stats := st\<rparr>) sz (pdcp_pdu_count e buffer) bytes mi = (e', ev))"
proof (cases "pd_entity_suspended e \<or> length buffer < 1")
  case True
  then have "nr_pdcp_entity_recv_pdu cr e buffer = Inr (e, [])" by (auto simp: nr_pdcp_entity_recv_pdu_def)
  with assms show ?thesis by (intro disjI1 exI [of _ "pd_stats e"]) simp
next
  case False
  with assms have "pdcp_recv_data cr e (pdcp_fixed e buffer) = Inr (e', ev)"
    by (auto simp: nr_pdcp_entity_recv_pdu_def pdcp_fixed_def split: if_splits)
  from pdcp_recv_data_cases [OF this] show ?thesis by (auto simp: pdcp_pdu_count_def)
qed


subsection \<open>Order of delivery\<close>

text \<open>A call that hands over the SDUs \<open>front\<close>, in the order of COUNT, and moves \<open>rx_deliv\<close> past them.\<close>

definition pdcp_hands :: "nr_pdcp_entity_t \<Rightarrow> nr_pdcp_sdu_t list \<Rightarrow> nr_pdcp_entity_t \<Rightarrow> bool" where
  "pdcp_hands e front e' \<longleftrightarrow> pdcp_rx_ok e' \<and> pd_rx_deliv e \<le> pd_rx_deliv e' \<and> count_sorted front \<and>
     (\<forall>s \<in> set front. pd_rx_deliv e \<le> psdu_count s \<and> psdu_count s < pd_rx_deliv e')"

lemma consecutive_sorted:
  assumes "counts_of front = [a..<b]"
  shows "count_sorted front \<and> (\<forall>s \<in> set front. a \<le> unat (psdu_count s) \<and> unat (psdu_count s) < b)"
proof
  have "sorted_wrt (<) (counts_of front)" unfolding assms by (rule sorted_wrt_upt)
  then show "count_sorted front" by (simp add: sorted_wrt_map word_less_nat_alt)
  have "set (counts_of front) = {a..<b}" unfolding assms by simp
  then show "\<forall>s \<in> set front. a \<le> unat (psdu_count s) \<and> unat (psdu_count s) < b" by (auto simp: set_eq_iff)
qed

lemma pdcp_recv_pdu_hands:
  assumes ok: "pdcp_rx_ok e" and c: "pdcp_pdu_count e buffer \<noteq> - 1"
    and r: "nr_pdcp_entity_recv_pdu cr e buffer = Inr (e', ev)"
  shows "\<exists>front. ev = map pdcp_event_of front \<and> pdcp_hands e front e'"
  using pdcp_recv_pdu_cases [OF r]
proof (elim disjE exE conjE)
  fix st
  assume "e' = e\<lparr>pd_stats := st\<rparr>" "ev = []"
  then show ?thesis using ok by (intro exI [of _ "[]"]) (simp add: pdcp_hands_def)
next
  fix st sz bytes mi
  let ?e = "e\<lparr>pd_stats := st\<rparr>"
  assume "pdcp_accept ?e sz (pdcp_pdu_count e buffer) bytes mi = (e', ev)"
  note acc = pdcp_accept_ok [OF _ c this]
  have ok': "pdcp_rx_ok e'" using acc ok by simp
  show ?thesis
  proof (cases "pdcp_pdu_count e buffer < pd_rx_deliv e \<or> nr_pdcp_sdu_in_list (pd_rx_list e) (pdcp_pdu_count e buffer)")
    case True
    with acc ok have "ev = []" "e' = pdcp_discard ?e sz" by (auto split: if_splits)
    then show ?thesis using ok' by (intro exI [of _ "[]"]) (simp add: pdcp_hands_def pdcp_discard_def)
  next
    case False
    with acc ok obtain front where "ev = map pdcp_event_of front"
      "pdcp_stored ?e (nr_pdcp_new_sdu (pdcp_pdu_count e buffer) bytes mi) front e'" by (auto split: if_splits)
    then show ?thesis using ok' consecutive_sorted [of front]
      by (intro exI [of _ front]) (simp add: pdcp_hands_def pdcp_stored_def word_le_nat_alt word_less_nat_alt)
  qed
qed

lemma pdcp_set_time_hands:
  assumes ok: "pdcp_rx_ok e" and r: "nr_pdcp_entity_set_time e now = (e', ev)"
  shows "\<exists>front. ev = map pdcp_event_of front \<and> pdcp_hands e front e' \<and> pd_rx_list e = front @ pd_rx_list e' \<and>
    (pd_t_reordering e \<noteq> - 1 \<and> pd_t_reordering_start e \<noteq> 0 \<and>
       pd_t_reordering_start e + word_of_int (pd_t_reordering e) < now \<longrightarrow> pd_rx_reord e \<le> pd_rx_deliv e')"
proof (cases "pd_t_reordering e = - 1 \<or> pd_t_reordering_start e = 0 \<or>
    now \<le> pd_t_reordering_start e + word_of_int (pd_t_reordering e)")
  case True
  then have "nr_pdcp_entity_set_time e now = (e\<lparr>pd_t_current := now\<rparr>, [])"
    by (auto simp: nr_pdcp_entity_set_time_def check_t_reordering_def)
  with r have "e' = e\<lparr>pd_t_current := now\<rparr>" "ev = []" by simp_all
  then show ?thesis using True ok by (intro exI [of _ "[]"]) (auto simp: pdcp_hands_def pdcp_rx_ok_def)
next
  case False
  let ?e = "e\<lparr>pd_t_current := now, pd_t_reordering_start := 0\<rparr>" and ?l = "pd_rx_list e" and ?r = "pd_rx_reord e"
  have l: "count_sorted ?l" "\<forall>s \<in> set ?l. pd_rx_deliv e < psdu_count s \<and> psdu_count s < pd_rx_next e"
    and reord: "pd_rx_deliv e < ?r" "?r \<le> pd_rx_next e"
    using ok False by (auto simp: pdcp_rx_ok_def)
  from deliver_before_ok [of ?e ?l ?r] l obtain f1 r1 st1 where
    b: "?l = f1 @ r1" "deliver_before ?e ?r ?l = (pdcp_handed ?e f1 r1 st1, map pdcp_event_of f1)"
      "\<forall>s \<in> set f1. psdu_count s < ?r" "\<forall>s \<in> set r1. ?r \<le> psdu_count s" by auto
  let ?e1 = "pdcp_handed ?e f1 r1 st1"
  have r1: "count_sorted r1" "\<forall>s \<in> set r1. ?r \<le> psdu_count s \<and> psdu_count s < pd_rx_next e"
    using l b by (auto simp: sorted_wrt_append)
  from deliver_from_ok [of ?e1 r1 ?r "pd_rx_next e"] r1 reord obtain f2 r2 st2 c where
    d: "r1 = f2 @ r2" "deliver_from ?e1 ?r r1 = (pdcp_handed ?e1 f2 r2 st2, c, map pdcp_event_of f2)"
      "?r \<le> c" "c \<le> pd_rx_next e" "\<forall>s \<in> set r2. c < psdu_count s" "counts_of f2 = [unat ?r..<unat c]" by auto
  let ?e2 = "(pdcp_handed ?e1 f2 r2 st2)\<lparr>pd_rx_deliv := c\<rparr>"
  let ?e3 = "if c < pd_rx_next e then ?e2\<lparr>pd_rx_reord := pd_rx_next e, pd_t_reordering_start := now\<rparr> else ?e2"
  have "nr_pdcp_entity_set_time e now = (?e3, map pdcp_event_of (f1 @ f2))"
    using False b(2) d(2) by (simp add: nr_pdcp_entity_set_time_def check_t_reordering_def Let_def)
  with r have res: "e' = ?e3" "ev = map pdcp_event_of (f1 @ f2)" by simp_all
  have ok3: "pdcp_rx_ok ?e3" using r1 d l b by (auto simp: pdcp_rx_ok_def sorted_wrt_append)
  have f2: "\<forall>s \<in> set f2. ?r \<le> psdu_count s \<and> psdu_count s < c"
    using consecutive_sorted [OF d(6)] by (simp add: word_le_nat_alt word_less_nat_alt)
  have "count_sorted (f1 @ f2)" using l b(1) d(1) by (auto simp: sorted_wrt_append)
  moreover have "\<forall>s \<in> set (f1 @ f2). pd_rx_deliv e \<le> psdu_count s \<and> psdu_count s < c"
  proof -
    have "pd_rx_deliv e \<le> psdu_count s \<and> psdu_count s < c" if "s \<in> set f1" for s
      using that l(2) b(1,3) d(3) by (auto simp: less_imp_le intro: less_le_trans)
    moreover have "pd_rx_deliv e \<le> psdu_count s \<and> psdu_count s < c" if "s \<in> set f2" for s
      using that f2 reord(1) by (auto intro: less_imp_le less_le_trans)
    ultimately show ?thesis by auto
  qed
  moreover have "pd_rx_deliv e \<le> c" using reord d(3) by simp
  ultimately have "pdcp_hands e (f1 @ f2) ?e3" using ok3 by (simp add: pdcp_hands_def)
  then show ?thesis using res b(1) d(1,3) by (intro exI [of _ "f1 @ f2"]) simp
qed

end
