(* ===== verification/Pdcp_Peer.thy ===== *)
theory Pdcp_Peer
  imports Pdcp_Rx
begin

text \<open>
  Two PDCP entities that face each other: the receiver reconstructs the COUNT of the sender from the
  transmitted low bits, undoes its protection and finds its SDU. The properties of PDCP are at the
  end of the theory.
\<close>


subsection \<open>Reconstruction of COUNT\<close>

definition pdcp_sn_ok :: "nr_pdcp_entity_t \<Rightarrow> bool" where
  "pdcp_sn_ok e \<longleftrightarrow> (pd_sn_size e = SHORT_SN_SIZE \<or> pd_sn_size e = LONG_SN_SIZE) \<and>
     pd_sn_max e = 2 ^ pd_sn_size e - 1 \<and> pd_window_size e = 2 ^ (pd_sn_size e - 1)"

lemma hfn_distance:
  fixes c r m w s t h k :: int
  assumes "m = 2 * w" "0 < w" "c = h * m + s" "r = k * m + t" "0 \<le> s" "s < m" "0 \<le> t" "t < m"
    and "r - w \<le> c" "c < r + w"
  shows "h = (if s < t - w then k + 1 else if t + w \<le> s then k - 1 else k)"
proof -
  have d: "(h - k) * m = (c - r) - (s - t)" using assms by (simp add: algebra_simps)
  have m: "0 \<le> m" using assms(1,2) by simp
  consider "s < t - w" | "t + w \<le> s" | "t - w \<le> s" "s < t + w" by linarith
  then show ?thesis
  proof cases
    case 1
    then have "0 * m < (h - k) * m" "(h - k) * m < 2 * m" using d assms by linarith+
    then have "0 < h - k" "h - k < 2" using m mult_right_less_imp_less [of 0 m "h - k"]
      mult_right_less_imp_less [of "h - k" m 2] by simp_all
    then show ?thesis using 1 by simp
  next
    case 2
    then have "(h - k) * m < 0 * m" "(- 2) * m < (h - k) * m" using d assms by linarith+
    then have "h - k < 0" "- 2 < h - k" using m mult_right_less_imp_less [of "- 2" m "h - k"]
      mult_right_less_imp_less [of "h - k" m 0] by simp_all
    then show ?thesis using 2 assms(2) by simp
  next
    case 3
    then have "(- 1) * m < (h - k) * m" "(h - k) * m < 1 * m" using d assms by linarith+
    then have "- 1 < h - k" "h - k < 1" using m mult_right_less_imp_less [of "- 1" m "h - k"]
      mult_right_less_imp_less [of "h - k" m 1] by simp_all
    then show ?thesis using 3 by simp
  qed
qed

lemma uint_take: "uint (take_bit n (x :: u32)) = uint x mod 2 ^ n"
proof -
  have "uint (take_bit n x) = take_bit n (uint x)" by (rule unsigned_take_bit_eq)
  then show ?thesis by (simp only: take_bit_eq_mod)
qed

lemma uint_drop: "uint (drop_bit n (x :: u32)) = uint x div 2 ^ n"
proof -
  have "uint (drop_bit n x) = drop_bit n (uint x)"
    by (rule bit_eqI) (auto simp: bit_unsigned_iff bit_drop_bit_eq dest: bit_imp_le_length)
  then show ?thesis by (simp only: drop_bit_eq_div)
qed

lemma mask_sn:
  assumes "n = 12 \<or> n = 18"
  shows "sint ((x :: u32) AND word_of_int (2 ^ n - 1)) = uint x mod 2 ^ n"
proof -
  have "x AND word_of_int (2 ^ n - 1) = take_bit n x"
    by (simp add: take_bit_eq_mask mask_eq_exp_minus_1)
  moreover have "sint (take_bit n x) = uint (take_bit n x)"
  proof -
    have "uint (take_bit n x) < 2 ^ n" unfolding uint_take by simp
    also have "(2 :: int) ^ n \<le> 2 ^ 31" using assms by auto
    finally show ?thesis
      by (auto simp: sint_uint signed_take_bit_int_eq_self_iff intro: order_trans [OF _ unsigned_greater_eq])
  qed
  ultimately show ?thesis by (simp only: uint_take)
qed

lemma rcvd_count_correct:
  assumes ok: "pdcp_sn_ok e" and win: "uint (pd_rx_deliv e) - pd_window_size e \<le> uint c" "uint c < uint (pd_rx_deliv e) + pd_window_size e"
  shows "pdcp_rcvd_count e (uint c mod 2 ^ pd_sn_size e) = c"
proof -
  let ?n = "pd_sn_size e" and ?r = "pd_rx_deliv e" and ?w = "pd_window_size e"
  let ?m = "2 ^ pd_sn_size e :: int"
  have n: "?n = 12 \<or> ?n = 18" "?m = 2 * ?w" "0 < ?w" using ok by (auto simp: pdcp_sn_ok_def)
  have rs: "sint (?r AND word_of_int (pd_sn_max e)) = uint ?r mod ?m"
    using mask_sn [OF n(1), of ?r] ok by (simp add: pdcp_sn_ok_def)
  have hfn: "uint c div ?m = (if uint c mod ?m < uint ?r mod ?m - ?w then uint ?r div ?m + 1
      else if uint ?r mod ?m + ?w \<le> uint c mod ?m then uint ?r div ?m - 1 else uint ?r div ?m)"
    by (rule hfn_distance [OF n(2,3) div_mult_mod_eq [symmetric] div_mult_mod_eq [symmetric]]) (use win in auto)
  have word: "drop_bit ?n x = word_of_int (uint x div ?m)" for x :: u32
    by (metis uint_drop word_of_int_uint)
  have "(if uint c mod ?m < uint ?r mod ?m - ?w then drop_bit ?n ?r + 1
      else if uint ?r mod ?m + ?w \<le> uint c mod ?m then drop_bit ?n ?r - 1 else drop_bit ?n ?r) = drop_bit ?n c"
    unfolding word by (simp only: hfn split: if_split) simp
  then have "pdcp_rcvd_count e (uint c mod ?m) = push_bit ?n (drop_bit ?n c) OR word_of_int (uint c mod ?m)"
    by (simp add: pdcp_rcvd_count_def Let_def rs)
  also have "word_of_int (uint c mod ?m) = take_bit ?n c"
    by (metis uint_take word_of_int_uint)
  also have "push_bit ?n (drop_bit ?n c) OR take_bit ?n c = c"
    by (rule bit_word_eqI) (auto simp: bit_or_iff bit_push_bit_iff bit_drop_bit_eq bit_take_bit_iff)
  finally show ?thesis .
qed


subsection \<open>The header\<close>

lemma and_masks: "(x :: int) AND 15 = take_bit 4 x" "x AND 255 = take_bit 8 x" "x AND 3 = take_bit 2 x"
  by (simp_all add: take_bit_eq_mask mask_eq_exp_minus_1)

lemma uint_byte: "uint (word_of_int x :: byte) = take_bit 8 x"
  by (simp add: uint_word_of_int_eq)

definition dc_bit_of :: "nr_pdcp_entity_t \<Rightarrow> int" where
  "dc_bit_of e = (if pd_type e = NR_PDCP_DRB_AM \<or> pd_type e = NR_PDCP_DRB_UM then 2 ^ 7 else 0)"

lemma bit_128: "bit (128 :: int) k \<longleftrightarrow> k = 7"
proof -
  have "(128 :: int) = 2 ^ 7" by simp
  then show ?thesis by (metis bit_exp_iff possible_bit_int)
qed

lemma bit_dc: "bit (dc_bit_of e) k \<longleftrightarrow> pd_type e \<noteq> NR_PDCP_SRB \<and> k = 7"
  by (cases "pd_type e") (auto simp: dc_bit_of_def bit_128)

lemma pdcp_header_eq:
  "pdcp_header e sn =
     (if pd_sn_size e = SHORT_SN_SIZE
      then [word_of_int (dc_bit_of e OR take_bit 4 (drop_bit 8 sn)), word_of_int (take_bit 8 sn)]
      else [word_of_int (dc_bit_of e OR take_bit 2 (drop_bit 16 sn)), word_of_int (take_bit 8 (drop_bit 8 sn)),
            word_of_int (take_bit 8 sn)])"
  by (simp add: pdcp_header_def dc_bit_of_def and_masks Let_def)

lemma length_pdcp_header: "length (pdcp_header e sn) = pdcp_header_size e"
  by (simp add: pdcp_header_eq pdcp_header_size_def)

lemma bit_small: "0 \<le> sn \<Longrightarrow> sn < 2 ^ n \<Longrightarrow> bit (sn :: int) k \<Longrightarrow> k < n"
proof -
  assume sn: "0 \<le> sn" "sn < 2 ^ n" and k: "bit sn k"
  have "sn = take_bit n sn" using sn by (simp add: take_bit_int_eq_self)
  then show "k < n" using k by (metis bit_take_bit_iff)
qed

lemma read_header:
  assumes "pd_sn_size b = pd_sn_size a" and "pd_sn_size a = SHORT_SN_SIZE \<or> pd_sn_size a = LONG_SN_SIZE"
    and sn: "0 \<le> sn" "sn < 2 ^ pd_sn_size a"
  shows "pdcp_read_sn b (pdcp_header a sn @ rest) = Inr sn"
proof (cases "pd_sn_size a = SHORT_SN_SIZE")
  case True
  have "push_bit 8 (take_bit 4 (take_bit 8 (dc_bit_of a OR take_bit 4 (drop_bit 8 sn)))) OR take_bit 8 (take_bit 8 sn) = sn"
    by (rule bit_eqI) (auto simp: bit_or_iff bit_push_bit_iff bit_take_bit_iff bit_drop_bit_eq bit_dc True
        dest: bit_small [OF sn])
  with True assms(1) show ?thesis
    by (simp add: pdcp_read_sn_def pdcp_header_eq byte_at_def uint_byte and_masks)
next
  case False
  then have n: "pd_sn_size a = 18" using assms(2) by simp
  have "push_bit 16 (take_bit 2 (take_bit 8 (dc_bit_of a OR take_bit 2 (drop_bit 16 sn)))) OR
      push_bit 8 (take_bit 8 (take_bit 8 (drop_bit 8 sn))) OR take_bit 8 (take_bit 8 sn) = sn"
    by (rule bit_eqI) (auto simp: bit_or_iff bit_push_bit_iff bit_take_bit_iff bit_drop_bit_eq bit_dc n
        dest: bit_small [OF sn])
  with n assms(1) show ?thesis
    by (simp add: pdcp_read_sn_def pdcp_header_eq byte_at_def uint_byte and_masks)
qed

lemma header_dc_bit:
  assumes "pd_type e \<noteq> NR_PDCP_SRB"
  shows "(pdcp_header e sn @ rest) ! 0 AND 0x80 \<noteq> 0"
proof -
  have "bit (word_of_int (dc_bit_of e OR x) :: byte) 7" for x
    using assms by (simp add: bit_word_of_int_iff bit_or_iff bit_dc)
  then have "(word_of_int (dc_bit_of e OR x) :: byte) AND push_bit 7 1 \<noteq> 0" for x
    by (simp only: bit_iff_and_push_bit_not_eq_0 [symmetric])
  then show ?thesis by (simp add: pdcp_header_eq)
qed


subsection \<open>Peers\<close>

definition pdcp_peers :: "nr_pdcp_entity_t \<Rightarrow> nr_pdcp_entity_t \<Rightarrow> bool" where
  "pdcp_peers a b \<longleftrightarrow> pdcp_sn_ok a \<and> pdcp_sn_ok b \<and> pd_sn_size b = pd_sn_size a \<and> pd_type b = pd_type a \<and>
     pd_rb_id b = pd_rb_id a \<and> pd_has_sdap_rx b = pd_has_sdap_tx a \<and> pd_is_gnb b = (\<not> pd_is_gnb a) \<and>
     pd_has_ciphering b = pd_has_ciphering a \<and> pd_has_integrity b = pd_has_integrity a \<and>
     pd_cipher b = pd_cipher a \<and> pd_integrity b = pd_integrity a \<and>
     map_option (context_key b) (pd_security_context b) = map_option (context_key a) (pd_security_context a) \<and>
     map_option (context_key b) (pd_integrity_context b) = map_option (context_key a) (pd_integrity_context a)"

lemma peers_calls:
  assumes "pdcp_peers a b"
  shows "pdcp_cipher_call cr b m c d = pdcp_cipher_call cr a m c d"
    "pdcp_integrity_call cr b m c d = pdcp_integrity_call cr a m c d"
proof -
  show "pdcp_cipher_call cr b m c d = pdcp_cipher_call cr a m c d"
    using assms
    by (cases "pd_security_context a"; cases "pd_security_context b")
      (simp_all add: pdcp_peers_def pdcp_cipher_call_def split: option.split sec_alg.split)
  show "pdcp_integrity_call cr b m c d = pdcp_integrity_call cr a m c d"
    using assms
    by (cases "pd_integrity_context a"; cases "pd_integrity_context b")
      (simp_all add: pdcp_peers_def pdcp_integrity_call_def split: option.split sec_alg.split)
qed

lemma cipher_call_inverse:
  assumes "crypto_ok cr" and "pdcp_cipher_call cr e m c d = Inr x"
  shows "pdcp_cipher_call cr e x c d = Inr m \<and> length x = length m"
proof -
  obtain alg ctx where e: "pd_cipher e = Some alg" "pd_security_context e = Some ctx"
    using assms(2) by (cases "pd_cipher e"; cases "pd_security_context e") (auto simp: pdcp_cipher_call_def split: sec_alg.splits)
  show ?thesis
    using assms(2) e nea1.cipher_inverse [OF assms(1), of "context_key e ctx" m "pd_rb_id e" c d x]
      nea2.cipher_inverse [OF assms(1), of "context_key e ctx" m "pd_rb_id e" c d x]
    by (cases alg) (simp_all add: pdcp_cipher_call_def)
qed

lemma integrity_call_length:
  assumes "crypto_ok cr" and "pdcp_integrity_call cr e m c d = Inr mac"
  shows "length mac = 4"
proof -
  obtain alg ctx where e: "pd_integrity e = Some alg" "pd_integrity_context e = Some ctx"
    using assms(2) by (cases "pd_integrity e"; cases "pd_integrity_context e") (auto simp: pdcp_integrity_call_def split: sec_alg.splits)
  show ?thesis
    using assms(2) e nia1.mac_length [OF assms(1), of "context_key e ctx" m "pd_rb_id e" c d mac]
      nia2.mac_length [OF assms(1), of "context_key e ctx" m "pd_rb_id e" c d mac]
    by (cases alg) (simp_all add: pdcp_integrity_call_def)
qed

lemma pdcp_protect_ok:
  assumes "crypto_ok cr" and "pdcp_protect cr e buf c = Inr buf'"
  shows "\<exists>mac. buf' = buf @ mac \<and> length mac = pdcp_integrity_size e \<and>
    (pd_has_integrity e \<longrightarrow> pdcp_integrity_call cr e buf c (pdcp_tx_direction e) = Inr mac)"
  using assms integrity_call_length [OF assms(1)]
  by (auto simp: pdcp_protect_def pdcp_integrity_size_def result_simps split: if_splits)

lemma pdcp_encipher_ok:
  assumes cr: "crypto_ok cr" and peers: "pdcp_peers a b" and r: "pdcp_encipher cr a buf c = Inr buf'"
  shows "length buf' = length buf \<and> take (pdcp_header_size a) buf' = take (pdcp_header_size a) buf \<and>
    pdcp_decipher cr b buf' c = Inr buf"
proof (cases "pd_has_ciphering a")
  case True
  let ?n = "pdcp_header_size a + (if pd_has_sdap_tx a then 1 else 0)"
  from True r obtain x where x: "?n \<le> length buf" "pdcp_cipher_call cr a (drop ?n buf) c (pdcp_tx_direction a) = Inr x"
    "buf' = take ?n buf @ x" by (auto simp: pdcp_encipher_def Let_def result_simps split: if_splits)
  note inv = cipher_call_inverse [OF cr x(2)]
  have "?n = pdcp_header_size b + (if pd_has_sdap_rx b then 1 else 0)" "pdcp_rx_direction b = pdcp_tx_direction a"
    using peers by (auto simp: pdcp_peers_def pdcp_header_size_def pdcp_rx_direction_def pdcp_tx_direction_def)
  moreover have "take ?n buf' = take ?n buf" "drop ?n buf' = x" using x by simp_all
  ultimately have "pdcp_decipher cr b buf' c = Inr buf"
    using inv True peers by (simp add: pdcp_decipher_def peers_calls [OF peers] Let_def pdcp_peers_def)
  moreover have "take (pdcp_header_size a) buf' = take (pdcp_header_size a) buf" using x by (simp add: take_append min_def)
  ultimately show ?thesis using x inv by simp
next
  case False
  then show ?thesis using r peers by (auto simp: pdcp_encipher_def pdcp_decipher_def pdcp_peers_def)
qed


lemma pdcp_recv_protected:
  assumes cr: "crypto_ok cr" and peers: "pdcp_peers a b" and run: "\<not> pd_entity_suspended b"
    and sn: "sn = uint c mod 2 ^ pd_sn_size a"
    and win: "uint (pd_rx_deliv b) - pd_window_size b \<le> uint c" "uint c < uint (pd_rx_deliv b) + pd_window_size b"
    and sdu: "(if pd_has_sdap_tx a then 1 else 0) < length sdu"
    and buf: "buf = (pdcp_header a sn @ sdu) @ mac" "length mac = pdcp_integrity_size a"
      "pd_has_integrity a \<longrightarrow> pdcp_integrity_call cr a (pdcp_header a sn @ sdu) c (pdcp_tx_direction a) = Inr mac"
    and enc: "pdcp_encipher cr a buf c = Inr pdu"
  shows "\<exists>st mi. nr_pdcp_entity_recv_pdu cr b pdu =
    Inr (pdcp_accept (b\<lparr>pd_stats := st\<rparr>) (int (length pdu)) c sdu mi)"
proof -
  let ?h = "pdcp_header_size a"
  have same: "pdcp_header_size b = ?h" "pdcp_integrity_size b = pdcp_integrity_size a"
    "pdcp_rx_direction b = pdcp_tx_direction a" "pd_sn_size b = pd_sn_size a" "pd_type b = pd_type a"
    "pd_has_sdap_rx b = pd_has_sdap_tx a" "pd_has_integrity b = pd_has_integrity a" "pdcp_sn_ok b"
    "pd_sn_size a = SHORT_SN_SIZE \<or> pd_sn_size a = LONG_SN_SIZE"
    using peers by (auto simp: pdcp_peers_def pdcp_header_size_def pdcp_integrity_size_def pdcp_rx_direction_def
        pdcp_tx_direction_def pdcp_sn_ok_def)
  have h: "length (pdcp_header a sn) = ?h" "0 < ?h" by (simp_all add: length_pdcp_header pdcp_header_size_def)
  note e = pdcp_encipher_ok [OF cr peers enc]
  have len: "length pdu = ?h + length sdu + pdcp_integrity_size a" using e h buf by simp
  have head: "pdu = pdcp_header a sn @ drop ?h pdu"
    using e h(1) buf(1) append_take_drop_id [of ?h pdu] by simp
  have read: "pdcp_read_sn b pdu = Inr sn"
    by (subst head, rule read_header) (use same sn in simp_all)
  have fixed: "pd_type b \<noteq> NR_PDCP_SRB \<longrightarrow> pdu ! 0 AND 0x80 \<noteq> 0"
    using header_dc_bit [of a sn "drop ?h pdu"] head same(5) by simp
  have count: "pdcp_rcvd_count b sn = c" using rcvd_count_correct [OF same(8) win] sn same(4) by simp
  have mac: "pdcp_check_mac cr b buf c = Inr True"
    using buf h same by (simp add: pdcp_check_mac_def peers_calls [OF peers] Let_def)
  have bytes: "take (length buf - ?h - pdcp_integrity_size a) (drop ?h buf) = sdu" using buf h by simp
  have "pdcp_recv_data cr b pdu = Inr (pdcp_accept (b\<lparr>pd_stats := (pd_stats b)\<lparr>pst_rxpdu_pkts := pst_rxpdu_pkts (pd_stats b) + 1,
      pst_rxpdu_bytes := pst_rxpdu_bytes (pd_stats b) + word_of_int (int (length pdu)), pst_rxpdu_sn := word_of_int sn\<rparr>\<rparr>)
      (int (length pdu)) c sdu (pdcp_msg_integrity b pdu c))"
    using read len sdu e mac bytes same count by (simp add: pdcp_recv_data_def Let_def)
  moreover have "nr_pdcp_entity_recv_pdu cr b pdu = pdcp_recv_data cr b pdu"
    using run fixed len h by (auto simp: nr_pdcp_entity_recv_pdu_def)
  ultimately show ?thesis by auto
qed

lemma pdcp_process_sdu_cases:
  assumes cr: "crypto_ok cr" and ok: "pdcp_sn_ok a" and run: "\<not> pd_entity_suspended a"
    and r: "nr_pdcp_entity_process_sdu cr a sdu m = Inr (ret, pdu, a')"
  shows "\<exists>mac. length mac = pdcp_integrity_size a \<and>
    (pd_has_integrity a \<longrightarrow> pdcp_integrity_call cr a (pdcp_header a (uint (pd_tx_next a) mod 2 ^ pd_sn_size a) @ sdu)
       (pd_tx_next a) (pdcp_tx_direction a) = Inr mac) \<and>
    pdcp_encipher cr a ((pdcp_header a (uint (pd_tx_next a) mod 2 ^ pd_sn_size a) @ sdu) @ mac) (pd_tx_next a) = Inr pdu \<and>
    pd_tx_next a' = pd_tx_next a + 1 \<and> ret = int (pdcp_header_size a) + int (length sdu) + int (pdcp_integrity_size a)"
proof -
  let ?sn = "sint (pd_tx_next a AND word_of_int (pd_sn_max a))"
  have sn: "?sn = uint (pd_tx_next a) mod 2 ^ pd_sn_size a"
    using mask_sn [of "pd_sn_size a" "pd_tx_next a"] ok by (simp add: pdcp_sn_ok_def)
  have upd: "pdcp_protect cr (a\<lparr>pd_stats := st\<rparr>) b c = pdcp_protect cr a b c"
    "pdcp_encipher cr (a\<lparr>pd_stats := st\<rparr>) b c = pdcp_encipher cr a b c"
    "pdcp_header (a\<lparr>pd_stats := st\<rparr>) sn = pdcp_header a sn" for st b c sn
    by (simp_all add: pdcp_protect_def pdcp_encipher_def pdcp_header_def pdcp_tx_direction_def Let_def)
  from r run obtain buf where buf: "pdcp_protect cr a (pdcp_header a ?sn @ sdu) (pd_tx_next a) = Inr buf"
    "pdcp_encipher cr a buf (pd_tx_next a) = Inr pdu" "pd_tx_next a' = pd_tx_next a + 1"
    "ret = int (pdcp_header_size a) + int (length sdu) + int (pdcp_integrity_size a)"
    by (auto simp: nr_pdcp_entity_process_sdu_def Let_def upd result_simps split: if_splits)
  from pdcp_protect_ok [OF cr buf(1)] buf(2-4) show ?thesis unfolding sn by auto
qed


subsection \<open>Delivery in sequence\<close>

lemma pdcp_accept_next:
  assumes ok: "pdcp_rx_ok b" and c: "c = pd_rx_deliv b" "c \<noteq> - 1" and r: "pdcp_accept b sz c sdu mi = (e', ev)"
  shows "\<exists>evs. ev = Deliver_pdcp_sdu sdu mi # evs"
proof -
  let ?s = "nr_pdcp_new_sdu c sdu mi"
  have new: "\<not> (c < pd_rx_deliv b \<or> nr_pdcp_sdu_in_list (pd_rx_list b) c)"
    using ok c(1) by (auto simp: in_list_iff pdcp_rx_ok_def)
  with pdcp_accept_ok [OF ok c(2) r] obtain front where ok': "pdcp_rx_ok e'" and ev: "ev = map pdcp_event_of front"
    and st: "pdcp_stored b ?s front e'" by (auto split: if_splits)
  have sets: "set front \<union> set (pd_rx_list e') = insert ?s (set (pd_rx_list b))"
  proof -
    have "mset (front @ pd_rx_list e') = mset (?s # pd_rx_list b)" using st by (simp add: pdcp_stored_def)
    from mset_eq_setD [OF this] show ?thesis by simp
  qed
  have count: "psdu_count ?s = c" by (simp add: nr_pdcp_new_sdu_def)
  have "?s \<notin> set (pd_rx_list e')"
    using ok' st c(1) count by (force simp: pdcp_rx_ok_def pdcp_stored_def)
  then have "?s \<in> set front" using sets by auto
  then obtain s rest where f: "front = s # rest" by (cases front) auto
  have "counts_of front = [unat c..<unat (pd_rx_deliv e')]" using st c(1) by (simp add: pdcp_stored_def)
  then have "psdu_count s = c" using f by (cases "unat c < unat (pd_rx_deliv e')") (auto simp: upt_conv_Cons word_unat_eq_iff)
  moreover have "s = ?s \<or> s \<in> set (pd_rx_list b)" using sets f by auto
  ultimately have "s = ?s" using ok c(1) by (auto simp: pdcp_rx_ok_def)
  then show ?thesis using ev f by (simp add: pdcp_event_of_def nr_pdcp_new_sdu_def)
qed

lemma pdcp_delivers_next:
  assumes "crypto_ok cr" and "pdcp_peers a b" and "\<not> pd_entity_suspended a" and "\<not> pd_entity_suspended b"
    and "nr_pdcp_entity_process_sdu cr a sdu m = Inr (ret, pdu, a')"
    and "(if pd_has_sdap_tx a then 1 else 0) < length sdu"
    and "pdcp_rx_ok b" and "pd_rx_deliv b = pd_tx_next a" and "pd_tx_next a \<noteq> - 1"
  shows "\<exists>b' mi evs. nr_pdcp_entity_recv_pdu cr b pdu = Inr (b', Deliver_pdcp_sdu sdu mi # evs) \<and> pdcp_rx_ok b' \<and>
    length pdu = pdcp_header_size a + length sdu + pdcp_integrity_size a"
proof -
  have ok: "pdcp_sn_ok a" "pdcp_sn_ok b" using assms(2) by (simp_all add: pdcp_peers_def)
  have win: "uint (pd_rx_deliv b) - pd_window_size b \<le> uint (pd_tx_next a)"
    "uint (pd_tx_next a) < uint (pd_rx_deliv b) + pd_window_size b"
    using ok(2) assms(8) by (auto simp: pdcp_sn_ok_def)
  from pdcp_process_sdu_cases [OF assms(1) ok(1) assms(3,5)] obtain mac where
    mac: "length mac = pdcp_integrity_size a"
      "pd_has_integrity a \<longrightarrow> pdcp_integrity_call cr a (pdcp_header a (uint (pd_tx_next a) mod 2 ^ pd_sn_size a) @ sdu)
         (pd_tx_next a) (pdcp_tx_direction a) = Inr mac"
      "pdcp_encipher cr a ((pdcp_header a (uint (pd_tx_next a) mod 2 ^ pd_sn_size a) @ sdu) @ mac) (pd_tx_next a) = Inr pdu"
    by blast
  from pdcp_recv_protected [OF assms(1,2,4) refl win assms(6) refl mac] obtain st mi where
    r: "nr_pdcp_entity_recv_pdu cr b pdu = Inr (pdcp_accept (b\<lparr>pd_stats := st\<rparr>) (int (length pdu)) (pd_tx_next a) sdu mi)"
    by blast
  obtain b' ev where acc: "pdcp_accept (b\<lparr>pd_stats := st\<rparr>) (int (length pdu)) (pd_tx_next a) sdu mi = (b', ev)" by fastforce
  have ok': "pdcp_rx_ok (b\<lparr>pd_stats := st\<rparr>)" using assms(7) by simp
  have "length pdu = pdcp_header_size a + length sdu + pdcp_integrity_size a"
    using pdcp_encipher_ok [OF assms(1,2) mac(3)] mac(1) by (simp add: length_pdcp_header)
  with pdcp_accept_next [OF ok' _ assms(9) acc] pdcp_accept_ok [OF ok' assms(9) acc] r acc assms(8)
  show ?thesis by auto
qed

datatype pdcp_op = Pdcp_recv "byte list" | Pdcp_set_time u64

primrec pdcp_op_run :: "crypto_env \<Rightarrow> pdcp_op \<Rightarrow> nr_pdcp_entity_t \<Rightarrow> (nr_pdcp_entity_t \<times> pdcp_event list) result" where
  "pdcp_op_run cr (Pdcp_recv buffer) e = nr_pdcp_entity_recv_pdu cr e buffer"
| "pdcp_op_run cr (Pdcp_set_time now) e = Inr (nr_pdcp_entity_set_time e now)"

primrec pdcp_run :: "crypto_env \<Rightarrow> pdcp_op list \<Rightarrow> nr_pdcp_entity_t \<Rightarrow> (nr_pdcp_entity_t \<times> pdcp_event list) result" where
  "pdcp_run cr [] e = Inr (e, [])"
| "pdcp_run cr (p # ops) e =
     bind_r (pdcp_op_run cr p e) (\<lambda>(e1, ev1). bind_r (pdcp_run cr ops e1) (\<lambda>(e2, ev2). Inr (e2, ev1 @ ev2)))"

text \<open>No PDU of the run stands for the last COUNT, \<open>2 ^ 32 - 1\<close>, after which COUNT would wrap.\<close>

primrec pdcp_no_wrap :: "crypto_env \<Rightarrow> pdcp_op list \<Rightarrow> nr_pdcp_entity_t \<Rightarrow> bool" where
  "pdcp_no_wrap cr [] e \<longleftrightarrow> True"
| "pdcp_no_wrap cr (p # ops) e \<longleftrightarrow>
     (case p of Pdcp_recv buffer \<Rightarrow> pdcp_pdu_count e buffer \<noteq> - 1 | Pdcp_set_time _ \<Rightarrow> True) \<and>
     (case pdcp_op_run cr p e of Inl _ \<Rightarrow> True | Inr (e', _) \<Rightarrow> pdcp_no_wrap cr ops e')"

lemma pdcp_hands_append:
  assumes "pdcp_hands e f1 e1" and "pdcp_hands e1 f2 e2"
  shows "pdcp_hands e (f1 @ f2) e2"
  using assms by (fastforce simp: pdcp_hands_def sorted_wrt_append)

text \<open>
  The SDU that a PDU stands for, with the COUNT rebuilt from its sequence number: \<open>None\<close> for a PDU that is too short
  or whose code is wrong, and for every PDU while the entity is suspended.
\<close>

definition pdcp_too_short :: "nr_pdcp_entity_t \<Rightarrow> byte list \<Rightarrow> bool" where
  "pdcp_too_short e pdu \<longleftrightarrow> length pdu < pdcp_header_size e + (if pd_has_sdap_rx e then 1 else 0) + pdcp_integrity_size e + 1"

definition pdcp_plain_sdu :: "nr_pdcp_entity_t \<Rightarrow> byte list \<Rightarrow> u32 \<Rightarrow> byte list \<Rightarrow> nr_pdcp_sdu_t" where
  "pdcp_plain_sdu e pdu c plain = nr_pdcp_new_sdu c
     (take (length plain - pdcp_header_size e - pdcp_integrity_size e) (drop (pdcp_header_size e) plain)) (pdcp_msg_integrity e pdu c)"

definition pdcp_pdu_sdu :: "crypto_env \<Rightarrow> nr_pdcp_entity_t \<Rightarrow> byte list \<Rightarrow> nr_pdcp_sdu_t option" where
  "pdcp_pdu_sdu cr e pdu =
     (let buffer = pdcp_fixed e pdu; c = pdcp_pdu_count e pdu
      in if pd_entity_suspended e \<or> pdu = [] \<or> pdcp_too_short e buffer then None
         else case pdcp_decipher cr e buffer c of
                Inl _ \<Rightarrow> None
              | Inr plain \<Rightarrow> if pdcp_check_mac cr e plain c = Inr True then Some (pdcp_plain_sdu e buffer c plain) else None)"

text \<open>The SDUs that a run takes in, in the order of arrival: those of its PDUs that are neither late nor stored already.\<close>

definition pdcp_takes :: "crypto_env \<Rightarrow> pdcp_op \<Rightarrow> nr_pdcp_entity_t \<Rightarrow> nr_pdcp_sdu_t list" where
  "pdcp_takes cr p e =
     (case p of
        Pdcp_recv pdu \<Rightarrow>
          (case pdcp_pdu_sdu cr e pdu of
             None \<Rightarrow> []
           | Some s \<Rightarrow> if psdu_count s < pd_rx_deliv e \<or> psdu_count s \<in> psdu_count ` set (pd_rx_list e) then [] else [s])
      | Pdcp_set_time _ \<Rightarrow> [])"

primrec pdcp_taken :: "crypto_env \<Rightarrow> pdcp_op list \<Rightarrow> nr_pdcp_entity_t \<Rightarrow> nr_pdcp_sdu_t list" where
  "pdcp_taken cr [] e = []"
| "pdcp_taken cr (p # ops) e =
     pdcp_takes cr p e @ (case pdcp_op_run cr p e of Inl _ \<Rightarrow> [] | Inr (e', _) \<Rightarrow> pdcp_taken cr ops e')"

lemma pdcp_recv_pdu_eq:
  "nr_pdcp_entity_recv_pdu cr e pdu =
     (if pd_entity_suspended e \<or> pdu = [] then Inr (e, []) else pdcp_recv_data cr e (pdcp_fixed e pdu))"
  by (cases "pdu = []") (simp_all add: nr_pdcp_entity_recv_pdu_def pdcp_fixed_def Suc_le_eq not_less)

definition pdcp_rx_stats :: "nr_pdcp_entity_t \<Rightarrow> byte list \<Rightarrow> int \<Rightarrow> nr_pdcp_statistics_t" where
  "pdcp_rx_stats e b sn = (pd_stats e)\<lparr>pst_rxpdu_pkts := pst_rxpdu_pkts (pd_stats e) + 1,
     pst_rxpdu_bytes := pst_rxpdu_bytes (pd_stats e) + word_of_int (int (length b)), pst_rxpdu_sn := word_of_int sn\<rparr>"

lemma pdcp_recv_data_eq:
  "pdcp_recv_data cr e b =
     bind_r (pdcp_read_sn e b) (\<lambda>sn.
       if pdcp_too_short e b then Inr (pdcp_discard (e\<lparr>pd_stats := pdcp_rx_stats e b sn\<rparr>) (int (length b)), [])
       else bind_r (pdcp_decipher cr e b (pdcp_rcvd_count e sn)) (\<lambda>plain.
            bind_r (pdcp_check_mac cr e plain (pdcp_rcvd_count e sn)) (\<lambda>good.
              if \<not> good then Inr (pdcp_discard (e\<lparr>pd_stats := pdcp_rx_stats e b sn\<rparr>) (int (length b)), [])
              else let s = pdcp_plain_sdu e b (pdcp_rcvd_count e sn) plain
                   in Inr (pdcp_accept (e\<lparr>pd_stats := pdcp_rx_stats e b sn\<rparr>) (int (length b))
                            (psdu_count s) (psdu_buffer s) (psdu_integrity s)))))"
  by (simp add: pdcp_recv_data_def Let_def pdcp_too_short_def pdcp_plain_sdu_def nr_pdcp_new_sdu_def pdcp_rx_stats_def
      split del: if_split cong: if_cong)

lemma pdcp_recv_pdu_sdu:
  assumes "nr_pdcp_entity_recv_pdu cr e pdu = Inr (e', ev)"
  shows "(\<exists>st. pdcp_pdu_sdu cr e pdu = None \<and> e' = e\<lparr>pd_stats := st\<rparr> \<and> ev = []) \<or>
    (\<exists>st sz s. pdcp_pdu_sdu cr e pdu = Some s \<and> psdu_count s = pdcp_pdu_count e pdu \<and>
       s = nr_pdcp_new_sdu (psdu_count s) (psdu_buffer s) (psdu_integrity s) \<and>
       pdcp_accept (e\<lparr>pd_stats := st\<rparr>) sz (psdu_count s) (psdu_buffer s) (psdu_integrity s) = (e', ev))"
proof (cases "pd_entity_suspended e \<or> pdu = []")
  case True
  then have "pdcp_pdu_sdu cr e pdu = None \<and> e' = e\<lparr>pd_stats := pd_stats e\<rparr> \<and> ev = []"
    using assms by (auto simp: pdcp_recv_pdu_eq pdcp_pdu_sdu_def)
  then show ?thesis
    by blast
next
  case False
  define b where "b = pdcp_fixed e pdu"
  have r: "pdcp_recv_data cr e b = Inr (e', ev)"
    using assms False by (simp add: pdcp_recv_pdu_eq b_def)
  then obtain sn where sn: "pdcp_read_sn e b = Inr sn"
    by (auto simp: pdcp_recv_data_eq result_simps)
  define c where "c = pdcp_rcvd_count e sn"
  have c: "pdcp_pdu_count e pdu = c"
    using sn by (simp add: pdcp_pdu_count_def b_def c_def)
  have eq: "pdcp_pdu_sdu cr e pdu = (if pdcp_too_short e b then None else case pdcp_decipher cr e b c of Inl _ \<Rightarrow> None
      | Inr plain \<Rightarrow> if pdcp_check_mac cr e plain c = Inr True then Some (pdcp_plain_sdu e b c plain) else None)"
    using False by (simp add: pdcp_pdu_sdu_def c flip: b_def)
  have s: "psdu_count (pdcp_plain_sdu e b c x) = c \<and>
      pdcp_plain_sdu e b c x = nr_pdcp_new_sdu c (psdu_buffer (pdcp_plain_sdu e b c x)) (psdu_integrity (pdcp_plain_sdu e b c x))" for x
    by (simp add: pdcp_plain_sdu_def nr_pdcp_new_sdu_def)
  obtain st where st: "pdcp_discard (e\<lparr>pd_stats := pdcp_rx_stats e b sn\<rparr>) (int (length b)) = e\<lparr>pd_stats := st\<rparr>"
    using pdcp_discard_stats by blast
  show ?thesis
    using r s unfolding eq c pdcp_recv_data_eq sn bind_r.simps c_def [symmetric] st Let_def
    by (cases "pdcp_too_short e b") (fastforce simp: result_simps split: if_splits)+
qed

text \<open>A call takes in at most one SDU; what it has and takes in is what it hands over and keeps.\<close>

lemma pdcp_op_run_takes:
  assumes ok: "pdcp_rx_ok e" and w: "pdcp_no_wrap cr (p # ops) e" and r: "pdcp_op_run cr p e = Inr (e', ev)"
  shows "\<exists>front. ev = map pdcp_event_of front \<and> pdcp_hands e front e' \<and>
    mset front + mset (pd_rx_list e') = mset (pd_rx_list e) + mset (pdcp_takes cr p e)"
proof (cases p)
  case (Pdcp_set_time now)
  with r pdcp_set_time_hands [OF ok, of now e' ev] show ?thesis
    by (fastforce simp: pdcp_takes_def)
next
  case (Pdcp_recv pdu)
  then have c: "pdcp_pdu_count e pdu \<noteq> - 1" and r': "nr_pdcp_entity_recv_pdu cr e pdu = Inr (e', ev)"
    using w r by simp_all
  show ?thesis
    using pdcp_recv_pdu_sdu [OF r']
  proof (elim disjE exE conjE)
    fix st
    assume "pdcp_pdu_sdu cr e pdu = None" "e' = e\<lparr>pd_stats := st\<rparr>" "ev = []"
    then show ?thesis
      using ok Pdcp_recv by (intro exI [of _ "[]"]) (simp add: pdcp_takes_def pdcp_hands_def)
  next
    fix st sz s
    let ?e = "e\<lparr>pd_stats := st\<rparr>"
    assume s: "pdcp_pdu_sdu cr e pdu = Some s" "psdu_count s = pdcp_pdu_count e pdu"
        "s = nr_pdcp_new_sdu (psdu_count s) (psdu_buffer s) (psdu_integrity s)"
      and a: "pdcp_accept ?e sz (psdu_count s) (psdu_buffer s) (psdu_integrity s) = (e', ev)"
    have c': "psdu_count s \<noteq> - 1" and ok1: "pdcp_rx_ok ?e"
      using c s(2) ok by simp_all
    note acc = pdcp_accept_ok [OF ok1 c' a]
    show ?thesis
    proof (cases "psdu_count s < pd_rx_deliv e \<or> psdu_count s \<in> psdu_count ` set (pd_rx_list e)")
      case True
      then have "pdcp_takes cr p e = []"
        using s(1) Pdcp_recv by (auto simp: pdcp_takes_def)
      moreover have "ev = []" "e' = pdcp_discard ?e sz" "pdcp_rx_ok e'"
        using acc True by (auto simp: in_list_iff)
      ultimately show ?thesis
        by (intro exI [of _ "[]"]) (auto simp: pdcp_hands_def pdcp_discard_def)
    next
      case False
      then have t: "pdcp_takes cr p e = [s]"
        using s(1) Pdcp_recv by (auto simp: pdcp_takes_def)
      obtain front where front: "ev = map pdcp_event_of front" "pdcp_stored ?e s front e'" "pdcp_rx_ok e'"
        using acc False s(3) by (auto simp: in_list_iff)
      then show ?thesis
        using consecutive_sorted [of front] t
        by (intro exI [of _ front]) (simp add: pdcp_hands_def pdcp_stored_def word_le_nat_alt word_less_nat_alt)
    qed
  qed
qed

lemma pdcp_run_takes:
  assumes "pdcp_rx_ok e" and "pdcp_no_wrap cr ops e" and "pdcp_run cr ops e = Inr (e', ev)"
  shows "\<exists>ds. ev = map pdcp_event_of ds \<and> pdcp_hands e ds e' \<and>
    mset ds + mset (pd_rx_list e') = mset (pd_rx_list e @ pdcp_taken cr ops e)"
  using assms
proof (induction ops arbitrary: e ev)
  case Nil
  then show ?case by (intro exI [of _ "[]"]) (simp add: pdcp_hands_def)
next
  case (Cons p ops)
  from Cons.prems(3) obtain e1 ev1 ev2 where r: "pdcp_op_run cr p e = Inr (e1, ev1)"
    "pdcp_run cr ops e1 = Inr (e', ev2)" "ev = ev1 @ ev2" by (auto simp: result_simps)
  from pdcp_op_run_takes [OF Cons.prems(1,2) r(1)] obtain f1 where f1: "ev1 = map pdcp_event_of f1" "pdcp_hands e f1 e1"
    "mset f1 + mset (pd_rx_list e1) = mset (pd_rx_list e) + mset (pdcp_takes cr p e)"
    by auto
  have "pdcp_rx_ok e1" using f1(2) by (simp add: pdcp_hands_def)
  moreover have "pdcp_no_wrap cr ops e1" using Cons.prems(2) r(1) by simp
  ultimately obtain f2 where f2: "ev2 = map pdcp_event_of f2" "pdcp_hands e1 f2 e'"
      "mset f2 + mset (pd_rx_list e') = mset (pd_rx_list e1 @ pdcp_taken cr ops e1)"
    using Cons.IH [OF _ _ r(2)] by auto
  have "mset (f1 @ f2) + mset (pd_rx_list e') = mset (pd_rx_list e @ pdcp_taken cr (p # ops) e)"
    using f1(3) f2(3) r(1) by simp (metis add.assoc add.commute)
  with f1 f2 r(3) pdcp_hands_append show ?case by (intro exI [of _ "f1 @ f2"]) auto
qed

lemma sorted_unique:
  assumes "sorted_wrt (<) (map f xs)" and "mset xs = mset ys"
  shows "xs = sort_key f ys"
proof -
  have d: "distinct (map f xs)"
    using assms(1) strict_sorted_iff by blast
  have "filter (\<lambda>x. f k = f x) xs = filter (\<lambda>x. f k = f x) ys" if "k \<in> set xs" for k
  proof -
    have "filter (\<lambda>x. f k = f x) xs = [k]"
      using d that by (induction xs) (auto simp: filter_empty_conv image_iff)
    moreover have "mset (filter (\<lambda>x. f k = f x) ys) = mset (filter (\<lambda>x. f k = f x) xs)"
      using assms(2) by simp
    ultimately show ?thesis
      by (metis mset_single_iff_right)
  qed
  then show ?thesis
    using assms by (intro properties_for_sort_key [symmetric]) (auto simp: strict_sorted_iff)
qed


subsection \<open>Occupancy\<close>

definition pdcp_excess :: "nr_pdcp_entity_t \<Rightarrow> int" where
  "pdcp_excess e = pd_rx_size e - (\<Sum>s\<leftarrow>pd_rx_list e. psdu_size s)"

lemma deliver_from_excess: "pd_rx_list e = l \<Longrightarrow> pdcp_excess (fst (deliver_from e c l)) = pdcp_excess e"
  by (induction l arbitrary: e c) (simp_all add: split_def Let_def pdcp_excess_def pdcp_deliver_head_def)

lemma pdcp_accept_excess:
  assumes "\<not> (c < pd_rx_deliv e \<or> nr_pdcp_sdu_in_list (pd_rx_list e) c)"
  shows "pdcp_excess (fst (pdcp_accept e sz c bytes mi)) = pdcp_excess e + (sz - int (pdcp_header_size e) - int (length bytes))"
proof -
  define e1 where "e1 = e\<lparr>pd_rx_list := nr_pdcp_sdu_list_add (pd_rx_list e) (nr_pdcp_new_sdu c bytes mi),
    pd_rx_size := pd_rx_size e + (sz - int (pdcp_header_size e)), pd_rx_next := if c \<ge> pd_rx_next e then c + 1 else pd_rx_next e\<rparr>"
  have e1: "pdcp_excess e1 = pdcp_excess e + (sz - int (pdcp_header_size e) - int (length bytes))"
    by (simp add: pdcp_excess_def e1_def sdu_list.sum_ins nr_pdcp_new_sdu_def)
  have keep: "pdcp_excess (pdcp_timers x) = pdcp_excess x" "pdcp_excess (x\<lparr>pd_rx_deliv := k\<rparr>) = pdcp_excess x" for x k
    by (simp_all add: pdcp_excess_def)
  have "pdcp_accept e sz c bytes mi =
      (let (e2, ev) = (if c = pd_rx_deliv e
                       then let (e', cnt, ev) = deliver_from e1 (pd_rx_deliv e) (pd_rx_list e1)
                            in (e'\<lparr>pd_rx_deliv := cnt\<rparr>, ev)
                       else (e1, []))
       in (pdcp_timers e2, ev))"
    using assms by (simp add: pdcp_accept_def Let_def e1_def)
  then show ?thesis
    using deliver_from_excess [of e1 "pd_rx_list e1" "pd_rx_deliv e"] e1 keep by (simp add: split_def Let_def)
qed


subsection \<open>Examples\<close>

definition env_example :: crypto_env where
  "env_example = \<lparr>aes_ctr = (\<lambda>k iv m. map (\<lambda>b. b XOR 0x5a) m), aes_cmac = (\<lambda>k m. replicate 16 (of_nat (length m))),
     stack_snow = snow_blank, stack_pm = (\<lambda>i j. 0)\<rparr>"

lemma env_example_ok: "crypto_ok env_example"
  by (simp add: crypto_ok_def env_example_def snow_blank_def comp_def xor.assoc)

definition keys_example :: nr_pdcp_entity_security_keys_and_algos_t where
  "keys_example = \<lparr>integrity_algorithm = 2, ciphering_algorithm = 2, integrity_key = replicate 16 1,
     ciphering_key = replicate 16 2\<rparr>"

definition pdcp_example :: "bool \<Rightarrow> nr_pdcp_entity_t" where
  "pdcp_example gnb = projr (new_nr_pdcp_entity NR_PDCP_DRB_AM gnb 3 1 False False 12 35 (- 1) keys_example)"

lemma pdcp_example_peers: "pdcp_peers (pdcp_example True) (pdcp_example False)"
  by (simp add: pdcp_peers_def pdcp_example_def new_nr_pdcp_entity_def nr_pdcp_entity_set_security_def set_integrity_def
      set_ciphering_def keys_example_def pdcp_sn_ok_def context_key_def)

lemma pdcp_example_rx: "pdcp_rx_ok (pdcp_example gnb)" "\<not> pd_entity_suspended (pdcp_example gnb)"
    "pd_rx_deliv (pdcp_example gnb) = 0" "pd_tx_next (pdcp_example gnb) = 0"
    "\<not> pd_has_sdap_tx (pdcp_example gnb)" "pd_window_size (pdcp_example gnb) = 2048"
  by (simp_all add: pdcp_rx_ok_def pdcp_example_def new_nr_pdcp_entity_def nr_pdcp_entity_set_security_def
      set_integrity_def set_ciphering_def keys_example_def)

lemma pdcp_example_sends:
  "\<exists>a'. nr_pdcp_entity_process_sdu env_example (pdcp_example True) [7, 8] 100 =
     Inr (8, [0x80, 0, 7 XOR 0x5a, 8 XOR 0x5a, 12 XOR 0x5a, 12 XOR 0x5a, 12 XOR 0x5a, 12 XOR 0x5a], a')"
  by (simp add: nr_pdcp_entity_process_sdu_def pdcp_example_def new_nr_pdcp_entity_def nr_pdcp_entity_set_security_def
      set_integrity_def set_ciphering_def keys_example_def nr_max_pdcp_pdu_size_def Let_def pdcp_protect_def
      pdcp_encipher_def pdcp_integrity_call_def pdcp_cipher_call_def nr_pdcp_integrity_nia2_integrity_def
      nr_pdcp_security_nea2_cipher_def pdcp_header_def pdcp_header_size_def pdcp_integrity_size_def env_example_def
      htonl_bytes_def pdcp_tx_direction_def numeral_eq_Suc)

definition plain_example :: nr_pdcp_entity_t where
  "plain_example = projr (new_nr_pdcp_entity NR_PDCP_DRB_AM False 3 1 False False 12 35 (- 1)
     \<lparr>integrity_algorithm = 0, ciphering_algorithm = 0, integrity_key = [], ciphering_key = []\<rparr>)"


subsection \<open>Properties\<close>

text \<open>
  C8. Round trip between peers. What \<open>process_sdu\<close> of one entity writes for an SDU, protected with
  its keys, is accepted by its peer, whose window is at most half the sequence number space away
  from the sender's COUNT: the header is understood, the COUNT is the sender's, deciphering gives
  the bytes back and the integrity check passes, so that exactly the SDU with that COUNT reaches the
  reordering stage. The length returned is that of the PDU and the sender moves to the next COUNT.
\<close>

theorem pdcp_round_trip:
  assumes "crypto_ok cr" and "pdcp_peers a b" and "\<not> pd_entity_suspended a" and "\<not> pd_entity_suspended b"
    and "nr_pdcp_entity_process_sdu cr a sdu m = Inr (ret, pdu, a')"
    and "(if pd_has_sdap_tx a then 1 else 0) < length sdu"
    and "uint (pd_rx_deliv b) - pd_window_size b \<le> uint (pd_tx_next a)"
    and "uint (pd_tx_next a) < uint (pd_rx_deliv b) + pd_window_size b"
  shows "ret = int (length pdu) \<and> pd_tx_next a' = pd_tx_next a + 1 \<and>
    (\<exists>st mi. nr_pdcp_entity_recv_pdu cr b pdu = Inr (pdcp_accept (b\<lparr>pd_stats := st\<rparr>) ret (pd_tx_next a) sdu mi))"
proof -
  have "pdcp_sn_ok a" using assms(2) by (simp add: pdcp_peers_def)
  from pdcp_process_sdu_cases [OF assms(1) this assms(3,5)] obtain mac where
    mac: "length mac = pdcp_integrity_size a"
      "pd_has_integrity a \<longrightarrow> pdcp_integrity_call cr a (pdcp_header a (uint (pd_tx_next a) mod 2 ^ pd_sn_size a) @ sdu)
         (pd_tx_next a) (pdcp_tx_direction a) = Inr mac"
      "pdcp_encipher cr a ((pdcp_header a (uint (pd_tx_next a) mod 2 ^ pd_sn_size a) @ sdu) @ mac) (pd_tx_next a) = Inr pdu"
      "pd_tx_next a' = pd_tx_next a + 1" "ret = int (pdcp_header_size a) + int (length sdu) + int (pdcp_integrity_size a)"
    by blast
  have "ret = int (length pdu)" using pdcp_encipher_ok [OF assms(1,2) mac(3)] mac by (simp add: length_pdcp_header)
  with pdcp_recv_protected [OF assms(1,2,4) refl assms(7,8,6) refl mac(1,2,3)] mac(4) show ?thesis by simp
qed

theorem pdcp_round_trip_witness:
  "\<exists>pdu a' st mi. nr_pdcp_entity_process_sdu env_example (pdcp_example True) [7, 8] 100 = Inr (8, pdu, a') \<and>
     nr_pdcp_entity_recv_pdu env_example (pdcp_example False) pdu =
       Inr (pdcp_accept ((pdcp_example False)\<lparr>pd_stats := st\<rparr>) 8 0 [7, 8] mi)"
proof -
  from pdcp_example_sends obtain a' pdu where s: "nr_pdcp_entity_process_sdu env_example (pdcp_example True) [7, 8] 100 = Inr (8, pdu, a')"
    by blast
  from pdcp_round_trip [OF env_example_ok pdcp_example_peers pdcp_example_rx(2) pdcp_example_rx(2) s] s
  show ?thesis by (simp add: pdcp_example_rx)
qed

text \<open>
  C7. In-sequence delivery end to end. When the receiver waits for the COUNT the sender uses next,
  the SDU given to the sender's \<open>process_sdu\<close> is the first SDU the receiver's \<open>recv_pdu\<close> hands over.
\<close>

theorem pdcp_in_sequence:
  assumes "crypto_ok cr" and "pdcp_peers a b" and "\<not> pd_entity_suspended a" and "\<not> pd_entity_suspended b"
    and "nr_pdcp_entity_process_sdu cr a sdu m = Inr (ret, pdu, a')"
    and "(if pd_has_sdap_tx a then 1 else 0) < length sdu"
    and "pdcp_rx_ok b" and "pd_rx_deliv b = pd_tx_next a" and "pd_tx_next a \<noteq> - 1"
  shows "\<exists>b' mi evs. nr_pdcp_entity_recv_pdu cr b pdu = Inr (b', Deliver_pdcp_sdu sdu mi # evs) \<and> pdcp_rx_ok b'"
  using pdcp_delivers_next [OF assms] by blast

theorem pdcp_in_sequence_witness:
  "\<exists>a' pdu b' mi evs. nr_pdcp_entity_process_sdu env_example (pdcp_example True) [7, 8] 100 = Inr (8, pdu, a') \<and>
     nr_pdcp_entity_recv_pdu env_example (pdcp_example False) pdu = Inr (b', Deliver_pdcp_sdu [7, 8] mi # evs)"
proof -
  from pdcp_example_sends obtain a' pdu where s: "nr_pdcp_entity_process_sdu env_example (pdcp_example True) [7, 8] 100 = Inr (8, pdu, a')"
    by blast
  from pdcp_in_sequence [OF env_example_ok pdcp_example_peers pdcp_example_rx(2) pdcp_example_rx(2) s] s
  show ?thesis by (auto simp: pdcp_example_rx)
qed

text \<open>
  C9. Order and completeness of delivery. Whatever bytes arrive and however the clock moves, a run hands over exactly the SDUs below
  where the entity ends, in the order of their COUNTs, out of those it had stored and those it took in; no COUNT comes twice, and the
  SDUs that are left are stored. The COUNT and the bytes of an SDU are those of the PDU that carried it. Runs in
  which a PDU stands for the COUNT \<open>2 ^ 32 - 1\<close> are excluded.
\<close>

theorem pdcp_run_in_order:
  assumes "pdcp_rx_ok e" and "pdcp_no_wrap cr ops e" and "pdcp_run cr ops e = Inr (e', ev)"
    and "all = pd_rx_list e @ pdcp_taken cr ops e"
  shows "ev = map pdcp_event_of (sort_key psdu_count (filter (\<lambda>s. psdu_count s < pd_rx_deliv e') all)) \<and>
    distinct (map psdu_count all) \<and> pdcp_rx_ok e' \<and>
    pd_rx_list e' = sort_key psdu_count (filter (\<lambda>s. \<not> psdu_count s < pd_rx_deliv e') all)"
proof -
  obtain ds where ds: "ev = map pdcp_event_of ds" "pdcp_hands e ds e'" "mset (ds @ pd_rx_list e') = mset all"
    using pdcp_run_takes [OF assms(1-3)] by (auto simp: assms(4))
  have b: "\<forall>s \<in> set ds. psdu_count s < pd_rx_deliv e'" "\<forall>s \<in> set (pd_rx_list e'). pd_rx_deliv e' < psdu_count s"
    and o: "sorted_wrt (<) (map psdu_count ds)" "sorted_wrt (<) (map psdu_count (pd_rx_list e'))" "pdcp_rx_ok e'"
    using ds(2) by (auto simp: pdcp_hands_def pdcp_rx_ok_def sorted_wrt_map)
  have f: "filter (\<lambda>s. psdu_count s < pd_rx_deliv e') (ds @ pd_rx_list e') = ds"
      "filter (\<lambda>s. \<not> psdu_count s < pd_rx_deliv e') (ds @ pd_rx_list e') = pd_rx_list e'"
    using b by (auto simp: filter_empty_conv filter_id_conv)
  have "ds = sort_key psdu_count (filter (\<lambda>s. psdu_count s < pd_rx_deliv e') all)"
    by (rule sorted_unique [OF o(1)]) (metis ds(3) f(1) mset_filter)
  moreover have "pd_rx_list e' = sort_key psdu_count (filter (\<lambda>s. \<not> psdu_count s < pd_rx_deliv e') all)"
    by (rule sorted_unique [OF o(2)]) (metis ds(3) f(2) mset_filter)
  moreover have "distinct (map psdu_count (ds @ pd_rx_list e'))"
    using o b by (auto simp: strict_sorted_iff) (metis less_asym image_iff)
  then have "distinct (map psdu_count all)"
    by (metis ds(3) mset_map distinct_count_atmost_1 mset_eq_imp_distinct_iff)
  ultimately show ?thesis
    using ds(1) o(3) by simp
qed

text \<open>The witness: the SDU with COUNT 1 arrives first, then that with COUNT 0, then the first one again.\<close>

theorem pdcp_run_in_order_witness:
  "\<exists>e' m0 m1. pdcp_run env_example [Pdcp_recv [0x80, 1, 9], Pdcp_recv [0x80, 0, 8], Pdcp_recv [0x80, 1, 9]] plain_example =
       Inr (e', [Deliver_pdcp_sdu [8] m0, Deliver_pdcp_sdu [9] m1]) \<and> pd_rx_deliv e' = 2 \<and>
     [Deliver_pdcp_sdu [8] m0, Deliver_pdcp_sdu [9] m1] =
       map pdcp_event_of (sort_key psdu_count (filter (\<lambda>s. psdu_count s < pd_rx_deliv e')
         (pdcp_taken env_example [Pdcp_recv [0x80, 1, 9], Pdcp_recv [0x80, 0, 8], Pdcp_recv [0x80, 1, 9]] plain_example)))"
proof -
  let ?ops = "[Pdcp_recv [0x80, 1, 9], Pdcp_recv [0x80, 0, 8], Pdcp_recv [0x80, 1, 9]]"
  have "case pdcp_run env_example ?ops plain_example of
      Inl _ \<Rightarrow> False
    | Inr (e', [Deliver_pdcp_sdu a m0, Deliver_pdcp_sdu b m1]) \<Rightarrow> a = [8] \<and> b = [9] \<and> pd_rx_deliv e' = 2
    | _ \<Rightarrow> False"
    by code_simp
  then obtain e' m0 m1 where r: "pdcp_run env_example ?ops plain_example = Inr (e', [Deliver_pdcp_sdu [8] m0, Deliver_pdcp_sdu [9] m1])"
      "pd_rx_deliv e' = 2"
    by (auto split: sum.splits prod.splits list.splits pdcp_event.splits simp del: pdcp_run.simps)
  have e: "pdcp_rx_ok plain_example" "pd_rx_list plain_example = []"
    by (simp_all add: pdcp_rx_ok_def plain_example_def new_nr_pdcp_entity_def nr_pdcp_entity_set_security_def
        set_integrity_def set_ciphering_def)
  have "pdcp_no_wrap env_example ?ops plain_example"
    by code_simp
  note order = pdcp_run_in_order [OF e(1) this r(1) refl, unfolded e(2) append_Nil, THEN conjunct1]
  show ?thesis
    by (intro exI conjI) (rule r(1), rule r(2), rule order)
qed

text \<open>
  C35. Expiry of t-Reordering. When the timer has run out, setting the time hands over a front of the
  stored SDUs in order and moves \<open>rx_deliv\<close> at least to \<open>rx_reord\<close>: a lost PDU never blocks the
  SDUs behind it for longer than the timer.
\<close>

theorem pdcp_reordering_expiry:
  assumes "pdcp_rx_ok e" and "pd_t_reordering e \<noteq> - 1" and "pd_t_reordering_start e \<noteq> 0"
    and "pd_t_reordering_start e + word_of_int (pd_t_reordering e) < now"
  shows "\<exists>e' front. nr_pdcp_entity_set_time e now = (e', map pdcp_event_of front) \<and> pdcp_rx_ok e' \<and>
    pd_rx_list e = front @ pd_rx_list e' \<and> pd_rx_reord e \<le> pd_rx_deliv e' \<and> pd_rx_deliv e < pd_rx_deliv e'"
proof -
  obtain e' ev where r: "nr_pdcp_entity_set_time e now = (e', ev)" by fastforce
  from pdcp_set_time_hands [OF assms(1) r] assms show ?thesis using r by (auto simp: pdcp_hands_def pdcp_rx_ok_def)
qed

theorem pdcp_reordering_expiry_witness:
  "\<exists>e' front. nr_pdcp_entity_set_time ((pdcp_example False)\<lparr>pd_rx_next := 2, pd_rx_reord := 2, pd_t_reordering_start := 5\<rparr>) 50 =
     (e', map pdcp_event_of front) \<and> 2 \<le> pd_rx_deliv e'"
  using pdcp_reordering_expiry [of "(pdcp_example False)\<lparr>pd_rx_next := 2, pd_rx_reord := 2, pd_t_reordering_start := 5\<rparr>" 50]
  by (auto simp: pdcp_rx_ok_def pdcp_example_def new_nr_pdcp_entity_def nr_pdcp_entity_set_security_def
      set_integrity_def set_ciphering_def keys_example_def)

text \<open>
  C39. The occupancy counter drifts. Storing the SDU of a PDU of \<open>header + SDU + MAC\<close> bytes adds the
  SDU and the MAC to \<open>rx_size\<close>, and delivering takes only the SDU off: each accepted PDU of a
  protected bearer leaves \<open>rx_size\<close> four bytes above the bytes stored.
\<close>

theorem pdcp_rx_size_drift:
  assumes "\<not> (c < pd_rx_deliv e \<or> nr_pdcp_sdu_in_list (pd_rx_list e) c)"
    and "sz = int (pdcp_header_size e + length bytes + pdcp_integrity_size e)"
  shows "pdcp_excess (fst (pdcp_accept e sz c bytes mi)) = pdcp_excess e + int (pdcp_integrity_size e)"
  using pdcp_accept_excess [OF assms(1), of sz bytes mi] assms(2) by simp

theorem pdcp_rx_size_drift_witness:
  "pdcp_excess (fst (pdcp_accept (pdcp_example False) 8 0 [7, 8] (pdcp_msg_integrity (pdcp_example False) [1] 0))) =
   pdcp_excess (pdcp_example False) + 4"
  using pdcp_rx_size_drift [of 0 "pdcp_example False" 8 "[7, 8]" "pdcp_msg_integrity (pdcp_example False) [1] 0"]
  by (simp add: pdcp_example_def new_nr_pdcp_entity_def nr_pdcp_entity_set_security_def
      set_integrity_def set_ciphering_def keys_example_def pdcp_header_size_def pdcp_integrity_size_def)

text \<open>
  A PDU of one byte is read outside its buffer. The sequence number is read before the size is
  checked against the header.
\<close>

theorem pdcp_one_byte_pdu:
  assumes "\<not> pd_entity_suspended e"
  shows "nr_pdcp_entity_recv_pdu cr e [x] = Inl Out_of_bounds"
  using assms by (simp add: nr_pdcp_entity_recv_pdu_def pdcp_recv_data_def Let_def pdcp_read_sn_def byte_at_def)

theorem pdcp_one_byte_pdu_witness:
  "nr_pdcp_entity_recv_pdu env_example (pdcp_example False) [0x80] = Inl Out_of_bounds"
  by (rule pdcp_one_byte_pdu) (rule pdcp_example_rx(2))

text \<open>
  C40. The hyper frame number underflows. An entity that has received nothing takes a PDU whose
  sequence number is in the upper half of its range for a COUNT of the last hyper frame below
  \<open>2 ^ 32\<close>, far above everything that can follow.
\<close>

theorem pdcp_hfn_underflow:
  assumes "pdcp_sn_ok e" and "pd_rx_deliv e = 0" and "pd_window_size e \<le> sn" and "sn < 2 ^ pd_sn_size e"
  shows "uint (pdcp_rcvd_count e sn) = 2 ^ 32 - 2 ^ pd_sn_size e + sn"
proof -
  let ?n = "pd_sn_size e"
  have n: "?n = 12 \<or> ?n = 18" and w: "0 < pd_window_size e" using assms(1) by (auto simp: pdcp_sn_ok_def)
  have sn: "0 \<le> sn" using assms(3) w by linarith
  have "pdcp_rcvd_count e sn = push_bit ?n (- 1) OR word_of_int sn"
    using assms w by (simp add: pdcp_rcvd_count_def Let_def)
  also have "\<dots> = push_bit ?n (- 1) + word_of_int sn"
    by (rule disjunctive_add_eq_or [symmetric], rule bit_word_eqI)
      (auto simp: bit_and_iff bit_push_bit_iff bit_word_of_int_iff bit_not_iff bit_mask_iff dest: bit_small [OF sn assms(4)])
  finally have "pdcp_rcvd_count e sn = word_of_int (2 ^ 32 - 2 ^ ?n + sn)"
    using n by (auto simp: push_bit_eq_mult)
  moreover have "0 \<le> 2 ^ 32 - 2 ^ ?n + sn" "2 ^ 32 - 2 ^ ?n + sn < 2 ^ 32" using n sn assms(4) by auto
  then have "uint (word_of_int (2 ^ 32 - 2 ^ ?n + sn) :: u32) = 2 ^ 32 - 2 ^ ?n + sn"
    unfolding uint_word_of_int_eq by (intro take_bit_int_eq_self) simp_all
  ultimately show ?thesis by metis
qed

theorem pdcp_hfn_underflow_witness: "uint (pdcp_rcvd_count (pdcp_example False) 3000) = 4294966200"
  using pdcp_hfn_underflow [of "pdcp_example False" 3000] pdcp_example_peers
  by (simp add: pdcp_peers_def pdcp_example_rx) (simp add: pdcp_example_def new_nr_pdcp_entity_def
      nr_pdcp_entity_set_security_def set_integrity_def set_ciphering_def keys_example_def)

end
