(* ===== verification/Registry.thy ===== *)
theory Registry
  imports L2_Prelude
begin

text \<open>
  A linked list of objects found by a key. Several managers of the layer keep their objects that way;
  this theory says what such a list promises and derives that it behaves like a finite map. A manager
  provides its search and its replacement in place, which satisfy the equations of the locale.
\<close>

locale keyed_list =
  fixes key :: "'e \<Rightarrow> 'k"
    and get :: "'e list \<Rightarrow> 'k \<Rightarrow> 'e option"
    and store :: "'e list \<Rightarrow> 'k \<Rightarrow> 'e \<Rightarrow> 'e list"
  assumes get_Nil: "get [] k = None"
    and get_Cons: "get (e # l) k = (if key e = k then Some e else get l k)"
    and store_Nil: "store [] k x = []"
    and store_Cons: "store (e # l) k x = (if key e = k then x # l else e # store l k x)"
begin

lemma get_SomeD: "get l k = Some e \<Longrightarrow> e \<in> set l \<and> key e = k"
  by (induction l) (auto simp: get_Nil get_Cons split: if_splits)

lemma get_None_iff: "get l k = None \<longleftrightarrow> k \<notin> key ` set l"
  by (induction l) (auto simp: get_Nil get_Cons)

lemma get_distinct:
  assumes "distinct (map key l)"
  shows "get l k = Some e \<longleftrightarrow> e \<in> set l \<and> key e = k"
  using assms by (induction l) (auto simp: get_Nil get_Cons)

text \<open>Replacing an object by one of the same key updates the map at that key.\<close>

lemma keys_store: "key x = k \<Longrightarrow> map key (store l k x) = map key l"
  by (induction l) (auto simp: store_Nil store_Cons)

lemma get_store:
  "key x = k \<Longrightarrow> get (store l k x) j = (if j = k \<and> get l k \<noteq> None then Some x else get l j)"
  by (induction l) (auto simp: get_Nil get_Cons store_Nil store_Cons)

lemma store_same: "get l k = Some x \<Longrightarrow> store l k x = l"
  by (induction l) (auto simp: get_Nil get_Cons store_Nil store_Cons split: if_splits)

lemma set_store: "set (store l k x) \<subseteq> insert x (set l)"
  by (induction l) (auto simp: store_Nil store_Cons)

lemma length_store: "length (store l k x) = length l"
  by (induction l) (auto simp: store_Nil store_Cons)

text \<open>Dropping the objects whose keys satisfy a condition restricts the map.\<close>

lemma get_filter: "get (filter (\<lambda>e. P (key e)) l) k = (if P k then get l k else None)"
  by (induction l) (auto simp: get_Nil get_Cons)

lemma distinct_filter_key: "distinct (map key l) \<Longrightarrow> distinct (map key (filter Q l))"
  by (induction l) auto

end

end
