(* ===== verification/Sdap_Entity.thy ===== *)
theory Sdap_Entity
  imports L2_Prelude
begin

text \<open>
  The SDAP layer (\<open>openair2/SDAP/nr_sdap/nr_sdap_entity.c\<close> and \<open>nr_sdap.c\<close>): the QoS-flow-to-DRB table of
  an entity, the data path in both directions, and the global list of entities.

  \<^item> The linked list \<open>sdap_info.sdap_entity_llist\<close> is a list of entities; an operation on one entity
    of the list replaces it in place.
  \<^item> The table of 64 rules is a list, and an index outside it is an error, since a QFI is an
    eight-bit number in most calls.
  \<^item> Calls to the neighbouring layers are events: \<open>nr_pdcp_data_req_drb\<close>, the tunnel message to GTP-U and
    the write to the network socket. What PDCP answers is the argument \<open>pdcp_ok\<close>.
\<close>

abbreviation SDAP_MAX_QFI :: nat where "SDAP_MAX_QFI \<equiv> 64"
abbreviation AVLBL_DRB :: int where "AVLBL_DRB \<equiv> 5"
abbreviation NGAP_MAX_PDU_SESSION :: int where "NGAP_MAX_PDU_SESSION \<equiv> 256"
abbreviation SDAP_MAX_NUM_OF_ENTITIES :: nat where "SDAP_MAX_NUM_OF_ENTITIES \<equiv> 32 * 40"
abbreviation SDAP_MAX_UE_ID :: u64 where "SDAP_MAX_UE_ID \<equiv> 65536"
abbreviation MAX_DRBS_PER_UE :: nat where "MAX_DRBS_PER_UE \<equiv> 32"

record qfi2drb_t =
  q_drb_id :: int
  q_has_sdap_rx :: bool
  q_has_sdap_tx :: bool

record nr_sdap_entity_t =
  sd_ue_id :: u64
  sd_default_drb :: int
  sd_pdusession_id :: int
  sd_table :: "qfi2drb_t list"

datatype sdap_event =
    Pdcp_data_req u64 int "byte list"
  | Gtp_tunnel_data_req u64 int "byte list"
  | Nas_write "byte list"

datatype sdap_map_type = SDAP_CTRL_PDU_MAP_DEF_DRB | SDAP_CTRL_PDU_MAP_RULE_DRB

record nr_sdap_dl_hdr_t =
  dl_QFI :: nat
  dl_RQI :: bool
  dl_RDI :: bool

record nr_sdap_ul_hdr_t =
  ul_QFI :: nat
  ul_R :: bool
  ul_DC :: bool

text \<open>The bytes of the packed header structs: six bits, then two flags, from the low end.\<close>

definition dl_hdr_byte :: "nr_sdap_dl_hdr_t \<Rightarrow> byte" where
  "dl_hdr_byte h = of_nat (dl_QFI h mod 64 + (if dl_RQI h then 64 else 0) + (if dl_RDI h then 128 else 0))"

definition ul_hdr_byte :: "nr_sdap_ul_hdr_t \<Rightarrow> byte" where
  "ul_hdr_byte h = of_nat (ul_QFI h mod 64 + (if ul_R h then 64 else 0) + (if ul_DC h then 128 else 0))"

definition dl_hdr_of :: "byte \<Rightarrow> nr_sdap_dl_hdr_t" where
  "dl_hdr_of b = \<lparr>dl_QFI = unat b mod 64, dl_RQI = bit b 6, dl_RDI = bit b 7\<rparr>"

definition ul_hdr_of :: "byte \<Rightarrow> nr_sdap_ul_hdr_t" where
  "ul_hdr_of b = \<lparr>ul_QFI = unat b mod 64, ul_R = bit b 6, ul_DC = bit b 7\<rparr>"


subsection \<open>The configuration\<close>

text \<open>
  The parts of the generated ASN.1 type that the code reads; a list of flows is an array of pointers
  to single QFIs.
\<close>

record nr_sdap_config_t =
  cfg_HeaderUL_present :: bool
  cfg_HeaderDL_present :: bool
  cfg_FlowsToAdd :: "int list option"
  cfg_FlowsToRelease :: "int list option"

definition is_sdap_rx :: "bool \<Rightarrow> nr_sdap_config_t \<Rightarrow> bool" where
  "is_sdap_rx is_gnb cfg = (if is_gnb then cfg_HeaderUL_present cfg else cfg_HeaderDL_present cfg)"

definition is_sdap_tx :: "bool \<Rightarrow> nr_sdap_config_t \<Rightarrow> bool" where
  "is_sdap_tx is_gnb cfg = (if is_gnb then cfg_HeaderDL_present cfg else cfg_HeaderUL_present cfg)"


subsection \<open>The mapping rules\<close>

definition table_at :: "nr_sdap_entity_t \<Rightarrow> nat \<Rightarrow> qfi2drb_t result" where
  "table_at e qfi = (if qfi < length (sd_table e) then Inr (sd_table e ! qfi) else Inl Out_of_bounds)"

definition table_put :: "nr_sdap_entity_t \<Rightarrow> nat \<Rightarrow> qfi2drb_t \<Rightarrow> nr_sdap_entity_t" where
  "table_put e qfi r = e\<lparr>sd_table := (sd_table e)[qfi := r]\<rparr>"

definition nr_sdap_qfi2drb_map_update ::
  "nr_sdap_entity_t \<Rightarrow> nat \<Rightarrow> int \<Rightarrow> bool \<Rightarrow> bool \<Rightarrow> nr_sdap_entity_t result" where
  "nr_sdap_qfi2drb_map_update e qfi drb has_sdap_rx has_sdap_tx =
     (if qfi < SDAP_MAX_QFI \<and> 0 < qfi \<and> 0 < drb \<and> drb \<le> AVLBL_DRB
      then bind_r (table_at e qfi) (\<lambda>_. Inr (table_put e qfi
             \<lparr>q_drb_id = drb, q_has_sdap_rx = has_sdap_rx, q_has_sdap_tx = has_sdap_tx\<rparr>))
      else Inr e)"

definition nr_sdap_qfi2drb_map_del :: "nr_sdap_entity_t \<Rightarrow> nat \<Rightarrow> nr_sdap_entity_t result" where
  "nr_sdap_qfi2drb_map_del e qfi = bind_r (table_at e qfi) (\<lambda>r. Inr (table_put e qfi (r\<lparr>q_drb_id := 0\<rparr>)))"

definition nr_sdap_qfi2drb_map :: "nr_sdap_entity_t \<Rightarrow> nat \<Rightarrow> (int \<times> nr_sdap_entity_t) result" where
  "nr_sdap_qfi2drb_map e qfi =
     bind_r (table_at e qfi) (\<lambda>r.
       if q_drb_id r \<noteq> 0 then Inr (q_drb_id r, e)
       else if sd_default_drb e \<noteq> 0
       then bind_r (nr_sdap_qfi2drb_map_update e qfi (sd_default_drb e) (q_has_sdap_rx r) (q_has_sdap_tx r)) (\<lambda>e'.
              Inr (sd_default_drb e, e'))
       else Inr (0, e))"

definition nr_sdap_construct_ctrl_pdu :: "nat \<Rightarrow> nr_sdap_ul_hdr_t" where
  "nr_sdap_construct_ctrl_pdu qfi = \<lparr>ul_QFI = qfi mod 64, ul_R = False, ul_DC = False\<rparr>"

definition nr_sdap_map_ctrl_pdu :: "nr_sdap_entity_t \<Rightarrow> sdap_map_type \<Rightarrow> nat \<Rightarrow> (int \<times> nr_sdap_entity_t) result" where
  "nr_sdap_map_ctrl_pdu e map_type dl_qfi =
     (case map_type of
        SDAP_CTRL_PDU_MAP_DEF_DRB \<Rightarrow> Inr (sd_default_drb e, e)
      | SDAP_CTRL_PDU_MAP_RULE_DRB \<Rightarrow> nr_sdap_qfi2drb_map e dl_qfi)"

definition nr_sdap_submit_ctrl_pdu :: "u64 \<Rightarrow> int \<Rightarrow> nr_sdap_ul_hdr_t \<Rightarrow> sdap_event list" where
  "nr_sdap_submit_ctrl_pdu ue drb h = (if drb \<noteq> 0 then [Pdcp_data_req ue drb [ul_hdr_byte h]] else [])"

text \<open>The end marker of a QoS flow, built, mapped and submitted.\<close>

definition sdap_end_marker ::
  "nr_sdap_entity_t \<Rightarrow> u64 \<Rightarrow> sdap_map_type \<Rightarrow> nat \<Rightarrow> (nr_sdap_entity_t \<times> sdap_event list) result" where
  "sdap_end_marker e ue map_type qfi =
     bind_r (nr_sdap_map_ctrl_pdu e map_type qfi) (\<lambda>(drb, e').
       Inr (e', nr_sdap_submit_ctrl_pdu ue drb (nr_sdap_construct_ctrl_pdu qfi)))"


subsection \<open>The data path\<close>

definition nr_sdap_tx_entity ::
  "(int \<Rightarrow> byte list \<Rightarrow> bool) \<Rightarrow> nr_sdap_entity_t \<Rightarrow> bool \<Rightarrow> u64 \<Rightarrow> int \<Rightarrow> byte list \<Rightarrow> nat \<Rightarrow> bool \<Rightarrow>
   (bool \<times> nr_sdap_entity_t \<times> sdap_event list) result" where
  "nr_sdap_tx_entity pdcp_ok e enb_flag ue rb_id sdu qfi rqi =
     bind_r (nr_sdap_qfi2drb_map e qfi) (\<lambda>(pdcp_entity, e).
     bind_r (if pdcp_entity \<noteq> 0 then bind_r (table_at e qfi) (\<lambda>r. Inr (pdcp_entity, q_has_sdap_tx r))
             else Inr (rb_id, False)) (\<lambda>(drb, has_sdap).
       if \<not> has_sdap then Inr (pdcp_ok drb sdu, e, [Pdcp_data_req ue drb sdu])
       else if length sdu = 0 \<or> length sdu > 8999 then Inr (False, e, [])
       else
         let hdr = (if enb_flag then dl_hdr_byte \<lparr>dl_QFI = qfi mod 64, dl_RQI = rqi, dl_RDI = False\<rparr>
                    else ul_hdr_byte \<lparr>ul_QFI = qfi mod 64, ul_R = False, ul_DC = rqi\<rparr>)
         in Inr (pdcp_ok drb (hdr # sdu), e, [Pdcp_data_req ue drb (hdr # sdu)])))"

text \<open>Reflective mapping, on the downlink header of a UE.\<close>

definition sdap_reflective ::
  "nr_sdap_entity_t \<Rightarrow> int \<Rightarrow> u64 \<Rightarrow> nat \<Rightarrow> (nr_sdap_entity_t \<times> sdap_event list) result" where
  "sdap_reflective e pdcp_entity ue qfi =
     bind_r (table_at e qfi) (\<lambda>r.
     bind_r (if q_drb_id r = 0 \<and> sd_default_drb e \<noteq> 0 then sdap_end_marker e ue SDAP_CTRL_PDU_MAP_DEF_DRB qfi
             else Inr (e, [])) (\<lambda>(e, ev1).
     bind_r (if pdcp_entity \<noteq> q_drb_id r then sdap_end_marker e ue SDAP_CTRL_PDU_MAP_RULE_DRB qfi
             else Inr (e, [])) (\<lambda>(e, ev2).
     bind_r (table_at e qfi) (\<lambda>r. Inr (table_put e qfi (r\<lparr>q_drb_id := pdcp_entity\<rparr>), ev1 @ ev2)))))"

definition nr_sdap_rx_entity ::
  "nr_sdap_entity_t \<Rightarrow> int \<Rightarrow> bool \<Rightarrow> bool \<Rightarrow> int \<Rightarrow> u64 \<Rightarrow> byte list \<Rightarrow> (nr_sdap_entity_t \<times> sdap_event list) result" where
  "nr_sdap_rx_entity e pdcp_entity is_gnb has_sdap_rx pdusession_id ue buf =
     (if has_sdap_rx \<and> buf = [] then Inl Out_of_bounds
      else
        let offset = (if has_sdap_rx then 1 else 0)
        in if is_gnb then Inr (e, [Gtp_tunnel_data_req ue pdusession_id (drop offset buf)])
           else
             let hdr = dl_hdr_of (buf ! 0)
             in bind_r (if has_sdap_rx \<and> dl_RDI hdr then sdap_reflective e pdcp_entity ue (dl_QFI hdr) else Inr (e, []))
                  (\<lambda>(e, ev). Inr (e, ev @ [Nas_write (drop offset buf)])))"


subsection \<open>Configuration of flows\<close>

definition sdap_config_flow ::
  "nr_sdap_entity_t \<Rightarrow> u64 \<Rightarrow> int \<Rightarrow> int \<Rightarrow> bool \<Rightarrow> bool \<Rightarrow> (nr_sdap_entity_t \<times> sdap_event list) result" where
  "sdap_config_flow e ue q drb has_sdap_rx has_sdap_tx =
     (let qfi = nat (q mod 256) in
      bind_r (table_at e qfi) (\<lambda>r.
      bind_r (if sd_default_drb e \<noteq> 0 \<and> q_drb_id r = 0 then sdap_end_marker e ue SDAP_CTRL_PDU_MAP_DEF_DRB qfi
              else Inr (e, [])) (\<lambda>(e, ev1).
      bind_r (if q_drb_id r \<noteq> drb \<and> q_has_sdap_tx r then sdap_end_marker e ue SDAP_CTRL_PDU_MAP_RULE_DRB qfi
              else Inr (e, [])) (\<lambda>(e, ev2).
      bind_r (nr_sdap_qfi2drb_map_update e qfi drb has_sdap_rx has_sdap_tx) (\<lambda>e. Inr (e, ev1 @ ev2))))))"

fun nr_sdap_ue_qfi2drb_config ::
  "nr_sdap_entity_t \<Rightarrow> u64 \<Rightarrow> int list \<Rightarrow> int \<Rightarrow> bool \<Rightarrow> bool \<Rightarrow> (nr_sdap_entity_t \<times> sdap_event list) result" where
  "nr_sdap_ue_qfi2drb_config e ue [] drb has_sdap_rx has_sdap_tx = Inr (e, [])"
| "nr_sdap_ue_qfi2drb_config e ue (q # qs) drb has_sdap_rx has_sdap_tx =
     bind_r (sdap_config_flow e ue q drb has_sdap_rx has_sdap_tx) (\<lambda>(e, ev1).
     bind_r (nr_sdap_ue_qfi2drb_config e ue qs drb has_sdap_rx has_sdap_tx) (\<lambda>(e, ev2). Inr (e, ev1 @ ev2)))"


subsection \<open>The list of entities\<close>

definition sdap_is :: "u64 \<Rightarrow> int \<Rightarrow> nr_sdap_entity_t \<Rightarrow> bool" where
  "sdap_is ue pdu e \<longleftrightarrow> sd_ue_id e = ue \<and> sd_pdusession_id e = pdu"

fun sdap_last_or_match :: "u64 \<Rightarrow> int \<Rightarrow> nr_sdap_entity_t \<Rightarrow> nr_sdap_entity_t list \<Rightarrow> nr_sdap_entity_t" where
  "sdap_last_or_match ue pdu e [] = e"
| "sdap_last_or_match ue pdu e (e' # l) = (if \<not> sdap_is ue pdu e then sdap_last_or_match ue pdu e' l else e)"

definition nr_sdap_get_entity :: "nr_sdap_entity_t list \<Rightarrow> u64 \<Rightarrow> int \<Rightarrow> nr_sdap_entity_t option" where
  "nr_sdap_get_entity llist ue pdu =
     (case llist of [] \<Rightarrow> None
      | e # l \<Rightarrow> let r = sdap_last_or_match ue pdu e l in if sdap_is ue pdu r then Some r else None)"

text \<open>The entity found by \<open>nr_sdap_get_entity\<close>, changed in place.\<close>

fun sdap_store :: "nr_sdap_entity_t list \<Rightarrow> u64 \<Rightarrow> int \<Rightarrow> nr_sdap_entity_t \<Rightarrow> nr_sdap_entity_t list" where
  "sdap_store [] ue pdu x = []"
| "sdap_store (e # l) ue pdu x = (if sdap_is ue pdu e then x # l else e # sdap_store l ue pdu x)"

fun sdap_default_rules :: "nr_sdap_entity_t \<Rightarrow> int list \<Rightarrow> bool \<Rightarrow> bool \<Rightarrow> nr_sdap_entity_t result" where
  "sdap_default_rules e [] has_sdap_rx has_sdap_tx = Inr e"
| "sdap_default_rules e (q # qs) has_sdap_rx has_sdap_tx =
     bind_r (nr_sdap_qfi2drb_map_update e (nat (q mod 256)) (sd_default_drb e) has_sdap_rx has_sdap_tx) (\<lambda>e.
     sdap_default_rules e qs has_sdap_rx has_sdap_tx)"

definition qfi2drb_zero :: qfi2drb_t where
  "qfi2drb_zero = \<lparr>q_drb_id = 0, q_has_sdap_rx = False, q_has_sdap_tx = False\<rparr>"

definition new_nr_sdap_entity ::
  "nr_sdap_entity_t list \<Rightarrow> bool \<Rightarrow> bool \<Rightarrow> bool \<Rightarrow> u64 \<Rightarrow> int \<Rightarrow> bool \<Rightarrow> int \<Rightarrow> int list \<Rightarrow>
   (nr_sdap_entity_t list \<times> sdap_event list) result" where
  "new_nr_sdap_entity llist is_gnb has_sdap_rx has_sdap_tx ue pdu is_defaultDRB drb qfis =
     (case nr_sdap_get_entity llist ue pdu of
        Some e \<Rightarrow>
          if is_gnb then Inr (llist, [])
          else bind_r (nr_sdap_ue_qfi2drb_config e ue qfis drb has_sdap_rx has_sdap_tx) (\<lambda>(e', ev).
                 Inr (sdap_store llist ue pdu e', ev))
      | None \<Rightarrow>
          let e = \<lparr>sd_ue_id = ue, sd_default_drb = 0, sd_pdusession_id = pdu, sd_table = replicate SDAP_MAX_QFI qfi2drb_zero\<rparr>
          in bind_r (if is_defaultDRB then sdap_default_rules (e\<lparr>sd_default_drb := drb\<rparr>) qfis has_sdap_rx has_sdap_tx
                     else Inr e) (\<lambda>e. Inr (e # llist, [])))"

definition nr_sdap_release_drb :: "nr_sdap_entity_t list \<Rightarrow> u64 \<Rightarrow> int \<Rightarrow> int \<Rightarrow> nr_sdap_entity_t list" where
  "nr_sdap_release_drb llist ue drb_id pdu =
     (case nr_sdap_get_entity llist ue pdu of None \<Rightarrow> llist
      | Some e \<Rightarrow> sdap_store llist ue pdu
          (e\<lparr>sd_table := map (\<lambda>r. if q_drb_id r = drb_id then r\<lparr>q_drb_id := 0\<rparr> else r) (sd_table e)\<rparr>))"

text \<open>
  The search of \<open>nr_sdap_delete_entity\<close> behind the head: at most \<open>bound\<close> steps, and the entity it
  stops at is unlinked when it is the one.
\<close>

fun sdap_unlink :: "nat \<Rightarrow> u64 \<Rightarrow> int \<Rightarrow> nr_sdap_entity_t \<Rightarrow> nr_sdap_entity_t list \<Rightarrow> bool \<times> nr_sdap_entity_t list" where
  "sdap_unlink 0 ue pdu e l = (if sdap_is ue pdu e then (True, l) else (False, e # l))"
| "sdap_unlink (Suc bound) ue pdu e [] = (if sdap_is ue pdu e then (True, []) else (False, [e]))"
| "sdap_unlink (Suc bound) ue pdu e (e' # l) =
     (if sdap_is ue pdu e then (True, e' # l)
      else let (ret, l') = sdap_unlink bound ue pdu e' l in (ret, e # l'))"

definition nr_sdap_delete_entity :: "nr_sdap_entity_t list \<Rightarrow> u64 \<Rightarrow> int \<Rightarrow> (bool \<times> nr_sdap_entity_t list) result" where
  "nr_sdap_delete_entity llist ue pdu =
     (if llist = [] \<and> pdu * (pdu - NGAP_MAX_PDU_SESSION) > 0 then Inr (False, llist)
      else case llist of [] \<Rightarrow> Inl Null_deref
           | e # l \<Rightarrow> if sdap_is ue pdu e then Inr (True, l) else Inr (sdap_unlink SDAP_MAX_NUM_OF_ENTITIES ue pdu e l))"

text \<open>The second loop of \<open>nr_sdap_delete_ue_entities\<close>, behind the node \<open>prev\<close> that is kept; the first one drops the head.\<close>

fun sdap_remove_ue :: "u64 \<Rightarrow> nr_sdap_entity_t list \<Rightarrow> bool \<times> nr_sdap_entity_t list" where
  "sdap_remove_ue ue [] = (False, [])"
| "sdap_remove_ue ue (e # l) =
     (let (ret, l') = sdap_remove_ue ue l in if sd_ue_id e \<noteq> ue then (ret, e # l') else (True, l'))"

fun sdap_drop_ue :: "u64 \<Rightarrow> nr_sdap_entity_t list \<Rightarrow> bool \<times> nr_sdap_entity_t list" where
  "sdap_drop_ue ue [] = (False, [])"
| "sdap_drop_ue ue (e # l) = (if sd_ue_id e = ue then (True, snd (sdap_drop_ue ue l)) else (False, e # l))"

definition nr_sdap_delete_ue_entities :: "nr_sdap_entity_t list \<Rightarrow> u64 \<Rightarrow> bool \<times> nr_sdap_entity_t list" where
  "nr_sdap_delete_ue_entities llist ue =
     (if llist = [] \<and> ue * (ue - SDAP_MAX_UE_ID) > 0 then (False, llist)
      else let (ret1, l) = sdap_drop_ue ue llist; (ret2, l') = sdap_remove_ue ue l in (ret1 \<or> ret2, l'))"

text \<open>
  \<open>list.array[0]\<close> points to one QFI; the code indexes it like an array of \<open>list.count\<close> of them.
\<close>

definition flow_array :: "int list \<Rightarrow> int list result" where
  "flow_array qs = (case qs of [] \<Rightarrow> Inl Null_deref | [q] \<Rightarrow> Inr [q] | _ \<Rightarrow> Inl Out_of_bounds)"

fun sdap_delete_rules :: "nr_sdap_entity_t \<Rightarrow> int list \<Rightarrow> nr_sdap_entity_t result" where
  "sdap_delete_rules e [] = Inr e"
| "sdap_delete_rules e (q # qs) =
     bind_r (nr_sdap_qfi2drb_map_del e (nat (q mod 256))) (\<lambda>e. sdap_delete_rules e qs)"

definition nr_reconfigure_sdap_entity ::
  "nr_sdap_entity_t list \<Rightarrow> nr_sdap_config_t \<Rightarrow> u64 \<Rightarrow> int \<Rightarrow> int \<Rightarrow> (nr_sdap_entity_t list \<times> sdap_event list) result" where
  "nr_reconfigure_sdap_entity llist cfg ue pdu drb_id =
     (case nr_sdap_get_entity llist ue pdu of None \<Rightarrow> Inr (llist, [])
      | Some e \<Rightarrow>
          (case cfg_FlowsToAdd cfg of None \<Rightarrow> Inl Null_deref
           | Some add \<Rightarrow>
               bind_r (flow_array add) (\<lambda>qfis.
               bind_r (nr_sdap_ue_qfi2drb_config e ue qfis (drb_id mod 256) (is_sdap_rx False cfg) (is_sdap_tx False cfg)) (\<lambda>(e, ev).
               bind_r (case cfg_FlowsToRelease cfg of None \<Rightarrow> Inr e
                       | Some rel \<Rightarrow> bind_r (flow_array rel) (sdap_delete_rules e)) (\<lambda>e.
               Inr (sdap_store llist ue pdu e, ev))))))"


subsection \<open>The interface of the layer\<close>

definition sdap_data_req ::
  "(int \<Rightarrow> byte list \<Rightarrow> bool) \<Rightarrow> nr_sdap_entity_t list \<Rightarrow> bool \<Rightarrow> u64 \<Rightarrow> int \<Rightarrow> byte list \<Rightarrow> nat \<Rightarrow> bool \<Rightarrow> int \<Rightarrow>
   (bool \<times> nr_sdap_entity_t list \<times> sdap_event list) result" where
  "sdap_data_req pdcp_ok llist enb_flag ue rb_id sdu qfi rqi pdu =
     (case nr_sdap_get_entity llist ue pdu of None \<Rightarrow> Inr (False, llist, [])
      | Some e \<Rightarrow> bind_r (nr_sdap_tx_entity pdcp_ok e enb_flag ue rb_id sdu qfi rqi) (\<lambda>(ret, e', ev).
                    Inr (ret, sdap_store llist ue pdu e', ev)))"

definition sdap_data_ind ::
  "nr_sdap_entity_t list \<Rightarrow> int \<Rightarrow> bool \<Rightarrow> bool \<Rightarrow> int \<Rightarrow> u64 \<Rightarrow> byte list \<Rightarrow> (nr_sdap_entity_t list \<times> sdap_event list) result" where
  "sdap_data_ind llist pdcp_entity is_gnb has_sdap_rx pdu ue buf =
     (case nr_sdap_get_entity llist ue pdu of None \<Rightarrow> Inr (llist, [])
      | Some e \<Rightarrow> bind_r (nr_sdap_rx_entity e pdcp_entity is_gnb has_sdap_rx pdu ue buf) (\<lambda>(e', ev).
                    Inr (sdap_store llist ue pdu e', ev)))"

end
