(* ===== verification/Sdap_Rules.thy ===== *)
theory Sdap_Rules
  imports Sdap_Entity
begin

text \<open>
  The rules of one SDAP entity: what a lookup, an update, the reflective mapping and the configuration of
  flows make of the table, which end markers they send, and where the SDUs of a flow go afterwards.
\<close>

definition sdap_ok :: "nr_sdap_entity_t \<Rightarrow> bool" where
  "sdap_ok e \<longleftrightarrow> length (sd_table e) = SDAP_MAX_QFI"

abbreviation sdap_rule :: "nr_sdap_entity_t \<Rightarrow> nat \<Rightarrow> qfi2drb_t" where
  "sdap_rule e qfi \<equiv> sd_table e ! qfi"

text \<open>The bearer of a flow, the entity after a lookup (which stores the default bearer as the rule), and
  the PDU made from an SDU.\<close>

definition sdap_bearer :: "nr_sdap_entity_t \<Rightarrow> nat \<Rightarrow> int" where
  "sdap_bearer e qfi = (if q_drb_id (sdap_rule e qfi) \<noteq> 0 then q_drb_id (sdap_rule e qfi) else sd_default_drb e)"

definition sdap_learn :: "nr_sdap_entity_t \<Rightarrow> nat \<Rightarrow> nr_sdap_entity_t" where
  "sdap_learn e qfi =
     (if q_drb_id (sdap_rule e qfi) = 0 \<and> 0 < qfi \<and> 0 < sd_default_drb e \<and> sd_default_drb e \<le> AVLBL_DRB
      then table_put e qfi ((sdap_rule e qfi)\<lparr>q_drb_id := sd_default_drb e\<rparr>) else e)"

definition sdap_header :: "bool \<Rightarrow> nat \<Rightarrow> bool \<Rightarrow> byte" where
  "sdap_header enb_flag qfi rqi =
     (if enb_flag then dl_hdr_byte \<lparr>dl_QFI = qfi, dl_RQI = rqi, dl_RDI = False\<rparr>
      else ul_hdr_byte \<lparr>ul_QFI = qfi, ul_R = False, ul_DC = rqi\<rparr>)"

definition sdap_pdu :: "bool \<Rightarrow> bool \<Rightarrow> nat \<Rightarrow> bool \<Rightarrow> byte list \<Rightarrow> byte list" where
  "sdap_pdu has_sdap enb_flag qfi rqi sdu = (if has_sdap then sdap_header enb_flag qfi rqi # sdu else sdu)"

abbreviation end_marker :: "u64 \<Rightarrow> int \<Rightarrow> nat \<Rightarrow> sdap_event" where
  "end_marker ue drb qfi \<equiv> Pdcp_data_req ue drb [ul_hdr_byte (nr_sdap_construct_ctrl_pdu qfi)]"


subsection \<open>The table\<close>

lemma table_at_ok [simp]: "sdap_ok e \<Longrightarrow> table_at e q = (if q < 64 then Inr (sdap_rule e q) else Inl Out_of_bounds)"
  by (simp add: table_at_def sdap_ok_def)

lemma sdap_ok_put [simp]: "sdap_ok (table_put e q r) \<longleftrightarrow> sdap_ok e"
  by (simp add: table_put_def sdap_ok_def)

lemma table_put_simps [simp]:
  "sd_ue_id (table_put e q r) = sd_ue_id e"
  "sd_default_drb (table_put e q r) = sd_default_drb e"
  "sd_pdusession_id (table_put e q r) = sd_pdusession_id e"
  "table_put (table_put e q r) q r' = table_put e q r'"
  by (simp_all add: table_put_def)

lemma rule_table_put: "sdap_ok e \<Longrightarrow> q < 64 \<Longrightarrow> sdap_rule (table_put e q r) p = (if p = q then r else sdap_rule e p)"
  by (simp add: table_put_def sdap_ok_def)

lemma rule_table_put_same [simp]: "sdap_ok e \<Longrightarrow> q < 64 \<Longrightarrow> sdap_rule (table_put e q r) q = r"
  by (simp add: rule_table_put)

lemma sdap_learn_ok [simp]:
  "sdap_ok (sdap_learn e q) \<longleftrightarrow> sdap_ok e"
  "sd_ue_id (sdap_learn e q) = sd_ue_id e"
  "sd_default_drb (sdap_learn e q) = sd_default_drb e"
  "sd_pdusession_id (sdap_learn e q) = sd_pdusession_id e"
  "table_put (sdap_learn e q) q r = table_put e q r"
  by (simp_all add: sdap_learn_def)

lemma rule_learn:
  "sdap_ok e \<Longrightarrow> q < 64 \<Longrightarrow>
     sdap_rule (sdap_learn e q) p = (if p = q then (sdap_rule e q)\<lparr>q_drb_id := q_drb_id (sdap_rule (sdap_learn e q) q)\<rparr> else sdap_rule e p)"
  by (simp add: sdap_learn_def rule_table_put)

lemma map_update_ok [simp]:
  "sdap_ok e \<Longrightarrow>
     nr_sdap_qfi2drb_map_update e q d rx tx =
       Inr (if q < 64 \<and> 0 < q \<and> 0 < d \<and> d \<le> 5
            then table_put e q \<lparr>q_drb_id = d, q_has_sdap_rx = rx, q_has_sdap_tx = tx\<rparr> else e)"
  by (simp add: nr_sdap_qfi2drb_map_update_def)

lemma rule_record: "r\<lparr>q_drb_id := d\<rparr> = \<lparr>q_drb_id = d, q_has_sdap_rx = q_has_sdap_rx r, q_has_sdap_tx = q_has_sdap_tx r\<rparr>"
  by (cases r) simp

lemma map_ok [simp]:
  "sdap_ok e \<Longrightarrow> nr_sdap_qfi2drb_map e q = (if q < 64 then Inr (sdap_bearer e q, sdap_learn e q) else Inl Out_of_bounds)"
  by (auto simp: nr_sdap_qfi2drb_map_def sdap_bearer_def sdap_learn_def rule_record)

lemma end_marker_ok:
  assumes "sdap_ok e" and "q < 64"
  shows "sdap_end_marker e ue SDAP_CTRL_PDU_MAP_DEF_DRB q =
           Inr (e, if sd_default_drb e \<noteq> 0 then [end_marker ue (sd_default_drb e) q] else [])"
    and "sdap_end_marker e ue SDAP_CTRL_PDU_MAP_RULE_DRB q =
           Inr (sdap_learn e q, if sdap_bearer e q \<noteq> 0 then [end_marker ue (sdap_bearer e q) q] else [])"
  using assms by (simp_all add: sdap_end_marker_def nr_sdap_map_ctrl_pdu_def nr_sdap_submit_ctrl_pdu_def)


subsection \<open>The header\<close>

lemma hdr_bits:
  assumes "q < 64" and "b = (of_nat (q + (if x then 64 else 0) + (if y then 128 else 0)) :: byte)"
  shows "unat b mod 64 = q" and "bit b 6 = x" and "bit b 7 = y"
proof -
  let ?n = "q + (if x then 64 else 0) + (if y then 128 else 0)"
  have n: "?n < 256" using assms(1) by simp
  then have u: "unat b = ?n"
    unfolding assms(2) unat_of_nat by simp
  show "unat b mod 64 = q"
    unfolding u using assms(1) by (cases x; cases y) (simp_all add: mod_add_eq [symmetric])
  have b: "bit b k = odd (?n div 2 ^ k)" for k
  proof -
    have "bit b k = bit (unat b) k"
      by (simp add: bit_unsigned_iff)
    then show ?thesis
      unfolding u by (simp add: bit_iff_odd)
  qed
  have "?n div 64 = (if x then 1 else 0) + (if y then 2 else 0)" and "?n div 128 = (if y then 1 else 0)"
    using assms(1) by (cases x; cases y; simp add: div_nat_eqI)+
  then show "bit b 6 = x" "bit b 7 = y"
    unfolding b by (simp_all split: if_splits)
qed

lemma hdr_round_trip:
  "dl_QFI h < 64 \<Longrightarrow> dl_hdr_of (dl_hdr_byte h) = h"
  "ul_QFI g < 64 \<Longrightarrow> ul_hdr_of (ul_hdr_byte g) = g"
  using hdr_bits [of "dl_QFI h" "dl_hdr_byte h" "dl_RQI h" "dl_RDI h"]
    hdr_bits [of "ul_QFI g" "ul_hdr_byte g" "ul_R g" "ul_DC g"]
  by (simp_all add: dl_hdr_of_def dl_hdr_byte_def ul_hdr_of_def ul_hdr_byte_def)


subsection \<open>Transmission\<close>

lemma sdap_tx_eq:
  assumes "sdap_ok e" and "qfi < 64"
  shows "nr_sdap_tx_entity pdcp_ok e enb_flag ue rb_id sdu qfi rqi =
    (let has_sdap = (sdap_bearer e qfi \<noteq> 0 \<and> q_has_sdap_tx (sdap_rule e qfi));
         drb = (if sdap_bearer e qfi \<noteq> 0 then sdap_bearer e qfi else rb_id);
         pdu = sdap_pdu has_sdap enb_flag qfi rqi sdu
     in if has_sdap \<and> (sdu = [] \<or> 8999 < length sdu) then Inr (False, sdap_learn e qfi, [])
        else Inr (pdcp_ok drb pdu, sdap_learn e qfi, [Pdcp_data_req ue drb pdu]))"
proof -
  have "q_has_sdap_tx (sdap_rule (sdap_learn e qfi) qfi) = q_has_sdap_tx (sdap_rule e qfi)"
    using assms by (subst rule_learn) simp_all
  then show ?thesis
    using assms by (simp add: nr_sdap_tx_entity_def sdap_pdu_def sdap_header_def Let_def)
qed


subsection \<open>Reflective mapping\<close>

definition reflective_markers :: "nr_sdap_entity_t \<Rightarrow> int \<Rightarrow> u64 \<Rightarrow> nat \<Rightarrow> sdap_event list" where
  "reflective_markers e d ue q =
     (let old = q_drb_id (sdap_rule e q); default_drb = sd_default_drb e in
      if old = d then []
      else if old \<noteq> 0 then [end_marker ue old q]
      else if default_drb \<noteq> 0 then [end_marker ue default_drb q, end_marker ue default_drb q]
      else [])"

lemma sdap_reflective_eq:
  assumes "sdap_ok e" and "q < 64" and "d \<noteq> 0"
  shows "sdap_reflective e d ue q =
    Inr (table_put e q ((sdap_rule e q)\<lparr>q_drb_id := d\<rparr>), reflective_markers e d ue q)"
proof -
  have "(sdap_rule (sdap_learn e q) q)\<lparr>q_drb_id := d\<rparr> = (sdap_rule e q)\<lparr>q_drb_id := d\<rparr>"
    using assms by (subst rule_learn) simp_all
  then show ?thesis
    using assms by (auto simp: sdap_reflective_def end_marker_ok reflective_markers_def sdap_bearer_def Let_def)
qed

lemma sdap_rx_reflective:
  assumes "sdap_ok e" and "q < 64" and "d \<noteq> 0"
  shows "nr_sdap_rx_entity e d False True pdu ue (dl_hdr_byte \<lparr>dl_QFI = q, dl_RQI = rqi, dl_RDI = rdi\<rparr> # sdu) =
    Inr (if rdi then table_put e q ((sdap_rule e q)\<lparr>q_drb_id := d\<rparr>) else e,
         (if rdi then reflective_markers e d ue q else []) @ [Nas_write sdu])"
  using assms by (simp add: nr_sdap_rx_entity_def hdr_round_trip sdap_reflective_eq Let_def)


subsection \<open>Configuration of flows\<close>

lemma sdap_config_flow_eq:
  assumes "sdap_ok e" and "0 < q" and "q < 64" and "0 < d" and "d \<le> 5"
  shows "\<exists>ev. sdap_config_flow e ue q d rx tx =
    Inr (table_put e (nat q) \<lparr>q_drb_id = d, q_has_sdap_rx = rx, q_has_sdap_tx = tx\<rparr>, ev)"
proof -
  have "q mod 256 = q" and "nat q < 64" and "0 < nat q"
    using assms by simp_all
  then show ?thesis
    using assms by (simp add: sdap_config_flow_def end_marker_ok Let_def)
qed

definition sdap_configured :: "nr_sdap_entity_t \<Rightarrow> int set \<Rightarrow> qfi2drb_t \<Rightarrow> nr_sdap_entity_t" where
  "sdap_configured e qs r = e\<lparr>sd_table := map (\<lambda>i. if int i \<in> qs then r else sdap_rule e i) [0..<SDAP_MAX_QFI]\<rparr>"

lemma sdap_configured_put:
  assumes "sdap_ok e" and "0 \<le> q" and "q < 64"
  shows "sdap_configured (table_put e (nat q) r) qs r = sdap_configured e (insert q qs) r"
  using assms by (auto simp: sdap_configured_def table_put_def sdap_ok_def nth_list_update)

lemma sdap_configured_empty: "sdap_ok e \<Longrightarrow> sdap_configured e {} r = e"
  using map_nth [of "sd_table e"] by (simp add: sdap_configured_def sdap_ok_def)

lemma sdap_config_eq:
  assumes "sdap_ok e" and "\<And>q. q \<in> set qs \<Longrightarrow> 0 < q \<and> q < 64" and "0 < d" and "d \<le> 5"
  shows "\<exists>ev. nr_sdap_ue_qfi2drb_config e ue qs d rx tx =
    Inr (sdap_configured e (set qs) \<lparr>q_drb_id = d, q_has_sdap_rx = rx, q_has_sdap_tx = tx\<rparr>, ev)"
  using assms(1,2)
proof (induction qs arbitrary: e)
  case Nil
  then show ?case by (simp add: sdap_configured_empty)
next
  case (Cons q qs)
  let ?r = "\<lparr>q_drb_id = d, q_has_sdap_rx = rx, q_has_sdap_tx = tx\<rparr>"
  let ?e = "table_put e (nat q) ?r"
  have q: "0 < q" "q < 64" using Cons.prems by auto
  obtain ev1 where 1: "sdap_config_flow e ue q d rx tx = Inr (?e, ev1)"
    using sdap_config_flow_eq [of e q d ue rx tx] Cons.prems q assms(3,4) by auto
  obtain ev2 where 2: "nr_sdap_ue_qfi2drb_config ?e ue qs d rx tx = Inr (sdap_configured ?e (set qs) ?r, ev2)"
    using Cons.IH [of ?e] Cons.prems by auto
  show ?case
    using 1 2 q Cons.prems sdap_configured_put [of e q ?r "set qs"] by simp
qed


subsection \<open>Properties\<close>

definition sdap_example :: nr_sdap_entity_t where
  "sdap_example = \<lparr>sd_ue_id = 1, sd_default_drb = 1, sd_pdusession_id = 10,
     sd_table = (replicate 64 qfi2drb_zero)[5 := \<lparr>q_drb_id = 2, q_has_sdap_rx = True, q_has_sdap_tx = True\<rparr>]\<rparr>"

lemma sdap_example_ok: "sdap_ok sdap_example"
  by (simp add: sdap_ok_def sdap_example_def)

text \<open>The marker of the old bearer and the rule that is stored, on any downlink PDU that asks for reflective mapping.\<close>

lemma sdap_reflective_then_uplink:
  assumes "sdap_ok e" and "qfi < 64" and "d \<noteq> 0" and "0 < length up" and "length up \<le> 8999"
  shows "\<exists>e'. nr_sdap_rx_entity e d False True pdu ue (dl_hdr_byte \<lparr>dl_QFI = qfi, dl_RQI = rqi, dl_RDI = True\<rparr> # sdu) =
              Inr (e', reflective_markers e d ue qfi @ [Nas_write sdu]) \<and>
            nr_sdap_tx_entity pdcp_ok e' False ue rb_id up qfi rqi' =
              (let p = sdap_pdu (q_has_sdap_tx (sdap_rule e qfi)) False qfi rqi' up
               in Inr (pdcp_ok d p, e', [Pdcp_data_req ue d p]))"
proof -
  let ?e = "table_put e qfi ((sdap_rule e qfi)\<lparr>q_drb_id := d\<rparr>)"
  have "sdap_bearer ?e qfi = d" and "sdap_learn ?e qfi = ?e"
    using assms by (simp_all add: sdap_bearer_def sdap_learn_def)
  then have "nr_sdap_tx_entity pdcp_ok ?e False ue rb_id up qfi rqi' =
      (let p = sdap_pdu (q_has_sdap_tx (sdap_rule e qfi)) False qfi rqi' up in Inr (pdcp_ok d p, ?e, [Pdcp_data_req ue d p]))"
    using assms by (subst sdap_tx_eq) (auto simp: Let_def)
  then show ?thesis
    using sdap_rx_reflective [OF assms(1-3), where rdi = True] by simp
qed

text \<open>C17. Reflective mapping of a flow that has a rule whose bearer carries an uplink SDAP header (TS 37.324, 5.3.2): when a UE receives
  a downlink PDU of the flow whose header asks for it (\<open>RDI\<close>) on bearer \<open>d\<close>, it sends one end marker on the bearer
  of the rule if that is another one, and none if it is \<open>d\<close>, hands the SDU up behind it, and from then on every uplink
  SDU of the flow goes to \<open>d\<close> with a header.\<close>

theorem sdap_reflective_uplink:
  assumes "sdap_ok e" and "qfi < 64" and "d \<noteq> 0" and "0 < length up" and "length up \<le> 8999"
    and "q_drb_id (sdap_rule e qfi) \<noteq> 0" and "q_has_sdap_tx (sdap_rule e qfi)"
  shows "\<exists>e'. nr_sdap_rx_entity e d False True pdu ue (dl_hdr_byte \<lparr>dl_QFI = qfi, dl_RQI = rqi, dl_RDI = True\<rparr> # sdu) =
              Inr (e', (if q_drb_id (sdap_rule e qfi) = d then [] else [end_marker ue (q_drb_id (sdap_rule e qfi)) qfi]) @ [Nas_write sdu]) \<and>
            nr_sdap_tx_entity pdcp_ok e' False ue rb_id up qfi rqi' =
              (let p = sdap_pdu True False qfi rqi' up in Inr (pdcp_ok d p, e', [Pdcp_data_req ue d p]))"
proof -
  have "reflective_markers e d ue qfi = (if q_drb_id (sdap_rule e qfi) = d then [] else [end_marker ue (q_drb_id (sdap_rule e qfi)) qfi])"
    using assms(6) by (simp add: reflective_markers_def)
  then show ?thesis
    using sdap_reflective_then_uplink [OF assms(1-5), of pdu ue rqi sdu pdcp_ok rb_id rqi'] assms(7) by (simp only: simp_thms)
qed

theorem sdap_reflective_uplink_witness:
  "\<exists>e'. nr_sdap_rx_entity sdap_example 3 False True 10 1 (dl_hdr_byte \<lparr>dl_QFI = 5, dl_RQI = False, dl_RDI = True\<rparr> # [7, 8]) =
          Inr (e', [end_marker 1 2 5, Nas_write [7, 8]]) \<and>
        nr_sdap_tx_entity (\<lambda>_ _. True) e' False 1 4 [9] 5 True = Inr (True, e', [Pdcp_data_req 1 3 [133, 9]])"
  using sdap_reflective_uplink [OF sdap_example_ok, of 5 3 "[9]" 10 1 False "[7, 8]" "\<lambda>_ _. True" 4 True]
  by (simp add: sdap_example_def sdap_pdu_def sdap_header_def ul_hdr_byte_def)

text \<open>Outside these cases the code departs from the comment that quotes the specification: a rule whose bearer has no uplink
  header still gets an end marker on it, and a flow without a rule gets two on the default bearer.\<close>

lemma sdap_marker_departs:
  assumes "sdap_ok e" and "qfi < 64" and "d \<noteq> 0"
  shows "q_drb_id (sdap_rule e qfi) \<notin> {0, d} \<Longrightarrow> \<not> q_has_sdap_tx (sdap_rule e qfi) \<Longrightarrow>
      nr_sdap_rx_entity e d False True pdu ue (dl_hdr_byte \<lparr>dl_QFI = qfi, dl_RQI = rqi, dl_RDI = True\<rparr> # sdu) =
        Inr (table_put e qfi ((sdap_rule e qfi)\<lparr>q_drb_id := d\<rparr>), [end_marker ue (q_drb_id (sdap_rule e qfi)) qfi, Nas_write sdu])"
    and "q_drb_id (sdap_rule e qfi) = 0 \<Longrightarrow> sd_default_drb e \<noteq> 0 \<Longrightarrow>
      nr_sdap_rx_entity e d False True pdu ue (dl_hdr_byte \<lparr>dl_QFI = qfi, dl_RQI = rqi, dl_RDI = True\<rparr> # sdu) =
        Inr (table_put e qfi ((sdap_rule e qfi)\<lparr>q_drb_id := d\<rparr>),
             [end_marker ue (sd_default_drb e) qfi, end_marker ue (sd_default_drb e) qfi, Nas_write sdu])"
  using assms by (simp_all add: sdap_rx_reflective reflective_markers_def Let_def)

text \<open>The configuration of flows with legal identifiers succeeds, gives each of them the configured rule and
  changes nothing else of the entity.\<close>

theorem sdap_configured_flows:
  assumes "sdap_ok e" and "\<And>q. q \<in> set qs \<Longrightarrow> 0 < q \<and> q < 64" and "0 < d" and "d \<le> 5"
  shows "\<exists>ev. nr_sdap_ue_qfi2drb_config e ue qs d rx tx =
    Inr (e\<lparr>sd_table := map (\<lambda>i. if int i \<in> set qs then \<lparr>q_drb_id = d, q_has_sdap_rx = rx, q_has_sdap_tx = tx\<rparr>
                               else sd_table e ! i) [0..<SDAP_MAX_QFI]\<rparr>, ev)"
  using sdap_config_eq [OF assms(1) _ assms(3,4), of qs ue rx tx] assms(2) by (simp add: sdap_configured_def)

theorem sdap_configured_flows_witness:
  "\<exists>e' ev. nr_sdap_ue_qfi2drb_config sdap_example 1 [5, 6] 3 False True = Inr (e', ev) \<and>
     map q_drb_id (take 8 (sd_table e')) = [0, 0, 0, 0, 0, 3, 3, 0]"
proof -
  let ?r = "\<lparr>q_drb_id = 3, q_has_sdap_rx = False, q_has_sdap_tx = True\<rparr>"
  let ?e = "sdap_example\<lparr>sd_table := map (\<lambda>i. if int i \<in> set [5, 6] then ?r else sd_table sdap_example ! i) [0..<SDAP_MAX_QFI]\<rparr>"
  have "\<exists>ev. nr_sdap_ue_qfi2drb_config sdap_example 1 [5, 6] 3 False True = Inr (?e, ev)"
    by (rule sdap_configured_flows [OF sdap_example_ok]) auto
  then obtain ev where "nr_sdap_ue_qfi2drb_config sdap_example 1 [5, 6] 3 False True = Inr (?e, ev)" ..
  moreover have "map q_drb_id (take 8 (sd_table ?e)) = [0, 0, 0, 0, 0, 3, 3, 0]"
    by (simp add: take_map upt_rec sdap_example_def qfi2drb_zero_def)
  ultimately show ?thesis
    by (intro exI conjI)
qed

text \<open>Downlink round trip: an SDU of legal size that the gNB sends on a flow whose bearer has a header is
  handed up unchanged by the UE, whose rules stay as they are.\<close>

theorem sdap_downlink_round_trip:
  assumes "sdap_ok e" and "qfi < 64" and "sdap_bearer e qfi \<noteq> 0" and "q_has_sdap_tx (sdap_rule e qfi)"
    and "0 < length sdu" and "length sdu \<le> 8999" and "sdap_ok ue_e"
  shows "\<exists>p. nr_sdap_tx_entity pdcp_ok e True ue rb_id sdu qfi rqi =
               Inr (pdcp_ok (sdap_bearer e qfi) p, sdap_learn e qfi, [Pdcp_data_req ue (sdap_bearer e qfi) p]) \<and>
             nr_sdap_rx_entity ue_e (sdap_bearer e qfi) False True pdu ue p = Inr (ue_e, [Nas_write sdu])"
  using assms sdap_tx_eq [OF assms(1,2), of pdcp_ok True ue rb_id sdu rqi]
    sdap_rx_reflective [OF assms(7,2,3), of pdu ue rqi False sdu]
  by (auto simp: Let_def sdap_pdu_def sdap_header_def)

theorem sdap_downlink_round_trip_witness:
  "\<exists>p. nr_sdap_tx_entity (\<lambda>_ _. True) sdap_example True 1 4 [7, 8] 5 False =
         Inr (True, sdap_learn sdap_example 5, [Pdcp_data_req 1 2 p]) \<and>
       nr_sdap_rx_entity sdap_example 2 False True 10 1 p = Inr (sdap_example, [Nas_write [7, 8]])"
proof -
  have b: "sdap_bearer sdap_example 5 = 2" and "q_has_sdap_tx (sdap_rule sdap_example 5)"
    by (simp_all add: sdap_bearer_def sdap_example_def)
  then show ?thesis
    using sdap_downlink_round_trip [OF sdap_example_ok _ _ _ _ _ sdap_example_ok, of 5 "[7, 8]" "\<lambda>_ _. True" 1 4 False 10]
    by simp
qed

text \<open>The transmit side fails exactly on flow identifiers outside the table: the eight-bit identifier is not
  checked before it indexes the 64 rules.\<close>

theorem sdap_tx_error_iff:
  assumes "sdap_ok e"
  shows "nr_sdap_tx_entity pdcp_ok e enb_flag ue rb_id sdu qfi rqi = Inl err \<longleftrightarrow> 64 \<le> qfi \<and> err = Out_of_bounds"
proof (cases "qfi < 64")
  case True
  then show ?thesis
    using sdap_tx_eq [OF assms True] by (simp add: Let_def)
next
  case False
  then show ?thesis
    using assms by (auto simp: nr_sdap_tx_entity_def)
qed

theorem sdap_tx_error_iff_witness:
  "nr_sdap_tx_entity (\<lambda>_ _. True) sdap_example True 1 4 [7, 8] 200 False = Inl Out_of_bounds"
  using sdap_tx_error_iff [OF sdap_example_ok, of "\<lambda>_ _. True" True 1 4 "[7, 8]" 200 False Out_of_bounds] by simp

text \<open>An uplink data PDU sent without reflective indication begins with the same byte as the end marker of
  its flow: the receiver cannot tell them apart, since the D/C bit carries the indication.\<close>

theorem sdap_uplink_looks_like_marker:
  assumes "sdap_ok e" and "qfi < 64" and "sdap_bearer e qfi \<noteq> 0" and "q_has_sdap_tx (sdap_rule e qfi)"
    and "0 < length sdu" and "length sdu \<le> 8999"
  shows "nr_sdap_tx_entity pdcp_ok e False ue rb_id sdu qfi False =
    (let p = ul_hdr_byte (nr_sdap_construct_ctrl_pdu qfi) # sdu
     in Inr (pdcp_ok (sdap_bearer e qfi) p, sdap_learn e qfi, [Pdcp_data_req ue (sdap_bearer e qfi) p]))"
  using assms sdap_tx_eq [OF assms(1,2), of pdcp_ok False ue rb_id sdu False]
  by (auto simp: Let_def sdap_pdu_def sdap_header_def nr_sdap_construct_ctrl_pdu_def)

theorem sdap_uplink_looks_like_marker_witness:
  "nr_sdap_tx_entity (\<lambda>_ _. True) sdap_example False 1 4 [7, 8] 5 False =
     Inr (True, sdap_learn sdap_example 5, [Pdcp_data_req 1 2 [ul_hdr_byte (nr_sdap_construct_ctrl_pdu 5), 7, 8]])"
proof -
  have b: "sdap_bearer sdap_example 5 = 2" and "q_has_sdap_tx (sdap_rule sdap_example 5)"
    by (simp_all add: sdap_bearer_def sdap_example_def)
  then show ?thesis
    using sdap_uplink_looks_like_marker [OF sdap_example_ok, of 5 "[7, 8]" "\<lambda>_ _. True" 1 4] by simp
qed

end
