(* ===== verification/Sdap_Registry.thy ===== *)
theory Sdap_Registry
  imports Registry Sdap_Rules
begin

text \<open>
  The global list of SDAP entities is a map from UE and PDU session to entity. Every entry point of the layer
  (creation, release of a bearer, deletion of an entity or of a UE, reconfiguration, data in both
  directions) is a step on the list, and the same step on the map; sequences of them agree.
\<close>

abbreviation sdap_key :: "nr_sdap_entity_t \<Rightarrow> u64 \<times> int" where
  "sdap_key e \<equiv> (sd_ue_id e, sd_pdusession_id e)"

lemma sdap_is_key: "sdap_is ue pdu e \<longleftrightarrow> sdap_key e = (ue, pdu)"
  by (simp add: sdap_is_def)

lemma sdap_get_Cons:
  "nr_sdap_get_entity (e # l) ue pdu = (if sdap_is ue pdu e then Some e else nr_sdap_get_entity l ue pdu)"
  by (cases l) (auto simp: nr_sdap_get_entity_def Let_def)

interpretation sdap_list: keyed_list sdap_key "\<lambda>l k. nr_sdap_get_entity l (fst k) (snd k)"
  "\<lambda>l k x. sdap_store l (fst k) (snd k) x"
  by unfold_locales (auto simp: sdap_get_Cons sdap_is_def, simp add: nr_sdap_get_entity_def)

definition sdap_reg_ok :: "nr_sdap_entity_t list \<Rightarrow> bool" where
  "sdap_reg_ok l \<longleftrightarrow> distinct (map sdap_key l) \<and> (\<forall>e\<in>set l. sdap_ok e)"

definition sdap_abs :: "nr_sdap_entity_t list \<Rightarrow> u64 \<times> int \<rightharpoonup> nr_sdap_entity_t" where
  "sdap_abs l k = nr_sdap_get_entity l (fst k) (snd k)"

lemma sdap_abs_Nil [simp]: "sdap_abs [] = Map.empty"
  by (rule ext) (simp add: sdap_abs_def sdap_list.get_Nil)

lemma sdap_abs_Cons: "sdap_abs (e # l) = (sdap_abs l)(sdap_key e \<mapsto> e)"
  by (rule ext) (auto simp: sdap_abs_def sdap_list.get_Cons)

lemma sdap_abs_empty_iff: "sdap_abs l = Map.empty \<longleftrightarrow> l = []"
  by (cases l) (auto simp: sdap_abs_Cons fun_eq_iff)

lemma sdap_abs_store:
  "sdap_key x = k \<Longrightarrow> sdap_abs l k \<noteq> None \<Longrightarrow> sdap_abs (sdap_store l (fst k) (snd k) x) = (sdap_abs l)(k \<mapsto> x)"
  by (rule ext) (auto simp: sdap_abs_def sdap_list.get_store)

lemma sdap_abs_filter: "sdap_abs (filter (\<lambda>e. P (sdap_key e)) l) = sdap_abs l |` {k. P k}"
  by (rule ext) (auto simp: sdap_abs_def sdap_list.get_filter restrict_map_def)

lemma sdap_reg_ok_store:
  assumes "sdap_reg_ok l" and "sdap_key x = k" and "sdap_ok x"
  shows "sdap_reg_ok (sdap_store l (fst k) (snd k) x)"
  using assms sdap_list.set_store [of l k x] sdap_list.keys_store [of x k l]
  by (fastforce simp: sdap_reg_ok_def)

lemma sdap_reg_ok_filter: "sdap_reg_ok l \<Longrightarrow> sdap_reg_ok (filter P l)"
  using sdap_list.distinct_filter_key [of l P] by (simp add: sdap_reg_ok_def)

lemma sdap_reg_ok_get: "sdap_reg_ok l \<Longrightarrow> sdap_abs l k = Some e \<Longrightarrow> sdap_ok e \<and> sdap_key e = k"
  using sdap_list.get_SomeD [of l k e] by (simp add: sdap_abs_def sdap_reg_ok_def)


subsection \<open>Deletion\<close>

lemma sdap_unlink_filter:
  "distinct (map sdap_key (e # l)) \<Longrightarrow> length l \<le> bound \<Longrightarrow>
     sdap_unlink bound ue pdu e l =
       (sdap_abs (e # l) (ue, pdu) \<noteq> None, filter (\<lambda>x. sdap_key x \<noteq> (ue, pdu)) (e # l))"
proof (induction bound ue pdu e l rule: sdap_unlink.induct)
  case (3 bound ue pdu e e' l)
  show ?case
  proof (cases "sdap_is ue pdu e")
    case True
    then have "filter (\<lambda>x. sdap_key x \<noteq> (ue, pdu)) (e' # l) = e' # l"
      using 3(2) by (intro filter_True) (force simp: sdap_is_key)
    then show ?thesis
      using True by (simp add: sdap_is_key sdap_abs_Cons)
  next
    case False
    then show ?thesis
      using 3(1) [OF False] 3(2,3) by (auto simp: sdap_is_key sdap_abs_Cons [of e])
  qed
qed (auto simp: sdap_is_key sdap_abs_Cons)

lemma sdap_delete_eq:
  assumes "sdap_reg_ok l" and "length l \<le> Suc SDAP_MAX_NUM_OF_ENTITIES" and "l \<noteq> []"
  shows "nr_sdap_delete_entity l ue pdu =
    Inr (sdap_abs l (ue, pdu) \<noteq> None, filter (\<lambda>x. sdap_key x \<noteq> (ue, pdu)) l)"
proof (cases l)
  case (Cons e r)
  have "sdap_unlink SDAP_MAX_NUM_OF_ENTITIES ue pdu e r =
      (sdap_abs l (ue, pdu) \<noteq> None, filter (\<lambda>x. sdap_key x \<noteq> (ue, pdu)) l)"
    unfolding Cons using assms Cons by (intro sdap_unlink_filter) (auto simp: sdap_reg_ok_def)
  moreover have "filter (\<lambda>x. sdap_key x \<noteq> (ue, pdu)) l = r" if "sdap_is ue pdu e"
  proof -
    have "filter (\<lambda>x. sdap_key x \<noteq> (ue, pdu)) r = r"
      using assms(1) Cons that by (intro filter_True) (force simp: sdap_is_key sdap_reg_ok_def)
    then show ?thesis
      using that Cons by (simp add: sdap_is_key)
  qed
  ultimately show ?thesis
    using Cons by (auto simp: nr_sdap_delete_entity_def sdap_is_key sdap_abs_Cons)
qed (use assms in simp)

lemma sdap_remove_ue_eq: "sdap_remove_ue ue l = (\<exists>e\<in>set l. sd_ue_id e = ue, filter (\<lambda>e. sd_ue_id e \<noteq> ue) l)"
  by (induction l) auto

lemma sdap_drop_ue_eq: "sdap_drop_ue ue l = (l \<noteq> [] \<and> sd_ue_id (hd l) = ue, dropWhile (\<lambda>e. sd_ue_id e = ue) l)"
  by (induction l) auto

lemma sdap_delete_ue_eq:
  "nr_sdap_delete_ue_entities l ue = (\<exists>e\<in>set l. sd_ue_id e = ue, filter (\<lambda>e. sd_ue_id e \<noteq> ue) l)"
proof -
  have "filter (\<lambda>e. sd_ue_id e \<noteq> ue) (dropWhile (\<lambda>e. sd_ue_id e = ue) l) = filter (\<lambda>e. sd_ue_id e \<noteq> ue) l"
    by (induction l) auto
  moreover have "(l \<noteq> [] \<and> sd_ue_id (hd l) = ue \<or> (\<exists>e\<in>set (dropWhile (\<lambda>e. sd_ue_id e = ue) l). sd_ue_id e = ue)) \<longleftrightarrow>
      (\<exists>e\<in>set l. sd_ue_id e = ue)"
    by (cases l) (auto dest: set_dropWhileD)
  ultimately show ?thesis
    by (simp add: nr_sdap_delete_ue_entities_def sdap_remove_ue_eq sdap_drop_ue_eq)
qed

lemma sdap_ue_present: "(\<exists>e\<in>set l. sd_ue_id e = ue) \<longleftrightarrow> (\<exists>pdu. sdap_abs l (ue, pdu) \<noteq> None)"
proof -
  have "(\<exists>e\<in>set l. sd_ue_id e = ue) \<longleftrightarrow> (\<exists>pdu. (ue, pdu) \<in> sdap_key ` set l)"
    by (auto simp: image_iff)
  moreover have "sdap_abs l (ue, pdu) \<noteq> None \<longleftrightarrow> (ue, pdu) \<in> sdap_key ` set l" for pdu
    using sdap_list.get_None_iff [of l "(ue, pdu)"] by (simp add: sdap_abs_def)
  ultimately show ?thesis
    by simp
qed


subsection \<open>Operations on one entity\<close>

text \<open>Every operation on an entity keeps its key and the size of its table.\<close>

definition sdap_same :: "nr_sdap_entity_t \<Rightarrow> nr_sdap_entity_t \<Rightarrow> bool" where
  "sdap_same e e' \<longleftrightarrow> sdap_key e' = sdap_key e \<and> sdap_ok e'"

lemma sdap_same_put [simp]: "sdap_ok e \<Longrightarrow> sdap_same e (table_put e q r)"
  and sdap_same_refl [simp]: "sdap_ok e \<Longrightarrow> sdap_same e e"
  and sdap_same_learn [simp]: "sdap_ok e \<Longrightarrow> sdap_same e (sdap_learn e q)"
  by (simp_all add: sdap_same_def)

lemma sdap_same_trans: "sdap_same a b \<Longrightarrow> sdap_same b c \<Longrightarrow> sdap_same a c"
  and sdap_same_ok: "sdap_same a b \<Longrightarrow> sdap_ok b"
  by (simp_all add: sdap_same_def)

lemma sdap_tx_same:
  assumes "sdap_ok e" and "nr_sdap_tx_entity pdcp_ok e f ue rb sdu q rqi = Inr (ret, e', ev)"
  shows "sdap_same e e'"
proof (cases "q < 64")
  case True
  then show ?thesis
    using assms by (auto simp: sdap_tx_eq Let_def split: if_splits)
next
  case False
  then show ?thesis
    using assms by (simp add: nr_sdap_tx_entity_def)
qed

lemma sdap_end_marker_same:
  assumes "sdap_ok e" and "sdap_end_marker e ue t q = Inr (e', ev)"
  shows "sdap_same e e'"
  using assms by (cases t) (auto simp: sdap_end_marker_def nr_sdap_map_ctrl_pdu_def split: if_splits)

lemma sdap_reflective_same:
  assumes "sdap_ok e" and "sdap_reflective e d ue q = Inr (e', ev)"
  shows "sdap_same e e'"
proof (cases "q < 64")
  case True
  then show ?thesis
    using assms by (auto simp: sdap_reflective_def end_marker_ok split: if_splits)
next
  case False
  then show ?thesis
    using assms by (simp add: sdap_reflective_def)
qed

lemma sdap_rx_same:
  assumes "sdap_ok e" and "nr_sdap_rx_entity e d g has pdu ue buf = Inr (e', ev)"
  shows "sdap_same e e'"
  using assms sdap_reflective_same
  by (auto simp: nr_sdap_rx_entity_def Let_def result_simps split: if_splits)

lemma sdap_config_flow_same:
  assumes "sdap_ok e" and "sdap_config_flow e ue q d rx tx = Inr (e', ev)"
  shows "sdap_same e e'"
proof (cases "nat (q mod 256) < 64")
  case True
  then show ?thesis
    using assms by (auto simp: sdap_config_flow_def end_marker_ok Let_def split: if_splits)
next
  case False
  then show ?thesis
    using assms by (simp add: sdap_config_flow_def Let_def)
qed

lemma sdap_config_same:
  "nr_sdap_ue_qfi2drb_config e ue qs d rx tx = Inr (e', ev) \<Longrightarrow> sdap_ok e \<Longrightarrow> sdap_same e e'"
proof (induction qs arbitrary: e e' ev)
  case (Cons q qs)
  obtain x ev1 ev2 where 1: "sdap_config_flow e ue q d rx tx = Inr (x, ev1)"
    and 2: "nr_sdap_ue_qfi2drb_config x ue qs d rx tx = Inr (e', ev2)"
    using Cons.prems(1) by (auto simp: result_simps)
  have "sdap_same e x" using sdap_config_flow_same [OF Cons.prems(2) 1] .
  then show ?case
    using Cons.IH [OF 2] by (blast intro: sdap_same_trans dest: sdap_same_ok)
qed simp

lemma sdap_delete_rules_same: "sdap_delete_rules e qs = Inr e' \<Longrightarrow> sdap_ok e \<Longrightarrow> sdap_same e e'"
proof (induction qs arbitrary: e)
  case (Cons q qs)
  obtain x where 1: "nr_sdap_qfi2drb_map_del e (nat (q mod 256)) = Inr x" and 2: "sdap_delete_rules x qs = Inr e'"
    using Cons.prems(1) by (auto simp: result_simps)
  have "sdap_same e x" using 1 Cons.prems(2) by (auto simp: nr_sdap_qfi2drb_map_del_def split: if_splits)
  then show ?case
    using Cons.IH [OF 2] by (blast intro: sdap_same_trans dest: sdap_same_ok)
qed simp

lemma sdap_default_rules_same: "sdap_default_rules e qs rx tx = Inr e' \<Longrightarrow> sdap_ok e \<Longrightarrow> sdap_same e e'"
proof (induction qs arbitrary: e)
  case (Cons q qs)
  obtain x where 1: "nr_sdap_qfi2drb_map_update e (nat (q mod 256)) (sd_default_drb e) rx tx = Inr x"
    and 2: "sdap_default_rules x qs rx tx = Inr e'"
    using Cons.prems(1) by (auto simp: result_simps)
  have "sdap_same e x" using 1 Cons.prems(2) by (auto split: if_splits)
  then show ?case
    using Cons.IH [OF 2] by (blast intro: sdap_same_trans dest: sdap_same_ok)
qed simp


subsection \<open>Sequences of calls\<close>

datatype sdap_op =
    Sdap_new bool bool bool u64 int bool int "int list"
  | Sdap_release u64 int int
  | Sdap_delete u64 int
  | Sdap_delete_ue u64
  | Sdap_reconfigure nr_sdap_config_t u64 int int
  | Sdap_req bool u64 int "byte list" nat bool int
  | Sdap_ind int bool bool int u64 "byte list"

type_synonym sdap_out = "bool \<times> sdap_event list"

fun sdap_step :: "(int \<Rightarrow> byte list \<Rightarrow> bool) \<Rightarrow> sdap_op \<Rightarrow> nr_sdap_entity_t list \<Rightarrow> (nr_sdap_entity_t list \<times> sdap_out) result" where
  "sdap_step p (Sdap_new g rx tx ue pdu dflt drb qs) l =
     bind_r (new_nr_sdap_entity l g rx tx ue pdu dflt drb qs) (\<lambda>(l', ev). Inr (l', True, ev))"
| "sdap_step p (Sdap_release ue drb pdu) l = Inr (nr_sdap_release_drb l ue drb pdu, True, [])"
| "sdap_step p (Sdap_delete ue pdu) l = bind_r (nr_sdap_delete_entity l ue pdu) (\<lambda>(ret, l'). Inr (l', ret, []))"
| "sdap_step p (Sdap_delete_ue ue) l = (let (ret, l') = nr_sdap_delete_ue_entities l ue in Inr (l', ret, []))"
| "sdap_step p (Sdap_reconfigure cfg ue pdu drb) l =
     bind_r (nr_reconfigure_sdap_entity l cfg ue pdu drb) (\<lambda>(l', ev). Inr (l', True, ev))"
| "sdap_step p (Sdap_req f ue rb sdu q rqi pdu) l =
     bind_r (sdap_data_req p l f ue rb sdu q rqi pdu) (\<lambda>(ret, l', ev). Inr (l', ret, ev))"
| "sdap_step p (Sdap_ind d g has pdu ue buf) l =
     bind_r (sdap_data_ind l d g has pdu ue buf) (\<lambda>(l', ev). Inr (l', True, ev))"

text \<open>An operation on the entity of a key: on the list it replaces the entity in place, on the map it updates
  the map at the key.\<close>

definition list_at ::
  "u64 \<times> int \<Rightarrow> sdap_out \<Rightarrow> (nr_sdap_entity_t \<Rightarrow> (nr_sdap_entity_t \<times> sdap_out) result) \<Rightarrow> nr_sdap_entity_t list \<Rightarrow>
   (nr_sdap_entity_t list \<times> sdap_out) result" where
  "list_at k none f l =
     (case nr_sdap_get_entity l (fst k) (snd k) of None \<Rightarrow> Inr (l, none)
      | Some e \<Rightarrow> bind_r (f e) (\<lambda>(e', out). Inr (sdap_store l (fst k) (snd k) e', out)))"

definition map_at ::
  "u64 \<times> int \<Rightarrow> sdap_out \<Rightarrow> (nr_sdap_entity_t \<Rightarrow> (nr_sdap_entity_t \<times> sdap_out) result) \<Rightarrow>
   (u64 \<times> int \<rightharpoonup> nr_sdap_entity_t) \<Rightarrow> ((u64 \<times> int \<rightharpoonup> nr_sdap_entity_t) \<times> sdap_out) result" where
  "map_at k none f m =
     (case m k of None \<Rightarrow> Inr (m, none) | Some e \<Rightarrow> bind_r (f e) (\<lambda>(e', out). Inr (m(k \<mapsto> e'), out)))"

definition sdap_clear_drb :: "int \<Rightarrow> nr_sdap_entity_t \<Rightarrow> nr_sdap_entity_t" where
  "sdap_clear_drb drb e = e\<lparr>sd_table := map (\<lambda>r. if q_drb_id r = drb then r\<lparr>q_drb_id := 0\<rparr> else r) (sd_table e)\<rparr>"

definition sdap_fresh :: "u64 \<Rightarrow> int \<Rightarrow> nr_sdap_entity_t" where
  "sdap_fresh ue pdu = \<lparr>sd_ue_id = ue, sd_default_drb = 0, sd_pdusession_id = pdu, sd_table = replicate SDAP_MAX_QFI qfi2drb_zero\<rparr>"

definition reconfigure_entity :: "nr_sdap_config_t \<Rightarrow> u64 \<Rightarrow> int \<Rightarrow> nr_sdap_entity_t \<Rightarrow> (nr_sdap_entity_t \<times> sdap_out) result" where
  "reconfigure_entity cfg ue drb e =
     (case cfg_FlowsToAdd cfg of None \<Rightarrow> Inl Null_deref
      | Some add \<Rightarrow>
          bind_r (flow_array add) (\<lambda>qfis.
          bind_r (nr_sdap_ue_qfi2drb_config e ue qfis (drb mod 256) (is_sdap_rx False cfg) (is_sdap_tx False cfg)) (\<lambda>(e, ev).
          bind_r (case cfg_FlowsToRelease cfg of None \<Rightarrow> Inr e
                  | Some rel \<Rightarrow> bind_r (flow_array rel) (sdap_delete_rules e)) (\<lambda>e. Inr (e, True, ev)))))"

fun sdap_spec_step ::
  "(int \<Rightarrow> byte list \<Rightarrow> bool) \<Rightarrow> sdap_op \<Rightarrow> (u64 \<times> int \<rightharpoonup> nr_sdap_entity_t) \<Rightarrow>
   ((u64 \<times> int \<rightharpoonup> nr_sdap_entity_t) \<times> sdap_out) result" where
  "sdap_spec_step p (Sdap_new g rx tx ue pdu dflt drb qs) m =
     (if m (ue, pdu) \<noteq> None
      then map_at (ue, pdu) (True, []) (\<lambda>e.
             if g then Inr (e, True, [])
             else bind_r (nr_sdap_ue_qfi2drb_config e ue qs drb rx tx) (\<lambda>(e', ev). Inr (e', True, ev))) m
      else bind_r (if dflt then sdap_default_rules ((sdap_fresh ue pdu)\<lparr>sd_default_drb := drb\<rparr>) qs rx tx
                   else Inr (sdap_fresh ue pdu)) (\<lambda>e. Inr (m((ue, pdu) \<mapsto> e), True, [])))"
| "sdap_spec_step p (Sdap_release ue drb pdu) m = map_at (ue, pdu) (True, []) (\<lambda>e. Inr (sdap_clear_drb drb e, True, [])) m"
| "sdap_spec_step p (Sdap_delete ue pdu) m =
     (if m = Map.empty then (if pdu * (pdu - 256) > 0 then Inr (m, False, []) else Inl Null_deref)
      else Inr (m((ue, pdu) := None), m (ue, pdu) \<noteq> None, []))"
| "sdap_spec_step p (Sdap_delete_ue ue) m = Inr (m |` {k. fst k \<noteq> ue}, \<exists>pdu. m (ue, pdu) \<noteq> None, [])"
| "sdap_spec_step p (Sdap_reconfigure cfg ue pdu drb) m = map_at (ue, pdu) (True, []) (reconfigure_entity cfg ue drb) m"
| "sdap_spec_step p (Sdap_req f ue rb sdu q rqi pdu) m =
     map_at (ue, pdu) (False, []) (\<lambda>e. bind_r (nr_sdap_tx_entity p e f ue rb sdu q rqi) (\<lambda>(ret, e', ev). Inr (e', ret, ev))) m"
| "sdap_spec_step p (Sdap_ind d g has pdu ue buf) m =
     map_at (ue, pdu) (True, []) (\<lambda>e. bind_r (nr_sdap_rx_entity e d g has pdu ue buf) (\<lambda>(e', ev). Inr (e', True, ev))) m"

definition sdap_sim ::
  "(nr_sdap_entity_t list \<times> sdap_out) result \<Rightarrow> ((u64 \<times> int \<rightharpoonup> nr_sdap_entity_t) \<times> sdap_out) result \<Rightarrow> nat \<Rightarrow> bool" where
  "sdap_sim c a n \<longleftrightarrow> bind_r c (\<lambda>(l, out). Inr (sdap_abs l, out)) = a \<and>
     (\<forall>l out. c = Inr (l, out) \<longrightarrow> sdap_reg_ok l \<and> length l \<le> n)"

lemma list_at_sim:
  assumes ok: "sdap_reg_ok l" and f: "\<And>e e' out. sdap_ok e \<Longrightarrow> f e = Inr (e', out) \<Longrightarrow> sdap_same e e'"
  shows "sdap_sim (list_at k none f l) (map_at k none f (sdap_abs l)) (length l)"
proof (cases "sdap_abs l k")
  case None
  then show ?thesis
    using ok by (simp add: sdap_sim_def list_at_def map_at_def sdap_abs_def)
next
  case (Some e)
  then have e: "sdap_ok e" "sdap_key e = k" and g: "nr_sdap_get_entity l (fst k) (snd k) = Some e"
    using sdap_reg_ok_get [OF ok Some] by (simp_all add: sdap_abs_def)
  show ?thesis
  proof (cases "f e")
    case (Inl x)
    then show ?thesis using Some g by (simp add: sdap_sim_def list_at_def map_at_def)
  next
    case (Inr b)
    obtain e' out where b: "f e = Inr (e', out)" using Inr by (cases b) auto
    have "sdap_key e' = k" "sdap_ok e'"
      using f [OF e(1) b] e(2) by (simp_all add: sdap_same_def)
    then show ?thesis
      using Some g b sdap_abs_store [of e' k l] sdap_reg_ok_store [OF ok, of e' k] sdap_list.length_store [of l k e']
      by (simp add: sdap_sim_def list_at_def map_at_def)
  qed
qed

lemma sdap_sim_weaken: "sdap_sim c a n \<Longrightarrow> n \<le> m \<Longrightarrow> sdap_sim c a m"
  by (force simp: sdap_sim_def)

text \<open>The calls that work on one entity, as operations at its key.\<close>

lemma sdap_step_at:
  "sdap_step p (Sdap_release ue drb pdu) l = list_at (ue, pdu) (True, []) (\<lambda>e. Inr (sdap_clear_drb drb e, True, [])) l"
  "sdap_step p (Sdap_reconfigure cfg ue pdu drb) l = list_at (ue, pdu) (True, []) (reconfigure_entity cfg ue drb) l"
  "sdap_step p (Sdap_req f ue rb sdu q rqi pdu) l = list_at (ue, pdu) (False, [])
     (\<lambda>e. bind_r (nr_sdap_tx_entity p e f ue rb sdu q rqi) (\<lambda>(ret, e', ev). Inr (e', ret, ev))) l"
  "sdap_step p (Sdap_ind d g has pdu ue buf) l = list_at (ue, pdu) (True, [])
     (\<lambda>e. bind_r (nr_sdap_rx_entity e d g has pdu ue buf) (\<lambda>(e', ev). Inr (e', True, ev))) l"
  by (simp_all add: list_at_def nr_sdap_release_drb_def sdap_clear_drb_def nr_reconfigure_sdap_entity_def
      reconfigure_entity_def sdap_data_req_def sdap_data_ind_def bind_r_assoc case_prod_unfold split: option.split)

lemma sdap_step_new_existing:
  assumes "sdap_abs l (ue, pdu) \<noteq> None"
  shows "sdap_step p (Sdap_new g rx tx ue pdu dflt drb qs) l = list_at (ue, pdu) (True, [])
     (\<lambda>e. if g then Inr (e, True, [])
          else bind_r (nr_sdap_ue_qfi2drb_config e ue qs drb rx tx) (\<lambda>(e', ev). Inr (e', True, ev))) l"
  using assms sdap_list.store_same [of l "(ue, pdu)"]
  by (auto simp: list_at_def new_nr_sdap_entity_def sdap_abs_def bind_r_assoc case_prod_unfold)

lemma reconfigure_same:
  assumes "sdap_ok e" and "reconfigure_entity cfg ue drb e = Inr (e', out)"
  shows "sdap_same e e'"
proof -
  obtain qs x ev where 1: "nr_sdap_ue_qfi2drb_config e ue qs (drb mod 256) (is_sdap_rx False cfg) (is_sdap_tx False cfg) = Inr (x, ev)"
    and 2: "(case cfg_FlowsToRelease cfg of None \<Rightarrow> Inr x
             | Some rel \<Rightarrow> bind_r (flow_array rel) (sdap_delete_rules x)) = Inr e'"
    using assms(2) by (auto simp: reconfigure_entity_def result_simps split: option.splits)
  have x: "sdap_same e x" using sdap_config_same [OF 1 assms(1)] .
  moreover have "sdap_same x e'"
    using 2 x sdap_delete_rules_same [of x _ e'] by (auto simp: result_simps sdap_same_ok split: option.splits)
  ultimately show ?thesis by (rule sdap_same_trans)
qed

lemma sdap_clear_same: "sdap_ok e \<Longrightarrow> sdap_same e (sdap_clear_drb drb e)"
  by (simp add: sdap_same_def sdap_clear_drb_def sdap_ok_def)

lemma sdap_new_sim:
  assumes ok: "sdap_reg_ok l"
  shows "sdap_sim (sdap_step p (Sdap_new g rx tx ue pdu dflt drb qs) l)
    (sdap_spec_step p (Sdap_new g rx tx ue pdu dflt drb qs) (sdap_abs l)) (Suc (length l))"
proof (cases "sdap_abs l (ue, pdu)")
  case None
  let ?m = "if dflt then sdap_default_rules ((sdap_fresh ue pdu)\<lparr>sd_default_drb := drb\<rparr>) qs rx tx else Inr (sdap_fresh ue pdu)"
  have step: "sdap_step p (Sdap_new g rx tx ue pdu dflt drb qs) l = bind_r ?m (\<lambda>e. Inr (e # l, True, []))"
    using None by (simp add: new_nr_sdap_entity_def sdap_abs_def sdap_fresh_def bind_r_assoc)
  have ok': "sdap_key e = (ue, pdu) \<and> sdap_ok e" if "?m = Inr e" for e
    using that sdap_default_rules_same [of "(sdap_fresh ue pdu)\<lparr>sd_default_drb := drb\<rparr>" qs rx tx e]
    by (auto simp: sdap_same_def sdap_fresh_def sdap_ok_def split: if_splits)
  have new: "(ue, pdu) \<notin> sdap_key ` set l"
    using None sdap_list.get_None_iff [of l "(ue, pdu)"] by (simp add: sdap_abs_def)
  have reg: "sdap_reg_ok (e # l)" if "?m = Inr e" for e
    using ok ok' [OF that] new by (auto simp: sdap_reg_ok_def)
  show ?thesis
    unfolding step using None ok' reg
    by (cases ?m) (auto simp del: sdap_step.simps simp: sdap_sim_def sdap_abs_Cons split del: if_split)
next
  case (Some e)
  let ?f = "\<lambda>e. if g then Inr (e, True, [])
          else bind_r (nr_sdap_ue_qfi2drb_config e ue qs drb rx tx) (\<lambda>(e', ev). Inr (e', True, ev))"
  have "sdap_sim (list_at (ue, pdu) (True, []) ?f l) (map_at (ue, pdu) (True, []) ?f (sdap_abs l)) (length l)"
    using ok by (rule list_at_sim) (auto simp: result_simps sdap_config_same split: if_splits)
  then show ?thesis
    using Some by (subst sdap_step_new_existing) (auto intro: sdap_sim_weaken)
qed

text \<open>
  The search for the entity to delete stops after \<open>SDAP_MAX_NUM_OF_ENTITIES\<close> steps, so a deletion needs a list that is not longer; the
  other calls search the whole list.
\<close>

fun sdap_searchable :: "sdap_op \<Rightarrow> nr_sdap_entity_t list \<Rightarrow> bool" where
  "sdap_searchable (Sdap_delete ue pdu) l = (length l \<le> Suc SDAP_MAX_NUM_OF_ENTITIES)"
| "sdap_searchable op l = True"

lemma sdap_step_sim:
  assumes ok: "sdap_reg_ok l" and search: "sdap_searchable op l"
  shows "sdap_sim (sdap_step p op l) (sdap_spec_step p op (sdap_abs l)) (Suc (length l))"
proof (cases op)
  case (Sdap_new g rx tx ue pdu dflt drb qs)
  then show ?thesis using sdap_new_sim [OF ok] by simp
next
  case (Sdap_delete ue pdu)
  show ?thesis
  proof (cases "l = []")
    case True
    then show ?thesis
      using Sdap_delete ok by (simp add: sdap_sim_def nr_sdap_delete_entity_def)
  next
    case False
    have len: "length l \<le> Suc SDAP_MAX_NUM_OF_ENTITIES"
      using search Sdap_delete by simp
    have abs: "sdap_abs (filter (\<lambda>x. sdap_key x \<noteq> (ue, pdu)) l) = (sdap_abs l)((ue, pdu) := None)"
      using sdap_abs_filter [of "\<lambda>k. k \<noteq> (ue, pdu)" l] by (auto simp: fun_eq_iff restrict_map_def)
    have "sdap_step p op l = Inr (filter (\<lambda>x. sdap_key x \<noteq> (ue, pdu)) l, sdap_abs l (ue, pdu) \<noteq> None, [])"
      using Sdap_delete sdap_delete_eq [OF ok len False, of ue pdu] by (simp only: sdap_step.simps bind_r.simps prod.case)
    moreover have "sdap_reg_ok (filter (\<lambda>x. sdap_key x \<noteq> (ue, pdu)) l)"
      "length (filter (\<lambda>x. sdap_key x \<noteq> (ue, pdu)) l) \<le> Suc (length l)"
      using sdap_reg_ok_filter [OF ok] by (simp_all add: le_SucI)
    ultimately show ?thesis
      using Sdap_delete False by (simp only: sdap_sim_def bind_r.simps prod.case abs) (simp add: sdap_abs_empty_iff)
  qed
next
  case (Sdap_delete_ue ue)
  have abs: "sdap_abs (filter (\<lambda>x. sd_ue_id x \<noteq> ue) l) = sdap_abs l |` {k. fst k \<noteq> ue}"
    using sdap_abs_filter [of "\<lambda>k. fst k \<noteq> ue" l] by simp
  show ?thesis
    using Sdap_delete_ue sdap_reg_ok_filter [OF ok, of "\<lambda>x. sd_ue_id x \<noteq> ue"]
    by (simp add: sdap_sim_def sdap_delete_ue_eq sdap_ue_present abs le_SucI)
next
  case (Sdap_release ue drb pdu)
  show ?thesis
    unfolding Sdap_release sdap_step_at sdap_spec_step.simps
    by (rule sdap_sim_weaken [OF list_at_sim [OF ok]]) (auto simp: sdap_clear_same)
next
  case (Sdap_reconfigure cfg ue pdu drb)
  show ?thesis
    unfolding Sdap_reconfigure sdap_step_at sdap_spec_step.simps
    by (rule sdap_sim_weaken [OF list_at_sim [OF ok]]) (auto simp: reconfigure_same)
next
  case (Sdap_req f ue rb sdu q rqi pdu)
  show ?thesis
    unfolding Sdap_req sdap_step_at sdap_spec_step.simps
    by (rule sdap_sim_weaken [OF list_at_sim [OF ok]]) (auto simp: result_simps dest: sdap_tx_same)
next
  case (Sdap_ind d g has pdu ue buf)
  show ?thesis
    unfolding Sdap_ind sdap_step_at sdap_spec_step.simps
    by (rule sdap_sim_weaken [OF list_at_sim [OF ok]]) (auto simp: result_simps dest: sdap_rx_same)
qed

fun sdap_run :: "(int \<Rightarrow> byte list \<Rightarrow> bool) \<Rightarrow> sdap_op list \<Rightarrow> nr_sdap_entity_t list \<Rightarrow>
  (nr_sdap_entity_t list \<times> sdap_out list) result" where
  "sdap_run p [] l = Inr (l, [])"
| "sdap_run p (op # ops) l =
     bind_r (sdap_step p op l) (\<lambda>(l, out). bind_r (sdap_run p ops l) (\<lambda>(l, outs). Inr (l, out # outs)))"

fun sdap_spec_run :: "(int \<Rightarrow> byte list \<Rightarrow> bool) \<Rightarrow> sdap_op list \<Rightarrow> (u64 \<times> int \<rightharpoonup> nr_sdap_entity_t) \<Rightarrow>
  ((u64 \<times> int \<rightharpoonup> nr_sdap_entity_t) \<times> sdap_out list) result" where
  "sdap_spec_run p [] m = Inr (m, [])"
| "sdap_spec_run p (op # ops) m =
     bind_r (sdap_spec_step p op m) (\<lambda>(m, out). bind_r (sdap_spec_run p ops m) (\<lambda>(m, outs). Inr (m, out # outs)))"

text \<open>Every deletion of a sequence of calls finds a list it can search.\<close>

fun sdap_run_searchable :: "(int \<Rightarrow> byte list \<Rightarrow> bool) \<Rightarrow> sdap_op list \<Rightarrow> nr_sdap_entity_t list \<Rightarrow> bool" where
  "sdap_run_searchable p [] l = True"
| "sdap_run_searchable p (op # ops) l \<longleftrightarrow>
     sdap_searchable op l \<and> (case sdap_step p op l of Inl _ \<Rightarrow> True | Inr (l', _) \<Rightarrow> sdap_run_searchable p ops l')"

lemma sdap_run_sim:
  assumes "sdap_reg_ok l" and "sdap_run_searchable p ops l"
  shows "bind_r (sdap_run p ops l) (\<lambda>(l, outs). Inr (sdap_abs l, outs)) = sdap_spec_run p ops (sdap_abs l) \<and>
    (\<forall>l' outs. sdap_run p ops l = Inr (l', outs) \<longrightarrow> sdap_reg_ok l')"
  using assms
proof (induction ops arbitrary: l)
  case (Cons op ops)
  have sim: "sdap_sim (sdap_step p op l) (sdap_spec_step p op (sdap_abs l)) (Suc (length l))"
    using Cons.prems by (intro sdap_step_sim) simp_all
  show ?case
  proof (cases "sdap_step p op l")
    case (Inl x)
    then have "sdap_spec_step p op (sdap_abs l) = Inl x" using sim unfolding sdap_sim_def by (metis bind_r.simps(1))
    then show ?thesis using Inl by simp
  next
    case (Inr b)
    obtain l1 out where 1: "sdap_step p op l = Inr (l1, out)" using Inr by (cases b) auto
    have s: "sdap_spec_step p op (sdap_abs l) = Inr (sdap_abs l1, out)" and l1: "sdap_reg_ok l1"
      using sim 1 by (simp_all add: sdap_sim_def)
    have IH: "bind_r (sdap_run p ops l1) (\<lambda>(l, outs). Inr (sdap_abs l, outs)) = sdap_spec_run p ops (sdap_abs l1) \<and>
        (\<forall>l' outs. sdap_run p ops l1 = Inr (l', outs) \<longrightarrow> sdap_reg_ok l')"
      using Cons.prems(2) 1 l1 by (intro Cons.IH) simp_all
    show ?thesis
    proof (cases "sdap_run p ops l1")
      case (Inl x)
      then have "sdap_spec_run p ops (sdap_abs l1) = Inl x" using IH by (metis bind_r.simps(1))
      then show ?thesis using 1 s Inl by simp
    next
      case (Inr c)
      then have "sdap_spec_run p ops (sdap_abs l1) = Inr (sdap_abs (fst c), snd c)" using IH by (cases c) (metis bind_r.simps(2) fst_conv snd_conv case_prod_conv)
      then show ?thesis using 1 s Inr IH by (cases c) simp
    qed
  qed
qed simp


subsection \<open>Properties\<close>

text \<open>C14. The list of SDAP entities refines a map from UE and PDU session to entity: along a sequence of creations,
  releases of bearers, deletions, reconfigurations and data transfers, of any length, the calls return, send and fail exactly
  as the same calls on the map. The one condition is that an entity is deleted only from a list of at most 1281 entities, the bound of
  the search loop plus one; the other calls have no bound.\<close>

theorem sdap_registry_refines_map:
  assumes "sdap_reg_ok l" and "sdap_run_searchable pdcp_ok ops l"
  shows "bind_r (sdap_run pdcp_ok ops l) (\<lambda>(l', outs). Inr (sdap_abs l', outs)) = sdap_spec_run pdcp_ok ops (sdap_abs l)"
  using sdap_run_sim [OF assms] by blast

theorem sdap_registry_refines_map_witness:
  "bind_r (sdap_run (\<lambda>_ _. True) [Sdap_new True False True 1 10 True 1 [5], Sdap_req True 1 4 [7] 5 False 10, Sdap_delete 1 10] [])
     (\<lambda>(l', outs). Inr (sdap_abs l', outs)) =
   sdap_spec_run (\<lambda>_ _. True) [Sdap_new True False True 1 10 True 1 [5], Sdap_req True 1 4 [7] 5 False 10, Sdap_delete 1 10] Map.empty \<and>
   sdap_run (\<lambda>_ _. True) [Sdap_new True False True 1 10 True 1 [5], Sdap_req True 1 4 [7] 5 False 10, Sdap_delete 1 10] [] =
     Inr ([], [(True, []), (True, [Pdcp_data_req 1 1 [5, 7]]), (True, [])])"
proof -
  let ?ops = "[Sdap_new True False True 1 10 True 1 [5], Sdap_req True 1 4 [7] 5 False 10, Sdap_delete 1 10]"
  have "sdap_run (\<lambda>_ _. True) ?ops [] = Inr ([], [(True, []), (True, [Pdcp_data_req 1 1 [5, 7]]), (True, [])])"
      "sdap_run_searchable (\<lambda>_ _. True) ?ops []"
    by code_simp+
  moreover have "sdap_reg_ok []"
    by (simp add: sdap_reg_ok_def)
  ultimately show ?thesis
    using sdap_registry_refines_map [of "[]" "\<lambda>_ _. True" ?ops]
    by (simp del: sdap_run.simps sdap_spec_run.simps sdap_run_searchable.simps)
qed

text \<open>Along any such sequence no two entities of the list have the same UE and session, and every table keeps
  its 64 rules.\<close>

theorem sdap_registry_invariant:
  assumes "sdap_reg_ok l" and "sdap_run_searchable pdcp_ok ops l"
    and "sdap_run pdcp_ok ops l = Inr (l', outs)"
  shows "sdap_reg_ok l'"
  using sdap_run_sim [OF assms(1,2)] assms(3) by blast

text \<open>After a bearer is released, no SDU of the session is submitted to it any more, whatever the flow, unless
  it is the default bearer (which the release keeps) or the one the caller names for flows without a rule.\<close>

theorem sdap_released_bearer_unused:
  assumes "sdap_reg_ok l" and "sdap_abs l (ue, pdu) = Some e" and "drb \<noteq> 0" and "sd_default_drb e \<noteq> drb" and "rb_id \<noteq> drb"
    and "sdap_data_req pdcp_ok (nr_sdap_release_drb l ue drb pdu) f ue rb_id sdu qfi rqi pdu = Inr (ret, l', ev)"
  shows "Pdcp_data_req ue drb x \<notin> set ev"
proof -
  let ?e = "sdap_clear_drb drb e"
  have e: "sdap_ok ?e" "sdap_key ?e = (ue, pdu)"
    using sdap_reg_ok_get [OF assms(1,2)] sdap_clear_same [of e drb] by (simp_all add: sdap_same_def)
  have "nr_sdap_release_drb l ue drb pdu = sdap_store l ue pdu ?e"
    using assms(2) by (simp add: nr_sdap_release_drb_def sdap_abs_def sdap_clear_drb_def)
  moreover have "nr_sdap_get_entity (sdap_store l ue pdu ?e) ue pdu = Some ?e"
    using sdap_list.get_store [OF e(2), of l "(ue, pdu)"] assms(2) by (simp add: sdap_abs_def)
  ultimately obtain e' where tx: "nr_sdap_tx_entity pdcp_ok ?e f ue rb_id sdu qfi rqi = Inr (ret, e', ev)"
    using assms(6) by (auto simp: sdap_data_req_def result_simps)
  have q: "qfi < 64"
    using tx e(1) by (auto simp: nr_sdap_tx_entity_def split: if_splits)
  have "sdap_bearer ?e qfi \<noteq> drb"
    using q assms(3,4) e(1) by (simp add: sdap_bearer_def sdap_clear_drb_def sdap_ok_def)
  then show ?thesis
    using tx assms(5) by (auto simp: sdap_tx_eq [OF e(1) q] Let_def split: if_splits)
qed

theorem sdap_released_bearer_unused_witness:
  "\<exists>ret l' ev. sdap_data_req (\<lambda>_ _. True) (nr_sdap_release_drb [sdap_example] 1 2 10) True 1 4 [7] 5 False 10 = Inr (ret, l', ev) \<and>
     Pdcp_data_req 1 2 [5, 7] \<notin> set ev \<and> ev \<noteq> []"
proof -
  have ok: "sdap_reg_ok [sdap_example]" and get: "sdap_abs [sdap_example] (1, 10) = Some sdap_example"
    using sdap_example_ok by (simp_all add: sdap_reg_ok_def sdap_abs_Cons sdap_example_def)
  have "(case sdap_data_req (\<lambda>_ _. True) (nr_sdap_release_drb [sdap_example] 1 2 10) True 1 4 [7] 5 False 10 of
      Inr (ret, l', ev) \<Rightarrow> ev \<noteq> [] | Inl _ \<Rightarrow> False)"
    by code_simp
  then obtain ret l' ev where r: "sdap_data_req (\<lambda>_ _. True) (nr_sdap_release_drb [sdap_example] 1 2 10) True 1 4 [7] 5 False 10 =
      Inr (ret, l', ev)" "ev \<noteq> []"
    by (auto split: sum.splits prod.splits)
  moreover have "Pdcp_data_req 1 2 [5, 7] \<notin> set ev"
    by (rule sdap_released_bearer_unused [OF ok get _ _ _ r(1)]) (simp_all add: sdap_example_def)
  ultimately show ?thesis
    by blast
qed

end
