(* ===== verification/Ue_Managers.thy ===== *)
theory Ue_Managers
  imports Pdcp_Peer Rlc_Am
begin

text \<open>
  The tables of UE contexts: \<open>nr_pdcp_ue_manager.c\<close> and \<open>nr_rlc_ue_manager.c\<close>. A manager holds an array of pointers to
  contexts, one for each UE identifier, and a context holds the entities of its bearers. The array is a list of
  contexts whose length is \<open>ue_count\<close>. All calls are made with the lock of the manager held, so they are functions of
  the table. A caller that got a context changes it through the pointer: the context is replaced in the list
  (\<open>ue_store\<close>). The locale \<open>ue_table\<close> is what the two managers promise: the list behaves like a map from identifiers
  to contexts, in every sequence of calls.
\<close>

text \<open>The constant \<open>MAX_DRBS_PER_UE\<close>: the size of the arrays of data bearers.\<close>

definition ue_max_drbs :: nat where
  "ue_max_drbs = 32"


subsection \<open>Sequences of calls\<close>

text \<open>The list with the context of \<open>k\<close> changed to \<open>x\<close>.\<close>

definition ue_store :: "('u \<Rightarrow> 'k) \<Rightarrow> 'u list \<Rightarrow> 'k \<Rightarrow> 'u \<Rightarrow> 'u list" where
  "ue_store key l k x = map (\<lambda>u. if key u = k then x else u) l"

text \<open>The map that a list of contexts stands for.\<close>

fun ue_map :: "('u \<Rightarrow> 'k) \<Rightarrow> 'u list \<Rightarrow> 'k \<rightharpoonup> 'u" where
  "ue_map key [] = Map.empty"
| "ue_map key (u # l) = (ue_map key l)(key u \<mapsto> u)"

text \<open>A new entity of a signalling or of a data bearer, with the identifier of the bearer.\<close>

datatype 'e bearer = Srb int 'e | Drb int 'e

text \<open>
  The calls: look up or create a context, remove it, add an entity to it. A call returns what a removal released.
\<close>

datatype ('k, 'e) ue_op = Ue_get 'k | Ue_remove 'k | Ue_add 'k "'e bearer"

fun manager_step ::
  "('u \<Rightarrow> 'k) \<Rightarrow> ('u list \<Rightarrow> 'k \<Rightarrow> 'u \<times> 'u list) \<Rightarrow> ('u list \<Rightarrow> 'k \<Rightarrow> ('d option \<times> 'u list) result) \<Rightarrow>
   ('u \<Rightarrow> 'e bearer \<Rightarrow> 'u result) \<Rightarrow> 'u list \<Rightarrow> ('k, 'e) ue_op \<Rightarrow> ('d option \<times> 'u list) result" where
  "manager_step key get_ue remove_ue add_rb l (Ue_get k) = Inr (None, snd (get_ue l k))"
| "manager_step key get_ue remove_ue add_rb l (Ue_remove k) = remove_ue l k"
| "manager_step key get_ue remove_ue add_rb l (Ue_add k b) =
     (case get_ue l k of (u, l') \<Rightarrow> bind_r (add_rb u b) (\<lambda>u'. Inr (None, ue_store key l' k u')))"

text \<open>What the calls mean for a map.\<close>

fun map_step ::
  "('k \<Rightarrow> 'u) \<Rightarrow> ('u \<Rightarrow> 'd result) \<Rightarrow> ('u \<Rightarrow> 'e bearer \<Rightarrow> 'u result) \<Rightarrow>
   ('k \<rightharpoonup> 'u) \<Rightarrow> ('k, 'e) ue_op \<Rightarrow> ('d option \<times> ('k \<rightharpoonup> 'u)) result" where
  "map_step zero release add_rb m (Ue_get k) =
     Inr (None, m(k \<mapsto> (case m k of None \<Rightarrow> zero k | Some u \<Rightarrow> u)))"
| "map_step zero release add_rb m (Ue_remove k) =
     (case m k of None \<Rightarrow> Inr (None, m) | Some u \<Rightarrow> bind_r (release u) (\<lambda>d. Inr (Some d, m(k := None))))"
| "map_step zero release add_rb m (Ue_add k b) =
     bind_r (add_rb (case m k of None \<Rightarrow> zero k | Some u \<Rightarrow> u) b) (\<lambda>u'. Inr (None, m(k \<mapsto> u')))"

text \<open>A sequence of calls, with what they released in order.\<close>

fun calls :: "('s \<Rightarrow> 'o \<Rightarrow> ('d option \<times> 's) result) \<Rightarrow> 's \<Rightarrow> 'o list \<Rightarrow> ('d option list \<times> 's) result" where
  "calls step s [] = Inr ([], s)"
| "calls step s (c # cs) =
     bind_r (step s c) (\<lambda>(d, s'). bind_r (calls step s' cs) (\<lambda>(ds, s''). Inr (d # ds, s'')))"


lemma bind_r_case: "bind_r m f = (case m of Inl e \<Rightarrow> Inl e | Inr x \<Rightarrow> f x)"
  by (cases m) simp_all


subsection \<open>What a manager promises\<close>

locale ue_table =
  fixes key :: "'u \<Rightarrow> 'k" and zero :: "'k \<Rightarrow> 'u" and release :: "'u \<Rightarrow> 'd result"
    and get_ue :: "'u list \<Rightarrow> 'k \<Rightarrow> 'u \<times> 'u list"
    and remove_ue :: "'u list \<Rightarrow> 'k \<Rightarrow> ('d option \<times> 'u list) result"
    and add_rb :: "'u \<Rightarrow> 'e bearer \<Rightarrow> 'u result"
  assumes key_zero: "key (zero k) = k"
    and get_Nil: "get_ue [] k = (zero k, [zero k])"
    and get_Cons: "get_ue (u # l) k = (if key u = k then (u, u # l) else apsnd ((#) u) (get_ue l k))"
    and remove_Nil: "remove_ue [] k = Inr (None, [])"
    and remove_Cons: "remove_ue (u # l) k =
      (if key u = k then bind_r (release u) (\<lambda>d. Inr (Some d, l))
       else bind_r (remove_ue l k) (\<lambda>(d, l'). Inr (d, u # l')))"
    and add_key: "add_rb u b = Inr u' \<Longrightarrow> key u' = key u"
begin

lemma map_None: "ue_map key l k = None \<longleftrightarrow> k \<notin> key ` set l"
  by (induction l) auto

lemma map_Some: "ue_map key l k = Some u \<Longrightarrow> key u = k \<and> u \<in> set l"
  by (induction l) (auto split: if_splits)

lemma map_member: "distinct (map key l) \<Longrightarrow> u \<in> set l \<Longrightarrow> ue_map key l (key u) = Some u"
  by (induction l) (auto simp: image_iff)

lemma get_ue_fst: "fst (get_ue l k) = (case ue_map key l k of None \<Rightarrow> zero k | Some u \<Rightarrow> u)"
  by (induction l) (auto simp: get_Nil get_Cons)

lemma get_ue_map: "ue_map key (snd (get_ue l k)) = (ue_map key l)(k \<mapsto> fst (get_ue l k))"
  by (induction l) (auto simp: get_Nil get_Cons key_zero fun_eq_iff)

lemma get_ue_keys: "map key (snd (get_ue l k)) = (if k \<in> key ` set l then map key l else map key l @ [k])"
  by (induction l) (auto simp: get_Nil get_Cons key_zero)

lemma get_ue_set: "set (snd (get_ue l k)) \<subseteq> insert (zero k) (set l)"
  by (induction l) (auto simp: get_Nil get_Cons)

lemma get_ue_key: "key (fst (get_ue l k)) = k"
  by (induction l) (auto simp: get_Nil get_Cons key_zero)

lemma get_ue_mem: "fst (get_ue l k) \<in> insert (zero k) (set l)"
  by (induction l) (auto simp: get_Nil get_Cons)

lemma get_ue_in: "k \<in> key ` set (snd (get_ue l k))"
  by (induction l) (auto simp: get_Nil get_Cons key_zero)

lemma remove_ue_eq:
  "distinct (map key l) \<Longrightarrow> remove_ue l k =
     (case ue_map key l k of None \<Rightarrow> Inr (None, l)
      | Some u \<Rightarrow> bind_r (release u) (\<lambda>d. Inr (Some d, filter (\<lambda>u. key u \<noteq> k) l)))"
proof (induction l)
  case (Cons v l)
  have "key v = k \<Longrightarrow> filter (\<lambda>u. key u \<noteq> k) l = l"
    using Cons.prems by (auto simp: filter_id_conv image_iff)
  with Cons show ?case
    by (auto simp: remove_Cons bind_r_case split: option.splits sum.splits)
qed (simp add: remove_Nil)

lemma filter_map: "ue_map key (filter (\<lambda>u. key u \<noteq> k) l) = (ue_map key l)(k := None)"
  by (induction l) (auto simp: fun_eq_iff)

lemma store_keys: "key x = k \<Longrightarrow> map key (ue_store key l k x) = map key l"
  by (auto simp: ue_store_def)

lemma store_map: "key x = k \<Longrightarrow> ue_map key (ue_store key l k x) j =
    (if j = k \<and> k \<in> key ` set l then Some x else ue_map key l j)"
  by (induction l) (auto simp: ue_store_def)

text \<open>One call: the map changes as the specification says, the identifiers stay distinct.\<close>

lemma step_map:
  assumes "distinct (map key l)"
  shows "map_step zero release add_rb (ue_map key l) c =
           bind_r (manager_step key get_ue remove_ue add_rb l c) (\<lambda>(d, l'). Inr (d, ue_map key l'))"
proof (cases c)
  case (Ue_add k b)
  have "ue_map key (ue_store key (snd (get_ue l k)) k u') = (ue_map key l)(k \<mapsto> u')"
    if "add_rb (fst (get_ue l k)) b = Inr u'" for u'
    using add_key[OF that] get_ue_in[of k l]
    by (auto simp: get_ue_key store_map get_ue_map fun_eq_iff)
  then show ?thesis
    using Ue_add by (auto simp: get_ue_fst[symmetric] bind_r_case split: prod.splits sum.splits)
qed (use assms in \<open>auto simp: get_ue_map get_ue_fst remove_ue_eq filter_map bind_r_case split: option.splits sum.splits\<close>)

lemma step_distinct:
  assumes "distinct (map key l)" and "manager_step key get_ue remove_ue add_rb l c = Inr (d, l')"
  shows "distinct (map key l')"
proof (cases c)
  case (Ue_add k b)
  then obtain u' where "add_rb (fst (get_ue l k)) b = Inr u'" "l' = ue_store key (snd (get_ue l k)) k u'"
    using assms(2) by (auto simp: bind_r_case split: prod.splits sum.splits)
  then have "map key l' = map key (snd (get_ue l k))"
    using add_key get_ue_key store_keys by metis
  then show ?thesis
    using assms(1) by (auto simp: get_ue_keys)
qed (use assms in \<open>auto simp: get_ue_keys remove_ue_eq distinct_map_filter bind_r_case split: option.splits sum.splits\<close>)

lemma calls_map:
  "distinct (map key l) \<Longrightarrow> calls (map_step zero release add_rb) (ue_map key l) cs =
     bind_r (calls (manager_step key get_ue remove_ue add_rb) l cs) (\<lambda>(ds, l'). Inr (ds, ue_map key l'))"
proof (induction cs arbitrary: l)
  case (Cons c cs)
  show ?case
  proof (cases "manager_step key get_ue remove_ue add_rb l c")
    case (Inr r)
    obtain d l1 where "r = (d, l1)"
      by (cases r)
    with Inr have 1: "manager_step key get_ue remove_ue add_rb l c = Inr (d, l1)"
      by simp
    show ?thesis
      using Cons.IH[OF step_distinct[OF Cons.prems 1]]
      by (simp add: step_map[OF Cons.prems] 1 bind_r_assoc split_def)
  qed (simp add: step_map[OF Cons.prems])
qed simp

lemma calls_distinct:
  "calls (manager_step key get_ue remove_ue add_rb) l cs = Inr (ds, l') \<Longrightarrow> distinct (map key l) \<Longrightarrow> distinct (map key l')"
proof (induction cs arbitrary: l ds)
  case (Cons c cs)
  obtain d l1 ds1 where 1: "manager_step key get_ue remove_ue add_rb l c = Inr (d, l1)"
      "calls (manager_step key get_ue remove_ue add_rb) l1 cs = Inr (ds1, l')"
    using Cons.prems(1) by (auto simp: bind_r_case split: sum.splits prod.splits)
  show ?case
    by (rule Cons.IH[OF 1(2) step_distinct[OF Cons.prems(2) 1(1)]])
qed simp

text \<open>A property of contexts that new contexts have and that additions keep holds for every context of the table.\<close>

lemma step_all:
  assumes "\<And>k. P (zero k)" and "\<And>u b u'. P u \<Longrightarrow> add_rb u b = Inr u' \<Longrightarrow> P u'"
    and "distinct (map key l)" and "\<forall>u\<in>set l. P u" and "manager_step key get_ue remove_ue add_rb l c = Inr (d, l')"
  shows "\<forall>u\<in>set l'. P u"
proof (cases c)
  case (Ue_add k b)
  then obtain u' where u': "add_rb (fst (get_ue l k)) b = Inr u'" "l' = ue_store key (snd (get_ue l k)) k u'"
    using assms(5) by (auto simp: bind_r_case split: prod.splits sum.splits)
  have "P (fst (get_ue l k))"
    using assms(1)[of k] assms(4) get_ue_mem[of l k] by auto
  then have "P u'"
    by (rule assms(2)[OF _ u'(1)])
  moreover have "\<forall>u\<in>set (snd (get_ue l k)). P u"
    using assms(1)[of k] assms(4) get_ue_set[of l k] by auto
  ultimately show ?thesis
    by (auto simp: u'(2) ue_store_def)
next
  case (Ue_get k)
  then show ?thesis
    using assms(1)[of k] assms(4,5) get_ue_set[of l k] by auto
qed (use assms(3-5) in \<open>auto simp: remove_ue_eq bind_r_case split: option.splits sum.splits\<close>)

lemma calls_all:
  assumes "\<And>k. P (zero k)" and "\<And>u b u'. P u \<Longrightarrow> add_rb u b = Inr u' \<Longrightarrow> P u'"
  shows "calls (manager_step key get_ue remove_ue add_rb) l cs = Inr (ds, l') \<Longrightarrow> distinct (map key l) \<Longrightarrow>
    \<forall>u\<in>set l. P u \<Longrightarrow> \<forall>u\<in>set l'. P u"
proof (induction cs arbitrary: l ds)
  case (Cons c cs)
  obtain d l1 ds1 where 1: "manager_step key get_ue remove_ue add_rb l c = Inr (d, l1)"
      "calls (manager_step key get_ue remove_ue add_rb) l1 cs = Inr (ds1, l')"
    using Cons.prems(1) by (auto simp: bind_r_case split: sum.splits prod.splits)
  have "\<forall>u\<in>set l1. P u"
    by (rule step_all[where P = P, OF assms(1) _ Cons.prems(2,3) 1(1)]) (rule assms(2))
  then show ?case
    by (rule Cons.IH[OF 1(2) step_distinct[OF Cons.prems(2) 1(1)]])
qed simp

end


subsection \<open>The PDCP manager\<close>

record nr_pdcp_ue_t =
  pu_ue_id :: u64
  pu_srb :: "nr_pdcp_entity_t option list"
  pu_drb :: "nr_pdcp_entity_t option list"

record nr_pdcp_ue_manager_internal_t =
  pm_ue_list :: "nr_pdcp_ue_t list"
  pm_enb_flag :: int

definition new_nr_pdcp_ue_manager :: "int \<Rightarrow> nr_pdcp_ue_manager_internal_t" where
  "new_nr_pdcp_ue_manager enb_flag = \<lparr>pm_ue_list = [], pm_enb_flag = enb_flag\<rparr>"

definition nr_pdcp_manager_get_enb_flag :: "nr_pdcp_ue_manager_internal_t \<Rightarrow> int" where
  "nr_pdcp_manager_get_enb_flag m = pm_enb_flag m"

text \<open>A context as \<open>calloc\<close> gives it, with its identifier.\<close>

definition nr_pdcp_new_ue :: "u64 \<Rightarrow> nr_pdcp_ue_t" where
  "nr_pdcp_new_ue UEid = \<lparr>pu_ue_id = UEid, pu_srb = replicate 3 None, pu_drb = replicate ue_max_drbs None\<rparr>"

fun nr_pdcp_manager_get_ue :: "nr_pdcp_ue_t list \<Rightarrow> u64 \<Rightarrow> nr_pdcp_ue_t \<times> nr_pdcp_ue_t list" where
  "nr_pdcp_manager_get_ue [] UEid = (nr_pdcp_new_ue UEid, [nr_pdcp_new_ue UEid])"
| "nr_pdcp_manager_get_ue (u # l) UEid =
     (if pu_ue_id u = UEid then (u, u # l) else apsnd ((#) u) (nr_pdcp_manager_get_ue l UEid))"

text \<open>The entities that \<open>remove_ue\<close> deletes: the first two signalling bearers and the first five data bearers.\<close>

definition pdcp_deleted :: "nr_pdcp_ue_t \<Rightarrow> nr_pdcp_entity_t list" where
  "pdcp_deleted u = List.map_filter id (take 2 (pu_srb u)) @ List.map_filter id (take 5 (pu_drb u))"

definition pdcp_release :: "nr_pdcp_ue_t \<Rightarrow> nr_pdcp_entity_t list result" where
  "pdcp_release u = Inr (map nr_pdcp_entity_delete (pdcp_deleted u))"

fun nr_pdcp_manager_remove_ue ::
  "nr_pdcp_ue_t list \<Rightarrow> u64 \<Rightarrow> (nr_pdcp_entity_t list option \<times> nr_pdcp_ue_t list) result" where
  "nr_pdcp_manager_remove_ue [] UEid = Inr (None, [])"
| "nr_pdcp_manager_remove_ue (u # l) UEid =
     (if pu_ue_id u = UEid then bind_r (pdcp_release u) (\<lambda>d. Inr (Some d, l))
      else bind_r (nr_pdcp_manager_remove_ue l UEid) (\<lambda>(d, l'). Inr (d, u # l')))"

definition nr_pdcp_ue_add_srb_pdcp_entity :: "nr_pdcp_ue_t \<Rightarrow> int \<Rightarrow> nr_pdcp_entity_t \<Rightarrow> nr_pdcp_ue_t result" where
  "nr_pdcp_ue_add_srb_pdcp_entity u srb_id entity =
     (if srb_id < 1 \<or> srb_id > 2 then Inl Fatal_exit
      else if pu_srb u ! nat (srb_id - 1) \<noteq> None then Inl Fatal_exit
      else Inr (u\<lparr>pu_srb := (pu_srb u)[nat (srb_id - 1) := Some entity]\<rparr>))"

definition nr_pdcp_ue_add_drb_pdcp_entity :: "nr_pdcp_ue_t \<Rightarrow> int \<Rightarrow> nr_pdcp_entity_t \<Rightarrow> nr_pdcp_ue_t result" where
  "nr_pdcp_ue_add_drb_pdcp_entity u drb_id entity =
     (if drb_id < 1 \<or> drb_id > 5 then Inl Fatal_exit
      else if pu_drb u ! nat (drb_id - 1) \<noteq> None then Inl Fatal_exit
      else Inr (u\<lparr>pu_drb := (pu_drb u)[nat (drb_id - 1) := Some entity]\<rparr>))"

definition nr_pdcp_manager_get_ue_list :: "nr_pdcp_ue_manager_internal_t \<Rightarrow> nr_pdcp_ue_t list" where
  "nr_pdcp_manager_get_ue_list m = pm_ue_list m"

definition nr_pdcp_manager_get_ue_count :: "nr_pdcp_ue_manager_internal_t \<Rightarrow> int" where
  "nr_pdcp_manager_get_ue_count m = int (length (pm_ue_list m))"

definition nr_pdcp_get_first_ue_id :: "nr_pdcp_ue_manager_internal_t \<Rightarrow> u64 option" where
  "nr_pdcp_get_first_ue_id m = (case pm_ue_list m of [] \<Rightarrow> None | u # _ \<Rightarrow> Some (pu_ue_id u))"

fun pdcp_add_rb :: "nr_pdcp_ue_t \<Rightarrow> nr_pdcp_entity_t bearer \<Rightarrow> nr_pdcp_ue_t result" where
  "pdcp_add_rb u (Srb n e) = nr_pdcp_ue_add_srb_pdcp_entity u n e"
| "pdcp_add_rb u (Drb n e) = nr_pdcp_ue_add_drb_pdcp_entity u n e"

abbreviation pdcp_manager_step where
  "pdcp_manager_step \<equiv> manager_step pu_ue_id nr_pdcp_manager_get_ue nr_pdcp_manager_remove_ue pdcp_add_rb"

interpretation pm: ue_table pu_ue_id nr_pdcp_new_ue pdcp_release nr_pdcp_manager_get_ue nr_pdcp_manager_remove_ue
  pdcp_add_rb
proof unfold_locales
  fix u b u'
  show "pdcp_add_rb u b = Inr u' \<Longrightarrow> pu_ue_id u' = pu_ue_id u"
    by (cases b) (auto simp: nr_pdcp_ue_add_srb_pdcp_entity_def nr_pdcp_ue_add_drb_pdcp_entity_def split: if_splits)
qed (simp_all add: nr_pdcp_new_ue_def)

text \<open>The slots that no call fills: the third signalling bearer and the data bearers from the sixth on.\<close>

definition pdcp_ue_ok :: "nr_pdcp_ue_t \<Rightarrow> bool" where
  "pdcp_ue_ok u \<longleftrightarrow> length (pu_srb u) = 3 \<and> length (pu_drb u) = ue_max_drbs \<and>
     (\<forall>x\<in>set (drop 2 (pu_srb u)). x = None) \<and> (\<forall>x\<in>set (drop 5 (pu_drb u)). x = None)"

text \<open>The entities of all slots.\<close>

definition pdcp_entities :: "nr_pdcp_ue_t \<Rightarrow> nr_pdcp_entity_t list" where
  "pdcp_entities u = List.map_filter id (pu_srb u) @ List.map_filter id (pu_drb u)"

lemma map_filter_take: "\<forall>x\<in>set (drop n xs). x = None \<Longrightarrow> List.map_filter id (take n xs) = List.map_filter id xs"
proof -
  assume "\<forall>x\<in>set (drop n xs). x = None"
  then have "List.map_filter id (drop n xs) = []"
    by (simp add: List.map_filter_def filter_empty_conv)
  moreover have "List.map_filter id xs = List.map_filter id (take n xs) @ List.map_filter id (drop n xs)"
    by (subst append_take_drop_id[of n xs, symmetric]) (simp only: List.map_filter_def filter_append map_append)
  ultimately show ?thesis
    by simp
qed

lemma pdcp_ok_deleted: "pdcp_ue_ok u \<Longrightarrow> pdcp_deleted u = pdcp_entities u"
  by (simp add: pdcp_ue_ok_def pdcp_deleted_def pdcp_entities_def map_filter_take)

lemma pdcp_new_ok: "pdcp_ue_ok (nr_pdcp_new_ue k)"
  by (simp add: pdcp_ue_ok_def nr_pdcp_new_ue_def)

lemma pdcp_add_ok: "pdcp_ue_ok u \<Longrightarrow> pdcp_add_rb u b = Inr u' \<Longrightarrow> pdcp_ue_ok u'"
  by (cases b) (simp_all add: pdcp_ue_ok_def nr_pdcp_ue_add_srb_pdcp_entity_def nr_pdcp_ue_add_drb_pdcp_entity_def
      drop_update_cancel nat_less_iff split: if_split_asm, force+)


subsection \<open>The RLC manager\<close>

text \<open>An entity of one of the three modes behind the common pointer, and its destructor: the remaining store of the entity.\<close>

datatype rlc_entity = Rlc_tm nr_rlc_entity_tm_t | Rlc_um nr_rlc_entity_um_t | Rlc_am nr_rlc_entity_am_t

fun rlc_delete_entity :: "rlc_entity \<Rightarrow> sdu_mem_t result" where
  "rlc_delete_entity (Rlc_tm e) = nr_rlc_entity_tm_delete e"
| "rlc_delete_entity (Rlc_um e) = nr_rlc_entity_um_delete e"
| "rlc_delete_entity (Rlc_am e) = nr_rlc_entity_am_delete e"

datatype nr_rlc_rb_t = NR_RLC_NONE | NR_RLC_SRB int | NR_RLC_DRB int

text \<open>The handler of a radio link failure is a function pointer: \<open>None\<close> is the null pointer.\<close>

record nr_rlc_ue_t =
  ru_ue_id :: int
  ru_srb0 :: "rlc_entity option"
  ru_srb :: "rlc_entity option list"
  ru_drb :: "rlc_entity option list"
  ru_lcid2rb :: "nr_rlc_rb_t list"
  ru_rlf_handler :: "nat option"

record nr_rlc_ue_manager_internal_t =
  rm_ue_list :: "nr_rlc_ue_t list"
  rm_enb_flag :: int

definition new_nr_rlc_ue_manager :: "int \<Rightarrow> nr_rlc_ue_manager_internal_t" where
  "new_nr_rlc_ue_manager enb_flag = \<lparr>rm_ue_list = [], rm_enb_flag = enb_flag\<rparr>"

definition nr_rlc_manager_get_enb_flag :: "nr_rlc_ue_manager_internal_t \<Rightarrow> int" where
  "nr_rlc_manager_get_enb_flag m = rm_enb_flag m"

definition nr_rlc_new_ue :: "int \<Rightarrow> nr_rlc_ue_t" where
  "nr_rlc_new_ue ue_id = \<lparr>ru_ue_id = ue_id, ru_srb0 = None, ru_srb = replicate 3 None,
     ru_drb = replicate ue_max_drbs None, ru_lcid2rb = replicate 32 NR_RLC_NONE, ru_rlf_handler = None\<rparr>"

fun nr_rlc_manager_get_ue :: "nr_rlc_ue_t list \<Rightarrow> int \<Rightarrow> nr_rlc_ue_t \<times> nr_rlc_ue_t list" where
  "nr_rlc_manager_get_ue [] ue_id = (nr_rlc_new_ue ue_id, [nr_rlc_new_ue ue_id])"
| "nr_rlc_manager_get_ue (u # l) ue_id =
     (if ru_ue_id u = ue_id then (u, u # l) else apsnd ((#) u) (nr_rlc_manager_get_ue l ue_id))"

text \<open>The destructors of the entities of a context, in the order in which \<open>remove_ue\<close> calls them. The data of the delivery callback of SRB 0, which it frees, is not part of the model.\<close>

fun rlc_delete_all :: "rlc_entity option list \<Rightarrow> sdu_mem_t list result" where
  "rlc_delete_all [] = Inr []"
| "rlc_delete_all (None # es) = rlc_delete_all es"
| "rlc_delete_all (Some e # es) =
     bind_r (rlc_delete_entity e) (\<lambda>m. bind_r (rlc_delete_all es) (\<lambda>ms. Inr (m # ms)))"

definition rlc_release :: "nr_rlc_ue_t \<Rightarrow> sdu_mem_t list result" where
  "rlc_release u = rlc_delete_all (ru_srb0 u # take 3 (ru_srb u) @ take ue_max_drbs (ru_drb u))"

fun nr_rlc_manager_remove_ue ::
  "nr_rlc_ue_t list \<Rightarrow> int \<Rightarrow> (sdu_mem_t list option \<times> nr_rlc_ue_t list) result" where
  "nr_rlc_manager_remove_ue [] ue_id = Inr (None, [])"
| "nr_rlc_manager_remove_ue (u # l) ue_id =
     (if ru_ue_id u = ue_id then bind_r (rlc_release u) (\<lambda>d. Inr (Some d, l))
      else bind_r (nr_rlc_manager_remove_ue l ue_id) (\<lambda>(d, l'). Inr (d, u # l')))"

definition nr_rlc_ue_add_srb_rlc_entity :: "nr_rlc_ue_t \<Rightarrow> int \<Rightarrow> rlc_entity \<Rightarrow> nr_rlc_ue_t result" where
  "nr_rlc_ue_add_srb_rlc_entity u srb_id entity =
     (if srb_id < 0 \<or> srb_id > 3 then Inl Fatal_exit
      else if srb_id = 0 then
        (if ru_srb0 u \<noteq> None then Inl Fatal_exit else Inr (u\<lparr>ru_srb0 := Some entity\<rparr>))
      else if ru_srb u ! nat (srb_id - 1) \<noteq> None then Inl Fatal_exit
      else Inr (u\<lparr>ru_srb := (ru_srb u)[nat (srb_id - 1) := Some entity]\<rparr>))"

definition nr_rlc_ue_add_drb_rlc_entity :: "nr_rlc_ue_t \<Rightarrow> int \<Rightarrow> rlc_entity \<Rightarrow> nr_rlc_ue_t result" where
  "nr_rlc_ue_add_drb_rlc_entity u drb_id entity =
     (if drb_id < 1 \<or> drb_id > int ue_max_drbs then Inl Fatal_exit
      else if ru_drb u ! nat (drb_id - 1) \<noteq> None then Inl Fatal_exit
      else Inr (u\<lparr>ru_drb := (ru_drb u)[nat (drb_id - 1) := Some entity]\<rparr>))"

fun rlc_add_rb :: "nr_rlc_ue_t \<Rightarrow> rlc_entity bearer \<Rightarrow> nr_rlc_ue_t result" where
  "rlc_add_rb u (Srb n e) = nr_rlc_ue_add_srb_rlc_entity u n e"
| "rlc_add_rb u (Drb n e) = nr_rlc_ue_add_drb_rlc_entity u n e"

abbreviation rlc_manager_step where
  "rlc_manager_step \<equiv> manager_step ru_ue_id nr_rlc_manager_get_ue nr_rlc_manager_remove_ue rlc_add_rb"

interpretation rm: ue_table ru_ue_id nr_rlc_new_ue rlc_release nr_rlc_manager_get_ue nr_rlc_manager_remove_ue rlc_add_rb
proof unfold_locales
  fix u b u'
  show "rlc_add_rb u b = Inr u' \<Longrightarrow> ru_ue_id u' = ru_ue_id u"
    by (cases b) (auto simp: nr_rlc_ue_add_srb_rlc_entity_def nr_rlc_ue_add_drb_rlc_entity_def split: if_splits)
qed (simp_all add: nr_rlc_new_ue_def)


subsection \<open>Properties\<close>

text \<open>
  C15. The table of the RLC manager refines a map from UE identifiers to contexts: any sequence of look-ups, removals
  and additions of bearers that starts with the empty table fails exactly when it fails on the map, with the same
  error, releases the same stores of the deleted entities in the same order, and ends in the list of the map that
  the calls on the map end in.
\<close>

theorem rlc_manager_refines_map:
  "bind_r (calls rlc_manager_step [] cs) (\<lambda>(ds, l). Inr (ds, ue_map ru_ue_id l)) =
     calls (map_step nr_rlc_new_ue rlc_release rlc_add_rb) Map.empty cs"
  using rm.calls_map[of "[]" cs] by simp

text \<open>
  C16. The removal of a UE from the PDCP manager leaves no entity behind: after any sequence of calls that starts with
  the empty table, the removal of a UE of the table succeeds, calls the destructor of every entity that any of the
  slots of the context holds, and takes this context, and no other, out of the table. The two loops of the removal
  visit two of the three signalling slots and five of the thirty-two data slots only.
\<close>

theorem pdcp_remove_releases_all:
  assumes "calls pdcp_manager_step [] cs = Inr (ds, l)" and "u \<in> set l"
  shows "nr_pdcp_manager_remove_ue l (pu_ue_id u) =
           Inr (Some (map nr_pdcp_entity_delete (pdcp_entities u)), filter (\<lambda>v. v \<noteq> u) l)"
proof -
  have d: "distinct (map pu_ue_id l)"
    using pm.calls_distinct[OF assms(1)] by simp
  have "pdcp_ue_ok u"
    using pm.calls_all[where P = pdcp_ue_ok, OF pdcp_new_ok pdcp_add_ok assms(1)] assms(2) by simp
  moreover have "filter (\<lambda>v. pu_ue_id v \<noteq> pu_ue_id u) l = filter (\<lambda>v. v \<noteq> u) l"
    using d assms(2) by (auto intro!: filter_cong simp: distinct_map inj_on_def)
  ultimately show ?thesis
    using d assms(2) by (simp add: pm.remove_ue_eq pm.map_member pdcp_release_def pdcp_ok_deleted bind_r_case)
qed

theorem pdcp_remove_releases_all_witness:
  "nr_pdcp_manager_remove_ue
     [nr_pdcp_new_ue 5, (nr_pdcp_new_ue 7)\<lparr>pu_srb := [None, Some (pdcp_example True), None]\<rparr>] 7 =
   Inr (Some [nr_pdcp_entity_delete (pdcp_example True)], [nr_pdcp_new_ue 5])"
proof -
  let ?u = "(nr_pdcp_new_ue 7)\<lparr>pu_srb := [None, Some (pdcp_example True), None]\<rparr>"
  have u: "pu_ue_id ?u = 7" "nr_pdcp_new_ue 5 \<noteq> ?u"
    by (simp_all add: nr_pdcp_new_ue_def)
  have e: "pdcp_entities ?u = [pdcp_example True]"
    by (simp add: pdcp_entities_def nr_pdcp_new_ue_def List.map_filter_def)
  have "calls pdcp_manager_step [] [Ue_get 5, Ue_add 7 (Srb 2 (pdcp_example True))] =
      Inr ([None, None], [nr_pdcp_new_ue 5, ?u])"
    by (simp add: nr_pdcp_new_ue_def nr_pdcp_ue_add_srb_pdcp_entity_def ue_store_def numeral_3_eq_3)
  from pdcp_remove_releases_all [OF this, of ?u] show ?thesis
    using u by (simp add: e)
qed

end
