(* ===== verification/Phy_Crc.thy ===== *)
theory Phy_Crc
  imports L2_Prelude
begin

text \<open>
  The cyclic redundancy checks of the transport channels, \<open>openair1/PHY/CODING/crc_byte.c\<close>, in the build without carry-less
  multiplication (\<open>USE_INTEL_CRC\<close> is 0): a register of 32 bits whose upper bits hold the remainder, tables of 256
  entries made by \<open>crcTableInit\<close>, one function for each polynomial and the receiver's \<open>check_crc\<close>.

  The reference is the division of the message by the polynomial, one bit at a time, most significant bit first
  (\<open>crc_step\<close>). Everything rests on one fact: reading up to 32 bits is the same as adding them to the top of the
  register and shifting (\<open>crc_run_align\<close>), and shifting is linear and, on the bits that the register uses, injective.
\<close>


subsection \<open>The code\<close>

definition poly24a :: u32 where "poly24a = 0x864cfb00"
definition poly24b :: u32 where "poly24b = 0x80006300"
definition poly24c :: u32 where "poly24c = 0xb2b11700"
definition poly16 :: u32 where "poly16 = 0x10210000"
definition poly12 :: u32 where "poly12 = 0x80F00000"
definition poly8 :: u32 where "poly8 = 0x9B000000"
definition poly6 :: u32 where "poly6 = 0x84000000"
definition poly11 :: u32 where "poly11 = 0xc4200000"

text \<open>The inner loop of \<open>crcbit\<close>: \<open>i\<close> bits of \<open>c\<close>, from the top.\<close>

fun crcbit_octet :: "u32 \<Rightarrow> nat \<Rightarrow> u32 \<Rightarrow> u32 \<Rightarrow> u32" where
  "crcbit_octet poly 0 c crc = crc"
| "crcbit_octet poly (Suc i) c crc =
     crcbit_octet poly i (push_bit 1 c)
       (if bit (c XOR crc) 31 then push_bit 1 crc XOR poly else push_bit 1 crc)"

definition crcbit :: "byte list \<Rightarrow> u32 \<Rightarrow> u32" where
  "crcbit inputptr poly = foldl (\<lambda>crc b. crcbit_octet poly 8 (push_bit 24 (ucast b)) crc) 0 inputptr"

record crc_tables =
  crc24aTable :: "u32 list"
  crc24bTable :: "u32 list"
  crc24cTable :: "u32 list"
  crc16Table :: "u32 list"
  crc12Table :: "u32 list"
  crc11Table :: "u32 list"
  crc8Table :: "u32 list"
  crc6Table :: "u32 list"

text \<open>One table: the remainder of each octet, shifted down by \<open>sh\<close>.\<close>

definition crc_table :: "u32 \<Rightarrow> nat \<Rightarrow> u32 list" where
  "crc_table poly sh = map (\<lambda>c. drop_bit sh (crcbit [of_nat c] poly)) [0..<256]"

definition crcTableInit :: crc_tables where
  "crcTableInit = \<lparr>crc24aTable = crc_table poly24a 0, crc24bTable = crc_table poly24b 0, crc24cTable = crc_table poly24c 0,
     crc16Table = crc_table poly16 16, crc12Table = crc_table poly12 16, crc11Table = crc_table poly11 16,
     crc8Table = crc_table poly8 24, crc6Table = crc_table poly6 24\<rparr>"

text \<open>
  The loop over the octets and the step for the \<open>resbit\<close> bits that remain. The tables of the shorter checks hold their
  entries shifted down by \<open>sh\<close>. The two shortest ones replace the register by the entry (\<open>crc_octets_short\<close>).
\<close>

fun crc_octets :: "u32 list \<Rightarrow> nat \<Rightarrow> byte list \<Rightarrow> u32 \<Rightarrow> u32" where
  "crc_octets tbl sh [] crc = crc"
| "crc_octets tbl sh (b # bs) crc =
     crc_octets tbl sh bs (push_bit 8 crc XOR push_bit sh (tbl ! unat (ucast b XOR drop_bit 24 crc)))"

fun crc_octets_short :: "u32 list \<Rightarrow> byte list \<Rightarrow> u32 \<Rightarrow> u32" where
  "crc_octets_short tbl [] crc = crc"
| "crc_octets_short tbl (b # bs) crc =
     crc_octets_short tbl bs (push_bit 24 (tbl ! unat (ucast b XOR drop_bit 24 crc)))"

definition crc_rest :: "u32 list \<Rightarrow> nat \<Rightarrow> nat \<Rightarrow> byte list \<Rightarrow> u32 \<Rightarrow> u32" where
  "crc_rest tbl sh resbit inptr crc =
     (if resbit > 0
      then push_bit resbit crc XOR
        push_bit sh (tbl ! unat (drop_bit (8 - resbit) (ucast (hd inptr)) XOR drop_bit (32 - resbit) crc))
      else crc)"

text \<open>The input must hold \<open>bitlen\<close> bits; reading further is outside the object.\<close>

definition crc_input :: "byte list \<Rightarrow> nat \<Rightarrow> (byte list \<times> byte list) result" where
  "crc_input inptr bitlen =
     (if bitlen \<le> 8 * length inptr then Inr (take (bitlen div 8) inptr, drop (bitlen div 8) inptr) else Inl Out_of_bounds)"

definition crc24a :: "crc_tables \<Rightarrow> byte list \<Rightarrow> nat \<Rightarrow> u32 result" where
  "crc24a T inptr bitlen = bind_r (crc_input inptr bitlen) (\<lambda>(os, rest).
     Inr (crc_rest (crc24aTable T) 0 (bitlen mod 8) rest (crc_octets (crc24aTable T) 0 os 0)))"

definition crc24b :: "crc_tables \<Rightarrow> byte list \<Rightarrow> nat \<Rightarrow> u32 result" where
  "crc24b T inptr bitlen = bind_r (crc_input inptr bitlen) (\<lambda>(os, rest).
     Inr (crc_rest (crc24bTable T) 0 (bitlen mod 8) rest (crc_octets (crc24bTable T) 0 os 0)))"

definition crc24c :: "crc_tables \<Rightarrow> byte list \<Rightarrow> nat \<Rightarrow> u32 result" where
  "crc24c T inptr bitlen = bind_r (crc_input inptr bitlen) (\<lambda>(os, rest).
     Inr (crc_rest (crc24cTable T) 0 (bitlen mod 8) rest (crc_octets (crc24cTable T) 0 os 0)))"

definition crc16 :: "crc_tables \<Rightarrow> byte list \<Rightarrow> nat \<Rightarrow> u32 result" where
  "crc16 T inptr bitlen = bind_r (crc_input inptr bitlen) (\<lambda>(os, rest).
     Inr (crc_rest (crc16Table T) 16 (bitlen mod 8) rest (crc_octets (crc16Table T) 16 os 0)))"

definition crc12 :: "crc_tables \<Rightarrow> byte list \<Rightarrow> nat \<Rightarrow> u32 result" where
  "crc12 T inptr bitlen = bind_r (crc_input inptr bitlen) (\<lambda>(os, rest).
     Inr (crc_rest (crc12Table T) 16 (bitlen mod 8) rest (crc_octets (crc12Table T) 16 os 0)))"

definition crc11 :: "crc_tables \<Rightarrow> byte list \<Rightarrow> nat \<Rightarrow> u32 result" where
  "crc11 T inptr bitlen = bind_r (crc_input inptr bitlen) (\<lambda>(os, rest).
     Inr (crc_rest (crc11Table T) 16 (bitlen mod 8) rest (crc_octets (crc11Table T) 16 os 0)))"

definition crc8 :: "crc_tables \<Rightarrow> byte list \<Rightarrow> nat \<Rightarrow> u32 result" where
  "crc8 T inptr bitlen = bind_r (crc_input inptr bitlen) (\<lambda>(os, rest).
     Inr (crc_rest (crc8Table T) 24 (bitlen mod 8) rest (crc_octets_short (crc8Table T) os 0)))"

definition crc6 :: "crc_tables \<Rightarrow> byte list \<Rightarrow> nat \<Rightarrow> u32 result" where
  "crc6 T inptr bitlen = bind_r (crc_input inptr bitlen) (\<lambda>(os, rest).
     Inr (crc_rest (crc6Table T) 24 (bitlen mod 8) rest (crc_octets_short (crc6Table T) os 0)))"


subsection \<open>Division by the polynomial\<close>

definition crc_step :: "u32 \<Rightarrow> u32 \<Rightarrow> bool \<Rightarrow> u32" where
  "crc_step poly crc b = (if bit crc 31 \<noteq> b then push_bit 1 crc XOR poly else push_bit 1 crc)"

abbreviation crc_run :: "u32 \<Rightarrow> u32 \<Rightarrow> bool list \<Rightarrow> u32" where
  "crc_run poly \<equiv> foldl (crc_step poly)"

text \<open>The bits of octets, most significant first, and a list of at most 32 bits at the top of a word.\<close>

definition octet_bits :: "byte \<Rightarrow> bool list" where
  "octet_bits b = map (\<lambda>j. bit b (7 - j)) [0..<8]"

definition msb_bits :: "byte list \<Rightarrow> bool list" where
  "msb_bits bs = concat (map octet_bits bs)"

definition top_bit :: "bool \<Rightarrow> u32" where
  "top_bit b = (if b then push_bit 31 1 else 0)"

fun align :: "bool list \<Rightarrow> u32" where
  "align [] = 0"
| "align (b # bs) = top_bit b XOR drop_bit 1 (align bs)"

abbreviation crc_shift :: "u32 \<Rightarrow> u32 \<Rightarrow> u32" where
  "crc_shift poly crc \<equiv> crc_step poly crc False"

lemma length_octet_bits [simp]: "length (octet_bits b) = 8"
  by (simp add: octet_bits_def)

lemma msb_bits_Nil [simp]: "msb_bits [] = []"
  by (simp add: msb_bits_def)

lemma msb_bits_Cons [simp]: "msb_bits (b # bs) = octet_bits b @ msb_bits bs"
  by (simp add: msb_bits_def)

lemma msb_bits_append [simp]: "msb_bits (as @ bs) = msb_bits as @ msb_bits bs"
  by (simp add: msb_bits_def)

lemma length_msb_bits [simp]: "length (msb_bits bs) = 8 * length bs"
  by (induction bs) auto

lemma bit_top_bit [simp]: "bit (top_bit b) i \<longleftrightarrow> b \<and> i = 31"
proof -
  have "bit (push_bit 31 1 :: u32) i \<longleftrightarrow> i = 31"
    by (simp only: bit_push_bit_iff bit_1_iff) auto
  then show ?thesis
    by (simp add: top_bit_def)
qed

lemma bit_push1: "bit (push_bit 1 x) i \<longleftrightarrow> 0 < i \<and> i < 32 \<and> bit x (i - 1)" for x :: u32
  by (simp only: bit_push_bit_iff) (auto dest: bit_imp_le_length)

lemmas crc_bit_simps = bit_push1 bit_xor_iff bit_drop_bit_eq bit_top_bit

lemma u32_eqI: "(\<And>i. i < 32 \<Longrightarrow> bit x i \<longleftrightarrow> bit y i) \<Longrightarrow> x = y" for x y :: u32
  by (rule bit_word_eqI) simp

lemma crc_step_bit: "bit (crc_step poly crc b) i \<longleftrightarrow> i < 32 \<and> ((0 < i \<and> bit crc (i - 1)) \<noteq> ((bit crc 31 \<noteq> b) \<and> bit poly i))"
proof -
  have "bit poly i \<Longrightarrow> i < 32"
    using bit_imp_le_length[of poly i] by simp
  then show ?thesis
    unfolding crc_step_def by (auto simp only: crc_bit_simps split: if_splits)
qed

lemma crc_step_shift: "crc_step poly crc b = crc_shift poly (crc XOR top_bit b)"
  by (rule u32_eqI) (auto simp: crc_step_bit bit_xor_iff)

lemma crc_shift_xor: "crc_shift poly (x XOR y) = crc_shift poly x XOR crc_shift poly y"
  by (rule u32_eqI) (auto simp: crc_step_bit bit_xor_iff)

lemma crc_shift_small: "\<not> bit x 31 \<Longrightarrow> crc_shift poly x = push_bit 1 x"
  by (simp add: crc_step_def)

lemma crc_shifts_xor: "(crc_shift poly ^^ k) (x XOR y) = (crc_shift poly ^^ k) x XOR (crc_shift poly ^^ k) y"
  by (induction k) (simp_all add: crc_shift_xor)

lemma crc_shifts_small:
  "(\<And>i. 32 - k \<le> i \<Longrightarrow> \<not> bit x i) \<Longrightarrow> k \<le> 32 \<Longrightarrow> (crc_shift poly ^^ k) x = push_bit k x"
proof (induction k)
  case (Suc k)
  have "\<not> bit (push_bit k x) 31"
    using Suc.prems by (auto simp: bit_simps)
  with Suc show ?case
    by (simp add: crc_shift_small push_bit_push_bit)
qed simp

lemma align_bit: "length bs \<le> 32 \<Longrightarrow> bit (align bs) i \<longleftrightarrow> i < 32 \<and> 31 - i < length bs \<and> bs ! (31 - i)"
proof (induction bs arbitrary: i)
  case (Cons b bs)
  have "bit (align (b # bs)) i \<longleftrightarrow> (b \<and> i = 31) \<noteq> (i < 31 \<and> 30 - i < length bs \<and> bs ! (30 - i))"
    using Cons.IH[of "Suc i"] Cons.prems by (auto simp: bit_xor_iff bit_drop_bit_eq)
  then show ?case
    by (cases "i < 31") (auto simp del: align.simps simp: nth_Cons')
qed simp

lemma crc_run_align:
  "length bs \<le> 32 \<Longrightarrow> crc_run poly crc bs = (crc_shift poly ^^ length bs) (crc XOR align bs)"
proof (induction bs arbitrary: crc)
  case (Cons b bs)
  have a: "crc_shift poly (drop_bit 1 (align bs)) = align bs"
    using Cons.prems by (intro u32_eqI) (auto simp: crc_step_bit bit_drop_bit_eq align_bit)
  have "crc_run poly crc (b # bs) = (crc_shift poly ^^ length bs) (crc_step poly crc b XOR align bs)"
    using Cons by simp
  also have "crc_step poly crc b XOR align bs = crc_shift poly (crc XOR align (b # bs))"
    by (simp add: crc_step_shift[of poly crc b] crc_shift_xor a[simplified] xor.assoc)
  finally show ?case
    by (simp add: funpow_swap1[of "crc_shift poly"])
qed simp

subsection \<open>The tables\<close>

lemma crcbit_octet_run:
  "i \<le> 31 \<Longrightarrow> crcbit_octet poly i c crc = crc_run poly crc (map (\<lambda>j. bit c (31 - j)) [0..<i])"
proof (induction i arbitrary: c crc)
  case (Suc i)
  have b: "map (\<lambda>j. bit c (31 - j)) [0..<Suc i] = bit c 31 # map (\<lambda>j. bit (push_bit 1 c) (31 - j)) [0..<i]"
    using Suc.prems by (auto simp del: upt_Suc push_bit_Suc simp: map_upt_Suc bit_push1[simplified])
  have s: "(if bit (c XOR crc) 31 then push_bit 1 crc XOR poly else push_bit 1 crc) = crc_step poly crc (bit c 31)"
    by (simp only: crc_step_def bit_xor_iff) auto
  show ?case
    unfolding crcbit_octet.simps(2) s b using Suc by simp
qed simp

lemma octet_bits_top: "map (\<lambda>j. bit (push_bit 24 (ucast b :: u32)) (31 - j)) [0..<8] = octet_bits b"
  unfolding octet_bits_def by (auto simp only: map_eq_conv set_upt bit_push_bit_iff bit_ucast_iff) (auto dest: bit_imp_le_length)

lemma crcbit_run: "crcbit bs poly = crc_run poly 0 (msb_bits bs)"
proof -
  have "foldl (\<lambda>crc b. crcbit_octet poly 8 (push_bit 24 (ucast b)) crc) crc bs = crc_run poly crc (msb_bits bs)" for crc
    by (induction bs arbitrary: crc) (simp_all only: foldl.simps msb_bits_Nil msb_bits_Cons foldl_append octet_bits_top crcbit_octet_run[of 8, simplified])
  then show ?thesis
    by (simp only: crcbit_def)
qed

lemma align_octet: "align (octet_bits b) = push_bit 24 (ucast b)"
proof (rule u32_eqI)
  fix i :: nat
  assume "i < 32"
  then show "bit (align (octet_bits b)) i = bit (push_bit 24 (ucast b) :: u32) i"
    by (simp only: align_bit bit_push_bit_iff bit_ucast_iff length_octet_bits) (auto simp: octet_bits_def)
qed

text \<open>The value that a table entry stands for.\<close>

definition crc_entry :: "u32 \<Rightarrow> u32 \<Rightarrow> u32" where
  "crc_entry poly v = (crc_shift poly ^^ 8) (push_bit 24 v)"

lemma crc_table_nth:
  assumes "\<And>i. 8 \<le> i \<Longrightarrow> \<not> bit v i"
  shows "crc_table poly sh ! unat v = drop_bit sh (crc_entry poly v)"
proof -
  define b :: byte where "b = ucast v"
  have v: "v = ucast b"
    unfolding b_def by (intro u32_eqI) (auto simp: bit_simps, meson assms not_le)
  have "unat b < 256"
    using unsigned_less[of b] by simp
  moreover from this have "unat v = unat b"
    by (simp add: v unsigned_ucast_eq take_bit_nat_eq_self)
  ultimately show ?thesis
    by (simp add: v crc_table_def crcbit_run crc_run_align align_octet crc_entry_def)
qed

text \<open>Registers of fewer than 32 bits: the low \<open>m\<close> bits stay zero.\<close>

definition low_zero :: "nat \<Rightarrow> u32 \<Rightarrow> bool" where
  "low_zero m x \<longleftrightarrow> (\<forall>i<m. \<not> bit x i)"

lemma low_zero_0 [simp]: "low_zero m 0"
  by (simp add: low_zero_def)

lemma low_zero_step: "low_zero m poly \<Longrightarrow> low_zero m crc \<Longrightarrow> low_zero m (crc_step poly crc b)"
  by (auto simp: low_zero_def crc_step_bit)

lemma low_zero_run: "low_zero m poly \<Longrightarrow> low_zero m crc \<Longrightarrow> low_zero m (crc_run poly crc bs)"
  by (induction bs arbitrary: crc) (auto simp: low_zero_step)

lemma low_zero_shifts: "low_zero m poly \<Longrightarrow> low_zero m crc \<Longrightarrow> low_zero m ((crc_shift poly ^^ k) crc)"
  by (induction k) (auto simp: low_zero_step)

lemma low_zero_entry: "low_zero sh poly \<Longrightarrow> sh \<le> 24 \<Longrightarrow> push_bit sh (drop_bit sh (crc_entry poly v)) = crc_entry poly v"
proof -
  assume "low_zero sh poly" "sh \<le> 24"
  then have "low_zero sh (crc_entry poly v)"
    unfolding crc_entry_def by (intro low_zero_shifts) (auto simp: low_zero_def bit_push_bit_iff)
  then show ?thesis
    by (intro u32_eqI) (auto simp: low_zero_def bit_push_bit_iff bit_drop_bit_eq not_less, (metis le_add_diff_inverse not_le)+)
qed

text \<open>The step for one octet and for the bits that remain.\<close>

lemma crc_octet_step: "crc_run poly crc (octet_bits b) = push_bit 8 crc XOR crc_entry poly (ucast b XOR drop_bit 24 crc)"
proof -
  have e: "crc XOR push_bit 24 (ucast b) = take_bit 24 crc XOR push_bit 24 (ucast b XOR drop_bit 24 crc)"
    by (rule u32_eqI) (auto simp: bit_simps)
  have "(crc_shift poly ^^ 8) (take_bit 24 crc) = push_bit 8 (take_bit 24 crc)"
    by (rule crc_shifts_small) (auto simp: bit_simps)
  also have "\<dots> = push_bit 8 crc"
    by (rule u32_eqI) (auto simp: bit_simps)
  finally show ?thesis
    by (simp add: crc_run_align align_octet e crc_shifts_xor crc_entry_def)
qed

lemma crc_rest_step:
  assumes "r \<le> 8"
  shows "crc_run poly crc (take r (octet_bits b)) =
           push_bit r crc XOR crc_entry poly (drop_bit (8 - r) (ucast b) XOR drop_bit (32 - r) crc)"
proof -
  let ?v = "drop_bit (8 - r) (ucast b) XOR drop_bit (32 - r) crc"
  have a: "align (take r (octet_bits b)) = push_bit (32 - r) (drop_bit (8 - r) (ucast b))"
    using assms by (intro u32_eqI) (auto simp: align_bit octet_bits_def bit_simps dest: bit_imp_le_length)
  have e: "crc XOR align (take r (octet_bits b)) = take_bit (32 - r) crc XOR push_bit (32 - r) ?v"
    unfolding a using assms by (intro u32_eqI) (auto simp: bit_simps)
  have "(crc_shift poly ^^ r) (take_bit (32 - r) crc) = push_bit r (take_bit (32 - r) crc)"
    using assms by (intro crc_shifts_small) (auto simp: bit_simps)
  also have "\<dots> = push_bit r crc"
    using assms by (intro u32_eqI) (auto simp: bit_simps)
  finally have lo: "(crc_shift poly ^^ r) (take_bit (32 - r) crc) = push_bit r crc" .
  have "(crc_shift poly ^^ (8 - r)) (push_bit 24 ?v) = push_bit (8 - r) (push_bit 24 ?v)"
    using assms by (intro crc_shifts_small) (auto simp: bit_simps dest: bit_imp_le_length)
  also have "\<dots> = push_bit (32 - r) ?v"
    using assms by (simp add: push_bit_push_bit)
  finally have hi: "(crc_shift poly ^^ r) (push_bit (32 - r) ?v) = crc_entry poly ?v"
    using assms funpow_add[of r "8 - r" "crc_shift poly"] by (simp add: crc_entry_def)
  have "crc_run poly crc (take r (octet_bits b)) = (crc_shift poly ^^ r) (crc XOR align (take r (octet_bits b)))"
    using assms crc_run_align[of "take r (octet_bits b)" poly crc] by (simp add: min_def)
  then show ?thesis
    by (simp only: e crc_shifts_xor[of r poly "take_bit (32 - r) crc"] lo hi)
qed

lemma crc_octets_run:
  assumes "low_zero sh poly" "sh \<le> 24"
  shows "crc_octets (crc_table poly sh) sh bs crc = crc_run poly crc (msb_bits bs)"
proof (induction bs arbitrary: crc)
  case (Cons b bs)
  have "crc_table poly sh ! unat (ucast b XOR drop_bit 24 crc) = drop_bit sh (crc_entry poly (ucast b XOR drop_bit 24 crc))"
    by (rule crc_table_nth) (auto simp: bit_simps dest: bit_imp_le_length)
  then show ?case
    by (simp add: Cons low_zero_entry[OF assms] crc_octet_step)
qed simp

lemma crc_octets_short_eq: "low_zero 24 poly \<Longrightarrow> low_zero 24 crc \<Longrightarrow>
    crc_octets_short (crc_table poly 24) bs crc = crc_octets (crc_table poly 24) 24 bs crc"
proof (induction bs arbitrary: crc)
  case (Cons b bs)
  have "push_bit 8 crc = 0"
    using Cons.prems by (intro u32_eqI) (auto simp: low_zero_def bit_simps)
  moreover have "low_zero 24 (push_bit 24 x)" for x
    by (auto simp: low_zero_def bit_simps)
  ultimately show ?case
    using Cons by simp
qed simp

lemma crc_rest_run:
  assumes "low_zero sh poly" "sh \<le> 24" "r < 8"
  shows "crc_rest (crc_table poly sh) sh r inptr crc = crc_run poly crc (take r (octet_bits (hd inptr)))"
proof (cases "r = 0")
  case False
  have "crc_table poly sh ! unat (drop_bit (8 - r) (ucast (hd inptr)) XOR drop_bit (32 - r) crc) =
      drop_bit sh (crc_entry poly (drop_bit (8 - r) (ucast (hd inptr)) XOR drop_bit (32 - r) crc))"
    using assms(3) by (intro crc_table_nth) (auto simp: bit_simps dest: bit_imp_le_length)
  with False assms show ?thesis
    by (simp add: crc_rest_def low_zero_entry[OF assms(1,2)] crc_rest_step)
qed (simp add: crc_rest_def)

lemma take_msb_bits:
  "n \<le> 8 * length bs \<Longrightarrow>
     take n (msb_bits bs) = msb_bits (take (n div 8) bs) @ take (n mod 8) (octet_bits (hd (drop (n div 8) bs)))"
proof (induction bs arbitrary: n)
  case (Cons b bs)
  show ?case
  proof (cases "n < 8")
    case False
    then have "n div 8 = Suc ((n - 8) div 8)" "n mod 8 = (n - 8) mod 8"
      by (auto simp: le_div_geq le_mod_geq)
    then show ?thesis
      using Cons.IH[of "n - 8"] Cons.prems False by simp
  qed simp
qed simp

text \<open>One function for each polynomial.\<close>

datatype crc_kind = Crc24a | Crc24b | Crc24c | Crc16 | Crc12 | Crc11 | Crc8 | Crc6

fun crc_of :: "crc_kind \<Rightarrow> crc_tables \<Rightarrow> byte list \<Rightarrow> nat \<Rightarrow> u32 result" where
  "crc_of Crc24a = crc24a" | "crc_of Crc24b = crc24b" | "crc_of Crc24c = crc24c" | "crc_of Crc16 = crc16"
| "crc_of Crc12 = crc12" | "crc_of Crc11 = crc11" | "crc_of Crc8 = crc8" | "crc_of Crc6 = crc6"

fun poly_of :: "crc_kind \<Rightarrow> u32" where
  "poly_of Crc24a = poly24a" | "poly_of Crc24b = poly24b" | "poly_of Crc24c = poly24c" | "poly_of Crc16 = poly16"
| "poly_of Crc12 = poly12" | "poly_of Crc11 = poly11" | "poly_of Crc8 = poly8" | "poly_of Crc6 = poly6"

fun bits_of :: "crc_kind \<Rightarrow> nat" where
  "bits_of Crc24a = 24" | "bits_of Crc24b = 24" | "bits_of Crc24c = 24" | "bits_of Crc16 = 16"
| "bits_of Crc12 = 12" | "bits_of Crc11 = 11" | "bits_of Crc8 = 8" | "bits_of Crc6 = 6"

lemma low_zero_code: "low_zero m x \<longleftrightarrow> take_bit m x = 0"
  using bit_imp_le_length[of x] by (auto simp: low_zero_def bit_eq_iff bit_simps)

lemmas poly_defs = poly24a_def poly24b_def poly24c_def poly16_def poly12_def poly11_def poly8_def poly6_def

lemma poly_low_zero: "low_zero (32 - bits_of k) (poly_of k)"
  by (cases k) (simp_all add: low_zero_code poly_defs take_bit_eq_mask mask_eq_exp_minus_1)

lemma poly_unit: "bit (poly_of k) (32 - bits_of k)"
  by (cases k) (simp_all add: poly_defs)

lemma low_zero_mono: "low_zero m x \<Longrightarrow> k \<le> m \<Longrightarrow> low_zero k x"
  by (auto simp: low_zero_def)

text \<open>The reference: the remainder of the first \<open>n\<close> bits of the input.\<close>

definition crc_ref :: "u32 \<Rightarrow> byte list \<Rightarrow> nat \<Rightarrow> u32" where
  "crc_ref poly inptr n = crc_run poly 0 (take n (msb_bits inptr))"

lemma crc_table_run:
  assumes "low_zero sh poly" "sh \<le> 24" "n \<le> 8 * length inptr"
  shows "crc_rest (crc_table poly sh) sh (n mod 8) (drop (n div 8) inptr) (crc_octets (crc_table poly sh) sh (take (n div 8) inptr) 0) =
           crc_ref poly inptr n"
  using assms by (simp add: crc_rest_run crc_octets_run crc_ref_def take_msb_bits[OF assms(3)])

lemma crc_of_ref:
  "crc_of k crcTableInit inptr n = (if n \<le> 8 * length inptr then Inr (crc_ref (poly_of k) inptr n) else Inl Out_of_bounds)"
proof -
  have lz: "low_zero m (poly_of k)" if "m \<le> 32 - bits_of k" for m
    using low_zero_mono[OF poly_low_zero that] .
  show ?thesis
    using lz[of 0] lz[of 16] lz[of 24]
    by (cases k) (simp_all add: crc24a_def crc24b_def crc24c_def crc16_def crc12_def crc11_def crc8_def crc6_def
        crc_input_def crcTableInit_def crc_table_run crc_octets_short_eq)
qed


subsection \<open>The receiver\<close>

text \<open>
  \<open>check_crc\<close>: the last \<open>crc_len\<close> octets of the \<open>n\<close> bits are compared with the check of the bits before them. The
  assertions of the two \<open>default\<close> branches hold trivially, \<open>AssertFatal(1, ...)\<close>, so that an unknown type goes on
  with no octets to compare.
\<close>

definition crc_len_of :: "nat \<Rightarrow> nat" where
  "crc_len_of crc_type = (if crc_type = 0 \<or> crc_type = 1 then 3 else if crc_type = 2 then 2 else if crc_type = 3 then 1 else 0)"

definition crc_received :: "byte list \<Rightarrow> nat \<Rightarrow> nat \<Rightarrow> u32 result" where
  "crc_received decoded_bytes n crc_len =
     (if crc_len = 0 then Inr 0
      else if crc_len \<le> n div 8 \<and> n div 8 \<le> length decoded_bytes
      then Inr (foldl (\<lambda>oldcrc i. oldcrc OR push_bit (8 * (crc_len - 1 - i)) (ucast (decoded_bytes ! (n div 8 - crc_len + i))))
                  0 [0..<crc_len])
      else Inl Out_of_bounds)"

definition check_crc :: "crc_tables \<Rightarrow> byte list \<Rightarrow> nat \<Rightarrow> nat \<Rightarrow> bool result" where
  "check_crc T decoded_bytes n crc_type =
     bind_r (crc_received decoded_bytes n (crc_len_of crc_type)) (\<lambda>oldcrc.
       if crc_type = 0 then
         bind_r (crc24a T decoded_bytes (n - 24)) (\<lambda>crc. Inr (drop_bit 8 crc = oldcrc AND 0x00ffffff))
       else if crc_type = 1 then
         bind_r (crc24b T decoded_bytes (n - 24)) (\<lambda>crc. Inr (drop_bit 8 crc = oldcrc AND 0x00ffffff))
       else if crc_type = 2 then
         bind_r (crc16 T decoded_bytes (n - 16)) (\<lambda>crc. Inr (drop_bit 16 crc = oldcrc AND 0x0000ffff))
       else if crc_type = 3 then
         bind_r (crc8 T decoded_bytes (n - 8)) (\<lambda>crc. Inr (drop_bit 24 crc = oldcrc AND 0x000000ff))
       else Inr (0 = oldcrc))"

definition kind_of :: "nat \<Rightarrow> crc_kind" where
  "kind_of crc_type = (if crc_type = 0 then Crc24a else if crc_type = 1 then Crc24b else if crc_type = 2 then Crc16 else Crc8)"

lemma crc_shift_eq_0:
  assumes "low_zero m poly" "bit poly m" "low_zero m x" "crc_shift poly x = 0"
  shows "x = 0"
proof (rule u32_eqI)
  fix i :: nat
  assume i: "i < 32"
  have z: "\<not> bit (crc_shift poly x) j" for j
    by (simp add: assms(4))
  have "m < 32"
    using bit_imp_le_length[OF assms(2)] by simp
  then have n: "\<not> bit x 31"
    using z[of m] assms(2,3) by (auto simp: crc_step_bit low_zero_def)
  show "bit x i = bit 0 i"
    using z[of "Suc i"] n i by (cases "i = 31") (auto simp: crc_step_bit)
qed

lemma crc_shifts_eq_0:
  assumes "low_zero m poly" "bit poly m" "low_zero m x" "(crc_shift poly ^^ k) x = 0"
  shows "x = 0"
  using assms(4)
proof (induction k)
  case (Suc k)
  have "crc_shift poly ((crc_shift poly ^^ k) x) = 0"
    using Suc.prems by simp
  with low_zero_shifts[OF assms(1,3)] Suc.IH show ?case
    using crc_shift_eq_0[OF assms(1,2)] by blast
qed simp

lemma xor_eq_0_iff: "x XOR y = 0 \<longleftrightarrow> x = y" for x y :: u32
  by (auto simp: bit_eq_iff bit_simps)

lemma low_zero_align: "length bs \<le> 32 - m \<Longrightarrow> low_zero m (align bs)"
  by (cases "m \<le> 32") (auto simp: low_zero_def align_bit)

text \<open>A message followed by its check is divisible by the polynomial, and only then.\<close>

lemma crc_run_0_iff:
  assumes "low_zero m poly" "bit poly m" "length t \<le> 32 - m" "m \<le> 32"
  shows "crc_run poly 0 (b @ t) = 0 \<longleftrightarrow> crc_run poly 0 b = align t"
proof -
  have z: "low_zero m (crc_run poly 0 b XOR align t)"
    using low_zero_run[OF assms(1) low_zero_0, of b] low_zero_align[OF assms(3)] by (auto simp: low_zero_def bit_xor_iff)
  have "crc_run poly 0 (b @ t) = (crc_shift poly ^^ length t) (crc_run poly 0 b XOR align t)"
    using assms(3) by (simp add: crc_run_align)
  moreover have "(crc_shift poly ^^ k) 0 = 0" for k
    by (induction k) (simp_all add: crc_step_def)
  ultimately show ?thesis
    using crc_shifts_eq_0[OF assms(1,2) z] by (metis xor_eq_0_iff)
qed

lemma drop_bit_eq_iff: "low_zero m x \<Longrightarrow> low_zero m y \<Longrightarrow> drop_bit m x = drop_bit m y \<longleftrightarrow> x = y"
proof (rule iffI)
  assume a: "low_zero m x" "low_zero m y" and e: "drop_bit m x = drop_bit m y"
  have "bit x i = bit y i" for i
  proof (cases "i < m")
    case False
    then show ?thesis
      using arg_cong[OF e, of "\<lambda>z. bit z (i - m)"] by (simp add: bit_simps)
  qed (use a in \<open>simp add: low_zero_def\<close>)
  then show "x = y"
    by (simp add: bit_eq_iff)
qed simp

lemma align_octet_append:
  "length bs \<le> 24 \<Longrightarrow> align (octet_bits a @ bs) = push_bit 24 (ucast a) OR drop_bit 8 (align bs)"
proof (rule u32_eqI)
  fix i :: nat
  assume "length bs \<le> 24" "i < 32"
  then show "bit (align (octet_bits a @ bs)) i = bit (push_bit 24 (ucast a) OR drop_bit 8 (align bs)) i"
    by (cases "24 \<le> i") (auto simp: align_bit nth_append octet_bits_def bit_simps)
qed

lemma crc_received_align:
  assumes "0 < len" "len \<le> 3" "len \<le> n div 8" "n div 8 \<le> length bs"
  shows "crc_received bs n len = Inr (drop_bit (32 - 8 * len) (align (msb_bits (take len (drop (n div 8 - len) bs)))))"
proof -
  define t where "t = take len (drop (n div 8 - len) bs)"
  define f where "f = (\<lambda>k i. push_bit (8 * (k - 1 - i)) (ucast (t ! i) :: u32))"
  have t: "length t = len" "\<And>i. i < len \<Longrightarrow> bs ! (n div 8 - len + i) = t ! i"
    using assms by (auto simp: t_def)
  have r: "crc_received bs n len = Inr (foldl (\<lambda>oldcrc i. oldcrc OR f len i) 0 [0..<len])"
    using assms t(2) by (auto simp: crc_received_def f_def intro!: foldl_cong)
  consider a where "t = [a]" "len = 1" | a b where "t = [a, b]" "len = 2" | a b c where "t = [a, b, c]" "len = 3"
    using t(1) assms(1,2) by (auto simp: numeral_eq_Suc le_Suc_eq length_Suc_conv)
  then show ?thesis
  proof cases
    case 1
    then show ?thesis
      unfolding r t_def[symmetric] by (auto simp: f_def align_octet intro!: u32_eqI) (auto simp: bit_simps dest: bit_imp_le_length)
  next
    case 2
    then show ?thesis
      unfolding r t_def[symmetric] 
      by (auto simp: f_def align_octet align_octet_append upt_rec intro!: u32_eqI) (auto simp: bit_simps dest: bit_imp_le_length)
  next
    case 3
    then show ?thesis
      unfolding r t_def[symmetric] 
      by (auto simp: f_def align_octet align_octet_append upt_rec intro!: u32_eqI) (auto simp: bit_simps dest: bit_imp_le_length)
  qed
qed

lemma mask_align:
  assumes "length bs = 8 * len" "len \<le> 3"
  shows "drop_bit (32 - 8 * len) (align bs) AND mask (8 * len) = drop_bit (32 - 8 * len) (align bs)"
  using assms by (intro u32_eqI) (auto simp: bit_simps align_bit)

lemma check_crc_eq:
  assumes "crc_type \<le> 3" "8 dvd n" "bits_of (kind_of crc_type) \<le> n" "n \<le> 8 * length bs"
  shows "check_crc crcTableInit bs n crc_type = Inr (crc_ref (poly_of (kind_of crc_type)) bs n = 0)"
proof -
  define k where "k = kind_of crc_type"
  define len where "len = crc_len_of crc_type"
  define q where "q = n div 8"
  have n: "n = 8 * q"
    using assms(2) by (simp add: q_def)
  have k: "bits_of k = 8 * len" "0 < len" "len \<le> 3"
    using assms(1) by (auto simp: k_def len_def kind_of_def crc_len_of_def)
  define m where "m = msb_bits (take (q - len) bs)"
  define t where "t = msb_bits (take len (drop (q - len) bs))"
  have q: "len \<le> q" "q \<le> length bs"
    using assms(3,4) k(1) by (auto simp: n k_def)
  have lt: "length t = 8 * len"
    using q by (simp add: t_def)
  have mt: "take n (msb_bits bs) = m @ t"
  proof -
    have "take q bs = take (q - len) bs @ take len (drop (q - len) bs)"
      using q by (metis le_add_diff_inverse2 take_add)
    then show ?thesis
      using q take_msb_bits[of n bs] by (simp add: n m_def t_def)
  qed
  have ref: "crc_ref (poly_of k) bs (n - 8 * len) = crc_run (poly_of k) 0 m"
  proof -
    have "n - 8 * len = 8 * (q - len)"
      by (simp add: n right_diff_distrib')
    then show ?thesis
      using q take_msb_bits[of "8 * (q - len)" bs] by (simp only: crc_ref_def m_def) simp
  qed
  have lz: "low_zero (32 - 8 * len) (crc_run (poly_of k) 0 m)" "low_zero (32 - 8 * len) (align t)"
    using low_zero_run[OF poly_low_zero[of k] low_zero_0, of m] k(3) lt by (auto simp: k(1) intro!: low_zero_align)
  have c: "crc_of k crcTableInit bs (n - 8 * len) = Inr (crc_run (poly_of k) 0 m)"
    using assms(4) by (simp add: crc_of_ref ref)
  have "crc_received bs n len = Inr (drop_bit (32 - 8 * len) (align t))"
    using crc_received_align[of len n bs] k q by (simp add: n t_def)
  moreover have "drop_bit (32 - 8 * len) (crc_run (poly_of k) 0 m) = drop_bit (32 - 8 * len) (align t) AND mask (8 * len)
      \<longleftrightarrow> crc_run (poly_of k) 0 (m @ t) = 0"
    using lz k(3) lt crc_run_0_iff[OF poly_low_zero[of k] poly_unit[of k], of t m] mask_align[OF lt k(3)]
    by (simp add: drop_bit_eq_iff k(1))
  ultimately show ?thesis
    using c assms(1) unfolding check_crc_def len_def[symmetric] crc_ref_def k_def[symmetric] mt
    by (auto simp: k_def len_def kind_of_def crc_len_of_def mask_eq_exp_minus_1 le_Suc_eq numeral_eq_Suc split: if_splits)
qed

text \<open>Linearity: the difference of two messages decides the difference of their remainders.\<close>

lemma crc_run_diff:
  "length a = length b \<Longrightarrow> crc_run poly x a XOR crc_run poly y b = crc_run poly (x XOR y) (map2 (\<noteq>) a b)"
proof (induction a b arbitrary: x y rule: list_induct2)
  case (Cons p a q b)
  have "crc_step poly x p XOR crc_step poly y q = crc_step poly (x XOR y) (p \<noteq> q)"
    by (rule u32_eqI) (auto simp: crc_step_bit bit_xor_iff)
  then show ?case
    by (simp add: Cons.IH)
qed simp

lemma crc_run_zeros: "crc_run poly x (replicate k False) = (crc_shift poly ^^ k) x"
  by (induction k arbitrary: x) (simp_all add: funpow_swap1[of "crc_shift poly"])

lemma crc_run_zero: "crc_run poly 0 (replicate k False) = 0"
  unfolding crc_run_zeros by (induction k) (simp_all add: crc_step_def)

lemma crc_burst:
  assumes "low_zero m poly" "bit poly m" "length w \<le> 32 - m" "True \<in> set w"
  shows "crc_run poly 0 (replicate p False @ w @ replicate r False) \<noteq> 0"
proof -
  obtain j where j: "j < length w" "w ! j"
    using assms(4) by (auto simp: in_set_conv_nth)
  have "bit (align w) (31 - j)"
    using j assms(3) by (subst align_bit) auto
  then have "align w \<noteq> 0"
    by auto
  then have "(crc_shift poly ^^ k) (align w) \<noteq> 0" for k
    using crc_shifts_eq_0[OF assms(1,2) low_zero_align[OF assms(3)]] by blast
  moreover have "crc_run poly 0 w = (crc_shift poly ^^ length w) (align w)"
    using crc_run_align[of w poly 0] assms(3) by simp
  ultimately show ?thesis
    using funpow_add[of r "length w" "crc_shift poly"] by (simp add: crc_run_zero) (simp add: crc_run_zeros, metis comp_apply)
qed

text \<open>A list of bits that is set only in a window is the window between zeros.\<close>

lemma bits_window:
  assumes "\<And>i. i < length d \<Longrightarrow> d ! i \<Longrightarrow> p \<le> i \<and> i < p + c" "p \<le> length d"
  shows "d = replicate p False @ take c (drop p d) @ replicate (length d - p - c) False"
proof (rule nth_equalityI)
  fix i
  assume "i < length d"
  then show "d ! i = (replicate p False @ take c (drop p d) @ replicate (length d - p - c) False) ! i"
    using assms(1)[of i] by (cases "d ! i") (auto simp: nth_append)
qed (use assms(2) in auto)

lemma msb_bits_inj: "length as = length bs \<Longrightarrow> msb_bits as = msb_bits bs \<Longrightarrow> as = bs"
proof (induction as bs rule: list_induct2)
  case (Cons a as b bs)
  have "a = b"
  proof (rule bit_word_eqI)
    fix i
    assume "i < LENGTH(8)"
    then show "bit a i = bit b i"
      using Cons.prems by (auto simp: octet_bits_def dest!: bspec[of _ _ "7 - i"])
  qed
  then show ?case
    using Cons by simp
qed simp


subsection \<open>Properties\<close>

text \<open>
  C18. The table-driven checks are exact: each of the eight functions, run with the tables that \<open>crcTableInit\<close> makes,
  returns the remainder that the division of the first \<open>bitlen\<close> bits by its polynomial leaves, for every number
  of bits, a multiple of eight or not, and reads outside the input exactly when there are fewer bits.
\<close>

theorem crc_tables_exact:
  "crc_of k crcTableInit inptr bitlen =
     (if bitlen \<le> 8 * length inptr then Inr (crc_ref (poly_of k) inptr bitlen) else Inl Out_of_bounds)"
  by (rule crc_of_ref)

text \<open>
  C19. The receiver detects every burst: when the bits of a block that passes \<open>check_crc\<close> are changed, and all changes lie
  within as many consecutive bits as the check has, \<open>check_crc\<close> rejects the changed block.
\<close>

theorem check_crc_detects_burst:
  assumes "crc_type \<le> 3" and "length rx = length cw" and "8 * crc_len_of crc_type \<le> 8 * length cw"
    and "check_crc crcTableInit cw (8 * length cw) crc_type = Inr True" and "rx \<noteq> cw"
    and "\<And>i. i < 8 * length cw \<Longrightarrow> msb_bits rx ! i \<noteq> msb_bits cw ! i \<Longrightarrow> p \<le> i \<and> i < p + 8 * crc_len_of crc_type"
  shows "check_crc crcTableInit rx (8 * length rx) crc_type = Inr False"
proof -
  define k where "k = kind_of crc_type"
  define d where "d = map2 (\<noteq>) (msb_bits rx) (msb_bits cw)"
  have b: "bits_of k = 8 * crc_len_of crc_type" "bits_of k \<le> 24"
    using assms(1) by (auto simp: k_def kind_of_def crc_len_of_def)
  have w: "d ! i \<Longrightarrow> p \<le> i \<and> i < p + bits_of k" if "i < length d" for i
    using that assms(2) assms(6)[of i] by (auto simp: d_def b)
  obtain i where i: "i < length d" "d ! i"
    using msb_bits_inj[OF assms(2)] assms(2,5) by (auto simp: d_def list_eq_iff_nth_eq)
  have e: "d = replicate p False @ take (bits_of k) (drop p d) @ replicate (length d - p - bits_of k) False"
    using w[OF i] i(1) by (intro bits_window w) auto
  have "True \<in> set (take (bits_of k) (drop p d))"
    using w[OF i] i by (auto simp: in_set_conv_nth intro!: exI[of _ "i - p"])
  then have n: "crc_run (poly_of k) 0 d \<noteq> 0"
    using b(2) by (subst e, intro crc_burst[OF poly_low_zero[of k] poly_unit[of k]]) auto
  have "crc_run (poly_of k) 0 (msb_bits rx) = crc_run (poly_of k) 0 d"
    if "crc_run (poly_of k) 0 (msb_bits cw) = 0"
    using crc_run_diff[of "msb_bits rx" "msb_bits cw" "poly_of k" 0 0] assms(2) that by (simp add: d_def)
  then show ?thesis
    using n assms(1-4) b check_crc_eq[of crc_type "8 * length cw" cw] check_crc_eq[of crc_type "8 * length rx" rx]
    by (simp add: crc_ref_def k_def)
qed

theorem check_crc_detects_burst_witness:
  "check_crc crcTableInit [0, 0] 16 3 = Inr True \<and> check_crc crcTableInit [0x18, 0] 16 3 = Inr False"
proof -
  have z: "octet_bits 0 = replicate 8 False"
    by (simp add: octet_bits_def map_replicate_const)
  have zz: "msb_bits [0, 0] = replicate 16 False"
    using replicate_add[of 8 8 False] by (simp add: z)
  then have c: "check_crc crcTableInit [0, 0] 16 3 = Inr True"
    using check_crc_eq[of 3 16 "[0, 0]"] crc_run_zero[of poly8 16] by (simp add: kind_of_def crc_ref_def)
  have x: "octet_bits 0x18 = [False, False, False, True, True, False, False, False]"
    by (simp add: octet_bits_def upt_rec)
  have "check_crc crcTableInit [0x18, 0] (8 * length [0x18, 0 :: byte]) 3 = Inr False"
  proof (rule check_crc_detects_burst[where cw = "[0, 0]" and p = 3])
    fix i :: nat
    assume "i < 8 * length [0, 0 :: byte]" "msb_bits [0x18, 0] ! i \<noteq> msb_bits [0, 0] ! i"
    then show "3 \<le> i \<and> i < 3 + 8 * crc_len_of 3"
      unfolding zz by (cases "i < 8") (auto simp: x z nth_append nth_Cons' crc_len_of_def split: if_splits)
  qed (use c in \<open>simp_all add: crc_len_of_def\<close>)
  with c show ?thesis
    by simp
qed

text \<open>
  A block with a check of unknown type always passes: the assertions that should stop the receiver are true.
\<close>

theorem check_crc_unknown_type:
  assumes "3 < crc_type"
  shows "check_crc T decoded_bytes n crc_type = Inr True"
  using assms by (simp add: check_crc_def crc_received_def crc_len_of_def)

theorem check_crc_unknown_type_witness: "check_crc crcTableInit [1, 2, 3] 24 4 = Inr True"
  by (rule check_crc_unknown_type) simp

end
