(* ===== verification/Phy_Tb.thy ===== *)
theory Phy_Tb
  imports Phy_Crc
begin

text \<open>
  Sizes of transport blocks and their division into code blocks: \<open>nr_compute_tbs_common.c\<close>, \<open>get_BG\<close> of \<open>nr_mac_common.c\<close>,
  \<open>nr_tbs_tools.c\<close> and \<open>nr_segmentation.c\<close>. Sizes are natural numbers; where a product can exceed 32 bits the wrap-around is
  written out, the other values stay below \<open>2 ^ 24\<close>. Floating point appears in two places: \<open>log2\<close> of an integer, whose
  integral part is exact (\<open>ilog2\<close>), and the code rate in \<open>get_BG\<close>, which is compared as a fraction.
\<close>


subsection \<open>The size of a transport block\<close>

definition NR_MAX_PDSCH_TBS :: nat where
  "NR_MAX_PDSCH_TBS = 3824"

definition Tbstable_nr :: "nat list" where
  "Tbstable_nr = [
    24,   32,   40,   48,   56,   64,   72,   80,   88,   96,   104,  112,  120,  128,  136,  144,  152,  160,  168,
    176,  184,  192,  208,  224,  240,  256,  272,  288,  304,  320,  336,  352,  368,  384,  408,  432,  456,  480,
    504,  528,  552,  576,  608,  640,  672,  704,  736,  768,  808,  848,  888,  928,  984,  1032, 1064, 1128, 1160,
    1192, 1224, 1256, 1288, 1320, 1352, 1416, 1480, 1544, 1608, 1672, 1736, 1800, 1864, 1928, 2024, 2088, 2152, 2216,
    2280, 2408, 2472, 2536, 2600, 2664, 2728, 2792, 2856, 2976, 3104, 3240, 3368, 3496, 3624, 3752, 3824]"

definition NPRB_LBRM :: "nat list" where
  "NPRB_LBRM = [32, 66, 107, 135, 162, 217, 273]"

definition CEILIDIV :: "nat \<Rightarrow> nat \<Rightarrow> nat" where
  "CEILIDIV a b = (a + b - 1) div b"

definition ROUNDIDIV :: "nat \<Rightarrow> nat \<Rightarrow> nat" where
  "ROUNDIDIV a b = (2 * a + b) div (2 * b)"

fun ilog2 :: "nat \<Rightarrow> nat" where
  "ilog2 n = (if n < 2 then 0 else Suc (ilog2 (n div 2)))"

declare ilog2.simps [simp del]

text \<open>The loop over the table: the first entry that is large enough, 0 when there is none.\<close>

definition tbs_from_table :: "nat \<Rightarrow> nat" where
  "tbs_from_table Np_info = (case find (\<lambda>t. Np_info \<le> t) Tbstable_nr of None \<Rightarrow> 0 | Some t \<Rightarrow> t)"

text \<open>The part that \<open>nr_compute_tbs\<close> and \<open>nr_compute_tbslbrm\<close> have in common; \<open>low_rate\<close> is the test of the code rate.\<close>

definition tbs_of_info :: "bool \<Rightarrow> nat \<Rightarrow> nat" where
  "tbs_of_info low_rate Ninfo =
     (if Ninfo \<le> NR_MAX_PDSCH_TBS then
        (let n = max 3 (ilog2 Ninfo - 6)
         in tbs_from_table (max 24 ((Ninfo div 2 ^ n) * 2 ^ n)))
      else
        (let n = ilog2 (Ninfo - 24) - 5;
             Np_info = max 3840 (ROUNDIDIV (Ninfo - 24) (2 ^ n) * 2 ^ n)
         in if low_rate then
              (let C = CEILIDIV (Np_info + 24) 3816 in 8 * C * CEILIDIV (Np_info + 24) (8 * C) - 24)
            else if Np_info > 8424 then
              (let C = CEILIDIV (Np_info + 24) 8424 in 8 * C * CEILIDIV (Np_info + 24) (8 * C) - 24)
            else CEILIDIV (Np_info + 24) 8 * 8 - 24))"

definition nr_compute_tbs :: "nat \<Rightarrow> nat \<Rightarrow> nat \<Rightarrow> nat \<Rightarrow> nat \<Rightarrow> nat \<Rightarrow> nat \<Rightarrow> nat \<Rightarrow> nat" where
  "nr_compute_tbs Qm R nb_rb nb_symb_sch nb_dmrs_prb nb_rb_oh tb_scaling Nl =
     (let nbp_re = nat ((12 * int nb_symb_sch - int nb_dmrs_prb - int nb_rb_oh) mod 2 ^ 32);
          nb_re = min 156 nbp_re * nb_rb;
          R_5 = R div 5;
          Ninfo = (nb_re * R_5 * Qm * Nl) mod 2 ^ 32 div 2 ^ 11 div 2 ^ tb_scaling
      in tbs_of_info (R \<le> 2560) Ninfo)"

text \<open>
  The operands of the product in \<open>nr_compute_tbslbrm\<close> are promoted to \<open>int\<close>; \<open>None\<close> is a product that overflows it, whose value C does
  not define. Up to six layers there is no overflow.
\<close>

definition nr_compute_tbslbrm :: "nat \<Rightarrow> nat \<Rightarrow> nat \<Rightarrow> nat option" where
  "nr_compute_tbslbrm table nb_rb Nl =
     (let nb_rb_lbrm = (case find (\<lambda>n. nb_rb \<le> n) NPRB_LBRM of None \<Rightarrow> 0 | Some n \<Rightarrow> n);
          Qm = (if table = 1 then 8 else 6);
          R = 948;
          nb_re = (156 * nb_rb_lbrm) mod 2 ^ 16;
          product = nb_re * R * Qm * Nl
      in if product \<ge> 2 ^ 31 then None else Some (tbs_of_info (R \<le> 256) (product div 2 ^ 10)))"

lemma tbslbrm_defined:
  assumes "Nl \<le> 6"
  shows "nr_compute_tbslbrm table nb_rb Nl \<noteq> None"
proof -
  have "(case find (\<lambda>n. nb_rb \<le> n) NPRB_LBRM of None \<Rightarrow> 0 | Some n \<Rightarrow> n) \<le> 273" (is "?n \<le> 273")
    by (auto simp: NPRB_LBRM_def)
  then have "(156 * ?n) mod 2 ^ 16 \<le> 42588"
    by simp
  then have "(156 * ?n) mod 2 ^ 16 * 948 * (if table = 1 then 8 else 6) * Nl \<le> 42588 * 948 * 8 * 6"
    using assms by (intro mult_le_mono) auto
  also have "\<dots> < 2 ^ 31"
    by simp
  finally have "\<not> 2 ^ 31 \<le> (156 * ?n) mod 2 ^ 16 * 948 * (if table = 1 then 8 else 6) * Nl"
    by (simp only: not_le)
  then show ?thesis
    unfolding nr_compute_tbslbrm_def Let_def by (simp only: if_False option.distinct simp_thms)
qed

definition get_BG :: "nat \<Rightarrow> nat \<Rightarrow> nat" where
  "get_BG A R =
     (if A \<le> 292 \<or> (A \<le> NR_MAX_PDSCH_TBS \<and> 10000 * R \<le> 6667 * 10240) \<or> 4 * R \<le> 10240 then 2 else 1)"


subsection \<open>The share of a code block\<close>

definition nr_get_G :: "nat \<Rightarrow> nat \<Rightarrow> nat \<Rightarrow> nat \<Rightarrow> nat \<Rightarrow> nat \<Rightarrow> nat \<Rightarrow> nat" where
  "nr_get_G nb_rb nb_symb_sch nb_re_dmrs length_dmrs unav_res Qm Nl =
     nat (((12 * int nb_symb_sch - int nb_re_dmrs * int length_dmrs) * int nb_rb * int Qm * int Nl
       - int unav_res * int Qm * int Nl) mod 2 ^ 32)"

text \<open>The assertions, and the division by \<open>C\<close>, end the process.\<close>

definition nr_get_E :: "nat \<Rightarrow> nat \<Rightarrow> nat \<Rightarrow> nat \<Rightarrow> nat \<Rightarrow> nat result" where
  "nr_get_E G C Qm Nl r =
     (if Nl = 0 \<or> Qm = 0 \<or> C = 0 then Inl Fatal_exit
      else if r \<le> C - (G div (Nl * Qm)) mod C - 1 then Inr (Nl * Qm * (G div (Nl * Qm * C)))
      else Inr (Nl * Qm * (G div (Nl * Qm * C) + 1)))"


subsection \<open>Segmentation\<close>

record nr_seg =
  sg_Kb :: nat
  sg_C :: nat
  sg_K :: nat
  sg_Z :: nat
  sg_F :: nat
  sg_Kprime :: nat
  sg_L :: nat

definition seg_Kcb :: "nat \<Rightarrow> nat" where
  "seg_Kcb BG = (if BG = 1 then 8448 else 3840)"

definition seg_Kb :: "nat \<Rightarrow> nat \<Rightarrow> nat" where
  "seg_Kb BG B = (if BG = 1 then 22 else if B > 640 then 10 else if B > 560 then 9 else if B > 192 then 8 else 6)"

text \<open>\<open>round_to s Z\<close> is \<open>(Z >> k) << k\<close> with \<open>s = 2 ^ k\<close>, raised by \<open>s\<close> when it is less than \<open>Z\<close>.\<close>

definition round_to :: "nat \<Rightarrow> nat \<Rightarrow> nat" where
  "round_to s Z = (let K = Z div s * s in if K < Z then K + s else K)"

definition seg_lift :: "nat \<Rightarrow> nat option" where
  "seg_lift Z =
     (if Z \<le> 2 then Some 2
      else if Z \<le> 16 then Some Z
      else if Z \<le> 32 then Some (round_to 2 Z)
      else if Z \<le> 64 then Some (round_to 4 Z)
      else if Z \<le> 128 then Some (round_to 8 Z)
      else if Z \<le> 256 then Some (round_to 16 Z)
      else if Z \<le> 384 then Some (round_to 32 Z)
      else None)"

text \<open>The number of code blocks; each but a single one has a check of its own, of \<open>L = 24\<close> bits.\<close>

definition seg_C :: "nat \<Rightarrow> nat \<Rightarrow> nat" where
  "seg_C B BG =
     (if B \<le> seg_Kcb BG then 1
      else (let C = B div (seg_Kcb BG - 24) in if (seg_Kcb BG - 24) * C < B then C + 1 else C))"

text \<open>The sizes. \<open>None\<close> is the return value \<open>-1\<close>.\<close>

definition nr_segmentation_sizes :: "nat \<Rightarrow> nat \<Rightarrow> nr_seg option" where
  "nr_segmentation_sizes B BG =
     (let Kcb = seg_Kcb BG;
          L = (if B \<le> Kcb then 0 else 24);
          C = seg_C B BG;
          Bprime = (if B \<le> Kcb then B else B + C * L);
          Kprime = Bprime div C;
          Kb = seg_Kb BG B;
          Z = (if Kprime mod Kb > 0 then Kprime div Kb + 1 else Kprime div Kb)
      in map_option (\<lambda>Zout.
           let K = (if BG = 1 then Zout * 22 else Zout * 10)
           in \<lparr>sg_Kb = Kb, sg_C = C, sg_K = K, sg_Z = Zout, sg_F = K - Kprime, sg_Kprime = Kprime, sg_L = L\<rparr>)
         (seg_lift Z))"

text \<open>The octets of a check, most significant first.\<close>

definition crc_octets_of :: "nat \<Rightarrow> u32 \<Rightarrow> byte list" where
  "crc_octets_of n crc = map (\<lambda>i. ucast (drop_bit (8 * (n - 1 - i)) crc)) [0..<n]"

text \<open>
  One output buffer, whose former contents are \<open>old\<close>: the octets of the block, the check when there are several blocks, zeros
  up to the last whole octet of the \<open>K\<close> bits, and what was there before.
\<close>

definition seg_output :: "crc_tables \<Rightarrow> nr_seg \<Rightarrow> byte list \<Rightarrow> byte list \<Rightarrow> byte list result" where
  "seg_output T sg dat old =
     (if length old < sg_K sg div 8 then Inl Out_of_bounds
      else bind_r (if sg_C sg > 1
             then bind_r (crc24b T (dat @ drop (length dat) old) (sg_Kprime sg - sg_L sg)) (\<lambda>crc. Inr (crc_octets_of 3 (drop_bit 8 crc)))
             else Inr [])
        (\<lambda>c. Inr (dat @ c @ replicate (sg_K sg div 8 - sg_Kprime sg div 8) 0 @ drop (sg_K sg div 8) old)))"

fun seg_blocks :: "crc_tables \<Rightarrow> nr_seg \<Rightarrow> byte list \<Rightarrow> byte list list \<Rightarrow> byte list list result" where
  "seg_blocks T sg input [] = Inr []"
| "seg_blocks T sg input (old # olds) =
     (let n = (sg_Kprime sg - sg_L sg) div 8
      in if length input < n then Inl Out_of_bounds
         else bind_r (seg_output T sg (take n input) old) (\<lambda>out.
              bind_r (seg_blocks T sg (drop n input) olds) (\<lambda>outs. Inr (out # outs))))"

definition nr_segmentation ::
  "crc_tables \<Rightarrow> byte list \<Rightarrow> byte list list \<Rightarrow> nat \<Rightarrow> nat \<Rightarrow> (nr_seg \<times> byte list list) option result" where
  "nr_segmentation T input_buffer output_buffers B BG =
     (case nr_segmentation_sizes B BG of
        None \<Rightarrow> Inr None
      | Some sg \<Rightarrow>
          if length output_buffers < sg_C sg then Inl Out_of_bounds
          else bind_r (seg_blocks T sg input_buffer (take (sg_C sg) output_buffers)) (\<lambda>outs.
                 Inr (Some (sg, outs @ drop (sg_C sg) output_buffers))))"


text \<open>The size of a block with its check and the type of the check, as the receiver computes them.\<close>

definition lenWithCrc :: "nat \<Rightarrow> nat \<Rightarrow> nat" where
  "lenWithCrc nbSeg len =
     (if nbSeg > 1 then (len + 24 + 24 * nbSeg) div nbSeg else len + (if len > NR_MAX_PDSCH_TBS then 24 else 16))"

definition crcType :: "nat \<Rightarrow> nat \<Rightarrow> nat" where
  "crcType nbSeg len = (if nbSeg > 1 then 1 else if len > NR_MAX_PDSCH_TBS then 0 else 2)"


subsection \<open>Rounding\<close>

lemma CEILIDIV_le_iff: "0 < d \<Longrightarrow> CEILIDIV x d \<le> z \<longleftrightarrow> x \<le> d * z"
proof -
  assume d: "0 < d"
  have "CEILIDIV x d \<le> z \<longleftrightarrow> (x + d - 1) div d < Suc z"
    by (simp add: CEILIDIV_def less_Suc_eq_le)
  also have "\<dots> \<longleftrightarrow> x + d - 1 < Suc z * d"
    by (rule div_less_iff_less_mult[OF d])
  also have "\<dots> \<longleftrightarrow> x \<le> d * z"
    using d by (auto simp: algebra_simps)
  finally show ?thesis .
qed

lemma CEILIDIV_bounds:
  assumes "0 < d" "0 < x"
  shows "x \<le> d * CEILIDIV x d" "d * (CEILIDIV x d - 1) < x" "0 < CEILIDIV x d"
proof -
  show 1: "x \<le> d * CEILIDIV x d"
    using CEILIDIV_le_iff[OF assms(1), of x "CEILIDIV x d"] by simp
  then show 2: "0 < CEILIDIV x d"
    using assms(2) by (cases "CEILIDIV x d") auto
  show "d * (CEILIDIV x d - 1) < x"
  proof (rule ccontr)
    assume "\<not> d * (CEILIDIV x d - 1) < x"
    then have "CEILIDIV x d \<le> CEILIDIV x d - 1"
      using CEILIDIV_le_iff[OF assms(1)] by simp
    with 2 show False
      by simp
  qed
qed

lemma CEILIDIV_unique: "0 < d \<Longrightarrow> x \<le> d * c \<Longrightarrow> d * (c - 1) < x \<Longrightarrow> CEILIDIV x d = c"
  using CEILIDIV_le_iff[of d x c] CEILIDIV_le_iff[of d x "c - 1"] by (cases "c = 0") auto

lemma CEILIDIV_up: "0 < d \<Longrightarrow> (if x mod d > 0 then x div d + 1 else x div d) = CEILIDIV x d"
proof -
  assume d: "0 < d"
  define q r where "q = x div d" and "r = x mod d"
  have x: "x = d * q + r" and r: "r < d"
    using d by (simp_all add: q_def r_def)
  have "CEILIDIV x d = (if r > 0 then q + 1 else q)"
  proof (cases "r = 0 \<and> q = 0")
    case True
    then show ?thesis
      using d by (simp add: x CEILIDIV_def)
  next
    case False
    then show ?thesis
      using d r by (cases q) (auto simp: x intro!: CEILIDIV_unique)
  qed
  then show ?thesis
    by (simp add: q_def r_def)
qed

lemma seg_count: "0 < d \<Longrightarrow> (let C = B div d in if d * C < B then C + 1 else C) = CEILIDIV B d"
proof -
  assume d: "0 < d"
  have "d * (B div d) < B \<longleftrightarrow> 0 < B mod d"
    using mult_div_mod_eq[of d B] by linarith
  then show ?thesis
    using CEILIDIV_up[OF d, of B] by (simp add: Let_def)
qed

lemma round_to_props:
  assumes "0 < s"
  shows "Z \<le> round_to s Z" "round_to s Z < Z + s" "s dvd round_to s Z"
proof -
  define q r where "q = Z div s" and "r = Z mod s"
  have Z: "Z = q * s + r" and r: "r < s"
    using assms by (simp_all add: q_def r_def)
  have e: "round_to s Z = (if r > 0 then q * s + s else q * s)"
    unfolding round_to_def Let_def q_def[symmetric] by (auto simp: Z)
  show "Z \<le> round_to s Z" "round_to s Z < Z + s" "s dvd round_to s Z"
    using r assms unfolding e by (auto simp: Z)
qed

lemma round_to_least: "0 < s \<Longrightarrow> s dvd z \<Longrightarrow> Z \<le> z \<Longrightarrow> round_to s Z \<le> z"
proof -
  assume a: "0 < s" "s dvd z" "Z \<le> z"
  obtain q r where q: "z = s * q" "round_to s Z = s * r"
    using a(2) round_to_props(3)[OF a(1), of Z] by (auto elim!: dvdE)
  have "s * r < s * Suc q"
    using round_to_props(2)[OF a(1), of Z] a(3) q by simp
  then have "r < Suc q"
    by (simp only: mult_less_cancel1)
  then have "r \<le> q"
    by simp
  then show ?thesis
    by (simp add: q)
qed


subsection \<open>Lifting sizes\<close>

text \<open>Table 5.3.2-1 of TS 38.212.\<close>

definition lifting_sizes :: "nat set" where
  "lifting_sizes = set (concat [
     [2, 4, 8, 16, 32, 64, 128, 256],
     [3, 6, 12, 24, 48, 96, 192, 384],
     [5, 10, 20, 40, 80, 160, 320],
     [7, 14, 28, 56, 112, 224],
     [9, 18, 36, 72, 144, 288],
     [11, 22, 44, 88, 176, 352],
     [13, 26, 52, 104, 208],
     [15, 30, 60, 120, 240]])"

lemma lifting_multiples:
  assumes "z \<in> lifting_sizes"
  shows "2 \<le> z" "16 < z \<longrightarrow> 2 dvd z" "32 < z \<longrightarrow> 4 dvd z" "64 < z \<longrightarrow> 8 dvd z" "128 < z \<longrightarrow> 16 dvd z" "256 < z \<longrightarrow> 32 dvd z"
  using assms unfolding lifting_sizes_def by auto

lemma lifting_small: "2 \<le> z \<Longrightarrow> z \<le> 16 \<Longrightarrow> z \<in> lifting_sizes"
proof -
  assume "2 \<le> z" "z \<le> 16"
  then have "z \<in> {2, 3, 4, 5, 6, 7, 8, 9, 10, 11, 12, 13, 14, 15, 16}"
    by (simp only: insert_iff empty_iff) arith
  then show ?thesis
    by (auto simp: lifting_sizes_def)
qed

lemma lifting_range:
  assumes "s \<in> {2, 4, 8, 16, 32}" "8 * s < z" "z \<le> 16 * s" "z \<le> 384" "s dvd z"
  shows "z \<in> lifting_sizes"
proof -
  obtain k where k: "z = s * k"
    using assms(5) by (elim dvdE)
  then have "8 < k" "k \<le> 16"
    using assms(1-3) by auto
  then have "k \<in> {9, 10, 11, 12, 13, 14, 15, 16}"
    by (simp only: insert_iff empty_iff) arith
  then show ?thesis
    using assms(1,4) k by (auto simp: lifting_sizes_def)
qed

definition least_lifting :: "nat \<Rightarrow> nat \<Rightarrow> bool" where
  "least_lifting Z z \<longleftrightarrow> z \<in> lifting_sizes \<and> Z \<le> z \<and> (\<forall>y\<in>lifting_sizes. Z \<le> y \<longrightarrow> z \<le> y)"

lemma least_lifting_round:
  assumes "0 < s" "s dvd hi" "lo < Z" "Z \<le> hi"
    and "\<And>y. y \<in> lifting_sizes \<Longrightarrow> lo < y \<Longrightarrow> s dvd y" and "\<And>y. lo < y \<Longrightarrow> y \<le> hi \<Longrightarrow> s dvd y \<Longrightarrow> y \<in> lifting_sizes"
  shows "least_lifting Z (round_to s Z)"
  using round_to_props[OF assms(1), of Z] round_to_least[OF assms(1)] assms(2-6) unfolding least_lifting_def
  by (meson le_less_trans less_le_trans)

lemma seg_lift_least:
  assumes "Z \<le> 384"
  obtains z where "seg_lift Z = Some z" "least_lifting Z z"
proof -
  have r: "round_to 1 Z = Z"
    by (simp add: round_to_def)
  consider "Z \<le> 2" | "2 < Z" "Z \<le> 16" | "16 < Z" "Z \<le> 32" | "32 < Z" "Z \<le> 64" | "64 < Z" "Z \<le> 128" | "128 < Z" "Z \<le> 256"
    | "256 < Z" "Z \<le> 384"
    using assms by linarith
  then show thesis
  proof cases
    case 1
    then show thesis
      using that[of 2] lifting_multiples(1) lifting_small[of 2] by (simp add: seg_lift_def least_lifting_def)
  next
    case 2
    then show thesis
      using that[of Z] least_lifting_round[of 1 16 2 Z] lifting_small by (simp add: seg_lift_def r[simplified])
  next
    case 3
    have "least_lifting Z (round_to 2 Z)"
      using 3 lifting_multiples(2) by (intro least_lifting_round[of 2 32 16] lifting_range[of 2]) auto
    then show thesis
      using that[of "round_to 2 Z"] 3 by (simp add: seg_lift_def)
  next
    case 4
    have "least_lifting Z (round_to 4 Z)"
      using 4 lifting_multiples(3) by (intro least_lifting_round[of 4 64 32] lifting_range[of 4]) auto
    then show thesis
      using that[of "round_to 4 Z"] 4 by (simp add: seg_lift_def)
  next
    case 5
    have "least_lifting Z (round_to 8 Z)"
      using 5 lifting_multiples(4) by (intro least_lifting_round[of 8 128 64] lifting_range[of 8]) auto
    then show thesis
      using that[of "round_to 8 Z"] 5 by (simp add: seg_lift_def)
  next
    case 6
    have "least_lifting Z (round_to 16 Z)"
      using 6 lifting_multiples(5) by (intro least_lifting_round[of 16 256 128] lifting_range[of 16]) auto
    then show thesis
      using that[of "round_to 16 Z"] 6 by (simp add: seg_lift_def)
  next
    case 7
    have "least_lifting Z (round_to 32 Z)"
      using 7 lifting_multiples(6) by (intro least_lifting_round[of 32 384 256] lifting_range[of 32]) auto
    then show thesis
      using that[of "round_to 32 Z"] 7 by (simp add: seg_lift_def)
  qed
qed


subsection \<open>Sizes\<close>

text \<open>The number of code blocks, and the sizes as a function of it.\<close>

definition seg_blocks_of :: "nat \<Rightarrow> nat \<Rightarrow> nat" where
  "seg_blocks_of B BG = (if B \<le> seg_Kcb BG then 1 else CEILIDIV B (seg_Kcb BG - 24))"

definition seg_Kprime_of :: "nat \<Rightarrow> nat \<Rightarrow> nat" where
  "seg_Kprime_of B BG = (if B \<le> seg_Kcb BG then B else B div seg_blocks_of B BG + 24)"

lemma seg_Kcb_gt: "24 < seg_Kcb BG"
  by (simp add: seg_Kcb_def)

lemma seg_Kb_gt: "0 < seg_Kb BG B"
  by (simp add: seg_Kb_def)

lemma seg_blocks_of_gt: "0 < seg_blocks_of B BG"
  using CEILIDIV_bounds(3)[of "seg_Kcb BG - 24" B] seg_Kcb_gt[of BG] by (auto simp: seg_blocks_of_def)

lemma seg_Kprime_le: "seg_Kprime_of B BG \<le> seg_Kcb BG"
proof (cases "B \<le> seg_Kcb BG")
  case False
  have "B \<le> (seg_Kcb BG - 24) * seg_blocks_of B BG"
    using CEILIDIV_bounds(1)[of "seg_Kcb BG - 24" B] False seg_Kcb_gt[of BG] by (simp add: seg_blocks_of_def)
  then have "B div seg_blocks_of B BG \<le> seg_Kcb BG - 24"
    using div_le_mono[of B _ "seg_blocks_of B BG"] seg_blocks_of_gt[of B BG] by fastforce
  then show ?thesis
    using False seg_Kcb_gt[of BG] by (simp add: seg_Kprime_of_def)
qed (simp add: seg_Kprime_of_def)

lemma seg_sizes:
  obtains z where "least_lifting (CEILIDIV (seg_Kprime_of B BG) (seg_Kb BG B)) z"
    and "nr_segmentation_sizes B BG = Some \<lparr>sg_Kb = seg_Kb BG B, sg_C = seg_blocks_of B BG, sg_K = z * (if BG = 1 then 22 else 10), sg_Z = z,
      sg_F = z * (if BG = 1 then 22 else 10) - seg_Kprime_of B BG, sg_Kprime = seg_Kprime_of B BG,
      sg_L = (if B \<le> seg_Kcb BG then 0 else 24)\<rparr>"
proof -
  define Z where "Z = CEILIDIV (seg_Kprime_of B BG) (seg_Kb BG B)"
  have "seg_Kprime_of B BG \<le> seg_Kb BG B * 384"
    using seg_Kprime_le[of B BG] by (auto simp: seg_Kb_def seg_Kcb_def seg_Kprime_of_def split: if_splits)
  then have "Z \<le> 384"
    by (simp add: Z_def CEILIDIV_le_iff[OF seg_Kb_gt])
  then obtain z where z: "seg_lift Z = Some z" "least_lifting Z z"
    by (rule seg_lift_least)
  have up: "(if seg_Kprime_of B BG mod seg_Kb BG B > 0 then seg_Kprime_of B BG div seg_Kb BG B + 1 else seg_Kprime_of B BG div seg_Kb BG B) = Z"
    unfolding Z_def by (rule CEILIDIV_up[OF seg_Kb_gt])
  have "nr_segmentation_sizes B BG = map_option (\<lambda>z.
      \<lparr>sg_Kb = seg_Kb BG B, sg_C = seg_blocks_of B BG, sg_K = z * (if BG = 1 then 22 else 10), sg_Z = z,
      sg_F = z * (if BG = 1 then 22 else 10) - seg_Kprime_of B BG, sg_Kprime = seg_Kprime_of B BG,
      sg_L = (if B \<le> seg_Kcb BG then 0 else 24)\<rparr>) (seg_lift Z)"
  proof -
    have c: "seg_C B BG = seg_blocks_of B BG"
      using seg_count[of "seg_Kcb BG - 24" B] seg_Kcb_gt[of BG] by (simp add: seg_C_def seg_blocks_of_def)
    have k: "(if B \<le> seg_Kcb BG then B else B + seg_blocks_of B BG * (if B \<le> seg_Kcb BG then 0 else 24)) div seg_blocks_of B BG =
        seg_Kprime_of B BG"
      using seg_blocks_of_gt[of B BG] by (cases "B \<le> seg_Kcb BG") (simp_all add: seg_Kprime_of_def, simp add: seg_blocks_of_def)
    have m: "(if BG = 1 then z * 22 else z * 10) = z * (if BG = 1 then 22 else 10)" for z :: nat
      by simp
    show ?thesis
      unfolding nr_segmentation_sizes_def Let_def c k up m ..
  qed
  note e = this[unfolded z(1) option.map]
  show thesis
    by (rule that[OF z(2)[unfolded Z_def] e])
qed

lemma seg_sizes_Some:
  assumes "nr_segmentation_sizes B BG = Some sg"
  shows "sg_C sg = seg_blocks_of B BG" "sg_Kprime sg = seg_Kprime_of B BG" "sg_L sg = (if B \<le> seg_Kcb BG then 0 else 24)"
    "sg_Kb sg = seg_Kb BG B" "sg_K sg = sg_Z sg * (if BG = 1 then 22 else 10)" "sg_F sg = sg_K sg - sg_Kprime sg"
    "least_lifting (CEILIDIV (sg_Kprime sg) (sg_Kb sg)) (sg_Z sg)"
proof -
  obtain z where "least_lifting (CEILIDIV (seg_Kprime_of B BG) (seg_Kb BG B)) z" "sg = \<lparr>sg_Kb = seg_Kb BG B, sg_C = seg_blocks_of B BG,
      sg_K = z * (if BG = 1 then 22 else 10), sg_Z = z, sg_F = z * (if BG = 1 then 22 else 10) - seg_Kprime_of B BG,
      sg_Kprime = seg_Kprime_of B BG, sg_L = (if B \<le> seg_Kcb BG then 0 else 24)\<rparr>"
    using assms by (metis option.inject seg_sizes)
  then show "sg_C sg = seg_blocks_of B BG" "sg_Kprime sg = seg_Kprime_of B BG" "sg_L sg = (if B \<le> seg_Kcb BG then 0 else 24)"
    "sg_Kb sg = seg_Kb BG B" "sg_K sg = sg_Z sg * (if BG = 1 then 22 else 10)" "sg_F sg = sg_K sg - sg_Kprime sg"
    "least_lifting (CEILIDIV (sg_Kprime sg) (sg_Kb sg)) (sg_Z sg)"
    by simp_all
qed


subsection \<open>Transport blocks fit\<close>

text \<open>No bit is lost: the blocks are whole octets and together as long as the input.\<close>

definition seg_exact :: "nat \<Rightarrow> nr_seg \<Rightarrow> bool" where
  "seg_exact B sg \<longleftrightarrow> sg_C sg * (sg_Kprime sg - sg_L sg) = B \<and> 8 dvd sg_Kprime sg - sg_L sg"

lemma seg_exact_one: "B \<le> seg_Kcb BG \<Longrightarrow> 8 dvd B \<Longrightarrow> nr_segmentation_sizes B BG = Some sg \<Longrightarrow> seg_exact B sg"
  by (simp add: seg_exact_def seg_sizes_Some(1-3) seg_Kprime_of_def seg_blocks_of_def)

lemma seg_exact_many:
  assumes "seg_Kcb BG < x" "B = 8 * C * CEILIDIV x (8 * C)" "C = CEILIDIV x (seg_Kcb BG - 24)" "nr_segmentation_sizes B BG = Some sg"
  shows "seg_exact B sg"
proof -
  define d where "d = seg_Kcb BG - 24"
  have d: "8 dvd d" "0 < d"
    by (simp_all add: d_def seg_Kcb_def)
  have x: "0 < x"
    using assms(1) by simp
  have C: "0 < C" "x \<le> d * C" "d * (C - 1) < x"
    using CEILIDIV_bounds[OF d(2) x] assms(3) by (simp_all add: d_def)
  have xB: "x \<le> B"
    using CEILIDIV_bounds(1)[of "8 * C" x] C x assms(2) by simp
  have e: "8 * C * (d div 8) = d * C"
    using d(1) by (auto elim!: dvdE)
  have "CEILIDIV x (8 * C) \<le> d div 8"
    using C(1,2) CEILIDIV_le_iff[of "8 * C" x "d div 8"] by (simp add: e)
  then have "B \<le> 8 * C * (d div 8)"
    unfolding assms(2) by (rule mult_le_mono2)
  then have "B \<le> d * C"
    by (simp only: e)
  then have "CEILIDIV B d = C"
    using d C xB by (intro CEILIDIV_unique) auto
  then have n: "seg_blocks_of B BG = C" "\<not> B \<le> seg_Kcb BG"
    using assms(1) xB by (auto simp: seg_blocks_of_def d_def)
  have "B div C = 8 * CEILIDIV x (8 * C)"
    using C by (simp add: assms(2))
  moreover have "C * (8 * CEILIDIV x (8 * C)) = B"
    by (simp add: assms(2))
  ultimately show ?thesis
    using n by (simp add: seg_exact_def seg_sizes_Some(1-3)[OF assms(4)] seg_Kprime_of_def)
qed

lemma Tbstable_entries: "\<forall>t\<in>set Tbstable_nr. 24 \<le> t \<and> t \<le> 3824 \<and> 8 dvd t"
  by (simp add: Tbstable_nr_def)

lemma tbs_from_table_ok:
  assumes "Np \<le> 3824"
  shows "tbs_from_table Np \<in> set Tbstable_nr" "Np \<le> tbs_from_table Np"
proof -
  have "3824 \<in> set Tbstable_nr"
    by (simp add: Tbstable_nr_def)
  then obtain t where t: "find (\<lambda>t. Np \<le> t) Tbstable_nr = Some t"
    using assms by (cases "find (\<lambda>t. Np \<le> t) Tbstable_nr") (auto simp: find_None_iff)
  then have "t \<in> set Tbstable_nr \<and> Np \<le> t"
    by (auto simp: find_Some_iff)
  with t show "tbs_from_table Np \<in> set Tbstable_nr" "Np \<le> tbs_from_table Np"
    by (simp_all add: tbs_from_table_def)
qed

lemma tbs_small: "Ninfo \<le> 3824 \<Longrightarrow> tbs_of_info low Ninfo \<in> set Tbstable_nr"
proof -
  assume n: "Ninfo \<le> 3824"
  define k where "k = max 3 (ilog2 Ninfo - 6)"
  have "Ninfo div 2 ^ k * 2 ^ k \<le> 3824"
    using div_times_less_eq_dividend[of Ninfo "2 ^ k"] n by (rule le_trans)
  then have "max 24 (Ninfo div 2 ^ k * 2 ^ k) \<le> 3824"
    by simp
  then show ?thesis
    using n tbs_from_table_ok(1) unfolding tbs_of_info_def k_def by (simp add: NR_MAX_PDSCH_TBS_def Let_def)
qed

text \<open>A large transport block with its check of 24 bits: at least 3864 bits, and the blocks that the segmentation will make.\<close>

lemma tbs_large:
  assumes "3824 < Ninfo"
  obtains x where "3864 \<le> x"
    and "low \<Longrightarrow> tbs_of_info low Ninfo + 24 = 8 * CEILIDIV x 3816 * CEILIDIV x (8 * CEILIDIV x 3816)"
    and "\<not> low \<Longrightarrow> 8448 < x \<Longrightarrow> tbs_of_info low Ninfo + 24 = 8 * CEILIDIV x 8424 * CEILIDIV x (8 * CEILIDIV x 8424)"
    and "\<not> low \<Longrightarrow> x \<le> 8448 \<Longrightarrow> tbs_of_info low Ninfo + 24 = 8 * CEILIDIV x 8"
proof -
  define n where "n = ilog2 (Ninfo - 24) - 5"
  define N where "N = max 3840 (ROUNDIDIV (Ninfo - 24) (2 ^ n) * 2 ^ n)"
  define x where "x = N + 24"
  have x: "3864 \<le> x"
    by (simp add: x_def N_def)
  have g: "24 \<le> 8 * CEILIDIV x d * CEILIDIV x (8 * CEILIDIV x d)" if "0 < d" for d
    using CEILIDIV_bounds(1,3)[OF that, of x] CEILIDIV_bounds(1)[of "8 * CEILIDIV x d" x] x by simp
  have h: "24 \<le> 8 * CEILIDIV x 8"
    using CEILIDIV_bounds(1)[of 8 x] x by simp
  show thesis
    using that[OF x] assms g[of 3816] g[of 8424] h
    unfolding tbs_of_info_def n_def[symmetric] Let_def N_def[symmetric] x_def by (simp add: NR_MAX_PDSCH_TBS_def mult.commute)
qed

lemma tbs_of_info_exact:
  assumes "A = tbs_of_info (R \<le> 2560) Ninfo"
  obtains sg where "nr_segmentation_sizes (lenWithCrc 1 A) (get_BG A R) = Some sg" "seg_exact (lenWithCrc 1 A) sg" "8 dvd A" "24 \<le> A"
proof -
  obtain sg where sg: "nr_segmentation_sizes (lenWithCrc 1 A) (get_BG A R) = Some sg"
    by (rule seg_sizes)
  show thesis
  proof (cases "Ninfo \<le> 3824")
    case True
    then have A: "24 \<le> A" "A \<le> 3824" "8 dvd A"
      using tbs_small[OF True] Tbstable_entries assms by blast+
    then have "lenWithCrc 1 A = A + 16"
      by (simp add: lenWithCrc_def NR_MAX_PDSCH_TBS_def)
    moreover have "A + 16 \<le> seg_Kcb (get_BG A R)"
      using A by (simp add: seg_Kcb_def)
    ultimately show thesis
      using that[OF sg] A seg_exact_one[OF _ _ sg] by (auto intro: dvd_add)
  next
    case False
    then obtain x where x: "3864 \<le> x"
      "R \<le> 2560 \<Longrightarrow> A + 24 = 8 * CEILIDIV x 3816 * CEILIDIV x (8 * CEILIDIV x 3816)"
      "\<not> R \<le> 2560 \<Longrightarrow> 8448 < x \<Longrightarrow> A + 24 = 8 * CEILIDIV x 8424 * CEILIDIV x (8 * CEILIDIV x 8424)"
      "\<not> R \<le> 2560 \<Longrightarrow> x \<le> 8448 \<Longrightarrow> A + 24 = 8 * CEILIDIV x 8"
      using tbs_large[of Ninfo "R \<le> 2560"] assms by (metis not_le)
    have le: "x \<le> A + 24"
      using x CEILIDIV_bounds(1)[of 8 x] CEILIDIV_bounds(3)[of 3816 x] CEILIDIV_bounds(3)[of 8424 x]
        CEILIDIV_bounds(1)[of "8 * CEILIDIV x 3816" x] CEILIDIV_bounds(1)[of "8 * CEILIDIV x 8424" x]
      by (cases "R \<le> 2560"; cases "8448 < x") auto
    have B: "lenWithCrc 1 A = A + 24" and BG: "get_BG A R = (if R \<le> 2560 then 2 else 1)"
      using le x(1) by (auto simp: lenWithCrc_def get_BG_def NR_MAX_PDSCH_TBS_def)
    have "8 dvd A + 24"
      using x by (cases "R \<le> 2560"; cases "8448 < x") auto
    then have A: "8 dvd A"
      by (simp add: dvd_add_left_iff)
    have "seg_exact (A + 24) sg"
    proof (cases "R \<le> 2560 \<or> 8448 < x")
      case True
      then show ?thesis
        using x sg unfolding B BG by (intro seg_exact_many[of "if R \<le> 2560 then 2 else 1" x _ "CEILIDIV x (if R \<le> 2560 then 3816 else 8424)"]) (auto simp: seg_Kcb_def split: if_splits)
    next
      case False
      then have "A + 24 \<le> 8448"
        using x(4) CEILIDIV_le_iff[of 8 x 1056] by simp
      then show ?thesis
        using False sg \<open>8 dvd A + 24\<close> unfolding B BG by (intro seg_exact_one[of _ 1]) (auto simp: seg_Kcb_def)
    qed
    then show thesis
      using that[OF sg] A le x(1) B by simp
  qed
qed


subsection \<open>Properties\<close>

text \<open>
  C21. The segmentation takes the lifting size that TS 38.212 prescribes: for every size of the input and either base graph it
  succeeds, and its lifting size is the least one of Table 5.3.2-1 with which \<open>Kb\<close> columns hold a code block.
\<close>

theorem segmentation_lifting_size:
  "\<exists>sg. nr_segmentation_sizes B BG = Some sg \<and>
     sg_Z sg = Min {z \<in> lifting_sizes. sg_Kprime sg \<le> sg_Kb sg * z}"
proof -
  obtain sg where sg: "nr_segmentation_sizes B BG = Some sg"
    by (rule seg_sizes)
  have "0 < sg_Kb sg"
    by (simp add: seg_sizes_Some(4)[OF sg] seg_Kb_gt)
  moreover have "finite lifting_sizes"
    by (simp add: lifting_sizes_def)
  ultimately have "Min {z \<in> lifting_sizes. sg_Kprime sg \<le> sg_Kb sg * z} = sg_Z sg"
    using seg_sizes_Some(7)[OF sg] by (intro Min_eqI) (auto simp: least_lifting_def CEILIDIV_le_iff)
  with sg show ?thesis
    by auto
qed

text \<open>
  C20. A transport block of a size that \<open>nr_compute_tbs\<close> computes is divided without loss: with its check, and with the base
  graph that \<open>get_BG\<close> selects for it, it is cut into code blocks of equal size that are whole octets and hold all
  of its bits.
\<close>

theorem tbs_segments_exactly:
  "\<exists>sg. nr_segmentation_sizes (lenWithCrc 1 (nr_compute_tbs Qm R nb_rb nb_symb_sch nb_dmrs_prb nb_rb_oh tb_scaling Nl))
       (get_BG (nr_compute_tbs Qm R nb_rb nb_symb_sch nb_dmrs_prb nb_rb_oh tb_scaling Nl) R) = Some sg \<and>
     sg_C sg * (sg_Kprime sg - sg_L sg) = lenWithCrc 1 (nr_compute_tbs Qm R nb_rb nb_symb_sch nb_dmrs_prb nb_rb_oh tb_scaling Nl) \<and>
     8 dvd sg_Kprime sg - sg_L sg"
  using tbs_of_info_exact[OF refl, of R] unfolding nr_compute_tbs_def Let_def seg_exact_def by metis

lemma get_E_sum:
  fixes g C u :: nat
  assumes "0 < C"
  shows "(\<Sum>r<C. u * (if r \<le> C - g mod C - 1 then g div C else g div C + 1)) = u * g"
proof -
  define m q where "m = g mod C" and "q = g div C"
  have m: "m < C" "g = C * q + m"
    using assms by (simp_all add: m_def q_def)
  have "(\<Sum>r<C. if r \<le> C - m - 1 then q else q + 1) = (\<Sum>r<C. q) + (\<Sum>r<C. if r \<le> C - m - 1 then 0 else 1)"
    by (subst sum.distrib[symmetric], rule sum.cong) auto
  also have "(\<Sum>r<C. if r \<le> C - m - 1 then 0 else (1 :: nat)) = card {C - m..<C}"
    using m unfolding card_eq_sum by (intro sum.mono_neutral_cong_right) auto
  also have "(\<Sum>r<C. q) + card {C - m..<C} = g"
    using m by simp
  finally show ?thesis
    unfolding m_def[symmetric] q_def[symmetric] by (simp add: sum_distrib_left[symmetric])
qed

text \<open>
  C22. The code blocks share the bits of the channel completely: when \<open>G\<close> is a multiple of the bits that one symbol carries on
  all layers, each code block gets a multiple of it and the shares add up to \<open>G\<close>.
\<close>

theorem code_blocks_share_all:
  assumes "0 < C" and "0 < Nl" and "0 < Qm" and "Nl * Qm dvd G"
  shows "\<exists>E. (\<forall>r<C. nr_get_E G C Qm Nl r = Inr (Nl * Qm * E r)) \<and> (\<Sum>r<C. Nl * Qm * E r) = G"
proof -
  define g where "g = G div (Nl * Qm)"
  have G: "G = Nl * Qm * g"
    using assms(4) by (simp add: g_def)
  have d: "G div (Nl * Qm * C) = g div C"
    by (simp add: g_def div_mult2_eq)
  let ?E = "\<lambda>r. if r \<le> C - g mod C - 1 then g div C else g div C + 1"
  have "\<forall>r<C. nr_get_E G C Qm Nl r = Inr (Nl * Qm * ?E r)"
    using assms(2,3) unfolding nr_get_E_def d g_def[symmetric] by simp
  moreover have "(\<Sum>r<C. Nl * Qm * ?E r) = G"
    using get_E_sum[OF assms(1), of "Nl * Qm" g] G by simp
  ultimately show ?thesis
    by (intro exI[of _ ?E]) blast
qed

theorem code_blocks_share_all_witness:
  "\<exists>E. (\<forall>r<3. nr_get_E 40 3 4 2 r = Inr (2 * 4 * E r)) \<and> (\<Sum>r<3. 2 * 4 * E r) = (40 :: nat)"
  using code_blocks_share_all [of 3 2 4 40] by simp

text \<open>
  The filler bits of the last octet are not cleared: a block of 320 bits on base graph 1 is filled up to 330 bits, two of
  which are in the octet with number 41. The segmentation leaves this octet as it was, and the encoder reads the two bits.
\<close>

theorem filler_bits_not_cleared:
  assumes "length input = 40" and "42 \<le> length old"
  shows "\<exists>sg out. nr_segmentation T input [old] 320 1 = Inr (Some (sg, [out])) \<and> sg_K sg = 8 * 41 + 2 \<and> sg_F sg = 10 \<and> out ! 41 = old ! 41"
proof -
  have s: "nr_segmentation_sizes 320 1 =
      Some \<lparr>sg_Kb = 22, sg_C = 1, sg_K = 330, sg_Z = 15, sg_F = 10, sg_Kprime = 320, sg_L = 0\<rparr>"
    by (simp add: nr_segmentation_sizes_def seg_Kcb_def seg_Kb_def seg_C_def seg_lift_def)
  show ?thesis
    using assms by (auto simp: nr_segmentation_def s[simplified] seg_output_def Let_def nth_append)
qed

theorem filler_bits_not_cleared_witness:
  "\<exists>sg out. nr_segmentation crcTableInit (replicate 40 0) [replicate 42 255] 320 1 = Inr (Some (sg, [out])) \<and>
     sg_K sg = 8 * 41 + 2 \<and> sg_F sg = 10 \<and> out ! 41 = 255"
  using filler_bits_not_cleared [of "replicate 40 0" "replicate 42 255" crcTableInit] by simp

end
