(* ===== verification/Phy_Ulsch.thy ===== *)
theory Phy_Ulsch
  imports Phy_Tb
begin

text \<open>
  A transport block on its way: the check that \<open>nr_ulsch_encoding\<close> of the UE and \<open>nr_dlsch_encoding\<close> of the base station add, the
  division into code blocks, and the reassembly by the base station (\<open>nr_ulsch_decoding.c\<close>, \<open>nr_postDecode\<close> of
  \<open>phy_procedures_nr_gNB.c\<close>). The code between, LDPC, rate matching and the radio channel, is represented by what it
  delivers: for each code block a success flag and the decoded octets.
\<close>


subsection \<open>Sender\<close>

definition MAX_NUM_NR_DLSCH_SEGMENTS_PER_LAYER :: nat where
  "MAX_NUM_NR_DLSCH_SEGMENTS_PER_LAYER = 36"

definition MAX_NUM_NR_ULSCH_SEGMENTS_PER_LAYER :: nat where
  "MAX_NUM_NR_ULSCH_SEGMENTS_PER_LAYER = 34"

text \<open>The check of the first \<open>A\<close> bits is written behind them; \<open>A\<close> is a multiple of eight.\<close>

definition tb_add_crc :: "crc_tables \<Rightarrow> byte list \<Rightarrow> nat \<Rightarrow> (byte list \<times> nat) result" where
  "tb_add_crc T a A =
     (if A > NR_MAX_PDSCH_TBS then
        bind_r (crc24a T a A) (\<lambda>crc. bind_r (memcpy_at a (A div 8) (crc_octets_of 3 (drop_bit 8 crc))) (\<lambda>a'. Inr (a', A + 24)))
      else
        bind_r (crc16 T a A) (\<lambda>crc. bind_r (memcpy_at a (A div 8) (crc_octets_of 2 (drop_bit 16 crc))) (\<lambda>a'. Inr (a', A + 16))))"

text \<open>
  \<open>nr_ulsch_encoding\<close> for a new packet, up to the code blocks: \<open>None\<close> is the return value \<open>-1\<close>. The code stores what
  \<open>nr_segmentation\<close> returns as the lifting size without testing it for \<open>-1\<close>; the model stops there, a branch that is never taken because a
  lifting size is found for every size of the block (\<open>seg_sizes\<close>).
\<close>

definition nr_ulsch_blocks ::
  "crc_tables \<Rightarrow> byte list \<Rightarrow> nat \<Rightarrow> nat \<Rightarrow> nat \<Rightarrow> byte list list \<Rightarrow> (nr_seg \<times> byte list list) option result" where
  "nr_ulsch_blocks T payload_AB tb_size BG nrOfLayers c =
     (let A = 8 * tb_size;
          max_payload_bytes = MAX_NUM_NR_ULSCH_SEGMENTS_PER_LAYER * nrOfLayers * 1056
      in bind_r (tb_add_crc T payload_AB A) (\<lambda>(b, B).
           if A div 8 + (if A > NR_MAX_PDSCH_TBS then 4 else 3) > max_payload_bytes then Inl Fatal_exit
           else bind_r (nr_segmentation T b c B BG) (\<lambda>r.
             case r of None \<Rightarrow> Inr None
             | Some (sg, cs) \<Rightarrow>
                 Inr (if sg_C sg > MAX_NUM_NR_DLSCH_SEGMENTS_PER_LAYER * nrOfLayers then None else Some (sg, cs)))))"

text \<open>\<open>nr_dlsch_encoding\<close> copies the block with its check, and one octet more, to \<open>harq->b\<close> before it cuts it.\<close>

definition nr_dlsch_blocks ::
  "crc_tables \<Rightarrow> byte list \<Rightarrow> nat \<Rightarrow> nat \<Rightarrow> nat \<Rightarrow> byte list list \<Rightarrow> (nr_seg \<times> byte list list) option result" where
  "nr_dlsch_blocks T a TBSize BG nrOfLayers c =
     (let A = 8 * TBSize;
          max_bytes = MAX_NUM_NR_DLSCH_SEGMENTS_PER_LAYER * nrOfLayers * 1056;
          n = A div 8 + (if A > NR_MAX_PDSCH_TBS then 4 else 3)
      in bind_r (tb_add_crc T a A) (\<lambda>(a', B).
           if n > max_bytes then Inl Fatal_exit
           else bind_r (read_at a' 0 (int n)) (\<lambda>b. bind_r (nr_segmentation T b c B BG) (\<lambda>r.
             case r of None \<Rightarrow> Inr None
             | Some (sg, cs) \<Rightarrow>
                 Inr (if sg_C sg > MAX_NUM_NR_DLSCH_SEGMENTS_PER_LAYER * nrOfLayers then None else Some (sg, cs))))))"


subsection \<open>Receiver\<close>

record ul_harq =
  uh_b :: "byte list"
  uh_C :: nat
  uh_K :: nat
  uh_F :: nat
  uh_processed :: nat

text \<open>
  The start of \<open>nr_ulsch_decoding\<close>: the sizes, as the sender has them, and the limits on the number of code blocks. \<open>None\<close> is
  the return value \<open>-1\<close>, and as above a failing segmentation, which does not occur.
\<close>

definition nr_ulsch_decoding_init :: "byte list \<Rightarrow> nat \<Rightarrow> nat \<Rightarrow> nat \<Rightarrow> nat \<Rightarrow> ul_harq option" where
  "nr_ulsch_decoding_init b TBS BG n_layers nb_rb =
     (case nr_segmentation_sizes (lenWithCrc 1 (8 * TBS)) BG of
        None \<Rightarrow> None
      | Some sg \<Rightarrow>
          (let a = MAX_NUM_NR_ULSCH_SEGMENTS_PER_LAYER * n_layers;
               a_segments = (if nb_rb \<noteq> 273 then (a * nb_rb) mod 2 ^ 16 div 273 + 1 else a)
           in if sg_C sg > a \<or> sg_C sg > a_segments then None
              else Some \<lparr>uh_b = b, uh_C = sg_C sg, uh_K = sg_K sg, uh_F = sg_F sg, uh_processed = 0\<rparr>))"

text \<open>The octets of a code block that belong to the transport block; the offset of block \<open>r\<close> is \<open>r\<close> times as much.\<close>

definition ul_block_len :: "ul_harq \<Rightarrow> nat" where
  "ul_block_len h = uh_K h div 8 - uh_F h div 8 - (if uh_C h > 1 then 3 else 0)"

text \<open>
  The outcome of the transport block: \<open>Ul_ack\<close> is the indication of a correct block, with which the process becomes inactive and
  starts again at round 0, \<open>Ul_nak\<close> that of a wrong one, which only marks it as handled. Statistics are left out.
\<close>

datatype ul_outcome = Ul_pending | Ul_ack | Ul_nak

definition nr_postDecode ::
  "crc_tables \<Rightarrow> nat \<Rightarrow> bool \<Rightarrow> bool \<Rightarrow> ul_harq \<Rightarrow> nat \<Rightarrow> bool \<Rightarrow> byte list \<Rightarrow> (ul_harq \<times> ul_outcome) result" where
  "nr_postDecode T A abort_decode DTX h r decodeSuccess c =
     bind_r (if decodeSuccess
             then bind_r (read_at c 0 (int (ul_block_len h))) (memcpy_at (uh_b h) (r * ul_block_len h))
             else Inr (uh_b h)) (\<lambda>b.
       let h' = h\<lparr>uh_b := b, uh_processed := uh_processed h + 1\<rparr>
       in if uh_processed h' = uh_C h then
            bind_r (if uh_C h > 1 then check_crc T b (lenWithCrc 1 A) (crcType 1 A) else Inr True) (\<lambda>crc_valid.
              Inr (h', if crc_valid \<and> \<not> abort_decode \<and> \<not> DTX then Ul_ack else Ul_nak))
          else Inr (h', Ul_pending))"

text \<open>The results of the code blocks \<open>r, r + 1, ...\<close> in order.\<close>

fun ul_receive ::
  "crc_tables \<Rightarrow> nat \<Rightarrow> bool \<Rightarrow> bool \<Rightarrow> ul_harq \<Rightarrow> nat \<Rightarrow> (bool \<times> byte list) list \<Rightarrow> (ul_harq \<times> ul_outcome) result" where
  "ul_receive T A abort_decode DTX h r [] = Inr (h, Ul_pending)"
| "ul_receive T A abort_decode DTX h r ((ok, c) # cs) =
     bind_r (nr_postDecode T A abort_decode DTX h r ok c) (\<lambda>(h', res).
       if cs = [] then Inr (h', res) else ul_receive T A abort_decode DTX h' (Suc r) cs)"


subsection \<open>Checks of the sender\<close>

lemma length_crc_octets_of [simp]: "length (crc_octets_of n crc) = n"
  by (simp add: crc_octets_of_def)

lemma align_crc_octets:
  assumes "0 < n" "n \<le> 3" "low_zero (32 - 8 * n) s"
  shows "align (msb_bits (crc_octets_of n (drop_bit (32 - 8 * n) s))) = s"
proof (rule u32_eqI)
  fix i :: nat
  assume i: "i < 32"
  consider "n = 1" | "n = 2" | "n = 3"
    using assms(1,2) by linarith
  then show "bit (align (msb_bits (crc_octets_of n (drop_bit (32 - 8 * n) s)))) i = bit s i"
  proof cases
    case 1
    then show ?thesis
      using assms(3) i by (cases "24 \<le> i") (auto simp: crc_octets_of_def align_octet bit_simps low_zero_def)
  next
    case 2
    then show ?thesis
      using assms(3) i
      by (cases "24 \<le> i"; cases "16 \<le> i")
        (auto simp: crc_octets_of_def upt_rec align_octet align_octet_append bit_simps low_zero_def)
  next
    case 3
    then show ?thesis
      using assms(3) i
      by (cases "24 \<le> i"; cases "16 \<le> i"; cases "8 \<le> i")
        (auto simp: crc_octets_of_def upt_rec align_octet align_octet_append bit_simps low_zero_def)
  qed
qed

text \<open>Octets followed by their check pass.\<close>

lemma check_crc_attached:
  assumes "crc_type \<le> 3" "n = crc_len_of crc_type" "b = m @ crc_octets_of n (drop_bit (32 - 8 * n) (crc_ref (poly_of (kind_of crc_type)) m (8 * length m)))"
    and "take (length b) bs = b"
  shows "check_crc crcTableInit bs (8 * length b) crc_type = Inr True"
proof -
  define k where "k = kind_of crc_type"
  define s where "s = crc_ref (poly_of k) m (8 * length m)"
  have n: "bits_of k = 8 * n" "0 < n" "n \<le> 3"
    using assms(1,2) by (auto simp: k_def kind_of_def crc_len_of_def)
  have s: "s = crc_run (poly_of k) 0 (msb_bits m)"
    by (simp add: s_def crc_ref_def)
  have lz: "low_zero (32 - 8 * n) s"
    using low_zero_run[OF poly_low_zero[of k] low_zero_0] by (simp add: s n(1))
  have "msb_bits bs = msb_bits b @ msb_bits (drop (length b) bs)"
    using assms(4) by (metis append_take_drop_id msb_bits_append)
  then have "take (8 * length b) (msb_bits bs) = msb_bits b"
    by simp
  also have "\<dots> = msb_bits m @ msb_bits (crc_octets_of n (drop_bit (32 - 8 * n) s))"
    by (simp add: assms(3) s_def k_def)
  finally have "crc_ref (poly_of k) bs (8 * length b) = 0"
    using crc_run_0_iff[OF poly_low_zero[of k] poly_unit[of k], of "msb_bits (crc_octets_of n (drop_bit (32 - 8 * n) s))" "msb_bits m"]
      align_crc_octets[OF n(2,3) lz] n(1,3) by (simp add: crc_ref_def s)
  moreover have "length b \<le> length bs"
    using assms(4) by (metis length_take min.cobounded2 linorder_le_cases take_all)
  moreover have "bits_of k \<le> 8 * length b"
    by (simp add: n(1) assms(3))
  ultimately show ?thesis
    using check_crc_eq[OF assms(1), of "8 * length b" bs] by (simp add: k_def)
qed

lemma crc_ref_prefix: "crc_ref poly (m @ x) (8 * length m) = crc_ref poly m (8 * length m)"
  by (simp add: crc_ref_def)


subsection \<open>Code blocks\<close>

text \<open>The check of a code block.\<close>

definition block_crc :: "nr_seg \<Rightarrow> byte list \<Rightarrow> byte list" where
  "block_crc sg dat = (if sg_C sg > 1 then crc_octets_of 3 (drop_bit 8 (crc_ref poly24b dat (8 * length dat))) else [])"

lemma seg_output_ok:
  assumes "8 * length dat = sg_Kprime sg - sg_L sg" "sg_K sg div 8 \<le> length old" "length dat \<le> length old"
  shows "seg_output crcTableInit sg dat old =
    Inr (dat @ block_crc sg dat @ replicate (sg_K sg div 8 - sg_Kprime sg div 8) 0 @ drop (sg_K sg div 8) old)"
proof -
  have "crc24b crcTableInit (dat @ drop (length dat) old) (sg_Kprime sg - sg_L sg) = Inr (crc_ref poly24b dat (8 * length dat))"
    using crc_of_ref[of Crc24b "dat @ drop (length dat) old" "8 * length dat"] by (simp add: assms(1)[symmetric] crc_ref_prefix)
  then show ?thesis
    using assms(2) by (simp add: seg_output_def block_crc_def)
qed

lemma seg_blocks_ok:
  assumes "8 * n = sg_Kprime sg - sg_L sg" "n \<le> sg_K sg div 8"
  shows "\<forall>old\<in>set olds. sg_K sg div 8 \<le> length old \<Longrightarrow> n * length olds \<le> length input \<Longrightarrow>
    \<exists>outs. seg_blocks crcTableInit sg input olds = Inr outs \<and> length outs = length olds \<and>
      (\<forall>r<length olds. \<exists>tail. outs ! r = take n (drop (n * r) input) @ block_crc sg (take n (drop (n * r) input)) @ tail \<and>
         sg_K sg div 8 - sg_Kprime sg div 8 \<le> length tail)"
proof (induction olds arbitrary: input)
  case (Cons old olds)
  have n: "(sg_Kprime sg - sg_L sg) div 8 = n"
    using assms(1) by (metis nonzero_mult_div_cancel_left zero_neq_numeral)
  have l: "length (take n input) = n"
    using Cons.prems(2) by simp
  have o: "seg_output crcTableInit sg (take n input) old = Inr (take n input @ block_crc sg (take n input) @
      replicate (sg_K sg div 8 - sg_Kprime sg div 8) 0 @ drop (sg_K sg div 8) old)" (is "_ = Inr (_ @ _ @ ?t)")
    using Cons.prems(1) assms l by (intro seg_output_ok) auto
  obtain outs where outs: "seg_blocks crcTableInit sg (drop n input) olds = Inr outs" "length outs = length olds"
    "\<forall>r<length olds. \<exists>tail. outs ! r = take n (drop (n * r) (drop n input)) @ block_crc sg (take n (drop (n * r) (drop n input))) @ tail \<and>
      sg_K sg div 8 - sg_Kprime sg div 8 \<le> length tail"
  proof -
    have "\<forall>old\<in>set olds. sg_K sg div 8 \<le> length old" "n * length olds \<le> length (drop n input)"
      using Cons.prems by auto
    then show ?thesis
      using Cons.IH[of "drop n input"] that by blast
  qed
  have "\<exists>tail. ((take n input @ block_crc sg (take n input) @ ?t) # outs) ! r =
      take n (drop (n * r) input) @ block_crc sg (take n (drop (n * r) input)) @ tail \<and>
      sg_K sg div 8 - sg_Kprime sg div 8 \<le> length tail" if "r < Suc (length olds)" for r
    using outs(3) that by (cases r) (auto simp: add.commute)
  then show ?case
    using outs(1,2) o l Cons.prems(2) by (auto simp: n)
qed simp


subsection \<open>Reassembly\<close>

lemma nr_postDecode_ok:
  assumes "n = ul_block_len h" "n \<le> length c" "Suc r * n \<le> length (uh_b h)"
  defines "h' \<equiv> h\<lparr>uh_b := take (r * n) (uh_b h) @ take n c @ drop (r * n + n) (uh_b h), uh_processed := uh_processed h + 1\<rparr>"
  shows "nr_postDecode T A abort DTX h r True c =
    (if uh_processed h + 1 = uh_C h then
       bind_r (if uh_C h > 1 then check_crc T (uh_b h') (lenWithCrc 1 A) (crcType 1 A) else Inr True) (\<lambda>v.
         Inr (h', if v \<and> \<not> abort \<and> \<not> DTX then Ul_ack else Ul_nak))
     else Inr (h', Ul_pending))"
  using assms by (simp add: nr_postDecode_def read_at_def min_def)

lemma take_step:
  assumes "take (r * n) b = take (r * n) X" "take n c = take n (drop (r * n) X)" "Suc r * n \<le> length b" "Suc r * n \<le> length X" "n \<le> length c"
  shows "take (Suc r * n) (take (r * n) b @ take n c @ drop (r * n + n) b) = take (Suc r * n) X"
proof -
  have "take (Suc r * n) X = take (r * n) X @ take n (drop (r * n) X)"
    by (metis add.commute mult_Suc take_add)
  then show ?thesis
    using assms by (auto simp: min_def)
qed

lemma ul_receive_ok:
  assumes "n = ul_block_len h" "uh_processed h = r" "r + length cs = uh_C h" "cs \<noteq> []"
    and "uh_C h * n \<le> length (uh_b h)" "uh_C h * n \<le> length X" "take (r * n) (uh_b h) = take (r * n) X"
    and "\<And>i. i < length cs \<Longrightarrow> n \<le> length (cs ! i) \<and> take n (cs ! i) = take n (drop ((r + i) * n) X)"
  shows "\<exists>h'. take (uh_C h * n) (uh_b h') = take (uh_C h * n) X \<and> uh_C h * n \<le> length (uh_b h') \<and>
    ul_receive T A abort DTX h r (map (Pair True) cs) =
      bind_r (if uh_C h > 1 then check_crc T (uh_b h') (lenWithCrc 1 A) (crcType 1 A) else Inr True) (\<lambda>v.
        Inr (h', if v \<and> \<not> abort \<and> \<not> DTX then Ul_ack else Ul_nak))"
  using assms
proof (induction cs arbitrary: h r)
  case (Cons c cs)
  define h1 where "h1 = h\<lparr>uh_b := take (r * n) (uh_b h) @ take n c @ drop (r * n + n) (uh_b h), uh_processed := uh_processed h + 1\<rparr>"
  have c: "n \<le> length c" "take n c = take n (drop (r * n) X)"
    using Cons.prems(8)[of 0] by simp_all
  have "Suc r * n \<le> uh_C h * n"
    using Cons.prems(3) by (intro mult_le_mono1) simp
  then have le: "Suc r * n \<le> length (uh_b h)" "Suc r * n \<le> length X"
    using Cons.prems(5,6) by linarith+
  have b1: "take (Suc r * n) (uh_b h1) = take (Suc r * n) X"
    using take_step[OF Cons.prems(7) c(2) le c(1)] by (simp add: h1_def)
  have l1: "length (uh_b h1) = length (uh_b h)"
    using le c(1) by (simp add: h1_def)
  have h1: "uh_C h1 = uh_C h" "uh_processed h1 = Suc r" "n = ul_block_len h1"
    using Cons.prems(1,2) by (simp_all add: h1_def ul_block_len_def)
  note p = nr_postDecode_ok[OF Cons.prems(1) c(1) le(1), of T A abort DTX, folded h1_def]
  show ?case
  proof (cases "cs = []")
    case True
    then have C: "uh_C h = Suc r"
      using Cons.prems(3) by simp
    show ?thesis
      using True p b1 l1 le C Cons.prems(2) by (intro exI[of _ h1]) (auto simp: bind_r_assoc split_def)
  next
    case False
    then have "uh_processed h + 1 \<noteq> uh_C h"
      using Cons.prems(2,3) by (cases cs) auto
    then have s: "ul_receive T A abort DTX h r (map (Pair True) (c # cs)) = ul_receive T A abort DTX h1 (Suc r) (map (Pair True) cs)"
      using p False by simp
    have "\<exists>h'. take (uh_C h1 * n) (uh_b h') = take (uh_C h1 * n) X \<and> uh_C h1 * n \<le> length (uh_b h') \<and>
        ul_receive T A abort DTX h1 (Suc r) (map (Pair True) cs) =
          bind_r (if uh_C h1 > 1 then check_crc T (uh_b h') (lenWithCrc 1 A) (crcType 1 A) else Inr True) (\<lambda>v.
            Inr (h', if v \<and> \<not> abort \<and> \<not> DTX then Ul_ack else Ul_nak))"
      using Cons.prems(3,5,6) Cons.prems(8)[of "Suc _"] False h1 l1 b1 by (intro Cons.IH) auto
    then show ?thesis
      unfolding s h1(1) .
  qed
qed simp


subsection \<open>The whole way\<close>

lemma tb_add_crc_ok:
  assumes "tb_size + 3 \<le> length a"
  defines "A \<equiv> 8 * tb_size"
  defines "n \<equiv> (if A > NR_MAX_PDSCH_TBS then 3 else 2)"
  defines "b \<equiv> take tb_size a @ crc_octets_of n (drop_bit (32 - 8 * n)
    (crc_ref (poly_of (kind_of (crcType 1 A))) (take tb_size a) (8 * length (take tb_size a))))"
  shows "\<exists>a'. tb_add_crc crcTableInit a A = Inr (a', lenWithCrc 1 A) \<and> take (length b) a' = b \<and> length a' = length a \<and>
    8 * length b = lenWithCrc 1 A \<and> n = crc_len_of (crcType 1 A)"
proof -
  have l: "length (take tb_size a) = tb_size"
    using assms(1) by simp
  have p: "crc_ref poly a A = crc_ref poly (take tb_size a) (8 * length (take tb_size a))" for poly
    using crc_ref_prefix[of poly "take tb_size a" "drop tb_size a"] by (simp only: A_def l append_take_drop_id)
  show ?thesis
  proof (cases "A > NR_MAX_PDSCH_TBS")
    case True
    then have "crc24a crcTableInit a A = Inr (crc_ref poly24a a A)"
      using crc_of_ref[of Crc24a a A] assms(1) by (simp add: A_def)
    then show ?thesis
      using True assms(1) unfolding b_def n_def p[symmetric]
      by (auto simp: tb_add_crc_def lenWithCrc_def crcType_def crc_len_of_def kind_of_def A_def l min_def)
  next
    case False
    then have "crc16 crcTableInit a A = Inr (crc_ref poly16 a A)"
      using crc_of_ref[of Crc16 a A] assms(1) by (simp add: A_def)
    then show ?thesis
      using False assms(1) unfolding b_def n_def p[symmetric]
      by (auto simp: tb_add_crc_def lenWithCrc_def crcType_def crc_len_of_def kind_of_def A_def l min_def)
  qed
qed

lemma seg_K_ge:
  assumes "nr_segmentation_sizes B BG = Some sg"
  shows "sg_Kprime sg \<le> sg_K sg"
proof -
  have "sg_Kprime sg \<le> sg_Kb sg * sg_Z sg"
    using seg_sizes_Some(7)[OF assms] seg_sizes_Some(4)[OF assms] by (auto simp: least_lifting_def CEILIDIV_le_iff seg_Kb_gt)
  also have "sg_Kb sg \<le> (if BG = 1 then 22 else 10)"
    by (simp add: seg_sizes_Some(4)[OF assms] seg_Kb_def)
  finally show ?thesis
    by (simp add: seg_sizes_Some(5)[OF assms] mult.commute mult_le_mono)
qed

text \<open>The sizes of an exact segmentation in octets.\<close>

lemma seg_exact_octets:
  assumes "nr_segmentation_sizes B BG = Some sg" "seg_exact B sg" "n = (sg_Kprime sg - sg_L sg) div 8"
  shows "8 * n = sg_Kprime sg - sg_L sg" "sg_C sg * n * 8 = B" "sg_L sg = (if sg_C sg > 1 then 24 else 0)"
    "sg_Kprime sg = 8 * (n + (if sg_C sg > 1 then 3 else 0))"
    "sg_K sg div 8 - sg_F sg div 8 - (if sg_C sg > 1 then 3 else 0) = n"
    "n + (if sg_C sg > 1 then 3 else 0) \<le> sg_K sg div 8"
proof -
  show 1: "8 * n = sg_Kprime sg - sg_L sg"
    using assms(2,3) by (simp add: seg_exact_def)
  show "sg_C sg * n * 8 = B"
    using assms(2) 1 by (simp add: seg_exact_def mult.assoc mult.commute[of n 8])
  have "B \<le> seg_Kcb BG \<longleftrightarrow> \<not> sg_C sg > 1"
  proof -
    have "1 < CEILIDIV B (seg_Kcb BG - 24)" if "\<not> B \<le> seg_Kcb BG"
      using that seg_Kcb_gt[of BG] CEILIDIV_le_iff[of "seg_Kcb BG - 24" B 1] by (simp add: not_le[symmetric])
    then show ?thesis
      by (simp add: seg_sizes_Some(1)[OF assms(1)] seg_blocks_of_def)
  qed
  then show L: "sg_L sg = (if sg_C sg > 1 then 24 else 0)"
    by (simp add: seg_sizes_Some(3)[OF assms(1)])
  have "24 \<le> sg_Kprime sg" if "sg_C sg > 1"
    using that \<open>B \<le> seg_Kcb BG \<longleftrightarrow> \<not> sg_C sg > 1\<close> by (simp add: seg_sizes_Some(2)[OF assms(1)] seg_Kprime_of_def)
  then show k: "sg_Kprime sg = 8 * (n + (if sg_C sg > 1 then 3 else 0))"
    using 1 L by (auto split: if_splits)
  have "sg_K sg = 8 * (n + (if sg_C sg > 1 then 3 else 0)) + sg_F sg"
    using seg_K_ge[OF assms(1)] k by (simp add: seg_sizes_Some(6)[OF assms(1)])
  then have K: "sg_K sg div 8 = n + (if sg_C sg > 1 then 3 else 0) + sg_F sg div 8"
    by simp
  then show "sg_K sg div 8 - sg_F sg div 8 - (if sg_C sg > 1 then 3 else 0) = n"
    "n + (if sg_C sg > 1 then 3 else 0) \<le> sg_K sg div 8"
    by simp_all
qed

text \<open>The code blocks of a transport block that is cut exactly: what they hold and that they pass their checks.\<close>

lemma ulsch_blocks_ok:
  assumes "nr_segmentation_sizes (lenWithCrc 1 (8 * tb_size)) BG = Some sg" "seg_exact (lenWithCrc 1 (8 * tb_size)) sg"
    and "tb_size + 4 \<le> length payload" "tb_size + 4 \<le> MAX_NUM_NR_ULSCH_SEGMENTS_PER_LAYER * nrOfLayers * 1056"
    and "sg_C sg \<le> MAX_NUM_NR_DLSCH_SEGMENTS_PER_LAYER * nrOfLayers" "sg_C sg \<le> length c"
    and "\<forall>old\<in>set (take (sg_C sg) c). sg_K sg div 8 \<le> length old"
  defines "n \<equiv> (sg_Kprime sg - sg_L sg) div 8"
  shows "\<exists>X cs. nr_ulsch_blocks crcTableInit payload tb_size BG nrOfLayers c = Inr (Some (sg, cs)) \<and>
    length X = sg_C sg * n \<and> take tb_size X = take tb_size payload \<and> tb_size \<le> length X \<and>
    check_crc crcTableInit X (lenWithCrc 1 (8 * tb_size)) (crcType 1 (8 * tb_size)) = Inr True \<and>
    (\<forall>bs. take (length X) bs = X \<longrightarrow> check_crc crcTableInit bs (lenWithCrc 1 (8 * tb_size)) (crcType 1 (8 * tb_size)) = Inr True) \<and>
    (\<forall>r < sg_C sg. \<exists>tail. cs ! r = take n (drop (n * r) X) @ block_crc sg (take n (drop (n * r) X)) @ tail \<and>
      sg_K sg div 8 - sg_Kprime sg div 8 \<le> length tail)"
proof -
  define A where "A = 8 * tb_size"
  define k where "k = crcType 1 A"
  define m where "m = (if A > NR_MAX_PDSCH_TBS then 3 else (2 :: nat))"
  define X where "X = take tb_size payload @ crc_octets_of m (drop_bit (32 - 8 * m)
    (crc_ref (poly_of (kind_of k)) (take tb_size payload) (8 * length (take tb_size payload))))"
  obtain b where b: "tb_add_crc crcTableInit payload A = Inr (b, lenWithCrc 1 A)" "take (length X) b = X" "length b = length payload"
      "8 * length X = lenWithCrc 1 A" "m = crc_len_of k"
    using tb_add_crc_ok[of tb_size payload] assms(3) unfolding X_def A_def k_def m_def by auto
  note o = seg_exact_octets[OF assms(1,2) n_def[THEN meta_eq_to_obj_eq]]
  have lX: "length X = sg_C sg * n"
    using b(4) o(2) by (simp add: A_def)
  then have "n * length (take (sg_C sg) c) \<le> length b"
    using arg_cong[OF b(2), of length] assms(6) by (simp add: mult.commute)
  moreover have "n \<le> sg_K sg div 8"
    using o(6) by linarith
  ultimately obtain cs where cs: "seg_blocks crcTableInit sg b (take (sg_C sg) c) = Inr cs" "length cs = sg_C sg"
      "\<forall>r < sg_C sg. \<exists>tail. cs ! r = take n (drop (n * r) b) @ block_crc sg (take n (drop (n * r) b)) @ tail \<and>
        sg_K sg div 8 - sg_Kprime sg div 8 \<le> length tail"
    using seg_blocks_ok[OF o(1) _ assms(7), of b] assms(6) by auto
  have "take n (drop (n * r) b) = take n (drop (n * r) X)" if "r < sg_C sg" for r
  proof -
    have "n * r + n \<le> length X"
      using that mult_le_mono2[of "Suc r" "sg_C sg" n] by (simp add: lX mult.commute)
    then have "take n (drop (n * r) (take (length X) b)) = take n (drop (n * r) b)"
      by (simp add: drop_take min_def)
    then show ?thesis
      by (simp add: b(2))
  qed
  with cs(3) have cs3: "\<forall>r < sg_C sg. \<exists>tail. cs ! r = take n (drop (n * r) X) @ block_crc sg (take n (drop (n * r) X)) @ tail \<and>
        sg_K sg div 8 - sg_Kprime sg div 8 \<le> length tail"
    by simp
  have "A div 8 = tb_size"
    by (simp add: A_def)
  then have u: "nr_ulsch_blocks crcTableInit payload tb_size BG nrOfLayers c = Inr (Some (sg, cs @ drop (sg_C sg) c))"
    using b(1) assms(1,4,5,6) cs(1) by (simp add: nr_ulsch_blocks_def nr_segmentation_def A_def[symmetric])
  have k: "k \<le> 3"
    by (simp add: k_def crcType_def)
  have v: "check_crc crcTableInit bs (lenWithCrc 1 A) k = Inr True" if "take (length X) bs = X" for bs
    using check_crc_attached[OF k b(5) X_def that] by (simp only: b(4))
  have t: "take tb_size X = take tb_size payload" "tb_size \<le> length X"
    using assms(3) by (simp_all add: X_def)
  have "\<forall>r < sg_C sg. \<exists>tail. (cs @ drop (sg_C sg) c) ! r =
      take n (drop (n * r) X) @ block_crc sg (take n (drop (n * r) X)) @ tail \<and> sg_K sg div 8 - sg_Kprime sg div 8 \<le> length tail"
    using cs3 cs(2) by (simp add: nth_append)
  with u lX t v[of X] v show ?thesis
    unfolding A_def k_def by (intro exI[of _ X] exI[of _ "cs @ drop (sg_C sg) c"]) simp
qed


text \<open>Each code block passes the check that the LDPC decoder makes of it.\<close>

lemma ulsch_block_check:
  assumes "nr_segmentation_sizes (lenWithCrc 1 A) BG = Some sg" "seg_exact (lenWithCrc 1 A) sg" "n = (sg_Kprime sg - sg_L sg) div 8"
    and "length X = sg_C sg * n" "\<And>bs. take (length X) bs = X \<Longrightarrow> check_crc crcTableInit bs (lenWithCrc 1 A) (crcType 1 A) = Inr True"
    and "r < sg_C sg" "c = take n (drop (n * r) X) @ block_crc sg (take n (drop (n * r) X)) @ tail"
  shows "check_crc crcTableInit c (lenWithCrc (sg_C sg) A) (crcType (sg_C sg) A) = Inr True"
proof (cases "sg_C sg > 1")
  case False
  then have "sg_C sg = 1" "r = 0"
    using assms(6) by auto
  then show ?thesis
    using assms(4,5,7) by (simp add: block_crc_def)
next
  case True
  note o = seg_exact_octets[OF assms(1-3)]
  define d where "d = take n (drop (n * r) X)"
  have "n * r + n \<le> length X"
    using assms(6) mult_le_mono2[of "Suc r" "sg_C sg" n] by (simp add: assms(4) mult.commute)
  then have d: "length d = n"
    by (simp add: d_def)
  have "A > NR_MAX_PDSCH_TBS"
  proof (rule ccontr)
    assume "\<not> A > NR_MAX_PDSCH_TBS"
    then have "lenWithCrc 1 A \<le> seg_Kcb BG"
      by (simp add: lenWithCrc_def seg_Kcb_def NR_MAX_PDSCH_TBS_def)
    then show False
      using True by (simp add: seg_sizes_Some(1)[OF assms(1)] seg_blocks_of_def)
  qed
  then have "A + 24 = sg_C sg * n * 8"
    using o(2) by (simp add: lenWithCrc_def)
  then have e: "A + 24 + 24 * sg_C sg = sg_C sg * (8 * (n + 3))"
    by (simp add: algebra_simps)
  have "lenWithCrc (sg_C sg) A = 8 * (n + 3)"
    using True unfolding lenWithCrc_def e by simp
  moreover have "length (d @ block_crc sg d) = n + 3" "crcType (sg_C sg) A = 1"
    using True d by (simp_all add: block_crc_def crcType_def)
  moreover have "check_crc crcTableInit c (8 * length (d @ block_crc sg d)) 1 = Inr True"
  proof (rule check_crc_attached[where m = d and n = 3])
    show "take (length (d @ block_crc sg d)) c = d @ block_crc sg d"
      unfolding assms(7) d_def[symmetric] by simp
    show "d @ block_crc sg d = d @ crc_octets_of 3 (drop_bit (32 - 8 * 3) (crc_ref (poly_of (kind_of 1)) d (8 * length d)))"
      using True by (simp add: block_crc_def kind_of_def)
  qed (simp_all add: crc_len_of_def)
  ultimately show ?thesis
    by (simp only:)
qed

text \<open>
  C5. A transport block of a size that \<open>nr_compute_tbs\<close> computes survives the uplink: the UE cuts it, with its check, into
  code blocks, each of which passes the check that the decoder makes of it; when the code blocks are decoded, the base station
  acknowledges the transport block and holds its octets.
\<close>

theorem uplink_transport_block:
  assumes "8 * tb_size = nr_compute_tbs Qm R nb_rb nb_symb_sch nb_dmrs_prb nb_rb_oh tb_scaling Nl"
    and "nr_segmentation_sizes (lenWithCrc 1 (8 * tb_size)) (get_BG (8 * tb_size) R) = Some sg"
    and "tb_size + 4 \<le> length payload" and "tb_size + 4 \<le> MAX_NUM_NR_ULSCH_SEGMENTS_PER_LAYER * nrOfLayers * 1056"
    and "sg_C sg \<le> length c" and "\<forall>old\<in>set (take (sg_C sg) c). sg_K sg div 8 \<le> length old"
    and "nr_ulsch_decoding_init b tb_size (get_BG (8 * tb_size) R) nrOfLayers nb_rb = Some h" and "tb_size + 3 \<le> length b"
  shows "\<exists>cs h'. nr_ulsch_blocks crcTableInit payload tb_size (get_BG (8 * tb_size) R) nrOfLayers c = Inr (Some (sg, cs)) \<and>
    (\<forall>r < sg_C sg. check_crc crcTableInit (cs ! r) (lenWithCrc (sg_C sg) (8 * tb_size)) (crcType (sg_C sg) (8 * tb_size)) = Inr True) \<and>
    ul_receive crcTableInit (8 * tb_size) False False h 0 (map (\<lambda>r. (True, take (sg_K sg div 8) (cs ! r))) [0..<sg_C sg]) =
      Inr (h', Ul_ack) \<and>
    take tb_size (uh_b h') = take tb_size payload"
proof -
  define BG where "BG = get_BG (8 * tb_size) R"
  define n where "n = (sg_Kprime sg - sg_L sg) div 8"
  note sz = assms(2)[folded BG_def]
  have ex: "seg_exact (lenWithCrc 1 (8 * tb_size)) sg"
  proof -
    obtain sg' where "nr_segmentation_sizes (lenWithCrc 1 (8 * tb_size)) (get_BG (8 * tb_size) R) = Some sg'"
        "seg_exact (lenWithCrc 1 (8 * tb_size)) sg'"
      by (rule tbs_of_info_exact[OF assms(1)[unfolded nr_compute_tbs_def Let_def]])
    then show ?thesis
      using assms(2) by simp
  qed
  have h: "h = \<lparr>uh_b = b, uh_C = sg_C sg, uh_K = sg_K sg, uh_F = sg_F sg, uh_processed = 0\<rparr>"
      "sg_C sg \<le> MAX_NUM_NR_ULSCH_SEGMENTS_PER_LAYER * nrOfLayers"
    using assms(7) sz by (auto simp: nr_ulsch_decoding_init_def BG_def Let_def split: if_splits)
  then have lim: "sg_C sg \<le> MAX_NUM_NR_DLSCH_SEGMENTS_PER_LAYER * nrOfLayers"
    by (simp add: MAX_NUM_NR_ULSCH_SEGMENTS_PER_LAYER_def MAX_NUM_NR_DLSCH_SEGMENTS_PER_LAYER_def)
  note o = seg_exact_octets[OF sz ex n_def]
  obtain X cs where X: "nr_ulsch_blocks crcTableInit payload tb_size BG nrOfLayers c = Inr (Some (sg, cs))"
      "length X = sg_C sg * n" "take tb_size X = take tb_size payload" "tb_size \<le> length X"
      "\<And>bs. take (length X) bs = X \<Longrightarrow> check_crc crcTableInit bs (lenWithCrc 1 (8 * tb_size)) (crcType 1 (8 * tb_size)) = Inr True"
      "\<And>r. r < sg_C sg \<Longrightarrow> \<exists>tail. cs ! r = take n (drop (n * r) X) @ block_crc sg (take n (drop (n * r) X)) @ tail \<and>
        sg_K sg div 8 - sg_Kprime sg div 8 \<le> length tail"
    using ulsch_blocks_ok[OF sz ex assms(3,4) lim assms(5,6), folded n_def] by blast
  have chk: "check_crc crcTableInit (cs ! r) (lenWithCrc (sg_C sg) (8 * tb_size)) (crcType (sg_C sg) (8 * tb_size)) = Inr True"
    if "r < sg_C sg" for r
    using X(6)[OF that] ulsch_block_check[OF sz ex n_def X(2,5) that] by blast
  define ds where "ds = map (\<lambda>r. take (sg_K sg div 8) (cs ! r)) [0..<sg_C sg]"
  have C: "0 < sg_C sg"
    by (simp add: seg_sizes_Some(1)[OF sz] seg_blocks_of_gt)
  have "length X \<le> length b"
    using o(2) X(2) assms(8) by (simp add: lenWithCrc_def split: if_splits)
  moreover have "n \<le> length (ds ! i) \<and> take n (ds ! i) = take n (drop ((0 + i) * n) X)" if i: "i < length ds" for i
  proof -
    have r: "i < sg_C sg"
      using i by (simp add: ds_def)
    then have "n * i + n \<le> length X"
      using mult_le_mono2[of "Suc i" "sg_C sg" n] by (simp add: X(2) mult.commute)
    then show ?thesis
      using X(6)[OF r] r o(6) by (auto simp: ds_def min_def mult.commute)
  qed
  moreover have "n = ul_block_len h" "uh_processed h = 0" "uh_C h = sg_C sg" "uh_b h = b" "ds \<noteq> []" "length ds = sg_C sg"
    using o(5) C by (simp_all add: h(1) ul_block_len_def ds_def)
  ultimately have "\<exists>h'. take (uh_C h * n) (uh_b h') = take (uh_C h * n) X \<and> uh_C h * n \<le> length (uh_b h') \<and>
      ul_receive crcTableInit (8 * tb_size) False False h 0 (map (Pair True) ds) =
        bind_r (if uh_C h > 1 then check_crc crcTableInit (uh_b h') (lenWithCrc 1 (8 * tb_size)) (crcType 1 (8 * tb_size)) else Inr True)
          (\<lambda>v. Inr (h', if v \<and> \<not> False \<and> \<not> False then Ul_ack else Ul_nak))"
    using X(2) by (intro ul_receive_ok) simp_all
  then obtain h' where h': "take (length X) (uh_b h') = X"
      "ul_receive crcTableInit (8 * tb_size) False False h 0 (map (Pair True) ds) =
        bind_r (if sg_C sg > 1 then check_crc crcTableInit (uh_b h') (lenWithCrc 1 (8 * tb_size)) (crcType 1 (8 * tb_size)) else Inr True)
          (\<lambda>v. Inr (h', if v then Ul_ack else Ul_nak))"
    using X(2) \<open>uh_C h = sg_C sg\<close> by auto
  have "take tb_size (uh_b h') = take tb_size (take (length X) (uh_b h'))"
    using X(4) by (simp add: min_def)
  then have "take tb_size (uh_b h') = take tb_size payload"
    by (simp only: h'(1) X(3))
  moreover have "map (Pair True) ds = map (\<lambda>r. (True, take (sg_K sg div 8) (cs ! r))) [0..<sg_C sg]"
    by (simp add: ds_def)
  ultimately show ?thesis
    using X(1) chk h'(2) X(5)[OF h'(1)] unfolding BG_def by (intro exI[of _ cs] exI[of _ h']) simp
qed

theorem uplink_transport_block_witness:
  "\<exists>sg cs h h'. nr_ulsch_blocks crcTableInit [1, 2, 3, 0, 0, 0, 0] 3 2 1 [replicate 8 0] = Inr (Some (sg, cs)) \<and> sg_C sg = 1 \<and>
     check_crc crcTableInit (cs ! 0) 40 2 = Inr True \<and>
     ul_receive crcTableInit 24 False False h 0 [(True, take (sg_K sg div 8) (cs ! 0))] = Inr (h', Ul_ack) \<and>
     take 3 (uh_b h') = [1, 2, 3]"
proof -
  let ?sg = "\<lparr>sg_Kb = 6, sg_C = 1, sg_K = 70, sg_Z = 7, sg_F = 30, sg_Kprime = 40, sg_L = 0\<rparr>"
  let ?h = "\<lparr>uh_b = replicate 6 0, uh_C = 1, uh_K = 70, uh_F = 30, uh_processed = 0\<rparr>"
  have t: "8 * 3 = nr_compute_tbs 2 1200 1 2 0 0 0 1"
    by (simp add: nr_compute_tbs_def tbs_of_info_def tbs_from_table_def Tbstable_nr_def NR_MAX_PDSCH_TBS_def ilog2.simps)
  have l: "lenWithCrc 1 (8 * 3) = 40" "crcType 1 (8 * 3) = 2" "get_BG (8 * 3) 1200 = 2"
    by (simp_all add: lenWithCrc_def crcType_def get_BG_def NR_MAX_PDSCH_TBS_def)
  have s: "nr_segmentation_sizes 40 2 = Some ?sg"
    by (simp add: nr_segmentation_sizes_def seg_Kcb_def seg_Kb_def seg_C_def seg_lift_def)
  have d: "nr_ulsch_decoding_init (replicate 6 0) 3 2 1 1 = Some ?h"
    using s l(1) by (simp add: nr_ulsch_decoding_init_def MAX_NUM_NR_ULSCH_SEGMENTS_PER_LAYER_def)
  have "\<exists>cs h'. nr_ulsch_blocks crcTableInit [1, 2, 3, 0, 0, 0, 0] 3 (get_BG (8 * 3) 1200) 1 [replicate 8 0] = Inr (Some (?sg, cs)) \<and>
    (\<forall>r < sg_C ?sg. check_crc crcTableInit (cs ! r) (lenWithCrc (sg_C ?sg) (8 * 3)) (crcType (sg_C ?sg) (8 * 3)) = Inr True) \<and>
    ul_receive crcTableInit (8 * 3) False False ?h 0 (map (\<lambda>r. (True, take (sg_K ?sg div 8) (cs ! r))) [0..<sg_C ?sg]) = Inr (h', Ul_ack) \<and>
    take 3 (uh_b h') = take 3 [1, 2, 3, 0, 0, 0, 0]"
    by (rule uplink_transport_block[OF t, where b = "replicate 6 0"])
      (simp_all add: l[simplified] s d[simplified] MAX_NUM_NR_ULSCH_SEGMENTS_PER_LAYER_def)
  then obtain cs h' where "nr_ulsch_blocks crcTableInit [1, 2, 3, 0, 0, 0, 0] 3 2 1 [replicate 8 0] = Inr (Some (?sg, cs))"
      "check_crc crcTableInit (cs ! 0) 40 2 = Inr True"
      "ul_receive crcTableInit 24 False False ?h 0 [(True, take (70 div 8) (cs ! 0))] = Inr (h', Ul_ack)" "take 3 (uh_b h') = [1, 2, 3]"
    using l by auto
  then show ?thesis
    by (intro exI[of _ ?sg] exI[of _ cs] exI[of _ ?h] exI[of _ h']) simp
qed

end
