(* ===== verification/Phy_Rate_Matching.thy ===== *)
theory Phy_Rate_Matching
  imports L2_Prelude
begin

text \<open>
  Rate matching and interleaving of LDPC code blocks, \<open>openair1/PHY/CODING/nr_rate_matching.c\<close>. The sender selects \<open>E\<close> of the coded
  bits of a circular buffer, skipping the filler bits; the receiver adds each soft value, a 16-bit word that wraps, to the
  position of its bit. Sizes are natural numbers; the two differences that can be negative are written modulo \<open>2 ^ 32\<close>.
\<close>


subsection \<open>Bit selection: the code\<close>

definition NR_NULL :: byte where
  "NR_NULL = 2"

definition index_k0 :: "nat list list" where
  "index_k0 = [[0, 17, 33, 56], [0, 13, 25, 43]]"

definition rm_N :: "nat \<Rightarrow> nat \<Rightarrow> nat" where
  "rm_N BG Z = (if BG = 1 then 66 * Z else 50 * Z)"

definition rm_Ncb :: "nat \<Rightarrow> nat \<Rightarrow> nat \<Rightarrow> nat \<Rightarrow> nat" where
  "rm_Ncb Tbslbrm BG Z C =
     (if Tbslbrm = 0 then rm_N BG Z else min (rm_N BG Z) ((3 * Tbslbrm) mod 2 ^ 32 div (2 * C)))"

text \<open>The start of the selection; the index of the table is out of range for another base graph or version, and a division by zero
  ends the process.\<close>

definition rm_k0 :: "nat \<Rightarrow> nat \<Rightarrow> nat \<Rightarrow> nat \<Rightarrow> nat result" where
  "rm_k0 BG Z rvidx Ncb =
     (if Z = 0 then Inl Fatal_exit
      else if 1 \<le> BG \<and> BG \<le> 2 \<and> rvidx < 4 then Inr (index_k0 ! (BG - 1) ! rvidx * Ncb div rm_N BG Z * Z)
      else Inl Out_of_bounds)"

definition slice_at :: "'a list \<Rightarrow> nat \<Rightarrow> nat \<Rightarrow> 'a list result" where
  "slice_at w off n = (if off + n \<le> length w then Inr (take n (drop off w)) else Inl Out_of_bounds)"

text \<open>The inner loop of the repetition: at most \<open>need\<close> bits that are not filler.\<close>

fun rm_pass :: "byte list \<Rightarrow> nat \<Rightarrow> byte list" where
  "rm_pass [] need = []"
| "rm_pass (x # xs) need =
     (if need = 0 then [] else if x \<noteq> NR_NULL then x # rm_pass xs (need - 1) else rm_pass xs need)"

text \<open>The outer loop; a pass that adds nothing is repeated for ever.\<close>

function rm_repeat :: "byte list \<Rightarrow> nat \<Rightarrow> byte list result" where
  "rm_repeat w need =
     (if need = 0 then Inr []
      else if rm_pass w need = [] then Inl Diverges
      else bind_r (rm_repeat w (need - length (rm_pass w need))) (\<lambda>e. Inr (rm_pass w need @ e)))"
  by auto
termination by (relation "measure snd") auto

declare rm_repeat.simps [simp del]

text \<open>The return value \<open>-1\<close> is \<open>None\<close>.\<close>

definition nr_rate_matching_ldpc ::
  "nat \<Rightarrow> nat \<Rightarrow> nat \<Rightarrow> byte list \<Rightarrow> nat \<Rightarrow> nat \<Rightarrow> nat \<Rightarrow> nat \<Rightarrow> nat \<Rightarrow> byte list option result" where
  "nr_rate_matching_ldpc Tbslbrm BG Z w C F Foffset rvidx E =
     (if C = 0 then Inr None
      else let Ncb = rm_Ncb Tbslbrm BG Z C in bind_r (rm_k0 BG Z rvidx Ncb) (\<lambda>k0.
        if Foffset > E then Inr None
        else if Foffset > Ncb then Inr None
        else let ind = (if Foffset \<le> k0 \<and> k0 < F + Foffset then F + Foffset else k0) in
          bind_r
            (if ind < Foffset then
               bind_r (slice_at w ind (Foffset - ind)) (\<lambda>e1.
               bind_r (if E + F \<le> Ncb - ind then slice_at w (Foffset + F) (E - Foffset + ind)
                       else slice_at w (Foffset + F) (nat ((int Ncb - int Foffset - int F) mod 2 ^ 32))) (\<lambda>e2.
                 Inr (e1 @ e2)))
             else if E \<le> nat ((int Ncb - int ind) mod 2 ^ 32) then slice_at w ind E
             else slice_at w ind (nat ((int Ncb - int ind) mod 2 ^ 32)))
            (\<lambda>e. bind_r (slice_at w 0 Ncb) (\<lambda>wc. bind_r (rm_repeat wc (E - length e)) (\<lambda>e'. Inr (Some (e @ e')))))))"

text \<open>One of the loops \<open>for (; ind < hi && k < E; ind++) w[ind] += soft_input[k++]\<close>; the soft values that are left are returned.\<close>

fun rm_acc :: "nat \<Rightarrow> nat \<Rightarrow> 16 word list \<Rightarrow> 16 word list \<Rightarrow> nat \<times> 16 word list \<times> 16 word list" where
  "rm_acc ind hi [] w = (ind, [], w)"
| "rm_acc ind hi (s # ss) w = (if ind < hi then rm_acc (Suc ind) hi ss (w[ind := w ! ind + s]) else (ind, s # ss, w))"

text \<open>The outer loop of the receiver.\<close>

lemma rm_acc_length: "length (fst (snd (rm_acc ind hi ss w))) \<le> length ss"
  by (induction ind hi ss w rule: rm_acc.induct) auto

function rm_rx_repeat :: "nat \<Rightarrow> nat \<Rightarrow> nat \<Rightarrow> 16 word list \<Rightarrow> 16 word list \<Rightarrow> 16 word list result" where
  "rm_rx_repeat Foffset F Ncb ss w =
     (if ss = [] then Inr w
      else case rm_acc 0 Foffset ss w of (_, ss1, w1) \<Rightarrow>
        case rm_acc (Foffset + F) Ncb ss1 w1 of (_, ss2, w2) \<Rightarrow>
          if length ss2 < length ss then rm_rx_repeat Foffset F Ncb ss2 w2 else Inl Diverges)"
  by auto
termination by (relation "measure (\<lambda>(_, _, _, ss, _). length ss)") auto

declare rm_rx_repeat.simps [simp del]

definition nr_rate_matching_ldpc_rx ::
  "nat \<Rightarrow> nat \<Rightarrow> nat \<Rightarrow> 16 word list \<Rightarrow> 16 word list \<Rightarrow> nat \<Rightarrow> nat \<Rightarrow> bool \<Rightarrow> nat \<Rightarrow> nat \<Rightarrow> nat \<Rightarrow> 16 word list option result" where
  "nr_rate_matching_ldpc_rx Tbslbrm BG Z w soft_input C rvidx clear E F Foffset =
     (if C = 0 then Inr None
      else let Ncb = rm_Ncb Tbslbrm BG Z C in bind_r (rm_k0 BG Z rvidx Ncb) (\<lambda>k0.
        if Foffset > E then Inr None
        else if Foffset > Ncb then Inr None
        else if length w < Ncb \<or> length soft_input < E then Inl Out_of_bounds
        else
          let w0 = (if clear then replicate Ncb 0 @ drop Ncb w else w)
          in case (if k0 < Foffset then rm_acc k0 Foffset (take E soft_input) w0 else (k0, take E soft_input, w0)) of (ind, ss, w1) \<Rightarrow>
            case rm_acc (if Foffset \<le> ind \<and> ind < Foffset + F then Foffset + F else ind) Ncb ss w1 of (_, ss2, w2) \<Rightarrow>
              bind_r (rm_rx_repeat Foffset F Ncb ss2 w2) (\<lambda>w3. Inr (Some w3))))"


subsection \<open>Bit selection: the positions\<close>

text \<open>The positions of the circular buffer that are not filler, and the first \<open>E\<close> of them from \<open>k0\<close> on, around the buffer.\<close>

definition rm_all :: "nat \<Rightarrow> nat \<Rightarrow> nat \<Rightarrow> nat list" where
  "rm_all Ncb F Foffset = [0..<Foffset] @ [Foffset + F..<Ncb]"

definition rm_first :: "nat \<Rightarrow> nat \<Rightarrow> nat \<Rightarrow> nat \<Rightarrow> nat list" where
  "rm_first Ncb F Foffset k0 = filter (\<lambda>p. k0 \<le> p) (rm_all Ncb F Foffset)"

definition rm_positions :: "nat \<Rightarrow> nat \<Rightarrow> nat \<Rightarrow> nat \<Rightarrow> nat \<Rightarrow> nat list" where
  "rm_positions Ncb F Foffset k0 E = take E (rm_first Ncb F Foffset k0 @ concat (replicate E (rm_all Ncb F Foffset)))"

lemma rm_first_before: "k0 < Foffset \<Longrightarrow> rm_first Ncb F Foffset k0 = [k0..<Foffset] @ [Foffset + F..<Ncb]"
proof -
  assume k: "k0 < Foffset"
  have "[0..<Foffset] = [0..<k0] @ [k0..<Foffset]"
    using k upt_add_eq_append[of 0 k0 "Foffset - k0"] by simp
  then have "filter (\<lambda>p. k0 \<le> p) [0..<Foffset] = [k0..<Foffset]"
    by (simp add: filter_empty_conv filter_id_conv)
  moreover have "filter (\<lambda>p. k0 \<le> p) [Foffset + F..<Ncb] = [Foffset + F..<Ncb]"
    using k by (auto simp: filter_id_conv)
  ultimately show ?thesis
    by (simp add: rm_first_def rm_all_def)
qed

lemma rm_first_after:
  assumes "Foffset \<le> k0" "Foffset + F \<le> Ncb"
  shows "rm_first Ncb F Foffset k0 = [if k0 < Foffset + F then Foffset + F else k0..<Ncb]"
proof -
  have z: "filter (\<lambda>p. k0 \<le> p) [0..<Foffset] = []"
    using assms(1) by (auto simp: filter_empty_conv)
  show ?thesis
  proof (cases "k0 < Foffset + F")
    case True
    then have "filter (\<lambda>p. k0 \<le> p) [Foffset + F..<Ncb] = [Foffset + F..<Ncb]"
      by (auto simp: filter_id_conv)
    with True z show ?thesis
      by (simp add: rm_first_def rm_all_def)
  next
    case False
    show ?thesis
    proof (cases "k0 \<le> Ncb")
      case True
      have "[Foffset + F..<Ncb] = [Foffset + F..<k0] @ [k0..<Ncb]"
        using False True upt_add_eq_append[of "Foffset + F" k0 "Ncb - k0"] by simp
      then have "filter (\<lambda>p. k0 \<le> p) [Foffset + F..<Ncb] = [k0..<Ncb]"
        by (simp add: filter_empty_conv filter_id_conv)
      with False z show ?thesis
        by (simp add: rm_first_def rm_all_def)
    qed (use False z in \<open>auto simp: rm_first_def rm_all_def filter_empty_conv\<close>)
  qed
qed


lemma take_concat_replicate:
  assumes "xs \<noteq> []" "n \<le> m"
  shows "take n (concat (replicate m xs)) = take n (concat (replicate n xs))"
proof -
  have "n * 1 \<le> n * length xs"
    using assms(1) by (intro mult_le_mono2) (cases xs; simp)
  then have l: "n \<le> length (concat (replicate n xs))"
    by (simp add: length_concat sum_list_replicate)
  have "replicate m xs = replicate n xs @ replicate (m - n) xs"
    using assms(2) by (metis le_add_diff_inverse replicate_add)
  with l show ?thesis
    by simp
qed

lemma take_concat_unfold:
  assumes "xs \<noteq> []"
  shows "take n (concat (replicate n xs)) = take n xs @ take (n - length xs) (concat (replicate (n - length xs) xs))"
proof (cases n)
  case (Suc m)
  have "n - length xs \<le> m"
    using assms Suc by (cases xs) auto
  from take_concat_replicate[OF assms this] Suc show ?thesis
    by simp
qed simp

lemma rm_positions_split:
  assumes "rm_all Ncb F Foffset \<noteq> []"
  shows "rm_positions Ncb F Foffset k0 E = take E (rm_first Ncb F Foffset k0) @
    take (E - length (rm_first Ncb F Foffset k0)) (concat (replicate (E - length (rm_first Ncb F Foffset k0)) (rm_all Ncb F Foffset)))"
  using take_concat_replicate[OF assms, of "E - length (rm_first Ncb F Foffset k0)" E] by (simp add: rm_positions_def)

lemma rm_positions_length:
  assumes "rm_all Ncb F Foffset \<noteq> []"
  shows "length (rm_positions Ncb F Foffset k0 E) = E"
proof -
  define c where "c = concat (replicate E (rm_all Ncb F Foffset))"
  have "E * 1 \<le> E * length (rm_all Ncb F Foffset)"
    using assms by (intro mult_le_mono2) (cases "rm_all Ncb F Foffset"; simp)
  then have "E \<le> length c"
    by (simp add: c_def length_concat sum_list_replicate)
  then show ?thesis
    by (simp add: rm_positions_def flip: c_def)
qed

text \<open>The start lies in the buffer.\<close>

lemma rm_k0_bound:
  assumes "rm_k0 BG Z rvidx Ncb = Inr k0"
  shows "k0 \<le> Ncb"
proof -
  have r: "1 \<le> BG" "BG \<le> 2" "rvidx < 4" and k: "k0 = index_k0 ! (BG - 1) ! rvidx * Ncb div rm_N BG Z * Z"
    using assms by (auto simp: rm_k0_def split: if_splits)
  have b: "BG = 1 \<or> BG = 2"
    using r by auto
  have v: "rvidx = 0 \<or> rvidx = 1 \<or> rvidx = 2 \<or> rvidx = 3"
    using r by auto
  define q where "q = (if BG = 1 then 66 else 50 :: nat)"
  have q: "rm_N BG Z = q * Z" "index_k0 ! (BG - 1) ! rvidx \<le> q" "0 < q"
    using b v by (auto simp: q_def rm_N_def index_k0_def)
  have "k0 \<le> q * Ncb div (q * Z) * Z"
    unfolding k q(1) using q(2) by (intro mult_le_mono1 div_le_mono)
  also have "\<dots> = Ncb div Z * Z"
    using q(3) by simp
  also have "\<dots> \<le> Ncb"
    by simp
  finally show ?thesis .
qed


subsection \<open>The sender takes these positions\<close>

lemma slice_at_positions: "off + n \<le> length w \<Longrightarrow> slice_at w off n = Inr (map ((!) w) [off..<off + n])"
  by (auto simp: slice_at_def intro!: nth_equalityI)

lemma rm_pass_eq: "rm_pass w need = take need (filter (\<lambda>x. x \<noteq> NR_NULL) w)"
  by (induction w need rule: rm_pass.induct) (auto simp: take_Cons')

lemma rm_repeat_eq:
  assumes "filter (\<lambda>x. x \<noteq> NR_NULL) w = nz" "nz \<noteq> []"
  shows "rm_repeat w need = Inr (take need (concat (replicate need nz)))"
  using assms
proof (induction w need rule: rm_repeat.induct)
  case (1 w need)
  show ?case
  proof (cases "need = 0")
    case False
    have p: "rm_pass w need = take need nz"
      using 1 by (simp add: rm_pass_eq)
    have ne: "rm_pass w need \<noteq> []"
      using False 1(3) p by simp
    have "rm_repeat w (need - length (rm_pass w need)) =
      Inr (take (need - length (take need nz)) (concat (replicate (need - length (take need nz)) nz)))"
      using 1(1)[OF False ne 1(2,3)] by (simp add: p)
    moreover have "need - length (take need nz) = need - length nz"
      by simp
    ultimately show ?thesis
      using False ne by (subst rm_repeat.simps) (simp add: p take_concat_unfold[OF 1(3), of need])
  qed (simp add: rm_repeat.simps)
qed

lemma rm_not_filler:
  assumes "\<forall>i<Ncb. (w ! i = NR_NULL) = (Foffset \<le> i \<and> i < Foffset + F)" "Foffset + F \<le> Ncb" "Ncb \<le> length w"
  shows "filter (\<lambda>x. x \<noteq> NR_NULL) (take Ncb w) = map ((!) w) (rm_all Ncb F Foffset)"
proof -
  have t: "take Ncb w = map ((!) w) [0..<Ncb]"
    using assms(3) by (auto intro!: nth_equalityI)
  have "[0..<Ncb] = [0..<Foffset] @ [Foffset..<Foffset + F] @ [Foffset + F..<Ncb]"
    using assms(2) upt_add_eq_append[of 0 Foffset "Ncb - Foffset"] upt_add_eq_append[of Foffset "Foffset + F" "Ncb - Foffset - F"]
    by simp
  moreover have "filter (\<lambda>i. w ! i \<noteq> NR_NULL) [0..<Foffset] = [0..<Foffset]"
      "filter (\<lambda>i. w ! i \<noteq> NR_NULL) [Foffset..<Foffset + F] = []"
      "filter (\<lambda>i. w ! i \<noteq> NR_NULL) [Foffset + F..<Ncb] = [Foffset + F..<Ncb]"
    using assms(1,2) by (auto simp: filter_id_conv filter_empty_conv)
  ultimately have "filter (\<lambda>i. w ! i \<noteq> NR_NULL) [0..<Ncb] = rm_all Ncb F Foffset"
    by (simp add: rm_all_def)
  then show ?thesis
    by (simp add: t filter_map comp_def)
qed

lemma difference_fits:
  assumes "b \<le> a" "a < 2 ^ 32"
  shows "nat ((int a - int b) mod 2 ^ 32) = a - b"
proof -
  have "int a - int b = int (a - b)"
    using assms(1) by simp
  moreover have "int (a - b) < 2 ^ 32"
    using assms(2) by simp
  ultimately have "(int a - int b) mod 2 ^ 32 = int (a - b)"
    by (simp only: mod_pos_pos_trivial of_nat_0_le_iff)
  then show ?thesis
    by simp
qed

lemma rm_selected:
  assumes f: "Foffset + F \<le> Ncb" and k: "k0 \<le> Ncb" and E: "Foffset \<le> E" and w: "Ncb \<le> length w" and n: "Ncb < 2 ^ 32"
    and ind: "ind = (if Foffset \<le> k0 \<and> k0 < F + Foffset then F + Foffset else k0)"
  shows "(if ind < Foffset then
            bind_r (slice_at w ind (Foffset - ind)) (\<lambda>e1.
            bind_r (if E + F \<le> Ncb - ind then slice_at w (Foffset + F) (E - Foffset + ind)
                    else slice_at w (Foffset + F) (nat ((int Ncb - int Foffset - int F) mod 2 ^ 32))) (\<lambda>e2.
              Inr (e1 @ e2)))
          else if E \<le> nat ((int Ncb - int ind) mod 2 ^ 32) then slice_at w ind E
          else slice_at w ind (nat ((int Ncb - int ind) mod 2 ^ 32))) =
         Inr (map ((!) w) (take E (rm_first Ncb F Foffset k0)))"
proof (cases "k0 < Foffset")
  case True
  have m: "nat ((int Ncb - int Foffset - int F) mod 2 ^ 32) = Ncb - Foffset - F"
    using difference_fits[of "Foffset + F" Ncb] f n by (simp add: diff_diff_eq)
  have i: "ind = k0"
    using True ind by simp
  have e1: "slice_at w k0 (Foffset - k0) = Inr (map ((!) w) [k0..<Foffset])"
    using True f w by (subst slice_at_positions) auto
  have t: "take E ([k0..<Foffset] @ [Foffset + F..<Ncb]) =
      [k0..<Foffset] @ (if E + F \<le> Ncb - k0 then [Foffset + F..<Foffset + F + (E - Foffset + k0)] else [Foffset + F..<Ncb])"
    using True E f by (simp add: take_upt)
  show ?thesis
  proof (cases "E + F \<le> Ncb - k0")
    case True2: True
    have "slice_at w (Foffset + F) (E - Foffset + k0) = Inr (map ((!) w) [Foffset + F..<Foffset + F + (E - Foffset + k0)])"
      using True True2 E f w by (intro slice_at_positions) arith
    with True True2 show ?thesis
      unfolding rm_first_before[OF True] t i by (simp add: e1)
  next
    case False
    have "slice_at w (Foffset + F) (Ncb - Foffset - F) = Inr (map ((!) w) [Foffset + F..<Ncb])"
      using f w by (subst slice_at_positions) auto
    with True False show ?thesis
      unfolding rm_first_before[OF True] t i m by (simp add: e1)
  qed
next
  case False
  have i: "ind = (if k0 < Foffset + F then Foffset + F else k0)" "ind \<le> Ncb" "\<not> ind < Foffset"
    using False ind f k by auto
  have m: "nat ((int Ncb - int ind) mod 2 ^ 32) = Ncb - ind"
    using i(2) n by (rule difference_fits)
  have r: "rm_first Ncb F Foffset k0 = [ind..<Ncb]"
    using False f i(1) by (simp add: rm_first_after)
  have t: "take E [ind..<Ncb] = [ind..<ind + min E (Ncb - ind)]"
    using i(2) by (cases "E \<le> Ncb - ind") (simp_all add: take_upt)
  have "slice_at w ind (min E (Ncb - ind)) = Inr (map ((!) w) [ind..<ind + min E (Ncb - ind)])"
    using i(2) w by (intro slice_at_positions) arith
  then have "(if E \<le> Ncb - ind then slice_at w ind E else slice_at w ind (Ncb - ind)) = Inr (map ((!) w) [ind..<ind + min E (Ncb - ind)])"
    by (cases "E \<le> Ncb - ind") (simp_all add: min_absorb1 min_absorb2)
  then show ?thesis
    unfolding r t m if_not_P[OF i(3)] .
qed

text \<open>What both sides of the selection assume: the parameters are in range and the filler bits lie in the buffer.\<close>

definition rm_ok :: "nat \<Rightarrow> nat \<Rightarrow> nat \<Rightarrow> nat \<Rightarrow> nat \<Rightarrow> nat \<Rightarrow> nat \<Rightarrow> bool" where
  "rm_ok Tbslbrm BG Z C F Foffset E \<longleftrightarrow> 0 < C \<and> Foffset \<le> E \<and> Foffset + F \<le> rm_Ncb Tbslbrm BG Z C \<and>
     (0 < Foffset \<or> Foffset + F < rm_Ncb Tbslbrm BG Z C) \<and> rm_Ncb Tbslbrm BG Z C < 2 ^ 32"

lemma rm_all_nonempty: "rm_ok Tbslbrm BG Z C F Foffset E \<Longrightarrow> rm_all (rm_Ncb Tbslbrm BG Z C) F Foffset \<noteq> []"
  by (auto simp: rm_ok_def rm_all_def)

lemma rate_matching_sends:
  assumes ok: "rm_ok Tbslbrm BG Z C F Foffset E" and N: "Ncb = rm_Ncb Tbslbrm BG Z C" and k: "rm_k0 BG Z rvidx Ncb = Inr k0"
    and w: "Ncb \<le> length w" and nul: "\<forall>i<Ncb. (w ! i = NR_NULL) = (Foffset \<le> i \<and> i < Foffset + F)"
  shows "nr_rate_matching_ldpc Tbslbrm BG Z w C F Foffset rvidx E = Inr (Some (map ((!) w) (rm_positions Ncb F Foffset k0 E)))"
proof -
  have c: "0 < C" "Foffset \<le> E" "Foffset + F \<le> Ncb" "Ncb < 2 ^ 32"
    using ok by (auto simp: rm_ok_def N)
  have a: "rm_all Ncb F Foffset \<noteq> []"
    using rm_all_nonempty[OF ok] by (simp add: N)
  define e where "e = map ((!) w) (take E (rm_first Ncb F Foffset k0))"
  have rest: "E - length e = E - length (rm_first Ncb F Foffset k0)"
    by (simp add: e_def)
  have s: "slice_at w 0 Ncb = Inr (take Ncb w)"
    using w by (simp add: slice_at_def)
  have r: "rm_repeat (take Ncb w) (E - length e) =
      Inr (map ((!) w) (take (E - length (rm_first Ncb F Foffset k0))
        (concat (replicate (E - length (rm_first Ncb F Foffset k0)) (rm_all Ncb F Foffset)))))"
    using rm_repeat_eq[OF rm_not_filler[OF nul c(3) w]] a by (simp add: rest map_concat flip: take_map)
  have g: "\<not> Foffset > E" "\<not> Foffset > Ncb" "C \<noteq> 0"
    using c by auto
  show ?thesis
    unfolding nr_rate_matching_ldpc_def Let_def N[symmetric] k if_not_P[OF g(3)]
    using rm_selected[OF c(3) rm_k0_bound[OF k] c(2) w c(4) refl] g
    by (simp add: s r rm_positions_split[OF a] flip: e_def)
qed


subsection \<open>The receiver adds to these positions\<close>

definition add_at :: "16 word list \<Rightarrow> nat list \<Rightarrow> 16 word list \<Rightarrow> 16 word list" where
  "add_at w ps ss = foldl (\<lambda>w (p, s). w[p := w ! p + s]) w (zip ps ss)"

lemma add_at_simps [simp]:
  "add_at w [] ss = w" "add_at w ps [] = w" "add_at w (p # ps) (s # ss) = add_at (w[p := w ! p + s]) ps ss"
  by (simp_all add: add_at_def)

lemma add_at_append: "add_at w (ps @ qs) ss = add_at (add_at w ps ss) qs (drop (length ps) ss)"
proof (induction ps arbitrary: w ss)
  case (Cons p ps)
  then show ?case
    by (cases ss) simp_all
qed simp

lemma add_at_take: "add_at w (take (length ss) ps) ss = add_at w ps ss"
  using take_zip[of "length ss" ps ss] by (simp add: add_at_def)

lemma add_at_map: "add_at w ps (map g ps) = foldl (\<lambda>w p. w[p := w ! p + g p]) w ps"
  by (induction ps arbitrary: w) simp_all

lemma rm_acc_eq:
  "snd (rm_acc ind hi ss w) = (drop (hi - ind) ss, add_at w [ind..<hi] ss)"
proof (induction ind hi ss w rule: rm_acc.induct)
  case (2 ind hi s ss w)
  then show ?case
    by (cases "ind < hi") (simp_all add: upt_conv_Cons Suc_diff_Suc[symmetric])
qed simp

lemma rm_acc_end: "ind \<le> hi \<Longrightarrow> drop (hi - ind) ss \<noteq> [] \<Longrightarrow> fst (rm_acc ind hi ss w) = hi"
proof (induction ind hi ss w rule: rm_acc.induct)
  case (2 ind hi s ss w)
  then show ?case
    by (cases "ind < hi") (simp_all add: Suc_diff_Suc[symmetric])
qed simp

lemma rm_rx_repeat_eq:
  assumes "rm_all Ncb F Foffset \<noteq> []"
  shows "rm_rx_repeat Foffset F Ncb ss w = Inr (add_at w (concat (replicate (length ss) (rm_all Ncb F Foffset))) ss)"
  using assms
proof (induction Foffset F Ncb ss w rule: rm_rx_repeat.induct)
  case (1 Foffset F Ncb ss w)
  show ?case
  proof (cases "ss = []")
    case False
    obtain i1 ss1 w1 where a1: "rm_acc 0 Foffset ss w = (i1, ss1, w1)"
      by (metis prod_cases3)
    obtain i2 ss2 w2 where a2: "rm_acc (Foffset + F) Ncb ss1 w1 = (i2, ss2, w2)"
      by (metis prod_cases3)
    define ps where "ps = rm_all Ncb F Foffset"
    have e1: "ss1 = drop Foffset ss" "w1 = add_at w [0..<Foffset] ss"
      using rm_acc_eq[of 0 Foffset ss w] by (simp_all add: a1)
    have e2: "ss2 = drop (length ps) ss" "w2 = add_at w ps ss"
      using rm_acc_eq[of "Foffset + F" Ncb ss1 w1] unfolding a2
      by (simp_all add: e1 add_at_append ps_def rm_all_def add.commute)
    have l: "length ss2 < length ss"
      using 1(2) False by (simp add: e2 ps_def)
    have "add_at w2 (concat (replicate (length ss2) ps)) ss2 = add_at w (concat (replicate (length ss) ps)) ss"
    proof -
      have q: "length ss2 \<le> length ss - 1" "ps \<noteq> []"
        using l 1(2) by (auto simp: ps_def)
      have "add_at w (concat (replicate (length ss) ps)) ss = add_at w2 (concat (replicate (length ss - 1) ps)) ss2"
        using False by (cases "length ss") (simp_all add: add_at_append e2)
      also have "\<dots> = add_at w2 (take (length ss2) (concat (replicate (length ss - 1) ps))) ss2"
        by (simp only: add_at_take)
      also have "\<dots> = add_at w2 (take (length ss2) (concat (replicate (length ss2) ps))) ss2"
        by (simp only: take_concat_replicate[OF q(2,1)])
      finally show ?thesis
        by (simp only: add_at_take)
    qed
    moreover have "rm_rx_repeat Foffset F Ncb ss2 w2 = Inr (add_at w2 (concat (replicate (length ss2) ps)) ss2)"
      using 1(1)[OF False a1[symmetric] refl a2[symmetric] refl l 1(2)] by (simp add: ps_def)
    ultimately show ?thesis
      using False l by (subst rm_rx_repeat.simps) (simp add: a1 a2 ps_def)
  qed (simp add: rm_rx_repeat.simps)
qed


lemma rm_rx_first:
  assumes r1: "(if k0 < Foffset then rm_acc k0 Foffset ss0 w0 else (k0, ss0, w0)) = (ind, ss, w1)"
    and r2: "rm_acc (if Foffset \<le> ind \<and> ind < Foffset + F then Foffset + F else ind) Ncb ss w1 = (i2, ss2, w2)"
    and f: "Foffset + F \<le> Ncb"
  shows "ss2 = drop (length (rm_first Ncb F Foffset k0)) ss0 \<and> w2 = add_at w0 (rm_first Ncb F Foffset k0) ss0"
proof (cases "k0 < Foffset")
  case True
  have e1: "ss = drop (Foffset - k0) ss0" "w1 = add_at w0 [k0..<Foffset] ss0"
    using rm_acc_eq[of k0 Foffset ss0 w0] r1 True by auto
  have e2: "ss2 = drop (Ncb - (Foffset + F)) ss \<and> w2 = add_at w1 [Foffset + F..<Ncb] ss"
  proof (cases "ss = []")
    case True
    then show ?thesis
      using r2 by simp
  next
    case False
    then have "ind = Foffset"
      using rm_acc_end[of k0 Foffset ss0 w0] e1(1) r1 \<open>k0 < Foffset\<close> by simp
    then have "(if Foffset \<le> ind \<and> ind < Foffset + F then Foffset + F else ind) = Foffset + F"
      by simp
    then show ?thesis
      using r2 rm_acc_eq[of "Foffset + F" Ncb ss w1] by simp
  qed
  show ?thesis
    using e2 True by (simp add: rm_first_before e1 add_at_append add.commute)
next
  case False
  define i where "i = (if k0 < Foffset + F then Foffset + F else k0)"
  have "rm_acc i Ncb ss0 w0 = (i2, ss2, w2)"
    using r1 r2 False by (auto simp: i_def split: if_splits)
  moreover have "rm_first Ncb F Foffset k0 = [i..<Ncb]"
    using rm_first_after[of Foffset k0 F Ncb] False f by (simp add: i_def)
  ultimately show ?thesis
    using rm_acc_eq[of i Ncb ss0 w0] by simp
qed

lemma rate_matching_receives:
  assumes ok: "rm_ok Tbslbrm BG Z C F Foffset E" and N: "Ncb = rm_Ncb Tbslbrm BG Z C" and k: "rm_k0 BG Z rvidx Ncb = Inr k0"
    and w: "Ncb \<le> length w" and s: "length soft_input = E"
  shows "nr_rate_matching_ldpc_rx Tbslbrm BG Z w soft_input C rvidx clear E F Foffset =
    Inr (Some (add_at (if clear then replicate Ncb 0 @ drop Ncb w else w) (rm_positions Ncb F Foffset k0 E) soft_input))"
proof -
  have c: "0 < C" "Foffset \<le> E" "Foffset + F \<le> Ncb" "Foffset \<le> Ncb"
    using ok by (auto simp: rm_ok_def N)
  have a: "rm_all Ncb F Foffset \<noteq> []"
    using rm_all_nonempty[OF ok] by (simp add: N)
  have t: "take E soft_input = soft_input"
    using s by simp
  define w0 where "w0 = (if clear then replicate Ncb 0 @ drop Ncb w else w)"
  obtain ind ss w1 where r1: "(if k0 < Foffset then rm_acc k0 Foffset soft_input w0 else (k0, soft_input, w0)) = (ind, ss, w1)"
    by (metis prod_cases3)
  define i where "i = (if Foffset \<le> ind \<and> ind < Foffset + F then Foffset + F else ind)"
  obtain i2 ss2 w2 where r2: "rm_acc i Ncb ss w1 = (i2, ss2, w2)"
    by (metis prod_cases3)
  have first: "ss2 = drop (length (rm_first Ncb F Foffset k0)) soft_input \<and> w2 = add_at w0 (rm_first Ncb F Foffset k0) soft_input"
    by (rule rm_rx_first[OF r1 _ c(3)]) (use r2 in \<open>simp add: i_def\<close>)
  have "rm_rx_repeat Foffset F Ncb ss2 w2 =
      Inr (add_at w0 (rm_first Ncb F Foffset k0 @ concat (replicate (length ss2) (rm_all Ncb F Foffset))) soft_input)"
    by (simp add: rm_rx_repeat_eq[OF a] first add_at_append)
  also have "\<dots> = Inr (add_at w0 (rm_positions Ncb F Foffset k0 E) soft_input)"
  proof -
    have "take E (rm_first Ncb F Foffset k0 @ concat (replicate (length ss2) (rm_all Ncb F Foffset))) = rm_positions Ncb F Foffset k0 E"
      by (simp add: first s rm_positions_split[OF a])
    then show ?thesis
      using add_at_take[of w0 soft_input] by (metis s)
  qed
  finally show ?thesis
    using c s w unfolding nr_rate_matching_ldpc_rx_def Let_def N[symmetric] k bind_r.simps t w0_def[symmetric] r1 prod.case i_def[symmetric] r2
    by simp
qed



subsection \<open>Interleaving\<close>

text \<open>
  The four cases of each switch are the same loop for \<open>Qm = 2, 4, 6, 8\<close>: step \<open>j\<close> moves one bit of each of the \<open>Qm\<close> rows of length
  \<open>E / Qm\<close>. The receiver writes into the array it is given.
\<close>

definition nr_interleaving_ldpc :: "nat \<Rightarrow> nat \<Rightarrow> byte list \<Rightarrow> byte list result" where
  "nr_interleaving_ldpc E Qm e =
     (if Qm \<notin> {2, 4, 6, 8} then Inl Fatal_exit
      else if length e < Qm * (E div Qm) then Inl Out_of_bounds
      else Inr (foldl (\<lambda>f (j, i). f[j * Qm + i := e ! (i * (E div Qm) + j)]) (replicate E 0)
             (List.product [0..<E div Qm] [0..<Qm])))"

definition nr_deinterleaving_ldpc :: "nat \<Rightarrow> nat \<Rightarrow> 16 word list \<Rightarrow> 16 word list \<Rightarrow> 16 word list result" where
  "nr_deinterleaving_ldpc E Qm e f =
     (if Qm \<notin> {2, 4, 6, 8} \<or> E mod Qm \<noteq> 0 then Inl Fatal_exit
      else if length e < E \<or> length f < E then Inl Out_of_bounds
      else Inr (foldl (\<lambda>e (j, i). e[i * (E div Qm) + j := f ! (j * Qm + i)]) e
             (List.product [0..<E div Qm] [0..<Qm])))"

lemma foldl_update_length: "length (foldl (\<lambda>e x. e[g x := h x]) e0 xs) = length e0"
  by (induction xs arbitrary: e0) auto

lemma foldl_length: "length (foldl (\<lambda>e (j, i). e[g j i := h j i]) e0 xs) = length e0"
  by (induction xs arbitrary: e0) (auto split: prod.splits)

lemma foldl_update_other: "q \<notin> g ` set xs \<Longrightarrow> foldl (\<lambda>e x. e[g x := h x]) e0 xs ! q = e0 ! q"
  by (induction xs arbitrary: e0) auto

lemma foldl_update_nth:
  assumes "inj_on g (set xs)" "x \<in> set xs" "g x < length e0" "distinct xs"
  shows "foldl (\<lambda>e x. e[g x := h x]) e0 xs ! g x = h x"
  using assms
proof (induction xs arbitrary: e0)
  case (Cons y ys)
  show ?case
  proof (cases "x = y")
    case True
    then have "g x \<notin> g ` set ys"
      using Cons.prems by (auto simp: inj_on_def)
    then show ?thesis
      using Cons.prems True by (simp add: foldl_update_other)
  next
    case False
    then show ?thesis
      using Cons by (auto simp: inj_on_def)
  qed
qed simp

lemma interleaving_nth:
  assumes "nr_interleaving_ldpc E Qm e = Inr f" "j < E div Qm" "i < Qm"
  shows "length f = E \<and> f ! (j * Qm + i) = e ! (i * (E div Qm) + j)"
proof -
  define n where "n = E div Qm"
  let ?h = "\<lambda>(j, i). e ! (i * n + j)" and ?g = "\<lambda>(j, i). j * Qm + i"
  have f: "f = foldl (\<lambda>f x. f[?g x := ?h x]) (replicate E 0) (List.product [0..<n] [0..<Qm])"
  proof -
    have "(\<lambda>f (j, i). f[j * Qm + i := e ! (i * n + j)]) = (\<lambda>f x. f[?g x := ?h x])"
      by (auto simp: fun_eq_iff)
    then show ?thesis
      using assms(1) by (simp add: nr_interleaving_ldpc_def split: if_splits flip: n_def)
  qed
  have "j * Qm + i < n * Qm"
    using assms(2,3) by (intro row_index) (simp_all add: n_def)
  also have "\<dots> \<le> E"
    by (simp add: n_def)
  finally have b: "?g (j, i) < length (replicate E (0 :: byte))"
    by simp
  have inj: "inj_on ?g (set (List.product [0..<n] [0..<Qm]))"
    by (rule inj_onI) (auto dest: row_index_eq)
  have "f ! ?g (j, i) = ?h (j, i)"
    unfolding f by (rule foldl_update_nth[OF inj _ b]) (use assms(2,3) in \<open>simp_all add: n_def distinct_product\<close>)
  then show ?thesis
    by (simp add: f foldl_update_length n_def)
qed

lemma deinterleaving_nth:
  assumes "nr_deinterleaving_ldpc E Qm e0 f = Inr e" "j < E div Qm" "i < Qm"
  shows "e ! (i * (E div Qm) + j) = f ! (j * Qm + i)"
proof -
  define n where "n = E div Qm"
  let ?h = "\<lambda>(j, i). f ! (j * Qm + i)" and ?g = "\<lambda>(j, i). i * n + j"
  have e: "e = foldl (\<lambda>e x. e[?g x := ?h x]) e0 (List.product [0..<n] [0..<Qm])"
  proof -
    have "(\<lambda>e (j, i). e[i * n + j := f ! (j * Qm + i)]) = (\<lambda>e x. e[?g x := ?h x])"
      by (auto simp: fun_eq_iff)
    then show ?thesis
      using assms(1) by (simp add: nr_deinterleaving_ldpc_def split: if_splits flip: n_def)
  qed
  have l: "E \<le> length e0"
    using assms(1) by (auto simp: nr_deinterleaving_ldpc_def split: if_splits)
  have "i * n + j < Qm * n"
    using assms(2,3) by (intro row_index) (simp_all add: n_def)
  also have "\<dots> \<le> length e0"
    using l by (intro order_trans[OF _ l]) (simp add: n_def)
  finally have b: "?g (j, i) < length e0"
    by simp
  have inj: "inj_on ?g (set (List.product [0..<n] [0..<Qm]))"
    by (rule inj_onI) (auto dest: row_index_eq)
  have "e ! ?g (j, i) = ?h (j, i)"
    unfolding e by (rule foldl_update_nth[OF inj _ b]) (use assms(2,3) in \<open>simp_all add: n_def distinct_product\<close>)
  then show ?thesis
    by (simp add: n_def)
qed


text \<open>
  The de-interleaver of the receiver undoes the interleaver of the sender, whatever function \<open>llr\<close> the channel and the demodulator make
  of a bit and whatever the output array held.
\<close>

lemma deinterleaving_inverts:
  assumes f: "nr_interleaving_ldpc E Qm e = Inr f" and d: "Qm dvd E" and l: "length e = E" "length buf = E"
  shows "nr_deinterleaving_ldpc E Qm buf (map llr f) = Inr (map llr e)"
proof -
  have q: "Qm \<in> {2, 4, 6, 8}" "length f = E"
    using f by (auto simp: nr_interleaving_ldpc_def foldl_length split: if_splits)
  obtain e' where e': "nr_deinterleaving_ldpc E Qm buf (map llr f) = Inr e'" "length e' = E"
    using q d l(2) by (fastforce simp: nr_deinterleaving_ldpc_def foldl_length dvd_eq_mod_eq_0)
  have "e' ! p = map llr e ! p" if p: "p < E" for p
  proof -
    define n where "n = E div Qm"
    have "E = Qm * n"
      using d by (simp add: n_def)
    then have n: "0 < n" "E = Qm * n"
      using p by (auto intro: gr0I)
    have en: "E div Qm = n"
      by (simp add: n_def)
    then have ji: "p mod n < E div Qm" "p div n < Qm"
      using p n(1) unfolding n(2) by (simp_all add: less_mult_imp_div_less)
    have b: "p mod n * Qm + p div n < length f"
      using row_index[OF ji] q(2) n(2) unfolding en by (simp add: mult.commute)
    have "e' ! (p div n * n + p mod n) = map llr f ! (p mod n * Qm + p div n)"
      using deinterleaving_nth[OF e'(1) ji] by (simp flip: n_def)
    also have "\<dots> = llr (f ! (p mod n * Qm + p div n))"
      using b by simp
    also have "\<dots> = llr (e ! (p div n * n + p mod n))"
      using interleaving_nth[OF f ji] by (simp flip: n_def)
    finally show ?thesis
      using p l(1) by simp
  qed
  then show ?thesis
    using e' l(1) by (simp add: list_eq_iff_nth_eq)
qed

lemma interleaving_returns:
  assumes "Qm \<in> {2, 4, 6, 8}" "length e = E"
  shows "\<exists>f. nr_interleaving_ldpc E Qm e = Inr f"
  using assms by (auto simp: nr_interleaving_ldpc_def not_less)

text \<open>
  C6. The soft value of every coded bit reaches the position of the circular buffer its bit was read from. The sender selects \<open>E\<close> bits of
  the buffer and interleaves them; the receiver, from the values \<open>llr\<close> of the bits it received, adds the value of the \<open>k\<close>-th selected
  bit to the \<open>k\<close>-th position: the first positions from the start \<open>k0\<close> of the redundancy version on, around the buffer, without the filler bits.
\<close>

theorem soft_bits_reach_positions:
  assumes ok: "rm_ok Tbslbrm BG Z C F Foffset E" and N: "Ncb = rm_Ncb Tbslbrm BG Z C" and k: "rm_k0 BG Z rvidx Ncb = Inr k0"
    and w: "Ncb \<le> length w" "\<forall>i<Ncb. (w ! i = NR_NULL) = (Foffset \<le> i \<and> i < Foffset + F)"
    and q: "Qm \<in> {2, 4, 6, 8}" "Qm dvd E" and b: "length buf = E" "Ncb \<le> length d"
  shows "\<exists>e f ps. nr_rate_matching_ldpc Tbslbrm BG Z w C F Foffset rvidx E = Inr (Some e) \<and> nr_interleaving_ldpc E Qm e = Inr f \<and>
     ps = rm_positions Ncb F Foffset k0 E \<and> length ps = E \<and>
     bind_r (nr_deinterleaving_ldpc E Qm buf (map llr f))
       (\<lambda>soft_input. nr_rate_matching_ldpc_rx Tbslbrm BG Z d soft_input C rvidx clear E F Foffset) =
     Inr (Some (foldl (\<lambda>d p. d[p := d ! p + llr (w ! p)]) (if clear then replicate Ncb 0 @ drop Ncb d else d) ps))"
proof -
  define ps where "ps = rm_positions Ncb F Foffset k0 E"
  have l: "length ps = E"
    using rm_positions_length[OF rm_all_nonempty[OF ok]] by (simp add: ps_def N)
  have e: "nr_rate_matching_ldpc Tbslbrm BG Z w C F Foffset rvidx E = Inr (Some (map ((!) w) ps))"
    unfolding ps_def by (rule rate_matching_sends[OF ok N k w])
  obtain f where f: "nr_interleaving_ldpc E Qm (map ((!) w) ps) = Inr f"
    using interleaving_returns[OF q(1), of "map ((!) w) ps" E] l by auto
  have "nr_deinterleaving_ldpc E Qm buf (map llr f) = Inr (map llr (map ((!) w) ps))"
    by (rule deinterleaving_inverts[OF f q(2) _ b(1)]) (simp add: l)
  moreover have "nr_rate_matching_ldpc_rx Tbslbrm BG Z d (map llr (map ((!) w) ps)) C rvidx clear E F Foffset =
      Inr (Some (add_at (if clear then replicate Ncb 0 @ drop Ncb d else d) ps (map llr (map ((!) w) ps))))"
    unfolding ps_def by (rule rate_matching_receives[OF ok N k b(2)]) (use l ps_def in simp)
  ultimately show ?thesis
    using e f l by (auto simp: add_at_map simp flip: ps_def)
qed

theorem soft_bits_reach_positions_witness:
  "\<exists>e f ps. nr_rate_matching_ldpc 0 1 1 (replicate 4 1 @ [2, 2] @ replicate 60 1) 1 2 4 0 8 = Inr (Some e) \<and>
     nr_interleaving_ldpc 8 2 e = Inr f \<and> ps = rm_positions 66 2 4 0 8 \<and> length ps = 8 \<and>
     bind_r (nr_deinterleaving_ldpc 8 2 (replicate 8 0) (map ucast f))
       (\<lambda>soft_input. nr_rate_matching_ldpc_rx 0 1 1 (replicate 66 0) soft_input 1 0 True 8 2 4) =
     Inr (Some (foldl (\<lambda>d p. d[p := d ! p + ucast ((replicate 4 1 @ [2, 2 :: byte] @ replicate 60 1) ! p)])
       (if True then replicate 66 0 @ drop 66 (replicate 66 0) else replicate 66 0) ps))"
proof -
  have a: "rm_ok 0 1 1 1 2 4 8" "66 = rm_Ncb 0 1 1 1" "rm_k0 1 1 0 66 = Inr 0"
    by (simp_all add: rm_ok_def rm_Ncb_def rm_N_def rm_k0_def index_k0_def)
  have "\<forall>i<66. ((replicate 4 1 @ [2, 2] @ replicate 60 1) ! i = NR_NULL) = (4 \<le> i \<and> i < 4 + 2)"
    by (auto simp: nth_append NR_NULL_def nth_Cons')
  then show ?thesis
    by (intro soft_bits_reach_positions[OF a]) simp_all
qed

end
