(* ===== verification/Nr_Common.thy ===== *)
theory Nr_Common
  imports L2_Prelude
begin

text \<open>
  Functions that the base station and the UE share, \<open>common/utils/nr/nr_common.c\<close>: the codes of frequency and time allocations, the
  mapping of control channel elements and the timers of the upper layers. The numbers of the codes are natural numbers, as the
  parameters of the messages are; the fields of a timer are 32-bit words that wrap.
\<close>


subsection \<open>Allocations\<close>

definition NRRIV2BW :: "nat \<Rightarrow> nat \<Rightarrow> nat" where
  "NRRIV2BW locationAndBandwidth N_RB =
     (let tmp = locationAndBandwidth div N_RB; tmp2 = locationAndBandwidth mod N_RB
      in if tmp \<le> N_RB div 2 + 1 \<and> tmp + tmp2 < N_RB then tmp + 1 else N_RB + 1 - tmp)"

definition NRRIV2PRBOFFSET :: "nat \<Rightarrow> nat \<Rightarrow> nat" where
  "NRRIV2PRBOFFSET locationAndBandwidth N_RB =
     (let tmp = locationAndBandwidth div N_RB; tmp2 = locationAndBandwidth mod N_RB
      in if tmp \<le> N_RB div 2 + 1 \<and> tmp + tmp2 < N_RB then tmp2 else N_RB - 1 - tmp2)"

definition PRBalloc_to_locationandbandwidth0 :: "nat \<Rightarrow> nat \<Rightarrow> nat \<Rightarrow> nat result" where
  "PRBalloc_to_locationandbandwidth0 NPRB RBstart BWPsize =
     (if \<not> (NPRB > 0 \<and> NPRB + RBstart \<le> BWPsize) then Inl Fatal_exit
      else if NPRB \<le> 1 + BWPsize div 2 then Inr (BWPsize * (NPRB - 1) + RBstart)
      else Inr (BWPsize * (BWPsize + 1 - NPRB) + (BWPsize - 1 - RBstart)))"

definition PRBalloc_to_locationandbandwidth :: "nat \<Rightarrow> nat \<Rightarrow> nat result" where
  "PRBalloc_to_locationandbandwidth NPRB RBstart = PRBalloc_to_locationandbandwidth0 NPRB RBstart 275"

definition get_SLIV :: "nat \<Rightarrow> nat \<Rightarrow> nat" where
  "get_SLIV S L = nat ((if int L - 1 \<le> 7 then 14 * (int L - 1) + int S else 14 * (15 - int L) + (13 - int S)) mod 2 ^ 16)"

text \<open>Start and length.\<close>

definition SLIV2SL :: "nat \<Rightarrow> int \<times> int" where
  "SLIV2SL SLIV =
     (if int (SLIV div 14) \<le> 13 - int (SLIV mod 14) then (int (SLIV mod 14), int (SLIV div 14) + 1)
      else (13 - int (SLIV mod 14), 15 - int (SLIV div 14)))"

text \<open>With \<open>R = 0\<close> the mapping is not interleaved.\<close>

definition cce_to_reg_interleaving :: "nat \<Rightarrow> nat \<Rightarrow> nat \<Rightarrow> nat \<Rightarrow> nat \<Rightarrow> nat \<Rightarrow> nat" where
  "cce_to_reg_interleaving R k n_shift C L N_regs =
     (if R = 0 then k else (k mod R * C + k div R + n_shift) mod (N_regs div L))"


subsection \<open>Timers\<close>

record NR_timer =
  tm_active :: bool
  tm_counter :: u32
  tm_target :: u32
  tm_step :: u32

definition UINT_MAX :: u32 where
  "UINT_MAX = - 1"

definition nr_timer_start :: "NR_timer \<Rightarrow> NR_timer" where
  "nr_timer_start timer = timer\<lparr>tm_active := True, tm_counter := 0\<rparr>"

definition nr_timer_stop :: "NR_timer \<Rightarrow> NR_timer" where
  "nr_timer_stop timer = timer\<lparr>tm_active := False, tm_counter := 0\<rparr>"

definition nr_timer_is_active :: "NR_timer \<Rightarrow> bool" where
  "nr_timer_is_active timer = tm_active timer"

definition nr_timer_expired :: "NR_timer \<Rightarrow> bool" where
  "nr_timer_expired timer = (if tm_target timer = UINT_MAX then False else tm_counter timer \<ge> tm_target timer)"

definition nr_timer_tick :: "NR_timer \<Rightarrow> bool \<times> NR_timer" where
  "nr_timer_tick timer =
     (if tm_active timer then
        (let timer = timer\<lparr>tm_counter := tm_counter timer + tm_step timer\<rparr>
         in if tm_target timer = UINT_MAX then (False, timer)
            else if nr_timer_expired timer then (True, timer\<lparr>tm_active := False\<rparr>) else (False, timer))
      else (False, timer))"

definition nr_timer_elapsed_time :: "NR_timer \<Rightarrow> u32" where
  "nr_timer_elapsed_time timer = tm_counter timer"

definition nr_timer_setup :: "NR_timer \<Rightarrow> u32 \<Rightarrow> u32 \<Rightarrow> NR_timer" where
  "nr_timer_setup timer target step = nr_timer_stop (timer\<lparr>tm_target := target, tm_step := step\<rparr>)"

text \<open>The results of consecutive ticks.\<close>

fun nr_timer_ticks :: "nat \<Rightarrow> NR_timer \<Rightarrow> bool list \<times> NR_timer" where
  "nr_timer_ticks 0 t = ([], t)"
| "nr_timer_ticks (Suc k) t = (case nr_timer_ticks k t of (bs, t') \<Rightarrow> case nr_timer_tick t' of (b, t'') \<Rightarrow> (bs @ [b], t''))"


subsection \<open>Allocations are read back\<close>

lemma riv_parts: "r < n \<Longrightarrow> (n * q + r) div n = q \<and> (n * q + r) mod n = (r :: nat)"
  by simp

lemma riv_round_trip:
  assumes "PRBalloc_to_locationandbandwidth0 NPRB RBstart BWPsize = Inr riv"
  shows "NRRIV2BW riv BWPsize = NPRB \<and> NRRIV2PRBOFFSET riv BWPsize = RBstart"
proof (cases "NPRB \<le> 1 + BWPsize div 2")
  case True
  then have a: "0 < NPRB" "NPRB + RBstart \<le> BWPsize" "riv = BWPsize * (NPRB - 1) + RBstart"
    using assms by (auto simp: PRBalloc_to_locationandbandwidth0_def split: if_splits)
  then have "riv div BWPsize = NPRB - 1" "riv mod BWPsize = RBstart"
    using riv_parts[of RBstart BWPsize "NPRB - 1"] by auto
  then show ?thesis
    unfolding NRRIV2BW_def NRRIV2PRBOFFSET_def Let_def using a(1,2) True by auto
next
  case False
  then have a: "0 < NPRB" "NPRB + RBstart \<le> BWPsize" "riv = BWPsize * (BWPsize + 1 - NPRB) + (BWPsize - 1 - RBstart)"
    using assms by (auto simp: PRBalloc_to_locationandbandwidth0_def split: if_splits)
  then have "riv div BWPsize = BWPsize + 1 - NPRB" "riv mod BWPsize = BWPsize - 1 - RBstart"
    using riv_parts[of "BWPsize - 1 - RBstart" BWPsize "BWPsize + 1 - NPRB"] by auto
  then show ?thesis
    unfolding NRRIV2BW_def NRRIV2PRBOFFSET_def Let_def using a(1,2) False by auto
qed

lemma sliv_round_trip:
  assumes "0 < L" "S + L \<le> 14"
  shows "SLIV2SL (get_SLIV S L) = (int S, int L)"
proof (cases "L \<le> 8")
  case True
  have r: "0 \<le> 14 * (int L - 1) + int S" "14 * (int L - 1) + int S < 2 ^ 16" "S < 14"
    using assms True by auto
  then have "get_SLIV S L = 14 * (L - 1) + S"
    unfolding get_SLIV_def using True assms(1) by (simp add: nat_eq_iff mod_pos_pos_trivial)
  with r(3) have "get_SLIV S L div 14 = L - 1" "get_SLIV S L mod 14 = S"
    using riv_parts[of S 14 "L - 1"] by simp_all
  with assms show ?thesis
    by (auto simp: SLIV2SL_def)
next
  case False
  have r: "0 \<le> 14 * (15 - int L) + (13 - int S)" "14 * (15 - int L) + (13 - int S) < 2 ^ 16" "13 - S < 14"
    using assms False by auto
  then have "get_SLIV S L = 14 * (15 - L) + (13 - S)"
    unfolding get_SLIV_def using False assms by (simp add: nat_eq_iff mod_pos_pos_trivial)
  with r(3) have "get_SLIV S L div 14 = 15 - L" "get_SLIV S L mod 14 = 13 - S"
    using riv_parts[of "13 - S" 14 "15 - L"] by simp_all
  with assms False show ?thesis
    by (auto simp: SLIV2SL_def)
qed

lemma shifted_mod_eq:
  assumes "(x + s) mod n = (y + s) mod (n :: nat)" "x < n" "y < n"
  shows "x = y"
proof -
  obtain q q' where "x + s + n * q = y + s + n * q'"
    using assms(1) unfolding nat_mod_eq_iff by blast
  then have "x + n * q = y + n * q'"
    by simp
  then have "x mod n = y mod n"
    by (metis mod_mult_self2)
  then show ?thesis
    using assms(2,3) by simp
qed

text \<open>
  C24. The interleaved mapping of control channel elements is a permutation of the bundles: with a number of bundles that the
  interleaver size divides, no two elements share a bundle and every bundle is used, for every shift.
\<close>

theorem cce_interleaving_permutes:
  assumes "R = 0 \<or> N_regs div L = R * C"
  shows "bij_betw (\<lambda>k. cce_to_reg_interleaving R k n_shift C L N_regs) {0..<N_regs div L} {0..<N_regs div L}"
proof (cases "R = 0")
  case True
  then show ?thesis
    by (simp add: cce_to_reg_interleaving_def bij_betw_def)
next
  case False
  define n where "n = N_regs div L"
  have n: "n = R * C"
    using assms False by (simp add: n_def)
  define f where "f = (\<lambda>k. (k mod R * C + k div R + n_shift) mod n)"
  have x: "k mod R * C + k div R < n" "k div R < C" if "k < n" for k
  proof -
    show c: "k div R < C"
      using that n False by (simp add: less_mult_imp_div_less mult.commute)
    show "k mod R * C + k div R < n"
      unfolding n using False c by (intro row_index) simp_all
  qed
  have "inj_on f {0..<n}"
  proof (rule inj_onI)
    fix k k'
    assume k: "k \<in> {0..<n}" "k' \<in> {0..<n}" "f k = f k'"
    have l: "k < n" "k' < n"
      using k by simp_all
    have "(k mod R * C + k div R + n_shift) mod n = (k' mod R * C + k' div R + n_shift) mod n"
      using k(3) by (simp only: f_def)
    then have "k mod R * C + k div R = k' mod R * C + k' div R"
      using x(1)[OF l(1)] x(1)[OF l(2)] by (rule shifted_mod_eq)
    with x(2)[OF l(1)] x(2)[OF l(2)] have "k mod R = k' mod R \<and> k div R = k' div R"
      by (rule row_index_eq)
    then show "k = k'"
      by (metis div_mult_mod_eq)
  qed
  moreover have "f ` {0..<n} \<subseteq> {0..<n}"
    by (auto simp: f_def)
  ultimately have "bij_betw f {0..<n} {0..<n}"
    by (simp add: bij_betw_def endo_inj_surj)
  then show ?thesis
    using False by (simp add: cce_to_reg_interleaving_def f_def n_def)
qed

theorem cce_interleaving_permutes_witness:
  "bij_betw (\<lambda>k. cce_to_reg_interleaving 2 k 5 4 6 48) {0..<48 div 6} {0..<48 div 6}"
  by (rule cce_interleaving_permutes) simp


subsection \<open>A timer expires once\<close>

text \<open>The number of ticks until a timer with the target \<open>T\<close> expires when each tick counts \<open>s\<close>.\<close>

definition expiry_tick :: "nat \<Rightarrow> nat \<Rightarrow> nat" where
  "expiry_tick T s = max 1 ((T + s - 1) div s)"

lemma expiry_tick_before:
  assumes "0 < s" "Suc k < expiry_tick T s"
  shows "Suc k * s < T"
proof -
  have "Suc (Suc k) \<le> (T + s - 1) div s"
    using assms(2) by (simp add: expiry_tick_def)
  then have "Suc (Suc k) * s \<le> T + s - 1"
    using assms(1) by (simp add: less_eq_div_iff_mult_less_eq)
  then show ?thesis
    using assms(1) by simp
qed

lemma expiry_tick_at:
  assumes "0 < s"
  shows "T \<le> expiry_tick T s * s"
proof -
  have "T + s - 1 < Suc ((T + s - 1) div s) * s"
    using assms by (metis dividend_less_div_times add.commute mult_Suc)
  then have "T \<le> (T + s - 1) div s * s"
    using assms by simp
  also have "\<dots> \<le> expiry_tick T s * s"
    by (intro mult_le_mono1) (simp add: expiry_tick_def)
  finally show ?thesis .
qed


lemma unat_ticks:
  assumes "k * unat (st :: u32) < 2 ^ 32"
  shows "unat (of_nat k * st) = k * unat st"
proof -
  have "of_nat k * st = of_nat (k * unat st)"
    by simp
  then show ?thesis
    using assms by (simp only: unsigned_of_nat) (simp add: take_bit_nat_eq_self)
qed

text \<open>The state after \<open>k\<close> ticks of a timer that was started: it counts until the expiry and stands still afterwards.\<close>

definition ticked :: "NR_timer \<Rightarrow> nat \<Rightarrow> nat \<Rightarrow> NR_timer" where
  "ticked t n k = t\<lparr>tm_active := k < n, tm_counter := of_nat (min k n) * tm_step t\<rparr>"

lemma timer_counts:
  assumes "0 < unat (tm_step t)" "unat (tm_target t) + unat (tm_step t) \<le> 2 ^ 32" "k \<le> expiry_tick (unat (tm_target t)) (unat (tm_step t))"
  shows "unat (of_nat k * tm_step t) = k * unat (tm_step t)"
proof (rule unat_ticks, cases k)
  case (Suc j)
  show "k * unat (tm_step t) < 2 ^ 32"
  proof (cases j)
    case 0
    then show ?thesis
      using Suc unsigned_less[of "tm_step t", where 'a = nat] by simp
  next
    case (Suc i)
    then have "Suc i * unat (tm_step t) < unat (tm_target t)"
      using assms(1,3) \<open>k = Suc j\<close> by (intro expiry_tick_before) simp_all
    then show ?thesis
      using assms(2) Suc \<open>k = Suc j\<close> by simp
  qed
qed simp

lemma timer_tick_ticked:
  assumes "tm_target t \<noteq> UINT_MAX" "0 < unat (tm_step t)" "unat (tm_target t) + unat (tm_step t) \<le> 2 ^ 32"
    and n: "n = expiry_tick (unat (tm_target t)) (unat (tm_step t))"
  shows "nr_timer_tick (ticked t n k) = (Suc k = n, ticked t n (Suc k))"
proof (cases "k < n")
  case True
  have c: "unat (of_nat (Suc k) * tm_step t) = Suc k * unat (tm_step t)"
    using True n by (intro timer_counts[OF assms(2,3)]) simp
  have "(tm_target t \<le> of_nat (Suc k) * tm_step t) = (Suc k = n)"
  proof (cases "Suc k = n")
    case True
    have "unat (tm_target t) \<le> Suc k * unat (tm_step t)"
      using expiry_tick_at[OF assms(2), of "unat (tm_target t)"] by (simp only: n[symmetric] True[symmetric])
    then have "tm_target t \<le> of_nat (Suc k) * tm_step t"
      unfolding word_le_nat_alt c .
    then show ?thesis
      using True by blast
  next
    case False
    then have "Suc k * unat (tm_step t) < unat (tm_target t)"
      using \<open>k < n\<close> n by (intro expiry_tick_before[OF assms(2)]) simp
    then show ?thesis
      using False by (simp only: word_le_nat_alt c not_le[symmetric])
  qed
  moreover have "of_nat k * tm_step t + tm_step t = of_nat (Suc k) * tm_step t"
    by (simp add: algebra_simps)
  ultimately show ?thesis
    using True assms(1) unfolding nr_timer_tick_def ticked_def nr_timer_expired_def Let_def
    by (simp add: min_def del: of_nat_Suc)
next
  case False
  then show ?thesis
    by (simp add: nr_timer_tick_def ticked_def min_def)
qed

text \<open>
  C23. A timer that was set up and started expires exactly once: with a target that is not the infinite one and that leaves room
  for a step below \<open>2 ^ 32\<close>, the tick that first reaches the target reports the expiry, no other one does, and
  the timer is active exactly before it.
\<close>

theorem nr_timer_expires_once:
  assumes "target \<noteq> UINT_MAX" and "0 < unat step" and "unat target + unat step \<le> 2 ^ 32"
    and "n = max 1 ((unat target + unat step - 1) div unat step)"
    and "nr_timer_ticks k (nr_timer_start (nr_timer_setup t target step)) = (bs, t')"
  shows "bs = map (\<lambda>i. Suc i = n) [0..<k] \<and> nr_timer_is_active t' = (k < n)"
proof -
  define t0 where "t0 = nr_timer_start (nr_timer_setup t target step)"
  have f: "tm_target t0 = target" "tm_step t0 = step" "t0 = ticked t0 n 0"
    using assms(4) by (auto simp: t0_def nr_timer_start_def nr_timer_setup_def nr_timer_stop_def ticked_def)
  have n: "n = expiry_tick (unat (tm_target t0)) (unat (tm_step t0))"
    using assms(4) by (simp add: f(1,2) expiry_tick_def)
  have "nr_timer_ticks j t0 = (map (\<lambda>i. Suc i = n) [0..<j], ticked t0 n j)" for j
  proof (induction j)
    case 0
    then show ?case
      using f(3) by simp
  next
    case (Suc j)
    have "nr_timer_tick (ticked t0 n j) = (Suc j = n, ticked t0 n (Suc j))"
      by (rule timer_tick_ticked) (use assms(1-3) n in \<open>simp_all add: f(1,2)\<close>)
    with Suc show ?case
      by simp
  qed
  then show ?thesis
    using assms(5) by (auto simp: nr_timer_is_active_def ticked_def simp flip: t0_def)
qed

theorem nr_timer_expires_once_witness:
  "[False, False, True, False] = map (\<lambda>i. Suc i = 3) [0..<4] \<and>
   nr_timer_is_active \<lparr>tm_active = False, tm_counter = 12, tm_target = 10, tm_step = 4\<rparr> = (4 < (3 :: nat))"
proof (rule nr_timer_expires_once)
  show "nr_timer_ticks 4 (nr_timer_start (nr_timer_setup \<lparr>tm_active = False, tm_counter = 0, tm_target = 0, tm_step = 0\<rparr> 10 4)) =
    ([False, False, True, False], \<lparr>tm_active = False, tm_counter = 12, tm_target = 10, tm_step = 4\<rparr>)"
    by code_simp
qed (simp_all add: UINT_MAX_def)

end
