(* ===== verification/Spec2Isabelle.thy ===== *)
theory Spec2Isabelle
  imports Rlc_Um_Link Rlc_Am_Props Pdcp_Peer Sdap_Registry Ue_Managers Phy_Ulsch Phy_Rate_Matching Nr_Common
begin

text \<open>
  A verification library for the user plane of the 5G layer 2 of OpenAirInterface: SDAP (\<open>openair2/SDAP/nr_sdap\<close>), PDCP
  (\<open>openair2/LAYER2/nr_pdcp\<close>), RLC (\<open>openair2/LAYER2/nr_rlc\<close>), the SNOW 3G algorithms they use
  (\<open>openair3/SECU/snow3g.c\<close>) and the timed averages of their statistics (\<open>common/utils/time_stat.c\<close>). Below layer 2 it covers the
  path of a transport block through the physical layer up to and from the LDPC code: checks, sizes, segmentation, rate matching and interleaving
  (\<open>openair1/PHY/CODING\<close>, \<open>openair1/PHY/NR_TRANSPORT\<close>), and functions that base station and UE share (\<open>common/utils/nr/nr_common.c\<close>).

  \<^bold>\<open>How the parts interact.\<close> SDAP maps a QoS flow to a data radio bearer, puts a one-byte header in front of the SDU
  and submits it to the PDCP entity of the bearer. PDCP numbers it with a COUNT, protects and ciphers it
  and hands the PDU to the RLC entity of the bearer. RLC queues it; when the MAC gives a grant, RLC cuts
  the SDU to the grant and writes a PDU. On the other side RLC reassembles SDUs and delivers them to PDCP, which
  rebuilds the COUNT, deciphers, checks and reorders, and delivers to SDAP, which strips its header and hands the
  SDU to the network interface (UE) or the GTP tunnel (gNB). In acknowledged mode status reports flow back. The MAC fills a transport block with RLC PDUs;
  its size is computed by \<open>nr_compute_tbs\<close>. The physical layer adds a check, cuts the block into code blocks with checks of their own, encodes each,
  selects and interleaves the coded bits; the receiver adds soft values to the buffer of the code block, decodes, reassembles and checks.

  \<^bold>\<open>Conventions.\<close> A call that may fail returns \<open>'a result\<close>: \<open>Inl\<close> is a failed assertion or \<open>exit\<close> (\<open>Fatal_exit\<close>), a null
  pointer, an access outside an object, a use of freed memory, or a loop that does not end; everything else is
  \<open>Inr\<close>. Structures are records with the fields of the code, entities are passed and returned. C \<open>int\<close> values that stay
  small are \<open>int\<close>; 32- and 64-bit unsigned values that wrap are words. Calls out of the modelled code
  (delivery of an SDU, the network interface, the tunnel) are events in the result. The clock is an argument.
  Log output is left out.

  \<^bold>\<open>Theories.\<close>
  \<^item> \<open>L2_Prelude\<close>: fallible calls, memory copies, skipping of sequence numbers, positions in tables of rows, the locale \<open>ordered_insertion\<close>.
  \<^item> \<open>Time_Stat\<close>: \<open>time_stat.c\<close>; the ring buffer is a queue of the samples of the window.
  \<^item> \<open>Rlc_Pdu\<close>: \<open>nr_rlc_pdu.c\<close>; bit decoder and encoder (what is written is read back), the list of received PDUs.
  \<^item> \<open>Rlc_Sdu\<close>: \<open>nr_rlc_sdu.c\<close>; SDUs shared by segments, in an explicit memory with reference counts. The locale
    \<open>sdu_pool\<close> is what the entities rely on.
  \<^item> \<open>Rlc_Entity\<close>: \<open>nr_rlc_entity.c\<close>; the common part, and the locale \<open>rlc_tx_entity\<close> (no call of the transmit side can
    fail or overrun a grant), interpreted for the three modes.
  \<^item> \<open>Rlc_Tm\<close>: \<open>nr_rlc_entity_tm.c\<close>, with a refinement to a bounded queue.
  \<^item> \<open>Rlc_Reasm\<close>: the functions on the reception list that the UM and AM entities share.
  \<^item> \<open>Rlc_Um\<close>: \<open>nr_rlc_entity_um.c\<close>. \<open>Rlc_Um_Tx\<close>: PDUs carry the pending byte stream. \<open>Rlc_Um_Rx\<close>: the receive window is
    kept on arbitrary bytes. \<open>Rlc_Um_Peer\<close>: PDUs of an honest peer. \<open>Rlc_Um_Link\<close>: runs of a receiver and the transfer of an SDU.
  \<^item> \<open>Rlc_Am\<close>, \<open>Rlc_Am_Status\<close>, \<open>Rlc_Am_Ctrl\<close>: \<open>nr_rlc_entity_am.c\<close>; data, the building of status reports, their processing.
    \<open>Rlc_Am_Tx\<close>: the invariant of the three transmit lists, segmentation and (re)transmission. \<open>Rlc_Am_Report\<close>: the length of a
    report. \<open>Rlc_Am_Ack\<close>: what a report does. \<open>Rlc_Am_Runs\<close>: all operations. \<open>Rlc_Am_Faults\<close>: reports after which the
    transmit side goes wrong. \<open>Rlc_Am_Props\<close>: properties.
  \<^item> \<open>Snow3g_Tables\<close>, \<open>Snow3g\<close>: \<open>snow3g.c\<close>. \<open>Snow3g_Ref\<close>: the register and the field of the specification. \<open>Snow3g_Mac\<close>: the code
    computes them.
  \<^item> \<open>Pdcp_Security\<close>: \<open>nr_pdcp_security_nea1.c\<close>, \<open>nr_pdcp_security_nea2.c\<close>, \<open>nr_pdcp_integrity_nia1.c\<close>, \<open>nr_pdcp_integrity_nia2.c\<close>.
  \<^item> \<open>Pdcp_Entity\<close>: \<open>nr_pdcp_entity.c\<close>, \<open>nr_pdcp_sdu.c\<close>. \<open>Pdcp_Rx\<close>: order of delivery. \<open>Pdcp_Peer\<close>: two entities with the same keys.
  \<^item> \<open>Registry\<close>: the locale \<open>keyed_list\<close> of a linked list of entities. \<open>Sdap_Entity\<close>: \<open>nr_sdap_entity.c\<close>, \<open>nr_sdap.c\<close>. \<open>Sdap_Rules\<close>: one
    entity. \<open>Sdap_Registry\<close>: the list of entities is a map from UE and session.
  \<^item> \<open>Ue_Managers\<close>: \<open>nr_rlc_ue_manager.c\<close>, \<open>nr_pdcp_ue_manager.c\<close>, the tables of UE contexts with the entities of their bearers; the
    locale \<open>ue_table\<close> is what both promise.
  \<^item> \<open>Phy_Crc\<close>: \<open>crc_byte.c\<close>; the table-driven checks are the division by the polynomial, and \<open>check_crc\<close> detects bursts.
  \<^item> \<open>Phy_Tb\<close>: \<open>nr_compute_tbs_common.c\<close>, \<open>nr_tbs_tools.c\<close>, \<open>nr_segmentation.c\<close>, \<open>get_BG\<close>; the sizes fit each other and the tables of the
    specification.
  \<^item> \<open>Phy_Ulsch\<close>: the senders up to the code blocks (\<open>nr_ulsch_coding.c\<close>, \<open>nr_dlsch_coding.c\<close>) and the reassembly in the base station
    (\<open>nr_ulsch_decoding.c\<close>, \<open>nr_postDecode\<close>). What the LDPC decoder delivers is an argument.
  \<^item> \<open>Phy_Rate_Matching\<close>: \<open>nr_rate_matching.c\<close>; both sides use the same positions.
  \<^item> \<open>Nr_Common\<close>: allocation codes, control channel elements and timers of \<open>nr_common.c\<close>.
  \<^item> This theory: one bearer through all layers.

  \<^bold>\<open>What is shown.\<close> Composition: the downlink of a bearer delivers the SDU byte for byte; a transport block of a computed
  size survives segmentation and reassembly in the uplink; each soft value reaches the position of its bit. Reference definitions: the checks are polynomial
  division, the lifting size is the least one of the table. Refinements: the TM entity is a bounded queue,
  UM PDUs are a byte stream, the SDAP list and the lists of UE contexts are maps, the SNOW 3G register is that of the specification. Runs: a UM receiver of
  honest PDUs delivers only what was sent; PDCP hands over exactly the SDUs it has taken in below \<open>rx_deliv\<close>, in the order of their COUNTs; an AM entity stays well formed
  whatever happens. Timers: what the expiry of t-Reassembly and t-Reordering drops, hands over and starts anew. Errors: a finding that
  the kernel can check has a theorem that states for which states and inputs it occurs, and a run from a new entity where the state is not
  obviously reachable.

  \<^bold>\<open>Bounds and fuel.\<close> The loops that skip sequence numbers get the modulus as fuel: a list never holds all numbers of the modulus
  once the window invariant holds, so they end (\<open>skip_while_sn_terminates\<close>). The loop that validates NACKs gets
  one round for each byte; a NACK takes two (\<open>am_validate_nacks_ok\<close>). All other loops terminate by a measure. The repetition loops of rate matching do not
  end when a pass finds nothing but filler bits; that is the error \<open>Diverges\<close>, and \<open>soft_bits_reach_positions\<close> shows that they end otherwise.
  The sizes of the physical layer are natural numbers, with the reduction written out where a 16- or 32-bit product or difference can leave its range.
  The products that C computes as \<open>int\<close> in \<open>nr_compute_tbslbrm\<close> are undefined when they overflow. The list of SDAP entities is a map as long as
  entities are deleted one by one only from lists that the bounded search of the code covers (\<open>sdap_run_searchable\<close>).
  The average of doubles is kept as an exact fraction. Counters of type \<open>int\<close> are not wrapped; the code would have
  to handle more than \<open>2 ^ 31\<close> bytes between two polls or in one buffer for that to matter.

  \<^bold>\<open>Not modelled.\<close>
  \<^item> AES and CMAC come from OpenSSL: they are parameters of the PDCP model, with the laws \<open>crypto_ok\<close> (ciphering twice with the
    same parameters is the identity and keeps the length; a code has sixteen bytes).
  \<^item> The interfaces (\<open>nr_rlc_oai_api.c\<close>, \<open>nr_pdcp_oai_api.c\<close>) and the locks of the managers: threads, queues and ASN.1 structures of generated code.
  \<^item> MAC (apart from transport block sizes), RRC, NAS and the inter-node protocols: their state is made of ASN.1 types that the build generates and of
    messages between threads.
  \<^item> The rest of the physical layer and its simulators: fixed-point signal processing with vector intrinsics, the LDPC encoders and decoders, which are
    generated or written in intrinsics, and the variant of \<open>crc24a\<close> and \<open>crc24b\<close> with carry-less multiplication.
  \<^item> Failure of \<open>malloc\<close> and the contents of log messages.
\<close>


subsection \<open>The user plane of one bearer\<close>

text \<open>The peers of a data radio bearer whose PDCP entities carry an SDAP header, the RLC entities in
  unacknowledged mode: everything they share by configuration, and a receiver that waits for the next COUNT.\<close>

definition bearer_peers ::
  "nr_pdcp_entity_t \<Rightarrow> nr_pdcp_entity_t \<Rightarrow> nr_rlc_entity_um_t \<Rightarrow> nr_rlc_entity_um_t \<Rightarrow> bool" where
  "bearer_peers a b u v \<longleftrightarrow> pdcp_peers a b \<and> pd_has_sdap_tx a \<and> \<not> pd_entity_suspended a \<and> \<not> pd_entity_suspended b \<and>
     pdcp_rx_ok b \<and> pd_rx_deliv b = pd_tx_next a \<and> pd_tx_next a \<noteq> - 1 \<and>
     um_tx_ok u \<and> um_tx_list u = [] \<and> um_rx_ok v \<and> um_sn_field_length v = um_sn_field_length u"

text \<open>C1. The downlink user plane, through all layers: an SDU that the gNB submits to SDAP on a flow with a header, sent by
  PDCP and by RLC UM in a grant that holds it, is delivered by the RLC of the UE to its PDCP, which recovers,
  deciphers and authenticates it and hands it to SDAP, which writes the SDU, byte for byte, to the
  network interface.\<close>

theorem downlink_end_to_end:
  assumes "bearer_peers a b u v" and "crypto_ok cr" and "sdap_ok se" and "sdap_ok ue_e"
    and "qfi < 64" and "sdap_bearer se qfi \<noteq> 0" and "q_has_sdap_tx (sdap_rule se qfi)"
    and "0 < length sdu" and "length sdu \<le> 8999"
    and "nr_sdap_tx_entity pdcp_ok se True ue rb_id sdu qfi rqi = Inr (ret0, se', [Pdcp_data_req ue drb p])"
    and "nr_pdcp_entity_process_sdu cr a p m = Inr (ret1, pdu, a')"
    and "um_tx_size u + int (length pdu) \<le> um_tx_maxsize u" and "length pdu + 1 \<le> length grant"
  shows "\<exists>u1 ret buffer u2 v' b' mi evs.
    nr_rlc_entity_um_recv_sdu now pdu sdu_id u = Inr u1 \<and>
    nr_rlc_entity_um_generate_pdu now' grant u1 = Inr (ret, buffer, u2) \<and>
    nr_rlc_entity_um_recv_pdu v (take (nat ret) buffer) = Inr (v', [Deliver_sdu pdu]) \<and>
    nr_pdcp_entity_recv_pdu cr b pdu = Inr (b', Deliver_pdcp_sdu p mi # evs) \<and>
    nr_sdap_rx_entity ue_e drb False True pdu_session ue p = Inr (ue_e, [Nas_write sdu])"
proof -
  have p: "p = sdap_header True qfi rqi # sdu" "drb = sdap_bearer se qfi"
    using assms(6-10) sdap_tx_eq [OF assms(3,5), of pdcp_ok True ue rb_id sdu rqi]
    by (auto simp: Let_def sdap_pdu_def split: if_splits)
  have sdap: "nr_sdap_rx_entity ue_e drb False True pdu_session ue p = Inr (ue_e, [Nas_write sdu])"
    using sdap_rx_reflective [OF assms(4,5,6), of pdu_session ue rqi False sdu] p by (simp add: sdap_header_def)
  have "(if pd_has_sdap_tx a then 1 else 0) < length p"
    using p(1) assms(8) by simp
  moreover have peers: "pdcp_peers a b" "\<not> pd_entity_suspended a" "\<not> pd_entity_suspended b" "pdcp_rx_ok b"
    "pd_rx_deliv b = pd_tx_next a" "pd_tx_next a \<noteq> - 1"
    using assms(1) by (simp_all add: bearer_peers_def)
  ultimately obtain b' mi evs where pdcp: "nr_pdcp_entity_recv_pdu cr b pdu = Inr (b', Deliver_pdcp_sdu p mi # evs)"
    and len: "length pdu = pdcp_header_size a + length p + pdcp_integrity_size a"
    using pdcp_delivers_next [OF assms(2) peers(1-3) assms(11) _ peers(4-6)] by blast
  have "length pdu \<le> 16000" and "2 < length grant" and "pdu \<noteq> []"
    using len p(1) assms(9,13) by (auto simp: pdcp_header_size_def pdcp_integrity_size_def split: if_splits)
  then obtain u1 ret buffer u2 st where "nr_rlc_entity_um_recv_sdu now pdu sdu_id u = Inr u1"
    "nr_rlc_entity_um_generate_pdu now' grant u1 = Inr (ret, buffer, u2)"
    "nr_rlc_entity_um_recv_pdu v (take (nat ret) buffer) = Inr (v\<lparr>stats := st\<rparr>, [Deliver_sdu pdu])"
    using um_transfer_whole [of u v pdu grant now sdu_id now'] assms(1,12,13)
    by (auto simp: bearer_peers_def sdu_size_ok_def NR_SDU_MAX_def)
  then show ?thesis
    using pdcp sdap by blast
qed

text \<open>A bearer with 12-bit sequence numbers, and an SDU of two bytes on flow 5.\<close>

definition gnb_pdcp_example :: nr_pdcp_entity_t where
  "gnb_pdcp_example = (pdcp_example True)\<lparr>pd_has_sdap_tx := True\<rparr>"

definition ue_pdcp_example :: nr_pdcp_entity_t where
  "ue_pdcp_example = (pdcp_example False)\<lparr>pd_has_sdap_rx := True\<rparr>"

definition gnb_um_example :: nr_rlc_entity_um_t where
  "gnb_um_example = um_example\<lparr>sdu_mem := mem_empty, um_tx_list := [], um_tx_size := 0, bstatus := bstatus_zero\<rparr>"

lemma bearer_example: "bearer_peers gnb_pdcp_example ue_pdcp_example gnb_um_example um_rx_example"
proof -
  have "pdcp_peers gnb_pdcp_example ue_pdcp_example"
    by (simp add: gnb_pdcp_example_def ue_pdcp_example_def pdcp_peers_def pdcp_example_def new_nr_pdcp_entity_def
        nr_pdcp_entity_set_security_def set_integrity_def set_ciphering_def keys_example_def pdcp_sn_ok_def context_key_def)
  moreover have "pdcp_rx_ok ue_pdcp_example"
    by (simp add: ue_pdcp_example_def pdcp_rx_ok_def pdcp_example_def new_nr_pdcp_entity_def
        nr_pdcp_entity_set_security_def set_integrity_def set_ciphering_def keys_example_def)
  moreover have "um_tx_ok gnb_um_example"
    using mem_inv_empty by (simp add: gnb_um_example_def um_example_def um_tx_ok_def um_tx_core_def um_cfg_ok_def bstatus_zero_def
        sdus_small_def mem_empty_def)
  ultimately show ?thesis
    using um_rx_example_ok(1)
    by (simp add: bearer_peers_def gnb_pdcp_example_def ue_pdcp_example_def pdcp_example_rx gnb_um_example_def um_example_def
        um_rx_example_def)
qed

lemma gnb_example_sends:
  "\<exists>a' pdu. nr_pdcp_entity_process_sdu env_example gnb_pdcp_example [5, 7, 8] 100 = Inr (9, pdu, a') \<and> length pdu = 9"
  by (simp add: gnb_pdcp_example_def nr_pdcp_entity_process_sdu_def pdcp_example_def new_nr_pdcp_entity_def
      nr_pdcp_entity_set_security_def set_integrity_def set_ciphering_def keys_example_def nr_max_pdcp_pdu_size_def Let_def
      pdcp_protect_def pdcp_encipher_def pdcp_integrity_call_def pdcp_cipher_call_def nr_pdcp_integrity_nia2_integrity_def
      nr_pdcp_security_nea2_cipher_def pdcp_header_def pdcp_header_size_def pdcp_integrity_size_def env_example_def
      htonl_bytes_def pdcp_tx_direction_def numeral_eq_Suc)

theorem downlink_end_to_end_witness:
  "\<exists>pdu a' u1 ret buffer u2 v' b' mi evs.
     nr_pdcp_entity_process_sdu env_example gnb_pdcp_example [5, 7, 8] 100 = Inr (9, pdu, a') \<and>
     nr_rlc_entity_um_recv_sdu 0 pdu 1 gnb_um_example = Inr u1 \<and>
     nr_rlc_entity_um_generate_pdu 0 (replicate 20 0) u1 = Inr (ret, buffer, u2) \<and>
     nr_rlc_entity_um_recv_pdu um_rx_example (take (nat ret) buffer) = Inr (v', [Deliver_sdu pdu]) \<and>
     nr_pdcp_entity_recv_pdu env_example ue_pdcp_example pdu = Inr (b', Deliver_pdcp_sdu [5, 7, 8] mi # evs) \<and>
     nr_sdap_rx_entity sdap_example 2 False True 10 1 [5, 7, 8] = Inr (sdap_example, [Nas_write [7, 8]])"
proof -
  obtain a' pdu where s: "nr_pdcp_entity_process_sdu env_example gnb_pdcp_example [5, 7, 8] 100 = Inr (9, pdu, a')" "length pdu = 9"
    using gnb_example_sends by blast
  have b: "sdap_bearer sdap_example 5 = 2" "q_has_sdap_tx (sdap_rule sdap_example 5)"
    by (simp_all add: sdap_bearer_def sdap_example_def)
  have t: "nr_sdap_tx_entity (\<lambda>_ _. True) sdap_example True 1 4 [7, 8] 5 False =
      Inr (True, sdap_learn sdap_example 5, [Pdcp_data_req 1 2 [5, 7, 8]])"
    using sdap_tx_eq [OF sdap_example_ok, of 5 "\<lambda>_ _. True" True 1 4 "[7, 8]" False] b
    by (simp add: sdap_pdu_def sdap_header_def dl_hdr_byte_def)
  have "um_tx_size gnb_um_example = 0" "um_tx_maxsize gnb_um_example = 100"
    by (simp_all add: gnb_um_example_def um_example_def)
  then show ?thesis
    using downlink_end_to_end [OF bearer_example env_example_ok sdap_example_ok sdap_example_ok _ _ b(2) _ _ t s(1),
        of "replicate 20 0" 0 1 0 10] s b by auto
qed

end
